(* ===== verification/Prelude.thy ===== *)
theory Prelude
  imports Complex_Main "HOL-Library.Word" "HOL-Library.Sublist"
begin

text \<open>
  Shared ground of the development: the result type every fallible operation returns, the
  collections of simplification rules the component theories fill, and generic facts on lists,
  options and maps.

  A TypeScript function that throws is modelled by a value of \<open>'e + 'a\<close>, \<open>Inl\<close> for the thrown
  error and \<open>Inr\<close> for the returned value. A JavaScript \<open>Map\<close> iterates in insertion order, and
  several of the operations modelled here depend on that order; \<open>assoc\<close> below is therefore an
  association list in insertion order, with the operations \<open>Map.set\<close>, \<open>Map.delete\<close> and
  \<open>Map.get\<close> as JavaScript defines them.
\<close>

named_theorems js_defs "unfolding rules of the JavaScript operations"
named_theorems store_simps "how an operation changes what a lookup returns"
named_theorems inv_intros "invariant preservation rules"

type_synonym ('e, 'a) result = "'e + 'a"

section \<open>Results\<close>

definition bind_result :: "('e, 'a) result \<Rightarrow> ('a \<Rightarrow> ('e, 'b) result) \<Rightarrow> ('e, 'b) result" where
  "bind_result m f = (case m of Inl e \<Rightarrow> Inl e | Inr a \<Rightarrow> f a)"

definition check :: "bool \<Rightarrow> 'e \<Rightarrow> ('e, unit) result" where
  "check ok e = (if ok then Inr () else Inl e)"

fun map_result :: "('a \<Rightarrow> ('e, 'b) result) \<Rightarrow> 'a list \<Rightarrow> ('e, 'b list) result" where
  "map_result f [] = Inr []"
| "map_result f (x # xs) =
     bind_result (f x) (\<lambda>y. bind_result (map_result f xs) (\<lambda>ys. Inr (y # ys)))"

lemma bind_result_simps [simp]:
  "bind_result (Inl e) f = Inl e"
  "bind_result (Inr a) f = f a"
  by (simp_all add: bind_result_def)

lemma bind_result_Inr_iff:
  "bind_result m f = Inr b \<longleftrightarrow> (\<exists>a. m = Inr a \<and> f a = Inr b)"
  by (cases m) auto

lemma bind_result_Inl_iff:
  "bind_result m f = Inl e \<longleftrightarrow> m = Inl e \<or> (\<exists>a. m = Inr a \<and> f a = Inl e)"
  by (cases m) auto

lemma check_Inr_iff [simp]: "check ok e = Inr u \<longleftrightarrow> ok"
  by (simp add: check_def)

lemma check_Inl_iff [simp]: "check ok e = Inl e' \<longleftrightarrow> \<not> ok \<and> e' = e"
  by (auto simp: check_def)

lemma map_result_length: "map_result f xs = Inr ys \<Longrightarrow> length ys = length xs"
  by (induction xs arbitrary: ys) (auto simp: bind_result_Inr_iff)

lemma map_result_nth:
  "map_result f xs = Inr ys \<Longrightarrow> i < length xs \<Longrightarrow> f (xs ! i) = Inr (ys ! i)"
  by (induction xs arbitrary: ys i) (auto simp: bind_result_Inr_iff nth_Cons split: nat.splits)

section \<open>Insertion-ordered maps\<close>

text \<open>
  \<open>assoc_set\<close> overwrites in place when the key is present (JavaScript keeps the original
  position) and appends otherwise; \<open>assoc_del\<close> drops the entry.
\<close>

type_synonym ('k, 'v) assoc = "('k \<times> 'v) list"

definition assoc_get :: "('k, 'v) assoc \<Rightarrow> 'k \<Rightarrow> 'v option" where
  "assoc_get m k = map_of m k"

fun assoc_set :: "'k \<Rightarrow> 'v \<Rightarrow> ('k, 'v) assoc \<Rightarrow> ('k, 'v) assoc" where
  "assoc_set k v [] = [(k, v)]"
| "assoc_set k v ((k', v') # m) =
     (if k' = k then (k, v) # m else (k', v') # assoc_set k v m)"

definition assoc_del :: "'k \<Rightarrow> ('k, 'v) assoc \<Rightarrow> ('k, 'v) assoc" where
  "assoc_del k m = filter (\<lambda>e. fst e \<noteq> k) m"

definition assoc_keys :: "('k, 'v) assoc \<Rightarrow> 'k list" where
  "assoc_keys m = map fst m"

definition assoc_ok :: "('k, 'v) assoc \<Rightarrow> bool" where
  "assoc_ok m \<longleftrightarrow> distinct (map fst m)"

lemma assoc_get_Nil [simp]: "assoc_get [] k = None"
  by (simp add: assoc_get_def)

lemma assoc_get_set [store_simps]:
  "assoc_get (assoc_set k v m) = (assoc_get m)(k \<mapsto> v)"
  unfolding assoc_get_def by (induction m) auto

lemma assoc_get_del [store_simps]:
  "assoc_get (assoc_del k m) = (assoc_get m)(k := None)"
  unfolding assoc_get_def assoc_del_def
  by (induction m) (auto simp: fun_eq_iff)

lemma keys_assoc_set:
  "map fst (assoc_set k v m) = (if k \<in> set (map fst m) then map fst m else map fst m @ [k])"
  by (induction k v m rule: assoc_set.induct) auto

lemma keys_assoc_del: "map fst (assoc_del k m) = removeAll k (map fst m)"
  unfolding assoc_del_def by (induction m) auto

lemma assoc_set_fresh: "k \<notin> set (map fst m) \<Longrightarrow> assoc_set k v m = m @ [(k, v)]"
  by (induction m) auto

lemma assoc_set_ok [inv_intros]: "assoc_ok m \<Longrightarrow> assoc_ok (assoc_set k v m)"
  by (simp add: assoc_ok_def keys_assoc_set)

lemma assoc_del_ok [inv_intros]: "assoc_ok m \<Longrightarrow> assoc_ok (assoc_del k m)"
  by (simp only: assoc_ok_def keys_assoc_del distinct_removeAll)

lemma assoc_ok_Nil [simp, inv_intros]: "assoc_ok []"
  by (simp add: assoc_ok_def)

lemma assoc_get_None_iff: "assoc_get m k = None \<longleftrightarrow> k \<notin> set (map fst m)"
  by (simp add: assoc_get_def map_of_eq_None_iff)

lemma assoc_get_SomeI: "assoc_ok m \<Longrightarrow> (k, v) \<in> set m \<Longrightarrow> assoc_get m k = Some v"
  by (simp add: assoc_get_def assoc_ok_def)

lemma assoc_get_SomeD: "assoc_get m k = Some v \<Longrightarrow> (k, v) \<in> set m"
  by (simp add: assoc_get_def map_of_SomeD)

lemma assoc_get_Some_iff: "assoc_ok m \<Longrightarrow> assoc_get m k = Some v \<longleftrightarrow> (k, v) \<in> set m"
  by (auto intro: assoc_get_SomeI dest: assoc_get_SomeD)

lemma assoc_del_absent: "k \<notin> set (map fst m) \<Longrightarrow> assoc_del k m = m"
  unfolding assoc_del_def by (induction m) auto

lemma assoc_del_swap: "assoc_del a (assoc_del b m) = assoc_del b (assoc_del a m)"
  by (simp add: assoc_del_def conj_commute)

lemma length_assoc_del:
  "assoc_ok m \<Longrightarrow> assoc_get m k = Some v \<Longrightarrow> length (assoc_del k m) = length m - 1"
proof -
  assume ok: "assoc_ok m" and get: "assoc_get m k = Some v"
  have "length (assoc_del k m) = length (removeAll k (map fst m))"
    by (metis keys_assoc_del length_map)
  also have "removeAll k (map fst m) = remove1 k (map fst m)"
    using ok by (simp add: assoc_ok_def distinct_remove1_removeAll)
  also have "length \<dots> = length m - 1"
    using assoc_get_SomeD [OF get] by (force simp: length_remove1)
  finally show ?thesis .
qed

lemma length_assoc_del_le: "length (assoc_del k m) \<le> length m"
  by (simp add: assoc_del_def)

section \<open>Lists\<close>

lemma foldl_invariant:
  assumes "P s" and "\<And>s x. P s \<Longrightarrow> x \<in> set xs \<Longrightarrow> P (f s x)"
  shows "P (foldl f s xs)"
  using assms by (induction xs arbitrary: s) auto

end
