(* ===== verification/Js_Values.thy ===== *)
theory Js_Values
  imports Prelude
begin

text \<open>
  The part of JavaScript the source relies on: numbers with \<open>NaN\<close> and the infinities, strings,
  the JSON values a request or a response carries, and the regular expressions and conversions
  the validators apply. Numbers are exact rationals: no computation of the modelled code depends
  on the rounding of doubles unless its theory says so. Strings are lists of characters below
  code point 256; the grammars of the validators are ASCII.
\<close>

unbundle bit_operations_syntax

section \<open>Numbers\<close>

datatype jsnum = Num rat | NaN | PosInf | NegInf

definition is_integer :: "jsnum \<Rightarrow> bool" where
  "is_integer x = (case x of Num q \<Rightarrow> of_int \<lfloor>q\<rfloor> = q | _ \<Rightarrow> False)"

definition is_finite_num :: "jsnum \<Rightarrow> bool" where
  "is_finite_num x = (case x of Num q \<Rightarrow> True | _ \<Rightarrow> False)"

definition int_of_num :: "jsnum \<Rightarrow> int" where
  "int_of_num x = (case x of Num q \<Rightarrow> \<lfloor>q\<rfloor> | _ \<Rightarrow> 0)"

abbreviation num_of_int :: "int \<Rightarrow> jsnum" where
  "num_of_int i \<equiv> Num (rat_of_int i)"

text \<open>The relational operators: every comparison with \<open>NaN\<close> is false.\<close>

fun js_lt :: "jsnum \<Rightarrow> jsnum \<Rightarrow> bool" where
  "js_lt (Num a) (Num b) = (a < b)"
| "js_lt (Num a) PosInf = True"
| "js_lt NegInf (Num b) = True"
| "js_lt NegInf PosInf = True"
| "js_lt _ _ = False"

fun js_le :: "jsnum \<Rightarrow> jsnum \<Rightarrow> bool" where
  "js_le (Num a) (Num b) = (a \<le> b)"
| "js_le NaN _ = False"
| "js_le _ NaN = False"
| "js_le NegInf _ = True"
| "js_le _ PosInf = True"
| "js_le _ _ = False"

lemma is_integer_num_of_int [simp]: "is_integer (num_of_int i)"
  by (simp add: is_integer_def)

lemma int_of_num_of_int [simp]: "int_of_num (num_of_int i) = i"
  by (simp add: int_of_num_def)

lemma is_integer_of_nat [simp]: "is_integer (Num (rat_of_nat n))"
  using is_integer_num_of_int [of "int n"] by simp

lemma int_of_num_of_nat [simp]: "int_of_num (Num (rat_of_nat n)) = int n"
  using int_of_num_of_int [of "int n"] by simp

lemma is_integer_numeral [simp]:
  "is_integer (Num (numeral n))" "is_integer (Num 0)" "is_integer (Num 1)"
  "is_integer (Num (- numeral n))"
  by (simp_all add: is_integer_def)

lemma int_of_num_numeral [simp]:
  "int_of_num (Num (numeral n)) = numeral n" "int_of_num (Num 0) = 0" "int_of_num (Num 1) = 1"
  by (simp_all add: int_of_num_def)

lemma not_is_integer [simp]: "\<not> is_integer NaN" "\<not> is_integer PosInf" "\<not> is_integer NegInf"
  by (simp_all add: is_integer_def)

lemma is_integerE:
  assumes "is_integer x"
  obtains i where "x = num_of_int i"
proof (cases x)
  case (Num q)
  with assms have "rat_of_int \<lfloor>q\<rfloor> = q"
    by (simp only: is_integer_def jsnum.case)
  with Num have "x = num_of_int \<lfloor>q\<rfloor>" by (simp only:)
  then show ?thesis by (rule that)
qed (use assms in simp_all)

lemma is_integer_iff: "is_integer x \<longleftrightarrow> x = num_of_int (int_of_num x)"
  by (metis int_of_num_of_int is_integerE is_integer_num_of_int)

section \<open>Characters and strings\<close>

definition char_code :: "char \<Rightarrow> nat" where
  "char_code c = of_char c"

definition is_digit :: "char \<Rightarrow> bool" where
  "is_digit c \<longleftrightarrow> 48 \<le> char_code c \<and> char_code c \<le> 57"

definition is_upper :: "char \<Rightarrow> bool" where
  "is_upper c \<longleftrightarrow> 65 \<le> char_code c \<and> char_code c \<le> 90"

definition is_lower :: "char \<Rightarrow> bool" where
  "is_lower c \<longleftrightarrow> 97 \<le> char_code c \<and> char_code c \<le> 122"

definition is_alnum :: "char \<Rightarrow> bool" where
  "is_alnum c \<longleftrightarrow> is_upper c \<or> is_lower c \<or> is_digit c"

definition is_hex_lower :: "char \<Rightarrow> bool" where
  "is_hex_lower c \<longleftrightarrow> is_digit c \<or> (97 \<le> char_code c \<and> char_code c \<le> 102)"

definition is_hex :: "char \<Rightarrow> bool" where
  "is_hex c \<longleftrightarrow> is_hex_lower c \<or> (65 \<le> char_code c \<and> char_code c \<le> 70)"

text \<open>The white space \<open>String.prototype.trim\<close> and \<open>Number\<close> strip.\<close>

definition is_space :: "char \<Rightarrow> bool" where
  "is_space c \<longleftrightarrow> char_code c = 32 \<or> (9 \<le> char_code c \<and> char_code c \<le> 13) \<or> char_code c = 160"

definition trim :: "string \<Rightarrow> string" where
  "trim s = rev (dropWhile is_space (rev (dropWhile is_space s)))"

definition lower_char :: "char \<Rightarrow> char" where
  "lower_char c =
     (let n = char_code c
      in if is_upper c \<or> (192 \<le> n \<and> n \<le> 222 \<and> n \<noteq> 215) then char_of (n + 32) else c)"

definition to_lower :: "string \<Rightarrow> string" where
  "to_lower s = map lower_char s"

text \<open>The number of bytes \<open>TextEncoder\<close> produces for a string of characters below 256.\<close>

definition utf8_len :: "string \<Rightarrow> nat" where
  "utf8_len s = sum_list (map (\<lambda>c. if char_code c < 128 then 1 else 2) s)"

lemmas char_class_defs =
  is_digit_def is_upper_def is_lower_def is_alnum_def is_hex_lower_def is_hex_def is_space_def
  char_code_def

lemma char_code_less [simp]: "char_code c < 256"
  by (simp add: char_code_def)

lemma char_code_inject: "char_code c = char_code d \<longleftrightarrow> c = d"
  by (simp add: char_code_def)

lemma char_code_char_of: "n < 256 \<Longrightarrow> char_code (char_of n) = n"
  by (simp add: char_code_def)

lemma length_to_lower [simp]: "length (to_lower s) = length s"
  by (simp add: to_lower_def)

lemma lower_char_idem: "lower_char (lower_char c) = lower_char c"
  by (auto simp: lower_char_def Let_def is_upper_def char_code_char_of)

lemma to_lower_idem [simp]: "to_lower (to_lower s) = to_lower s"
  by (simp add: to_lower_def lower_char_idem)

lemma is_digit_bounds: "is_digit c \<Longrightarrow> \<not> is_space c"
  by (auto simp: char_class_defs)

lemma dropWhile_id: "s = [] \<or> \<not> P (hd s) \<Longrightarrow> dropWhile P s = s"
  by (cases s) auto

lemma trim_id: "s = [] \<or> (\<not> is_space (hd s) \<and> \<not> is_space (last s)) \<Longrightarrow> trim s = s"
  unfolding trim_def by (subst (2) dropWhile_id) (auto simp: dropWhile_id hd_rev)

lemma utf8_len_ascii: "\<forall>c \<in> set s. char_code c < 128 \<Longrightarrow> utf8_len s = length s"
  unfolding utf8_len_def by (induction s) auto

section \<open>Decimal numerals\<close>

text \<open>\<open>BigInt\<close> of a digit string and \<open>toString\<close> of a non-negative \<open>BigInt\<close>.\<close>

definition digit_val :: "char \<Rightarrow> nat" where
  "digit_val c = char_code c - 48"

definition digit_char :: "nat \<Rightarrow> char" where
  "digit_char n = char_of (48 + n)"

definition nat_of_digits :: "string \<Rightarrow> nat" where
  "nat_of_digits s = foldl (\<lambda>acc c. 10 * acc + digit_val c) 0 s"

fun digits_of_nat :: "nat \<Rightarrow> string" where
  "digits_of_nat n =
     (if n < 10 then [digit_char n] else digits_of_nat (n div 10) @ [digit_char (n mod 10)])"

declare digits_of_nat.simps [simp del]

text \<open>The grammars \<open>/^[0-9]+$/\<close>, \<open>/^[1-9][0-9]*$/\<close> and \<open>/^(?:0|[1-9][0-9]*)$/\<close>.\<close>

definition digit_string :: "string \<Rightarrow> bool" where
  "digit_string s \<longleftrightarrow> s \<noteq> [] \<and> list_all is_digit s"

definition pos_numeral :: "string \<Rightarrow> bool" where
  "pos_numeral s = (case s of [] \<Rightarrow> False | c # cs \<Rightarrow> is_digit c \<and> c \<noteq> CHR ''0'' \<and> list_all is_digit cs)"

definition nonneg_numeral :: "string \<Rightarrow> bool" where
  "nonneg_numeral s \<longleftrightarrow> s = ''0'' \<or> pos_numeral s"

lemma digit_char_0: "digit_char 0 = CHR ''0''"
proof -
  have "char_of (of_char (CHR ''0'') :: nat) = CHR ''0''" by (rule char_of_char)
  then show ?thesis by (simp add: digit_char_def)
qed

lemma digit_char_digit: "n < 10 \<Longrightarrow> is_digit (digit_char n)"
  by (simp add: is_digit_def digit_char_def char_code_char_of)

lemma digit_val_char: "n < 10 \<Longrightarrow> digit_val (digit_char n) = n"
  by (simp add: digit_val_def digit_char_def char_code_char_of)

lemma digit_char_val: "is_digit c \<Longrightarrow> digit_char (digit_val c) = c"
  by (simp add: is_digit_def digit_char_def digit_val_def char_code_def)

lemma digit_val_less: "is_digit c \<Longrightarrow> digit_val c < 10"
  by (auto simp: is_digit_def digit_val_def)

lemma digit_val_0_iff: "is_digit c \<Longrightarrow> digit_val c = 0 \<longleftrightarrow> c = CHR ''0''"
  using digit_char_val [of c] by (auto simp: digit_val_def digit_char_0 char_code_def)

lemma foldl_digits:
  "foldl (\<lambda>acc c. 10 * acc + digit_val c) a s = a * 10 ^ length s + nat_of_digits s"
proof (induction s arbitrary: a rule: rev_induct)
  case Nil
  then show ?case by (simp add: nat_of_digits_def)
next
  case (snoc c s)
  have "nat_of_digits (s @ [c]) = 10 * nat_of_digits s + digit_val c"
    by (simp add: nat_of_digits_def)
  with snoc show ?case by (simp add: algebra_simps)
qed

lemma nat_of_digits_append:
  "nat_of_digits (s @ t) = nat_of_digits s * 10 ^ length t + nat_of_digits t"
  using foldl_digits [of "nat_of_digits s" t] by (simp add: nat_of_digits_def)

lemma nat_of_digits_simps [simp]:
  "nat_of_digits [] = 0" "nat_of_digits [c] = digit_val c"
  by (simp_all add: nat_of_digits_def)

lemma nat_of_digits_Cons: "nat_of_digits (c # s) = digit_val c * 10 ^ length s + nat_of_digits s"
  using nat_of_digits_append [of "[c]" s] by simp

lemma nat_of_digits_zeros [simp]: "nat_of_digits (replicate n CHR ''0'') = 0"
  by (induction n) (simp_all add: nat_of_digits_Cons digit_val_def char_code_def)

lemma nat_of_digits_less:
  "list_all is_digit s \<Longrightarrow> nat_of_digits s < 10 ^ length s"
proof (induction s rule: rev_induct)
  case (snoc c s)
  then have "nat_of_digits s < 10 ^ length s" and "digit_val c < 10"
    by (auto simp: digit_val_less)
  then show ?case by (simp add: nat_of_digits_append)
qed simp

lemma nat_of_digits_of_nat: "nat_of_digits (digits_of_nat n) = n"
proof (induction n rule: digits_of_nat.induct)
  case (1 n)
  show ?case
  proof (cases "n < 10")
    case True
    then show ?thesis by (subst digits_of_nat.simps) (simp add: digit_val_char)
  next
    case False
    with "1.IH" have "nat_of_digits (digits_of_nat (n div 10)) = n div 10" by simp
    with False show ?thesis
      by (subst digits_of_nat.simps) (simp add: nat_of_digits_append digit_val_char)
  qed
qed

lemma digits_of_nat_digits: "list_all is_digit (digits_of_nat n)"
proof (induction n rule: digits_of_nat.induct)
  case (1 n)
  then show ?case
    by (cases "n < 10") (simp_all add: digits_of_nat.simps [of n] digit_char_digit)
qed

lemma digits_of_nat_nonempty [simp]: "digits_of_nat n \<noteq> []"
  by (subst digits_of_nat.simps) simp

lemma digits_of_nat_0 [simp]: "digits_of_nat 0 = ''0''"
  by (subst digits_of_nat.simps) (simp add: digit_char_0)

lemma digits_of_nat_hd: "0 < n \<Longrightarrow> hd (digits_of_nat n) \<noteq> CHR ''0''"
proof (induction n rule: digits_of_nat.induct)
  case (1 n)
  show ?case
  proof (cases "n < 10")
    case True
    with "1.prems" show ?thesis
      using digit_val_char [of n]
      by (subst digits_of_nat.simps) (auto simp: digit_val_def char_code_def)
  next
    case False
    with "1.IH" have "hd (digits_of_nat (n div 10)) \<noteq> CHR ''0''" by simp
    with False show ?thesis by (subst digits_of_nat.simps) simp
  qed
qed

lemma pos_numeral_digits_of_nat: "pos_numeral (digits_of_nat n) \<longleftrightarrow> 0 < n"
proof (cases "n = 0")
  case False
  moreover obtain c cs where "digits_of_nat n = c # cs"
    using digits_of_nat_nonempty by (cases "digits_of_nat n") blast+
  ultimately show ?thesis
    using digits_of_nat_hd [of n] digits_of_nat_digits [of n] by (simp add: pos_numeral_def)
qed (simp add: pos_numeral_def)

lemma digits_of_nat_of_digits: "nonneg_numeral s \<Longrightarrow> digits_of_nat (nat_of_digits s) = s"
proof (induction s rule: rev_induct)
  case Nil
  then show ?case by (simp add: nonneg_numeral_def pos_numeral_def)
next
  case (snoc c s)
  show ?case
  proof (cases "s = []")
    case True
    with snoc.prems have "is_digit c"
      by (auto simp: nonneg_numeral_def pos_numeral_def char_class_defs)
    then show ?thesis
      using True by (subst digits_of_nat.simps) (simp add: digit_val_less digit_char_val)
  next
    case False
    then obtain a t where s_eq: "s = a # t" by (cases s) auto
    with snoc.prems have s: "pos_numeral s" and c: "is_digit c"
      by (auto simp: nonneg_numeral_def pos_numeral_def)
    then have IH: "digits_of_nat (nat_of_digits s) = s"
      using snoc.IH by (simp add: nonneg_numeral_def)
    with s have "0 < nat_of_digits s"
      by (metis pos_numeral_digits_of_nat)
    then show ?thesis
      using IH c digit_val_less [OF c]
      by (subst digits_of_nat.simps) (simp add: nat_of_digits_append digit_char_val)
  qed
qed

lemma pos_numeral_pos: "pos_numeral s \<Longrightarrow> 0 < nat_of_digits s"
  by (metis digits_of_nat_of_digits nonneg_numeral_def pos_numeral_digits_of_nat)

section \<open>Converting strings to numbers\<close>

text \<open>
  \<open>BigInt(s)\<close> and \<open>Number(s)\<close> of a string. Both strip white space, read the empty string as zero
  and know the prefixes \<open>0x\<close>, \<open>0o\<close> and \<open>0b\<close>; \<open>Number\<close> also reads fractions, exponents and
  \<open>Infinity\<close>. \<open>BigInt\<close> throws a \<open>SyntaxError\<close> where \<open>Number\<close> returns \<open>NaN\<close>.
\<close>

definition hex_digit :: "char \<Rightarrow> nat option" where
  "hex_digit c =
     (let n = char_code c
      in if is_digit c then Some (n - 48)
         else if 97 \<le> n \<and> n \<le> 102 then Some (n - 87)
         else if 65 \<le> n \<and> n \<le> 70 then Some (n - 55)
         else None)"

fun radix_digits :: "nat \<Rightarrow> nat \<Rightarrow> string \<Rightarrow> nat option" where
  "radix_digits r acc [] = Some acc"
| "radix_digits r acc (c # s) =
     (case hex_digit c of
        None \<Rightarrow> None
      | Some d \<Rightarrow> if d < r then radix_digits r (r * acc + d) s else None)"

definition radix_nat :: "nat \<Rightarrow> string \<Rightarrow> nat option" where
  "radix_nat r s = (if s = [] then None else radix_digits r 0 s)"

definition radix_prefix :: "string \<Rightarrow> nat option" where
  "radix_prefix s =
     (case s of
        a # c # _ \<Rightarrow>
          (if a \<noteq> CHR ''0'' then None
           else if c = CHR ''x'' \<or> c = CHR ''X'' then Some 16
           else if c = CHR ''o'' \<or> c = CHR ''O'' then Some 8
           else if c = CHR ''b'' \<or> c = CHR ''B'' then Some 2
           else None)
      | _ \<Rightarrow> None)"

definition js_bigint :: "string \<Rightarrow> int option" where
  "js_bigint str =
     (let s = trim str in
      if s = [] then Some 0
      else case radix_prefix s of
        Some r \<Rightarrow> map_option int (radix_nat r (drop 2 s))
      | None \<Rightarrow>
          if hd s = CHR ''-'' then
            (if digit_string (tl s) then Some (- int (nat_of_digits (tl s))) else None)
          else if hd s = CHR ''+'' then
            (if digit_string (tl s) then Some (int (nat_of_digits (tl s))) else None)
          else if digit_string s then Some (int (nat_of_digits s)) else None)"

definition exponent_of :: "string \<Rightarrow> int option" where
  "exponent_of s =
     (case s of
        [] \<Rightarrow> Some 0
      | c # t \<Rightarrow>
          if c = CHR ''e'' \<or> c = CHR ''E'' then
            (case t of
               [] \<Rightarrow> None
             | a # u \<Rightarrow>
                 if a = CHR ''-'' then (if digit_string u then Some (- int (nat_of_digits u)) else None)
                 else if a = CHR ''+'' then (if digit_string u then Some (int (nat_of_digits u)) else None)
                 else if digit_string t then Some (int (nat_of_digits t)) else None)
          else None)"

definition scale10 :: "nat \<Rightarrow> int \<Rightarrow> rat" where
  "scale10 m e = (if 0 \<le> e then of_nat m * 10 ^ nat e else of_nat m / 10 ^ nat (- e))"

definition unsigned_number :: "string \<Rightarrow> jsnum" where
  "unsigned_number s =
     (if s = ''Infinity'' then PosInf
      else
        let i = takeWhile is_digit s;
            r = dropWhile is_digit s;
            dot = (r \<noteq> [] \<and> hd r = CHR ''.'');
            f = (if dot then takeWhile is_digit (tl r) else []);
            r2 = (if dot then dropWhile is_digit (tl r) else r)
        in if i = [] \<and> f = [] then NaN
           else case exponent_of r2 of
             None \<Rightarrow> NaN
           | Some e \<Rightarrow> Num (scale10 (nat_of_digits (i @ f)) (e - int (length f))))"

fun negate_num :: "jsnum \<Rightarrow> jsnum" where
  "negate_num (Num q) = Num (- q)"
| "negate_num PosInf = NegInf"
| "negate_num NegInf = PosInf"
| "negate_num NaN = NaN"

definition js_number :: "string \<Rightarrow> jsnum" where
  "js_number str =
     (let s = trim str in
      if s = [] then Num 0
      else case radix_prefix s of
        Some r \<Rightarrow> (case radix_nat r (drop 2 s) of None \<Rightarrow> NaN | Some n \<Rightarrow> Num (of_nat n))
      | None \<Rightarrow>
          if hd s = CHR ''-'' then negate_num (unsigned_number (tl s))
          else if hd s = CHR ''+'' then unsigned_number (tl s)
          else unsigned_number s)"

lemma digit_chars [simp]:
  "is_digit (CHR ''0'')" "\<not> is_digit (CHR ''x'')" "\<not> is_digit (CHR ''X'')" "\<not> is_digit (CHR ''o'')"
  "\<not> is_digit (CHR ''O'')" "\<not> is_digit (CHR ''b'')" "\<not> is_digit (CHR ''B'')"
  "\<not> is_digit (CHR ''-'')" "\<not> is_digit (CHR ''+'')" "\<not> is_digit (CHR ''I'')"
  by (simp_all add: is_digit_def char_code_def)

lemma nonneg_numeral_digits: "nonneg_numeral s \<Longrightarrow> digit_string s"
  by (auto simp: nonneg_numeral_def pos_numeral_def digit_string_def split: list.splits)

lemma digit_string_trim: "digit_string s \<Longrightarrow> trim s = s"
  by (intro trim_id) (auto simp: digit_string_def list_all_iff is_digit_bounds)

lemma digit_not_sign: "is_digit c \<Longrightarrow> c \<noteq> CHR ''-'' \<and> c \<noteq> CHR ''+''"
  by auto

lemma digit_not_radix:
  assumes "is_digit c"
  shows "c \<noteq> CHR ''x''" "c \<noteq> CHR ''X''" "c \<noteq> CHR ''o''" "c \<noteq> CHR ''O''" "c \<noteq> CHR ''b''" "c \<noteq> CHR ''B''"
  using assms digit_chars by metis+

lemma radix_prefix_digits: "list_all is_digit s \<Longrightarrow> radix_prefix s = None"
proof (cases s)
  case (Cons a t)
  assume "list_all is_digit s"
  with Cons show ?thesis
    by (cases t) (simp_all add: radix_prefix_def digit_not_radix)
qed (simp add: radix_prefix_def)

lemma js_bigint_digits: "digit_string s \<Longrightarrow> js_bigint s = Some (int (nat_of_digits s))"
  using digit_string_trim [of s] radix_prefix_digits [of s]
  by (cases s) (auto simp: js_bigint_def digit_string_def Let_def dest: digit_not_sign)

lemma js_number_digits: "digit_string s \<Longrightarrow> js_number s = Num (of_nat (nat_of_digits s))"
proof -
  assume s: "digit_string s"
  then have d: "list_all is_digit s" "s \<noteq> []" by (auto simp: digit_string_def)
  have tw: "takeWhile is_digit s = s" and dw: "dropWhile is_digit s = []"
    using d(1) by (simp_all add: list_all_iff)
  have "s \<noteq> ''Infinity''" using d(1) by auto
  then have "unsigned_number s = Num (of_nat (nat_of_digits s))"
    using d(2) unfolding unsigned_number_def tw dw by (simp add: exponent_of_def scale10_def)
  moreover have "hd s \<noteq> CHR ''-'' \<and> hd s \<noteq> CHR ''+''"
    using d by (cases s) (auto dest: digit_not_sign)
  ultimately show ?thesis
    using digit_string_trim [OF s] radix_prefix_digits [OF d(1)] d(2)
    by (simp add: js_number_def Let_def)
qed

section \<open>JSON values\<close>

text \<open>
  A property read from an object that does not have it gives \<open>undefined\<close>, which JSON itself
  cannot express: \<open>JUndef\<close>. Later keys win in an object literal, so a lookup scans from the end.
\<close>

datatype jval =
    JUndef
  | JNull
  | JBool bool
  | JNum jsnum
  | JStr string
  | JArr "jval list"
  | JObj "(string \<times> jval) list"

definition obj_get :: "(string \<times> jval) list \<Rightarrow> string \<Rightarrow> jval" where
  "obj_get obj k = (case map_of (rev obj) k of None \<Rightarrow> JUndef | Some v \<Rightarrow> v)"

text \<open>\<open>/^0x[0-9a-fA-F]{n}$/\<close> and its lower-case form.\<close>

definition hex_string :: "nat \<Rightarrow> string \<Rightarrow> bool" where
  "hex_string n s \<longleftrightarrow> take 2 s = ''0x'' \<and> length s = n + 2 \<and> list_all is_hex (drop 2 s)"

definition hex_string_lower :: "nat \<Rightarrow> string \<Rightarrow> bool" where
  "hex_string_lower n s \<longleftrightarrow>
     take 2 s = ''0x'' \<and> length s = n + 2 \<and> list_all is_hex_lower (drop 2 s)"

definition hex_string_any :: "string \<Rightarrow> bool" where
  "hex_string_any s \<longleftrightarrow> take 2 s = ''0x'' \<and> 2 < length s \<and> list_all is_hex (drop 2 s)"

lemma hex_string_any: "hex_string n s \<Longrightarrow> 0 < n \<Longrightarrow> hex_string_any s"
  by (auto simp: hex_string_def hex_string_any_def)

lemma hex_string_lower: "hex_string_lower n s \<Longrightarrow> hex_string n s"
  by (auto simp: hex_string_lower_def hex_string_def is_hex_def list_all_iff)

end
