(* ===== verification/Sdk_Types.thy ===== *)
theory Sdk_Types
  imports Js_Values
begin

text \<open>
  \<^verbatim>\<open>sdk/src/types.ts\<close>, \<^verbatim>\<open>sdk/src/errors.ts\<close> and \<^verbatim>\<open>sdk/src/deployments.ts\<close>: the data every
  package exchanges, the error hierarchy (its data, without the human-readable messages), the
  decoding of the settlement contract's status and the deployment table.
\<close>

type_synonym address = string
type_synonym hex = string

section \<open>Intents and their statuses\<close>

record intent =
  user :: address
  destination :: string
  sourceChainId :: int
  sourceAsset :: address
  sourceAmount :: string
  destAsset :: string
  minDestAmount :: string
  deadline :: int
  nonce :: string
  preferredSolver :: address

datatype intent_status = Pending | Claimed | Settling | Filled | Settled | Refunded | Expired

text \<open>The subset the mempool stores: \<open>Extract<IntentStatus, ...>\<close>.\<close>

definition mempool_statuses :: "intent_status list" where
  "mempool_statuses = [Pending, Filled, Settled, Refunded, Expired]"

fun status_name :: "intent_status \<Rightarrow> string" where
  "status_name Pending = ''pending''"
| "status_name Claimed = ''claimed''"
| "status_name Settling = ''settling''"
| "status_name Filled = ''filled''"
| "status_name Settled = ''settled''"
| "status_name Refunded = ''refunded''"
| "status_name Expired = ''expired''"

definition status_of_name :: "intent_status list \<Rightarrow> string \<Rightarrow> intent_status option" where
  "status_of_name sts s = find (\<lambda>st. status_name st = s) sts"

lemma status_name_inject [simp]: "status_name a = status_name b \<longleftrightarrow> a = b"
  by (cases a; cases b) simp_all

lemma status_of_name_Some:
  "status_of_name sts s = Some st \<longleftrightarrow> st \<in> set sts \<and> status_name st = s"
  by (induction sts) (auto simp: status_of_name_def)

lemma status_of_name_None:
  "status_of_name sts s = None \<longleftrightarrow> s \<notin> status_name ` set sts"
  by (induction sts) (auto simp: status_of_name_def)

record signed_intent =
  intent_of :: intent
  signature :: hex
  hash :: hex

record intent_record = signed_intent +
  status :: intent_status
  solver :: "address option"
  settlementTx :: "string option"
  createdAt :: int

section \<open>The settlement contract's status\<close>

datatype onchain_status = OnLocked | OnFilled | OnConfirmationSent | OnCancelled

fun discriminant :: "onchain_status \<Rightarrow> int" where
  "discriminant OnLocked = 0"
| "discriminant OnFilled = 1"
| "discriminant OnConfirmationSent = 2"
| "discriminant OnCancelled = 3"

text \<open>
  \<open>obj.switch?.name\<close>: optional chaining stops at \<open>undefined\<close> and \<open>null\<close>, and a property of
  a primitive is \<open>undefined\<close>.
\<close>

definition js_prop :: "jval \<Rightarrow> string \<Rightarrow> jval" where
  "js_prop v k = (case v of JObj obj \<Rightarrow> obj_get obj k | _ \<Rightarrow> JUndef)"

definition toNativeStatus :: "jval \<Rightarrow> jval" where
  "toNativeStatus scVal =
     (case scVal of
        JUndef \<Rightarrow> JUndef
      | JNull \<Rightarrow> JUndef
      | JNum n \<Rightarrow> JNum n
      | JArr xs \<Rightarrow> scVal
      | JObj obj \<Rightarrow>
          (let name = js_prop (obj_get obj ''switch'') ''name'' in
           if name = JStr ''scvVoid'' then JUndef
           else if name = JStr ''scvU32'' then obj_get obj ''u32''
           else if name = JStr ''scvU64'' \<or> name = JStr ''scvI64'' then obj_get obj ''value''
           else (case obj_get obj ''value'' of JNum n \<Rightarrow> JNum n | _ \<Rightarrow> scVal))
      | _ \<Rightarrow> scVal)"

datatype decode_error = UnexpectedStatusValue jval | UnknownDiscriminant int

definition decodeIntentStatus :: "jval \<Rightarrow> (decode_error, onchain_status option) result" where
  "decodeIntentStatus scVal =
     (case toNativeStatus scVal of
        JUndef \<Rightarrow> Inr None
      | JNull \<Rightarrow> Inr None
      | JNum n \<Rightarrow>
          (if \<not> is_integer n then Inl (UnexpectedStatusValue (JNum n))
           else let k = int_of_num n in
             if k = 0 then Inr (Some OnLocked)
             else if k = 1 then Inr (Some OnFilled)
             else if k = 2 then Inr (Some OnConfirmationSent)
             else if k = 3 then Inr (Some OnCancelled)
             else Inl (UnknownDiscriminant k))
      | v \<Rightarrow> Inl (UnexpectedStatusValue v))"

definition isSettledStatus :: "onchain_status option \<Rightarrow> bool" where
  "isSettledStatus st \<longleftrightarrow> st = Some OnFilled \<or> st = Some OnConfirmationSent"

text \<open>What \<open>scvU32\<close> values the contract's view produces for a status, and for no status.\<close>

definition scv_u32 :: "int \<Rightarrow> jval" where
  "scv_u32 n = JObj [(''switch'', JObj [(''name'', JStr ''scvU32'')]), (''u32'', JNum (num_of_int n))]"

definition scv_void :: jval where
  "scv_void = JObj [(''switch'', JObj [(''name'', JStr ''scvVoid'')])]"

text \<open>
  The on-chain status survives the trip through the RPC encoding: decoding the \<open>u32\<close> of a
  status gives that status back, a void value decodes to \<open>undefined\<close>, and every other \<open>u32\<close> is
  reported as an unknown discriminant instead of being mapped to a status.
\<close>

theorem decode_status_roundtrip:
  "decodeIntentStatus (scv_u32 n) =
     (if n \<in> range discriminant then Inr (Some (the_inv discriminant n))
      else Inl (UnknownDiscriminant n))
   \<and> decodeIntentStatus scv_void = Inr None"
proof -
  have inj: "inj discriminant"
  proof (rule injI)
    fix a b show "discriminant a = discriminant b \<Longrightarrow> a = b" by (cases a; cases b) simp_all
  qed
  have range: "range discriminant = {0, 1, 2, 3}"
  proof -
    have univ: "(UNIV :: onchain_status set) = {OnLocked, OnFilled, OnConfirmationSent, OnCancelled}"
      using onchain_status.exhaust by blast
    show ?thesis unfolding univ by simp
  qed
  have inv: "the_inv discriminant 0 = OnLocked" "the_inv discriminant 1 = OnFilled"
    "the_inv discriminant 2 = OnConfirmationSent" "the_inv discriminant 3 = OnCancelled"
    using the_inv_f_f [OF inj, of OnLocked] the_inv_f_f [OF inj, of OnFilled]
      the_inv_f_f [OF inj, of OnConfirmationSent] the_inv_f_f [OF inj, of OnCancelled] by simp_all
  have "decodeIntentStatus (scv_u32 n) =
     (if n = 0 then Inr (Some OnLocked) else if n = 1 then Inr (Some OnFilled)
      else if n = 2 then Inr (Some OnConfirmationSent) else if n = 3 then Inr (Some OnCancelled)
      else Inl (UnknownDiscriminant n))"
    by (simp add: decodeIntentStatus_def toNativeStatus_def scv_u32_def js_prop_def obj_get_def Let_def)
  moreover have "decodeIntentStatus scv_void = Inr None"
    by (simp add: decodeIntentStatus_def toNativeStatus_def scv_void_def js_prop_def obj_get_def)
  ultimately show ?thesis by (simp add: range inv)
qed

section \<open>Errors\<close>

datatype pagination_reason = MaxPages | RepeatedCursor

datatype sdk_error =
    PerihelionError
  | PerihelionHttpError string int string
  | PerihelionTimeoutError "string option" "string option"
  | PerihelionNetworkError "string option"
  | PerihelionValidationError "string option"
  | IntentValidationError string
  | PerihelionPaginationError pagination_reason "intent_record list" string nat
  | PerihelionHashMismatchError string string
  | PerihelionUndeployedChainError int
  | PerihelionContractError string "string option" "jval list option"
  | NoPendingOwnerError "string option"
  | NotAContractError "string option"
  | EnforcedPauseError "string option"
  | MempoolResponseError string
  | MempoolResponseTooLargeError nat int
  | PlainError string

text \<open>\<open>instanceof PerihelionValidationError\<close> and \<open>instanceof PerihelionError\<close>.\<close>

fun is_validation_error :: "sdk_error \<Rightarrow> bool" where
  "is_validation_error (PerihelionValidationError f) = True"
| "is_validation_error (IntentValidationError f) = True"
| "is_validation_error _ = False"

fun is_perihelion_error :: "sdk_error \<Rightarrow> bool" where
  "is_perihelion_error (PlainError _) = False"
| "is_perihelion_error _ = True"

definition contractErrorFromName ::
  "string \<Rightarrow> string option \<Rightarrow> jval list option \<Rightarrow> sdk_error" where
  "contractErrorFromName errorName selector args =
     (if errorName = ''NoPendingOwner'' then NoPendingOwnerError selector
      else if errorName = ''NotAContract'' then NotAContractError selector
      else if errorName = ''EnforcedPause'' then EnforcedPauseError selector
      else PerihelionContractError errorName selector args)"

fun contract_error_name :: "sdk_error \<Rightarrow> string option" where
  "contract_error_name (PerihelionContractError n s a) = Some n"
| "contract_error_name (NoPendingOwnerError s) = Some ''NoPendingOwner''"
| "contract_error_name (NotAContractError s) = Some ''NotAContract''"
| "contract_error_name (EnforcedPauseError s) = Some ''EnforcedPause''"
| "contract_error_name _ = None"

lemma contract_error_name_from_name:
  "contract_error_name (contractErrorFromName n s a) = Some n"
  by (simp add: contractErrorFromName_def)

section \<open>Deployments\<close>

definition DEPLOYMENTS :: "int \<rightharpoonup> address" where
  "DEPLOYMENTS = Map.empty"

definition tryGetEscrowAddress :: "int \<Rightarrow> address option" where
  "tryGetEscrowAddress chainId = DEPLOYMENTS chainId"

definition getEscrowAddress :: "int \<Rightarrow> (sdk_error, address) result" where
  "getEscrowAddress chainId =
     (case DEPLOYMENTS chainId of
        None \<Rightarrow> Inl (PerihelionUndeployedChainError chainId)
      | Some a \<Rightarrow> if a = [] then Inl (PerihelionUndeployedChainError chainId) else Inr a)"

lemma getEscrowAddress_undeployed:
  "getEscrowAddress c = Inl (PerihelionUndeployedChainError c) \<and> tryGetEscrowAddress c = None"
  by (simp add: getEscrowAddress_def tryGetEscrowAddress_def DEPLOYMENTS_def)

end
