(* ===== verification/Sdk_Units.thy ===== *)
theory Sdk_Units
  imports Sdk_Types
begin

text \<open>
  \<^verbatim>\<open>sdk/src/units.ts\<close>: conversion between human-readable decimal amounts and smallest-unit
  integer strings, and the 32-byte encoding of an EVM address. The theory shows that the
  conversion is exact in both directions and that the address encoding loses only the case of
  the hex digits.
\<close>

section \<open>The code\<close>

definition MAX_DECIMALS :: int where
  "MAX_DECIMALS = 36"

definition assertValidDecimals :: "jsnum \<Rightarrow> (sdk_error, unit) result" where
  "assertValidDecimals decimals =
     (if \<not> is_integer decimals \<or> js_lt decimals (Num 0) \<or> js_lt (num_of_int MAX_DECIMALS) decimals
      then Inl (PerihelionValidationError (Some ''decimals'')) else Inr ())"

text \<open>\<open>String.prototype.split\<close> with a one-character separator.\<close>

fun split_on :: "char \<Rightarrow> string \<Rightarrow> string list" where
  "split_on sep [] = [[]]"
| "split_on sep (c # s) =
     (if c = sep then [] # split_on sep s
      else case split_on sep s of [] \<Rightarrow> [[c]] | p # ps \<Rightarrow> (c # p) # ps)"

text \<open>\<open>/^\d+(\.\d+)?$/\<close>\<close>

definition decimal_string :: "string \<Rightarrow> bool" where
  "decimal_string s =
     (case split_on (CHR ''.'') s of
        [w] \<Rightarrow> digit_string w
      | [w, f] \<Rightarrow> digit_string w \<and> digit_string f
      | _ \<Rightarrow> False)"

definition pad_end :: "nat \<Rightarrow> string \<Rightarrow> string" where
  "pad_end n s = s @ replicate (n - length s) (CHR ''0'')"

definition pad_start :: "nat \<Rightarrow> string \<Rightarrow> string" where
  "pad_start n s = replicate (n - length s) (CHR ''0'') @ s"

text \<open>\<open>replace(/0+$/, "")\<close>\<close>

definition strip_zeros :: "string \<Rightarrow> string" where
  "strip_zeros s = rev (dropWhile (\<lambda>c. c = CHR ''0'') (rev s))"

definition toSmallestUnits :: "string \<Rightarrow> jsnum \<Rightarrow> (sdk_error, string) result" where
  "toSmallestUnits human decimals =
     bind_result (assertValidDecimals decimals) (\<lambda>_.
       let d = nat (int_of_num decimals) in
       if \<not> decimal_string (trim human) then Inl (PerihelionValidationError (Some ''human''))
       else
         let parts = split_on (CHR ''.'') (trim human);
             whole = parts ! 0;
             frac = (if 1 < length parts then parts ! 1 else [])
         in if d < length frac then Inl (PerihelionValidationError (Some ''human''))
            else
              let padded = pad_end d frac;
                  raw = nat_of_digits whole * 10 ^ d
                        + nat_of_digits (if padded = [] then ''0'' else padded)
              in Inr (digits_of_nat raw))"

definition fromSmallestUnits :: "string \<Rightarrow> jsnum \<Rightarrow> (sdk_error, string) result" where
  "fromSmallestUnits smallest decimals =
     bind_result (assertValidDecimals decimals) (\<lambda>_.
       let d = nat (int_of_num decimals);
           trimmed = trim smallest;
           negative = (trimmed \<noteq> [] \<and> hd trimmed = CHR ''-'');
           digits = (if negative then tl trimmed else trimmed)
       in if \<not> digit_string digits then Inl (PerihelionValidationError (Some ''smallest''))
          else
            let abs = nat_of_digits digits;
                factor = 10 ^ d;
                whole = abs div factor;
                frac = strip_zeros (pad_start d (digits_of_nat (abs mod factor)));
                sign = (if negative \<and> (whole \<noteq> 0 \<or> frac \<noteq> []) then ''-'' else [])
            in Inr (if frac \<noteq> [] then sign @ digits_of_nat whole @ ''.'' @ frac
                    else sign @ digits_of_nat whole))"

text \<open>\<open>parseInt\<close> of two hex digits.\<close>

definition hex_val :: "char \<Rightarrow> nat" where
  "hex_val c =
     (let n = char_code c
      in if is_digit c then n - 48 else if is_lower c then n - 87 else n - 55)"

fun hex_bytes :: "string \<Rightarrow> 8 word list" where
  "hex_bytes (a # b # s) = of_nat (16 * hex_val a + hex_val b) # hex_bytes s"
| "hex_bytes _ = []"

definition evmAddressToBytes32 :: "string \<Rightarrow> (sdk_error, 8 word list) result" where
  "evmAddressToBytes32 address =
     (if \<not> hex_string 40 address then Inl (PerihelionValidationError (Some ''address''))
      else Inr (replicate 12 0 @ hex_bytes (drop 2 address)))"

section \<open>Splitting and padding\<close>

lemma split_on_none: "sep \<notin> set s \<Longrightarrow> split_on sep s = [s]"
  by (induction s) auto

lemma split_on_one: "sep \<notin> set a \<Longrightarrow> split_on sep (a @ sep # b) = a # split_on sep b"
  by (induction a) auto

lemma digit_not_dot: "list_all is_digit s \<Longrightarrow> CHR ''.'' \<notin> set s"
  by (auto simp: list_all_iff char_class_defs)

lemma digits_no_space: "list_all is_digit s \<Longrightarrow> s \<noteq> [] \<Longrightarrow> \<not> is_space (hd s) \<and> \<not> is_space (last s)"
  by (auto simp: list_all_iff is_digit_bounds)

lemma pad_end_nat: "length s \<le> n \<Longrightarrow> nat_of_digits (pad_end n s) = nat_of_digits s * 10 ^ (n - length s)"
  by (simp add: pad_end_def nat_of_digits_append)

lemma pad_start_nat: "nat_of_digits (pad_start n s) = nat_of_digits s"
  by (simp add: pad_start_def nat_of_digits_append)

lemma strip_zeros_append: "\<exists>k. s = strip_zeros s @ replicate k (CHR ''0'')"
proof -
  let ?z = "takeWhile (\<lambda>c. c = CHR ''0'') (rev s)"
  have "?z = replicate (length ?z) (CHR ''0'')"
    by (rule replicate_length_same [symmetric]) (auto dest: set_takeWhileD)
  moreover have "rev s = ?z @ rev (strip_zeros s)"
    by (simp add: strip_zeros_def)
  ultimately have "s = strip_zeros s @ replicate (length ?z) (CHR ''0'')"
    by (metis rev_append rev_replicate rev_rev_ident)
  then show ?thesis by blast
qed

lemma length_digits_of_nat_le:
  assumes "n < 10 ^ d" "0 < d" shows "length (digits_of_nat n) \<le> d"
  using assms
proof (induction n arbitrary: d rule: digits_of_nat.induct)
  case (1 n)
  show ?case
  proof (cases "n < 10")
    case True
    with "1.prems" show ?thesis by (subst digits_of_nat.simps) simp
  next
    case False
    with "1.prems" obtain e where d: "d = Suc e" "0 < e"
      by (metis One_nat_def Suc_pred power_one_right gr0I)
    with "1.prems" have "n div 10 < 10 ^ e" by (simp add: less_mult_imp_div_less mult.commute)
    with "1.IH" False d have "length (digits_of_nat (n div 10)) \<le> e" by simp
    with False d show ?thesis by (subst digits_of_nat.simps) simp
  qed
qed

lemma pad_start_length: "n < 10 ^ d \<Longrightarrow> 0 < d \<Longrightarrow> length (pad_start d (digits_of_nat n)) = d"
  using length_digits_of_nat_le [of n d] by (simp add: pad_start_def)

lemma pad_start_digits: "list_all is_digit (pad_start d (digits_of_nat n))"
proof -
  have "list_all is_digit (replicate k (CHR ''0''))" for k
    by (induction k) (simp_all add: is_digit_def char_code_def)
  then show ?thesis by (simp add: pad_start_def digits_of_nat_digits)
qed

text \<open>
  The fractional part \<open>fromSmallestUnits\<close> prints: at most \<open>d\<close> digits, and padding it canon on the
  right gives the remainder.
\<close>

lemma printed_fraction:
  assumes "r < 10 ^ d"
  defines "f \<equiv> strip_zeros (pad_start d (digits_of_nat r))"
  shows "list_all is_digit f" and "length f \<le> d" and "nat_of_digits (pad_end d f) = r"
proof -
  obtain k where k: "pad_start d (digits_of_nat r) = f @ replicate k (CHR ''0'')"
    unfolding f_def using strip_zeros_append by blast
  then show "list_all is_digit f"
    using pad_start_digits [of d r] by simp
  show le: "length f \<le> d"
  proof (cases "d = 0")
    case True
    then show ?thesis
      using assms by (simp add: pad_start_def strip_zeros_def)
  next
    case False
    then show ?thesis
      using k pad_start_length [OF assms(1)] by (metis length_append le_add1 gr0I)
  qed
  show "nat_of_digits (pad_end d f) = r"
  proof (cases "d = 0")
    case True
    then show ?thesis using assms le by (simp add: pad_end_def)
  next
    case False
    then have "k = d - length f"
      using k pad_start_length [OF assms(1)] by (metis add_diff_cancel_left' length_append length_replicate gr0I)
    then have "pad_end d f = pad_start d (digits_of_nat r)" by (simp add: pad_end_def k)
    then show ?thesis by (simp add: pad_start_nat nat_of_digits_of_nat)
  qed
qed

lemma assertValidDecimals_ok: "d \<le> 36 \<Longrightarrow> assertValidDecimals (Num (rat_of_nat d)) = Inr ()"
proof -
  assume "d \<le> 36"
  then have "rat_of_nat d \<le> rat_of_nat 36" by (simp only: of_nat_le_iff)
  then show ?thesis by (simp add: assertValidDecimals_def MAX_DECIMALS_def)
qed

lemma trim_digits_dot:
  "list_all is_digit w \<Longrightarrow> w \<noteq> [] \<Longrightarrow> list_all is_digit f \<Longrightarrow> f \<noteq> [] \<Longrightarrow> trim (w @ CHR ''.'' # f) = w @ CHR ''.'' # f"
  using digits_no_space [of w] digits_no_space [of f] by (intro trim_id) auto

text \<open>
  Printing an amount and reading it back is the identity: for every canonical amount and every
  precision the SDK accepts, \<open>fromSmallestUnits\<close> succeeds and \<open>toSmallestUnits\<close> of what it
  prints is the amount again, digit for digit.
\<close>

theorem units_roundtrip:
  assumes "nonneg_numeral s" and "d \<le> 36"
  shows "\<exists>h. fromSmallestUnits s (Num (rat_of_nat d)) = Inr h
           \<and> toSmallestUnits h (Num (rat_of_nat d)) = Inr s"
proof -
  have digits: "list_all is_digit s" "s \<noteq> []"
    using assms(1) by (auto simp: nonneg_numeral_def pos_numeral_def char_class_defs split: list.splits)
  have "is_digit (hd s)" using digits by (cases s) auto
  then have "hd s \<noteq> CHR ''-''" by (auto simp: char_class_defs)
  with digits have s: "trim s = s" "hd s \<noteq> CHR ''-''" "digit_string s"
    using digits_no_space [of s] by (auto simp: digit_string_def intro: trim_id)
  define n where "n = nat_of_digits s"
  define w where "w = digits_of_nat (n div 10 ^ d)"
  define f where "f = strip_zeros (pad_start d (digits_of_nat (n mod 10 ^ d)))"
  note fr = printed_fraction [of "n mod 10 ^ d" d, folded f_def]
  have w: "list_all is_digit w" "w \<noteq> []" "nat_of_digits w = n div 10 ^ d"
    by (simp_all add: w_def digits_of_nat_digits nat_of_digits_of_nat)
  have canon: "digits_of_nat n = s" using assms(1) by (simp add: n_def digits_of_nat_of_digits)
  let ?h = "if f \<noteq> [] then w @ CHR ''.'' # f else w"
  have 1: "fromSmallestUnits s (Num (rat_of_nat d)) = Inr ?h"
    using s assms(2) by (simp add: fromSmallestUnits_def assertValidDecimals_ok Let_def n_def w_def f_def)
  have "n = n div 10 ^ d * 10 ^ d + n mod 10 ^ d" by (rule div_mult_mod_eq [symmetric])
  then have 2: "nat_of_digits w * 10 ^ d + nat_of_digits (pad_end d f) = n"
    using fr(3) w(3) by simp
  have "toSmallestUnits ?h (Num (rat_of_nat d)) = Inr s"
  proof (cases "f = []")
    case True
    have "split_on (CHR ''.'') w = [w]" using w(1) by (intro split_on_none digit_not_dot)
    then show ?thesis
      using True w(1,2) 2 canon assms(2) digits_no_space [OF w(1,2)]
      by (auto simp: toSmallestUnits_def assertValidDecimals_ok Let_def decimal_string_def
          digit_string_def trim_id digit_val_def char_code_def)
  next
    case False
    have "split_on (CHR ''.'') (w @ CHR ''.'' # f) = [w, f]"
      using w(1) fr(1) by (simp add: split_on_one split_on_none digit_not_dot)
    moreover have "pad_end d f \<noteq> []" using False by (simp add: pad_end_def)
    ultimately show ?thesis
      using False w(1,2) fr(1,2) 2 canon assms(2)
      by (simp add: toSmallestUnits_def assertValidDecimals_ok Let_def decimal_string_def
          digit_string_def trim_digits_dot)
  qed
  with 1 show ?thesis by blast
qed

theorem units_roundtrip_witness:
  "\<exists>h. fromSmallestUnits ''1500000'' (Num 6) = Inr h \<and> toSmallestUnits h (Num 6) = Inr ''1500000''"
proof -
  have "nonneg_numeral ''1500000''" by (simp add: nonneg_numeral_def pos_numeral_def char_class_defs)
  from units_roundtrip [OF this, of 6] show ?thesis by simp
qed

section \<open>Addresses as 32-byte words\<close>

text \<open>The reference reading of the last twenty bytes: lower-case hex digits.\<close>

definition hex_char :: "nat \<Rightarrow> char" where
  "hex_char n = char_of (if n < 10 then 48 + n else 87 + n)"

definition bytes_hex :: "8 word list \<Rightarrow> string" where
  "bytes_hex bs = concat (map (\<lambda>b. [hex_char (unat b div 16), hex_char (unat b mod 16)]) bs)"

lemma hex_val_less: "is_hex c \<Longrightarrow> hex_val c < 16"
  by (auto simp: hex_val_def Let_def is_hex_def is_hex_lower_def is_lower_def is_digit_def)

lemma hex_char_val: "is_hex c \<Longrightarrow> hex_char (hex_val c) = lower_char c"
  by (auto simp: hex_val_def hex_char_def lower_char_def Let_def is_hex_def is_hex_lower_def
      is_lower_def is_digit_def is_upper_def char_code_def)

lemma hex_bytes_roundtrip:
  "list_all is_hex s \<Longrightarrow> even (length s) \<Longrightarrow>
   bytes_hex (hex_bytes s) = to_lower s \<and> length (hex_bytes s) = length s div 2"
proof (induction s rule: hex_bytes.induct)
  case (1 a b s)
  then have less: "16 * hex_val a + hex_val b < 256" and b: "hex_val b < 16"
    using hex_val_less [of a] hex_val_less [of b] by auto
  then have "unat (of_nat (16 * hex_val a + hex_val b) :: 8 word) = 16 * hex_val a + hex_val b"
    by (simp only: unat_of_nat take_bit_eq_mod) simp
  with 1 b show ?case
    by (simp add: bytes_hex_def to_lower_def hex_char_val)
qed (simp_all add: bytes_hex_def to_lower_def)

text \<open>
  The 32-byte form of an address is always 32 bytes with twelve leading zeros, as the escrow's
  decoder requires, and its last twenty bytes are the address: written in hex they give the
  address back up to the case of its digits. Anything that is not a 20-byte hex string is refused.
\<close>

theorem evm_address_bytes32:
  "(if hex_string 40 a
    then \<exists>b. evmAddressToBytes32 a = Inr b \<and> length b = 32 \<and> take 12 b = replicate 12 0
             \<and> ''0x'' @ bytes_hex (drop 12 b) = to_lower a
    else evmAddressToBytes32 a = Inl (PerihelionValidationError (Some ''address'')))"
proof (cases "hex_string 40 a")
  case True
  then have h: "take 2 a = ''0x''" "length (drop 2 a) = 40" "list_all is_hex (drop 2 a)"
    by (auto simp: hex_string_def)
  from h(1) have "a = ''0x'' @ drop 2 a" by (metis append_take_drop_id)
  then have "to_lower a = to_lower ''0x'' @ to_lower (drop 2 a)"
    by (metis map_append to_lower_def)
  moreover have "to_lower ''0x'' = ''0x''"
    by (simp add: to_lower_def lower_char_def is_upper_def char_code_def)
  ultimately show ?thesis
    using True hex_bytes_roundtrip [OF h(3)] unfolding h(2) by (simp add: evmAddressToBytes32_def)
qed (simp add: evmAddressToBytes32_def)

end
