(* ===== verification/Sdk_Stellar.thy ===== *)
theory Sdk_Stellar
  imports Js_Values
begin

text \<open>
  \<^verbatim>\<open>sdk/src/stellar.ts\<close>: Stellar strkeys and asset identifiers. The two loops run on JavaScript's
  32-bit integers, so they are modelled on \<open>32 word\<close>: neither masks its accumulator while it
  runs. The theory shows that the checksum loop computes CRC-16/XMODEM all the same, that the
  Base32 loop emits exactly the bits of the characters, and from both that every valid strkey
  stops being valid when any one of its characters is changed.
\<close>

section \<open>The code\<close>

definition BASE32_ALPHABET :: string where
  "BASE32_ALPHABET = ''ABCDEFGHIJKLMNOPQRSTUVWXYZ234567''"

definition crc16_bit :: "32 word \<Rightarrow> 32 word" where
  "crc16_bit crc =
     (if crc AND 0x8000 \<noteq> 0 then push_bit 1 crc XOR 0x1021 else push_bit 1 crc)"

definition crc16_byte :: "32 word \<Rightarrow> 8 word \<Rightarrow> 32 word" where
  "crc16_byte crc byte = (crc16_bit ^^ 8) (crc XOR push_bit 8 (ucast byte))"

definition crc16 :: "8 word list \<Rightarrow> 32 word" where
  "crc16 data = foldl crc16_byte 0 data AND 0xffff"

text \<open>\<open>String.prototype.indexOf\<close> of a single character.\<close>

fun index_of :: "string \<Rightarrow> char \<Rightarrow> nat option" where
  "index_of [] c = None"
| "index_of (x # xs) c = (if x = c then Some 0 else map_option Suc (index_of xs c))"

text \<open>The loop of \<open>base32Decode\<close>: \<open>buf\<close>, \<open>bitsLeft\<close> and the bytes written so far.\<close>

fun base32_loop :: "32 word \<Rightarrow> nat \<Rightarrow> string \<Rightarrow> 8 word list option" where
  "base32_loop buf bitsLeft [] = Some []"
| "base32_loop buf bitsLeft (ch # s) =
     (case index_of BASE32_ALPHABET ch of
        None \<Rightarrow> None
      | Some val \<Rightarrow>
          (let buf' = push_bit 5 buf OR of_nat val;
               left = bitsLeft + 5
           in if 8 \<le> left
              then map_option ((#) (ucast (signed_drop_bit (left - 8) buf' AND 0xff)))
                     (base32_loop buf' (left - 8) s)
              else base32_loop buf' left s))"

definition base32Decode :: "string \<Rightarrow> 8 word list option" where
  "base32Decode inp =
     (if length inp * 5 mod 8 \<noteq> 0 then None else base32_loop 0 0 inp)"

text \<open>The checksum is stored little-endian in the last two bytes.\<close>

definition le16 :: "8 word \<Rightarrow> 8 word \<Rightarrow> 32 word" where
  "le16 lo hi = ucast lo OR push_bit 8 (ucast hi)"

definition isValidStrkey :: "string \<Rightarrow> 8 word \<Rightarrow> bool" where
  "isValidStrkey s expectedVersion =
     (case base32Decode s of
        None \<Rightarrow> False
      | Some decoded \<Rightarrow>
          if length decoded < 3 then False
          else if decoded ! 0 \<noteq> expectedVersion then False
          else crc16 (take (length decoded - 2) decoded)
             = le16 (decoded ! (length decoded - 2)) (decoded ! (length decoded - 1)))"

definition isStellarAddress :: "string \<Rightarrow> bool" where
  "isStellarAddress s =
     (if length s \<noteq> 56 then False
      else if s ! 0 = CHR ''G'' then isValidStrkey s 0x30
      else if s ! 0 = CHR ''C'' then isValidStrkey s 0x10
      else False)"

definition decodeStrkey :: "string \<Rightarrow> (8 word \<times> 8 word list) option" where
  "decodeStrkey s =
     (case base32Decode s of
        None \<Rightarrow> None
      | Some decoded \<Rightarrow>
          if length decoded \<noteq> 35 then None
          else let version = decoded ! 0 in
            if version \<noteq> 0x30 \<and> version \<noteq> 0x10 then None
            else if crc16 (take 33 decoded) \<noteq> le16 (decoded ! 33) (decoded ! 34) then None
            else Some (version, take 32 (drop 1 decoded)))"

text \<open>\<open>/^[A-Za-z0-9]{1,12}$/\<close>\<close>

definition asset_code :: "string \<Rightarrow> bool" where
  "asset_code s \<longleftrightarrow> 1 \<le> length s \<and> length s \<le> 12 \<and> list_all is_alnum s"

definition isStellarAsset :: "string \<Rightarrow> bool" where
  "isStellarAsset s =
     (if s = ''native'' then True
      else case index_of s (CHR '':'') of
        None \<Rightarrow> length s = 56 \<and> s ! 0 = CHR ''C'' \<and> isValidStrkey s 0x10
      | Some colon \<Rightarrow>
          (let code = take colon s; issuer = drop (colon + 1) s
           in if \<not> asset_code code then False
              else length issuer = 56 \<and> issuer ! 0 = CHR ''G'' \<and> isValidStrkey issuer 0x30))"

section \<open>The checksum loop is CRC-16/XMODEM\<close>

text \<open>
  The reference: a 16-bit register shifted once per message bit, most significant bit first.
\<close>

definition crc_ref_bit :: "16 word \<Rightarrow> bool \<Rightarrow> 16 word" where
  "crc_ref_bit c b = (if bit c 15 \<noteq> b then push_bit 1 c XOR 0x1021 else push_bit 1 c)"

definition crc_ref :: "bool list \<Rightarrow> 16 word" where
  "crc_ref bs = foldl crc_ref_bit 0 bs"

definition byte_bits :: "8 word \<Rightarrow> bool list" where
  "byte_bits b = map (bit b) (rev [0..<8])"

definition bytes_bits :: "8 word list \<Rightarrow> bool list" where
  "bytes_bits bs = concat (map byte_bits bs)"

definition bxor :: "bool \<Rightarrow> bool \<Rightarrow> bool" where
  "bxor a b \<longleftrightarrow> a \<noteq> b"

definition xor_bits :: "bool list \<Rightarrow> bool list \<Rightarrow> bool list" where
  "xor_bits xs ys = map2 bxor xs ys"

lemma bxor_simps [simp]: "bxor a a = False" "bxor a False = a" "bxor False a = a"
  by (simp_all add: bxor_def)

lemma length_byte_bits [simp]: "length (byte_bits b) = 8"
  by (simp add: byte_bits_def)

lemma length_bytes_bits [simp]: "length (bytes_bits bs) = 8 * length bs"
  by (induction bs) (simp_all add: bytes_bits_def)

lemma bytes_bits_simps [simp]:
  "bytes_bits [] = []" "bytes_bits (b # bs) = byte_bits b @ bytes_bits bs"
  "bytes_bits (xs @ ys) = bytes_bits xs @ bytes_bits ys"
  by (simp_all add: bytes_bits_def)

lemma bit_push1: "bit (push_bit 1 c) n \<longleftrightarrow> 0 < n \<and> n < 16 \<and> bit c (n - 1)" for c :: "16 word"
  by (auto simp only: bit_push_bit_iff possible_bit_word len_num1 len_bit0 One_nat_def Suc_le_eq)

lemma crc_ref_bit_xor:
  "crc_ref_bit (c XOR d) (bxor x y) = crc_ref_bit c x XOR crc_ref_bit d y"
  by (cases "bit c 15"; cases "bit d 15"; cases x; cases y)
     (simp_all add: crc_ref_bit_def bxor_def push_bit_xor bit_xor_iff ac_simps flip: xor.assoc)

lemma foldl_crc_xor:
  "length xs = length ys \<Longrightarrow>
   foldl crc_ref_bit (c XOR d) (xor_bits xs ys) = foldl crc_ref_bit c xs XOR foldl crc_ref_bit d ys"
  by (induction xs ys arbitrary: c d rule: list_induct2)
     (simp_all add: xor_bits_def crc_ref_bit_xor)

lemma crc_ref_xor: "length xs = length ys \<Longrightarrow> crc_ref (xor_bits xs ys) = crc_ref xs XOR crc_ref ys"
  using foldl_crc_xor [of xs ys 0 0] by (simp add: crc_ref_def)

text \<open>Message bits fed in front of zeros can be placed in the register beforehand.\<close>

fun place :: "bool list \<Rightarrow> 16 word" where
  "place [] = 0"
| "place (b # bs) = push_bit 15 (of_bool b) XOR drop_bit 1 (place bs)"

lemma bit_place: "bit (place bs) i \<longleftrightarrow> i < 16 \<and> 15 - i < length bs \<and> bs ! (15 - i)"
proof (induction bs arbitrary: i)
  case (Cons b bs)
  show ?case
  proof (cases "i = 15")
    case True
    have "\<not> bit (place bs) 16" by (simp add: bit_word.rep_eq)
    with True show ?thesis
      by (simp add: bit_xor_iff bit_push_bit_iff bit_drop_bit_eq bit_of_bool_iff)
  next
    case False
    then show ?thesis
      using Cons.IH [of "Suc i"]
      by (cases "i < 16") (auto simp: bit_xor_iff bit_push_bit_iff bit_drop_bit_eq bit_of_bool_iff
          nth_Cons diff_Suc split: nat.splits)
  qed
qed simp

lemma crc_step_place:
  assumes "length bs < 16"
  shows "crc_ref_bit (c XOR place (b # bs)) False = crc_ref_bit c b XOR place bs"
proof -
  have low: "\<not> bit (place bs) 0" using assms by (simp add: bit_place)
  have pd: "push_bit 1 (drop_bit 1 (place bs)) = place bs"
  proof (rule bit_word_eqI)
    fix n assume "n < LENGTH(16)"
    then show "bit (push_bit 1 (drop_bit 1 (place bs))) n = bit (place bs) n"
      using low by (cases "n = 0") (simp_all only: bit_push1 bit_drop_bit_eq comp_def, simp_all)
  qed
  have top: "\<not> bit (drop_bit 1 (place bs)) 15" by (simp add: bit_drop_bit_eq bit_place)
  have "push_bit 1 (push_bit 15 (of_bool b)) = (0 :: 16 word)"
    by (cases b) simp_all
  then have p: "crc_ref_bit (push_bit 15 (of_bool b)) b = 0"
    by (cases b) (simp_all add: crc_ref_bit_def)
  have d: "crc_ref_bit (drop_bit 1 (place bs)) False = place bs"
    using top by (simp only: crc_ref_bit_def pd simp_thms if_False)
  have "crc_ref_bit (place (b # bs)) b = place bs"
    using crc_ref_bit_xor [of "push_bit 15 (of_bool b)" "drop_bit 1 (place bs)" b False]
    by (simp only: place.simps bxor_simps p d xor.left_neutral)
  then show ?thesis
    using crc_ref_bit_xor [of c "place (b # bs)" b b] by (simp only: bxor_simps)
qed

lemma foldl_crc_place:
  "length bs \<le> 16 \<Longrightarrow>
   foldl crc_ref_bit (c XOR place bs) (replicate (length bs) False) = foldl crc_ref_bit c bs"
proof (induction bs arbitrary: c)
  case (Cons b bs)
  then show ?case
    using crc_step_place [of bs c b] by (simp del: place.simps)
qed simp

text \<open>An all-zero message suffix is invertible: a register that is not zero stays so.\<close>

lemma crc_step_nonzero: "c \<noteq> 0 \<Longrightarrow> crc_ref_bit c False \<noteq> 0"
proof (cases "bit c 15")
  case True
  have "bit (push_bit 1 c XOR 0x1021 :: 16 word) 0"
    by (simp only: bit_xor_iff bit_push1) simp
  with True show ?thesis by (auto simp: crc_ref_bit_def)
next
  case False
  assume "c \<noteq> 0"
  then obtain n where n: "bit c n"
    by (metis bit_eqI bit_0_eq bot_apply bot_bool_def)
  then have "n < LENGTH(16)" by (rule bit_imp_le_length)
  with False n have "bit (push_bit 1 c) (Suc n)"
    by (cases "n = 15") (simp_all only: bit_push1, simp_all)
  with False show ?thesis by (auto simp: crc_ref_bit_def)
qed

lemma foldl_crc_zeros_nonzero:
  "c \<noteq> 0 \<Longrightarrow> foldl crc_ref_bit c (replicate n False) \<noteq> 0"
  by (induction n arbitrary: c) (simp_all add: crc_step_nonzero)

lemma foldl_crc_zeros [simp]: "foldl crc_ref_bit 0 (replicate n False) = 0"
  by (induction n) (simp_all add: crc_ref_bit_def)

lemma place_nonzero:
  assumes "length bs \<le> 16" and "True \<in> set bs"
  shows "place bs \<noteq> 0"
proof -
  obtain i where "i < length bs" "bs ! i"
    using assms(2) by (auto simp: in_set_conv_nth)
  then have "bit (place bs) (15 - i)" using assms(1) by (simp add: bit_place)
  then show ?thesis by auto
qed

text \<open>A burst of at most 16 bits, anywhere in the message, is always seen.\<close>

lemma crc_ref_burst:
  assumes "length w \<le> 16" and "True \<in> set w"
  shows "crc_ref (replicate m False @ w @ replicate n False) \<noteq> 0"
proof -
  have "foldl crc_ref_bit (0 XOR place w) (replicate (length w) False) \<noteq> 0"
    using place_nonzero [OF assms] by (simp only: xor.left_neutral) (rule foldl_crc_zeros_nonzero)
  then have "foldl crc_ref_bit 0 w \<noteq> 0"
    using foldl_crc_place [OF assms(1), of 0] by argo
  then show ?thesis
    by (simp add: crc_ref_def foldl_crc_zeros_nonzero)
qed

subsection \<open>The 32-bit loop computes the reference\<close>

lemma ucast_push_bit_16: "ucast (push_bit n w) = (push_bit n (ucast w) :: 16 word)" for w :: "32 word"
  by (rule bit_word_eqI) (auto simp: bit_push_bit_iff bit_ucast_iff)

lemma ucast_crc16_bit: "(ucast (crc16_bit c) :: 16 word) = crc_ref_bit (ucast c) False"
proof -
  have "c AND 0x8000 \<noteq> 0 \<longleftrightarrow> bit c 15"
  proof -
    have p: "(0x8000 :: 32 word) = push_bit 15 1" by simp
    have "c AND push_bit 15 1 = push_bit 15 (of_bool (bit c 15))"
    proof (rule bit_word_eqI)
      fix n
      show "bit (c AND push_bit 15 1) n = bit (push_bit 15 (of_bool (bit c 15)) :: 32 word) n"
        by (cases "n = 15") (simp_all only: bit_and_iff bit_push_bit_iff bit_1_iff bit_of_bool_iff, auto)
    qed
    then have eq: "c AND 0x8000 = push_bit 15 (of_bool (bit c 15))"
      by (simp only: p)
    show ?thesis by (subst eq) (cases "bit c 15"; simp)
  qed
  moreover have "(ucast (0x1021 :: 32 word) :: 16 word) = 0x1021" by simp
  moreover have "bit (ucast c :: 16 word) 15 = bit c 15" by (simp add: bit_ucast_iff)
  ultimately show ?thesis
    by (cases "bit c 15") (simp_all only: crc16_bit_def crc_ref_bit_def ucast_push_bit_16
        unsigned_xor_eq if_True if_False simp_thms)
qed

lemma ucast_crc16_bits:
  "(ucast ((crc16_bit ^^ n) c) :: 16 word) = foldl crc_ref_bit (ucast c) (replicate n False)"
proof (induction n)
  case (Suc n)
  have "foldl crc_ref_bit (ucast c) (replicate (Suc n) False)
      = crc_ref_bit (foldl crc_ref_bit (ucast c) (replicate n False)) False"
    by (simp add: replicate_append_same [symmetric])
  with Suc show ?case by (simp add: ucast_crc16_bit)
qed simp

lemma place_byte_bits: "place (byte_bits b) = push_bit 8 (ucast b :: 16 word)"
proof (rule bit_word_eqI)
  fix n assume n: "n < LENGTH(16)"
  have "byte_bits b ! (15 - n) = bit b (n - 8)" if "8 \<le> n"
    using that n by (simp add: byte_bits_def rev_nth)
  then show "bit (place (byte_bits b)) n = bit (push_bit 8 (ucast b :: 16 word)) n"
    using n by (auto simp: bit_place bit_push_bit_iff bit_ucast_iff)
qed

lemma ucast_crc16_byte:
  "(ucast (crc16_byte c b) :: 16 word) = foldl crc_ref_bit (ucast c) (byte_bits b)"
proof -
  have "(ucast (push_bit 8 (ucast b :: 32 word)) :: 16 word) = push_bit 8 (ucast b)"
    by (rule bit_word_eqI) (auto simp: bit_push_bit_iff bit_ucast_iff)
  then have "(ucast (crc16_byte c b) :: 16 word)
      = foldl crc_ref_bit (ucast c XOR place (byte_bits b)) (replicate (length (byte_bits b)) False)"
    by (simp add: crc16_byte_def ucast_crc16_bits unsigned_xor_eq place_byte_bits)
  then show ?thesis by (subst (asm) foldl_crc_place) simp_all
qed

lemma ucast_crc16_fold:
  "(ucast (foldl crc16_byte c data) :: 16 word) = foldl crc_ref_bit (ucast c) (bytes_bits data)"
  by (induction data arbitrary: c) (simp_all add: ucast_crc16_byte)

lemma crc16_ref: "crc16 data = ucast (crc_ref (bytes_bits data))"
proof (rule bit_word_eqI)
  fix n assume "n < LENGTH(32)"
  have "bit (0xffff :: 32 word) n \<longleftrightarrow> n < 16"
  proof -
    have "(0xffff :: 32 word) = mask 16" by (simp add: mask_eq_exp_minus_1)
    then show ?thesis by (simp only: bit_mask_iff) (auto simp: possible_bit_def)
  qed
  then show "bit (crc16 data) n = bit (ucast (crc_ref (bytes_bits data)) :: 32 word) n"
    using ucast_crc16_fold [of 0 data]
    by (auto simp: crc16_def crc_ref_def bit_and_iff bit_ucast_iff dest: sym)
qed

section \<open>The Base32 loop emits the bits of the characters\<close>

definition nbits :: "nat \<Rightarrow> 32 word \<Rightarrow> bool list" where
  "nbits n w = map (bit w) (rev [0..<n])"

text \<open>The five bits a character stands for.\<close>

definition char_bits :: "char \<Rightarrow> bool list" where
  "char_bits c =
     (case index_of BASE32_ALPHABET c of None \<Rightarrow> [] | Some v \<Rightarrow> nbits 5 (of_nat v))"

definition string_bits :: "string \<Rightarrow> bool list" where
  "string_bits s = concat (map char_bits s)"

definition base32_string :: "string \<Rightarrow> bool" where
  "base32_string s \<longleftrightarrow> list_all (\<lambda>c. index_of BASE32_ALPHABET c \<noteq> None) s"

lemma length_nbits [simp]: "length (nbits n w) = n"
  by (simp add: nbits_def)

lemma index_of_less: "index_of xs c = Some i \<Longrightarrow> i < length xs"
  by (induction xs arbitrary: i) (auto split: if_splits)

lemma index_of_nth: "index_of xs c = Some i \<Longrightarrow> xs ! i = c"
  by (induction xs arbitrary: i) (auto split: if_splits)

lemma alphabet_index_less: "index_of BASE32_ALPHABET c = Some v \<Longrightarrow> v < 32"
  using index_of_less by (fastforce simp: BASE32_ALPHABET_def)

lemma bit_of_nat_less_32: "v < 32 \<Longrightarrow> bit (of_nat v :: 32 word) i \<Longrightarrow> i < 5"
proof (rule ccontr)
  assume v: "v < 32" and b: "bit (of_nat v :: 32 word) i" and "\<not> i < 5"
  then have "bit v i" by (simp add: bit_of_nat_iff)
  moreover have "v < 2 ^ i"
    using v \<open>\<not> i < 5\<close> power_increasing [of 5 i "2::nat"] by simp
  ultimately show False by (simp add: bit_iff_odd)
qed

lemma nbits_push:
  assumes "v < 32" and "n + 5 \<le> 32"
  shows "nbits (n + 5) (push_bit 5 w OR of_nat v) = nbits n w @ nbits 5 (of_nat v)"
proof -
  have split: "rev [0..<n + 5] = map (\<lambda>i. i + 5) (rev [0..<n]) @ rev [0..<5]"
  proof -
    have "[0..<n + 5] = [0..<5] @ [5..<n + 5]"
      using upt_add_eq_append [of 0 5 n] by (simp add: add.commute)
    moreover have "[5..<n + 5] = map (\<lambda>i. i + 5) [0..<n]"
      using map_add_upt [of 5 n] by (simp add: add.commute)
    ultimately show ?thesis by (simp only: rev_append rev_map)
  qed
  have hi: "bit (push_bit 5 w OR of_nat v) (i + 5) = bit w i" if "i < n" for i
    using that assms bit_of_nat_less_32 [of v "i + 5"]
    by (auto simp: bit_or_iff bit_push_bit_iff)
  have lo: "bit (push_bit 5 w OR of_nat v) i = bit (of_nat v :: 32 word) i" if "i < 5" for i
    using that by (simp add: bit_or_iff bit_push_bit_iff)
  show ?thesis
    unfolding nbits_def split by (auto simp: hi lo)
qed

lemma nbits_emit:
  assumes "8 \<le> n" and "n \<le> 32"
  shows "byte_bits (ucast (signed_drop_bit (n - 8) w AND 0xff)) @ nbits (n - 8) w = nbits n w"
proof -
  have split: "rev [0..<n] = map (\<lambda>i. i + (n - 8)) (rev [0..<8]) @ rev [0..<n - 8]"
  proof -
    have "[0..<n] = [0..<n - 8] @ [n - 8..<n]"
      using upt_add_eq_append [of 0 "n - 8" 8] assms by simp
    moreover have "[n - 8..<n] = map (\<lambda>i. i + (n - 8)) [0..<8]"
      using map_add_upt [of "n - 8" 8] assms by (simp add: add.commute)
    ultimately show ?thesis by (simp only: rev_append rev_map)
  qed
  have ff: "bit (0xff :: 32 word) i \<longleftrightarrow> i < 8" for i
  proof -
    have "(0xff :: 32 word) = mask 8" by (simp add: mask_eq_exp_minus_1)
    then show ?thesis by (simp only: bit_mask_iff) (auto simp: possible_bit_def)
  qed
  have "bit (ucast (signed_drop_bit (n - 8) w AND 0xff) :: 8 word) i = bit w (i + (n - 8))"
    if "i < 8" for i
  proof -
    have "bit (ucast (signed_drop_bit (n - 8) w AND 0xff) :: 8 word) i
        = (bit (signed_drop_bit (n - 8) w) i)"
      using that by (simp only: bit_ucast_iff bit_and_iff ff) simp
    also have "\<dots> = bit w (i + (n - 8))"
      using that assms by (auto simp: bit_signed_drop_bit_iff add.commute)
    finally show ?thesis .
  qed
  then show ?thesis
    unfolding nbits_def split byte_bits_def by auto
qed

lemma base32_loop_bits:
  "base32_loop buf k s = Some out \<Longrightarrow> k < 8 \<Longrightarrow>
   \<exists>rest. length rest < 8 \<and> bytes_bits out @ rest = nbits k buf @ string_bits s"
proof (induction buf k s arbitrary: out rule: base32_loop.induct)
  case (1 buf bitsLeft)
  then show ?case by (auto simp: string_bits_def)
next
  case (2 buf k ch s)
  from "2.prems" obtain v where v: "index_of BASE32_ALPHABET ch = Some v"
    by (auto split: option.splits)
  then have "v < 32" by (rule alphabet_index_less)
  let ?buf = "push_bit 5 buf OR of_nat v :: 32 word"
  have step: "nbits (k + 5) ?buf = nbits k buf @ char_bits ch"
    using nbits_push [OF \<open>v < 32\<close>, of k buf] "2.prems"(2) v by (simp add: char_bits_def)
  show ?case
  proof (cases "8 \<le> k + 5")
    case True
    with "2.prems" v obtain out' where
      out': "base32_loop ?buf (k + 5 - 8) s = Some out'"
      and out: "out = ucast (signed_drop_bit (k + 5 - 8) ?buf AND 0xff) # out'"
      by (auto simp: Let_def)
    have "k + 5 - 8 < 8" using "2.prems"(2) by simp
    from "2.IH"(1) [OF v refl refl True out' this] obtain rest where
      "length rest < 8" "bytes_bits out' @ rest = nbits (k + 5 - 8) ?buf @ string_bits s"
      by blast
    moreover have "byte_bits (ucast (signed_drop_bit (k + 5 - 8) ?buf AND 0xff)) @
        nbits (k + 5 - 8) ?buf = nbits k buf @ char_bits ch"
      using nbits_emit [of "k + 5" ?buf] True "2.prems"(2) step by simp
    ultimately have "bytes_bits out @ rest = nbits k buf @ string_bits (ch # s)"
      unfolding out string_bits_def by simp
    with \<open>length rest < 8\<close> show ?thesis by blast
  next
    case False
    with "2.prems" v have "base32_loop ?buf (k + 5) s = Some out" by (auto simp: Let_def)
    from "2.IH"(2) [OF v refl refl False this] False show ?thesis
      using step by (simp add: string_bits_def)
  qed
qed

lemma char_bits_length: "index_of BASE32_ALPHABET c \<noteq> None \<Longrightarrow> length (char_bits c) = 5"
  by (auto simp: char_bits_def)

lemma char_bits_inject:
  assumes "index_of BASE32_ALPHABET c \<noteq> None" and "index_of BASE32_ALPHABET d \<noteq> None"
    and "char_bits c = char_bits d"
  shows "c = d"
proof -
  obtain i j where i: "index_of BASE32_ALPHABET c = Some i" and j: "index_of BASE32_ALPHABET d = Some j"
    using assms(1,2) by auto
  have "bit (of_nat i :: 32 word) n = bit (of_nat j :: 32 word) n" for n
  proof (cases "n < 5")
    case True
    have "rev (nbits 5 (of_nat i)) ! n = rev (nbits 5 (of_nat j)) ! n"
      using assms(3) i j by (simp add: char_bits_def)
    with True show ?thesis by (simp add: nbits_def rev_map)
  next
    case False
    with i j show ?thesis using alphabet_index_less bit_of_nat_less_32 by blast
  qed
  then have "(of_nat i :: 32 word) = of_nat j" by (intro bit_word_eqI) simp
  then have "i = j"
    using alphabet_index_less [OF i] alphabet_index_less [OF j]
    by (simp add: word_unat_eq_iff take_bit_eq_mod unat_of_nat)
  with i j show ?thesis using index_of_nth by metis
qed

lemma length_string_bits: "base32_string s \<Longrightarrow> length (string_bits s) = 5 * length s"
  by (induction s) (auto simp: base32_string_def string_bits_def char_bits_length)

lemma base32_loop_None_iff: "base32_loop buf k s = None \<longleftrightarrow> \<not> base32_string s"
  by (induction buf k s rule: base32_loop.induct)
     (auto simp: base32_string_def Let_def split: option.splits)

lemma base32Decode_SomeD:
  assumes "base32Decode s = Some D"
  shows "base32_string s" and "bytes_bits D = string_bits s" and "8 * length D = 5 * length s"
proof -
  from assms have m: "length s * 5 mod 8 = 0" and l: "base32_loop 0 0 s = Some D"
    by (auto simp: base32Decode_def split: if_splits)
  from l show b: "base32_string s"
    using base32_loop_None_iff [of 0 0 s] by simp
  from base32_loop_bits [OF l] obtain rest where
    r: "length rest < 8" "bytes_bits D @ rest = string_bits s"
    by (auto simp: nbits_def)
  from r(2) have "8 * length D + length rest = 5 * length s"
    using length_string_bits [OF b] by (metis length_append length_bytes_bits)
  with m r(1) have "length rest = 0" by presburger
  then have "rest = []" by simp
  with r(2) show eq: "bytes_bits D = string_bits s" by simp
  then show "8 * length D = 5 * length s"
    using length_string_bits [OF b] by (metis length_bytes_bits)
qed

lemma base32Decode_Some_iff:
  "(\<exists>D. base32Decode s = Some D) \<longleftrightarrow> base32_string s \<and> length s * 5 mod 8 = 0"
  using base32_loop_None_iff [of 0 0 s] by (auto simp: base32Decode_def)

lemma byte_bits_inject: "byte_bits a = byte_bits b \<Longrightarrow> a = b"
proof -
  assume eq: "byte_bits a = byte_bits b"
  have "bit a n = bit b n" if "n < 8" for n
  proof -
    have "rev (byte_bits a) ! n = rev (byte_bits b) ! n" by (simp add: eq)
    then show ?thesis using that by (simp add: byte_bits_def rev_map)
  qed
  then show "a = b" by (intro bit_word_eqI) simp
qed

lemma bytes_bits_inject: "bytes_bits xs = bytes_bits ys \<Longrightarrow> xs = ys"
proof (induction xs arbitrary: ys)
  case Nil
  then have "length (bytes_bits ys) = 0" by simp
  then show ?case by simp
next
  case (Cons x xs)
  then have "length (bytes_bits ys) = 8 + 8 * length xs"
    by (metis bytes_bits_simps(2) length_append length_byte_bits length_bytes_bits)
  then obtain y ys' where "ys = y # ys'" by (cases ys) auto
  with Cons show ?case by (auto dest: byte_bits_inject)
qed

lemma string_bits_inject:
  "base32_string s \<Longrightarrow> base32_string t \<Longrightarrow> string_bits s = string_bits t \<Longrightarrow> s = t"
proof (induction s arbitrary: t)
  case Nil
  then have "length (string_bits t) = 0" by (simp add: string_bits_def)
  with Nil show ?case by (simp add: length_string_bits)
next
  case (Cons c s)
  then have "length (string_bits t) = 5 + 5 * length s"
    using length_string_bits [of "c # s"] by simp
  with Cons.prems(2) obtain d t' where t: "t = d # t'"
    by (cases t) (auto simp: string_bits_def)
  with Cons.prems have "char_bits c = char_bits d" "string_bits s = string_bits t'"
    by (auto simp: string_bits_def base32_string_def char_bits_length)
  with Cons t show ?case by (auto simp: base32_string_def intro: char_bits_inject)
qed

text \<open>No two strings decode to the same bytes.\<close>

lemma base32Decode_inject:
  "base32Decode s = Some D \<Longrightarrow> base32Decode t = Some D \<Longrightarrow> s = t"
  using base32Decode_SomeD string_bits_inject by metis

section \<open>Validity as an equation on bits\<close>

text \<open>The checksum bytes, read as the 16-bit register: high byte first.\<close>

lemma le16_place: "le16 lo hi = ucast (place (byte_bits hi @ byte_bits lo))"
proof (rule bit_word_eqI)
  fix n assume "n < LENGTH(32)"
  have lo: "byte_bits lo ! (7 - n) = bit lo n" if "n < 8"
    using that by (simp add: byte_bits_def rev_nth)
  have hi: "byte_bits hi ! (15 - n) = bit hi (n - 8)" if "8 \<le> n" "n < 16"
    using that by (simp add: byte_bits_def rev_nth)
  have "bit (le16 lo hi) n \<longleftrightarrow> n < 8 \<and> bit lo n \<or> 8 \<le> n \<and> n < 16 \<and> bit hi (n - 8)"
    using \<open>n < LENGTH(32)\<close> bit_imp_le_length [of hi "n - 8"] bit_imp_le_length [of lo n]
    by (auto simp: le16_def bit_or_iff bit_ucast_iff bit_push_bit_iff)
  also have "\<dots> \<longleftrightarrow> n < 16 \<and> (byte_bits hi @ byte_bits lo) ! (15 - n)"
    using lo hi by (auto simp: nth_append)
  finally show "bit (le16 lo hi) n = bit (ucast (place (byte_bits hi @ byte_bits lo)) :: 32 word) n"
    using \<open>n < LENGTH(32)\<close> by (auto simp: bit_ucast_iff bit_place)
qed

lemma le16_inject: "le16 a b = le16 c d \<Longrightarrow> a = c \<and> b = d"
proof
  assume eq: "le16 a b = le16 c d"
  show "a = c"
  proof (rule bit_word_eqI)
    fix n assume "n < LENGTH(8)"
    moreover have "bit (le16 a b) n = bit (le16 c d) n" by (simp add: eq)
    ultimately show "bit a n = bit c n"
      by (simp add: le16_def bit_or_iff bit_ucast_iff bit_push_bit_iff)
  qed
  show "b = d"
  proof (rule bit_word_eqI)
    fix n assume "n < LENGTH(8)"
    moreover have "bit (le16 a b) (n + 8) = bit (le16 c d) (n + 8)" by (simp add: eq)
    ultimately show "bit b n = bit d n"
      using bit_imp_le_length [of a "n + 8"] bit_imp_le_length [of c "n + 8"]
      by (auto simp: le16_def bit_or_iff bit_ucast_iff bit_push_bit_iff)
  qed
qed

definition checksum_bits :: "bool list \<Rightarrow> bool list" where
  "checksum_bits B = drop 272 B @ take 8 (drop 264 B)"

lemma ucast_16_32_inject: "(ucast a :: 32 word) = ucast b \<longleftrightarrow> a = b" for a b :: "16 word"
proof
  assume eq: "(ucast a :: 32 word) = ucast b"
  show "a = b"
  proof (rule bit_word_eqI)
    fix n assume "n < LENGTH(16)"
    moreover have "bit (ucast a :: 32 word) n = bit (ucast b :: 32 word) n" by (simp add: eq)
    ultimately show "bit a n = bit b n" by (simp add: bit_ucast_iff)
  qed
qed simp

lemma split_last_two: "length D = 35 \<Longrightarrow> D = take 33 D @ [D ! 33, D ! 34]"
  by (simp add: list_eq_iff_nth_eq nth_append nth_Cons less_Suc_eq numeral_eq_Suc)

lemma checksum_ok_iff:
  assumes "length D = 35" and B: "B = bytes_bits D"
  shows "crc16 (take 33 D) = le16 (D ! 33) (D ! 34)
     \<longleftrightarrow> crc_ref (take 264 B) = place (checksum_bits B)"
proof -
  have D: "D = take 33 D @ [D ! 33, D ! 34]"
    using assms(1) by (rule split_last_two)
  have "B = bytes_bits (take 33 D) @ byte_bits (D ! 33) @ byte_bits (D ! 34)"
    using arg_cong [OF D, of bytes_bits] by (simp add: B)
  moreover have "length (bytes_bits (take 33 D)) = 264"
    using assms(1) by simp
  ultimately have "take 264 B = bytes_bits (take 33 D)"
    and "checksum_bits B = byte_bits (D ! 34) @ byte_bits (D ! 33)"
    by (simp_all add: checksum_bits_def)
  then show ?thesis by (simp add: crc16_ref le16_place ucast_16_32_inject)
qed

definition strkey_bits_ok :: "bool list \<Rightarrow> bool" where
  "strkey_bits_ok B \<longleftrightarrow> crc_ref (take 264 B) = place (checksum_bits B)"

lemma decode_length_56:
  "base32Decode s = Some D \<Longrightarrow> length D = 35 \<longleftrightarrow> length s = 56"
  using base32Decode_SomeD(3) by fastforce

lemma isValidStrkey_iff:
  assumes "length s = 56"
  shows "isValidStrkey s v \<longleftrightarrow>
    (\<exists>D. base32Decode s = Some D \<and> length D = 35 \<and> D ! 0 = v \<and> strkey_bits_ok (string_bits s))"
proof (cases "base32Decode s")
  case (Some D)
  then have "length D = 35" "bytes_bits D = string_bits s"
    using assms decode_length_56 base32Decode_SomeD(2) by auto
  with Some show ?thesis
    using checksum_ok_iff [of D "string_bits s"] by (simp add: isValidStrkey_def strkey_bits_ok_def)
qed (simp add: isValidStrkey_def)

lemma xor_place:
  "length a = length b \<Longrightarrow> place (xor_bits a b) = place a XOR place b"
proof (induction a b rule: list_induct2)
  case (Cons x xs y ys)
  have "push_bit 15 (of_bool (bxor x y)) = push_bit 15 (of_bool x) XOR (push_bit 15 (of_bool y) :: 16 word)"
    by (cases x; cases y) (simp_all add: bxor_def)
  with Cons show ?case
    by (simp add: xor_bits_def drop_bit_xor ac_simps)
qed (simp add: xor_bits_def)

lemma xor_bits_append:
  "length a = length b \<Longrightarrow> xor_bits (a @ c) (b @ d) = xor_bits a b @ xor_bits c d"
  by (simp add: xor_bits_def)

lemma xor_bits_self: "xor_bits a a = replicate (length a) False"
  by (induction a) (simp_all add: xor_bits_def)

lemma xor_bits_differ: "length a = length b \<Longrightarrow> a \<noteq> b \<Longrightarrow> True \<in> set (xor_bits a b)"
  by (induction a b rule: list_induct2) (auto simp: xor_bits_def bxor_def)

lemma length_xor_bits [simp]: "length (xor_bits a b) = min (length a) (length b)"
  by (simp add: xor_bits_def)

lemma xor_bits_take_drop:
  "take n (xor_bits a b) = xor_bits (take n a) (take n b)"
  "drop n (xor_bits a b) = xor_bits (drop n a) (drop n b)"
  by (simp_all add: xor_bits_def take_map drop_map take_zip drop_zip)

lemma strkey_bits_ok_xor:
  assumes "length A = 280" "length B = 280" "strkey_bits_ok A" "strkey_bits_ok B"
  shows "strkey_bits_ok (xor_bits A B)"
proof -
  have "checksum_bits (xor_bits A B) = xor_bits (checksum_bits A) (checksum_bits B)"
    using assms by (simp add: checksum_bits_def xor_bits_take_drop xor_bits_append)
  moreover have "length (checksum_bits A) = length (checksum_bits B)"
    using assms by (simp add: checksum_bits_def)
  ultimately show ?thesis
    using assms by (simp add: strkey_bits_ok_def xor_bits_take_drop crc_ref_xor xor_place)
qed

lemma straddling_error:
  assumes "length w = 5" and "True \<in> set w"
  shows "crc_ref (replicate 260 False @ take 4 w) \<noteq>
    place (replicate 8 False @ drop 4 w @ replicate 7 False)"
proof -
  obtain a b c d e where w: "w = [a, b, c, d, e]"
    using assms(1) by (auto simp: length_Suc_conv numeral_eq_Suc)
  have "crc_ref (replicate 260 False @ take 4 w) = foldl crc_ref_bit 0 [a, b, c, d]"
    by (simp add: crc_ref_def w)
  moreover have "place (replicate 8 False @ drop 4 w @ replicate 7 False) = (if e then 0x80 else 0)"
  proof -
    have "replicate 8 False = [False, False, False, False, False, False, False, False]"
      "replicate 7 False = [False, False, False, False, False, False, False]"
      by (simp_all add: numeral_eq_Suc)
    then show ?thesis by (cases e) (simp_all add: w)
  qed
  moreover have "foldl crc_ref_bit 0 [a, b, c, d] \<noteq> (if e then 0x80 else 0)"
    using assms(2) by (cases a; cases b; cases c; cases d; cases e) (simp_all add: w crc_ref_bit_def)
  ultimately show ?thesis by metis
qed

lemma set_checksum_bits: "set (checksum_bits B) = set (drop 264 B)"
proof -
  have "drop 272 B = drop 8 (drop 264 B)" by simp
  then have "set (checksum_bits B) = set (take 8 (drop 264 B) @ drop 8 (drop 264 B))"
    by (simp only: checksum_bits_def set_append Un_commute)
  then show ?thesis by (simp only: append_take_drop_id)
qed

text \<open>A nonzero error confined to one character never satisfies the equation.\<close>

lemma char_error_detected:
  assumes "i < 56" and w: "length w = 5" "True \<in> set w"
  shows "\<not> strkey_bits_ok (replicate (5 * i) False @ w @ replicate (275 - 5 * i) False)"
proof -
  let ?E = "replicate (5 * i) False @ w @ replicate (275 - 5 * i) False"
  consider "i < 52" | "i = 52" | "52 < i" by linarith
  then show ?thesis
  proof cases
    case 1
    then have "take 264 ?E = replicate (5 * i) False @ w @ replicate (259 - 5 * i) False"
      using w(1) by (simp add: take_replicate)
    moreover have "checksum_bits ?E = replicate 16 False"
      using 1 w(1) by (simp add: checksum_bits_def flip: replicate_add)
    moreover have "place (replicate 16 False) = 0" by (simp add: numeral_eq_Suc)
    moreover have "length w \<le> 16" using w(1) by simp
    ultimately show ?thesis
      using crc_ref_burst [OF _ w(2), of "5 * i" "259 - 5 * i"] by (simp only: strkey_bits_ok_def) simp
  next
    case 2
    then have "take 264 ?E = replicate 260 False @ take 4 w"
      and "checksum_bits ?E = replicate 8 False @ drop 4 w @ replicate 7 False"
      using w(1) by (simp_all add: checksum_bits_def)
    then show ?thesis
      using straddling_error [OF w] by (simp add: strkey_bits_ok_def)
  next
    case 3
    let ?c = "checksum_bits ?E"
    have "set ?c = set (drop 264 ?E)" by (rule set_checksum_bits)
    moreover have "drop 264 ?E = replicate (5 * i - 264) False @ w @ replicate (275 - 5 * i) False"
      using 3 w(1) by simp
    ultimately have "True \<in> set ?c" using w(2) by (simp only:) simp
    moreover have "length ?E = 280" using w(1) assms(1) by simp
    then have "length ?c = 16" by (simp only: checksum_bits_def length_append length_take length_drop)
    ultimately have "place ?c \<noteq> 0" by (intro place_nonzero) simp_all
    moreover have "take 264 ?E = replicate 264 False"
      using 3 by simp
    ultimately show ?thesis by (simp add: strkey_bits_ok_def crc_ref_def)
  qed
qed

section \<open>Properties\<close>

lemma isStellarAddress_bits:
  "isStellarAddress s \<Longrightarrow> length s = 56 \<and> base32_string s \<and> strkey_bits_ok (string_bits s)"
  by (auto simp: isStellarAddress_def isValidStrkey_iff dest: base32Decode_SomeD split: if_splits)

lemma string_bits_update:
  assumes s: "base32_string s" and i: "i < length s"
    and c: "index_of BASE32_ALPHABET c \<noteq> None"
  shows "xor_bits (string_bits s) (string_bits (s[i := c]))
       = replicate (5 * i) False @ xor_bits (char_bits (s ! i)) (char_bits c)
         @ replicate (5 * (length s - i - 1)) False"
proof -
  have 1: "string_bits s = string_bits (take i s) @ char_bits (s ! i) @ string_bits (drop (Suc i) s)"
    by (subst id_take_nth_drop [OF i]) (simp add: string_bits_def)
  have 2: "string_bits (s[i := c]) = string_bits (take i s) @ char_bits c @ string_bits (drop (Suc i) s)"
    by (subst upd_conv_take_nth_drop [OF i]) (simp add: string_bits_def)
  have "base32_string (take i s)" "base32_string (drop (Suc i) s)"
    using s append_take_drop_id [of i s] append_take_drop_id [of "Suc i" s]
    by (metis base32_string_def list_all_append)+
  moreover have "index_of BASE32_ALPHABET (s ! i) \<noteq> None"
    using s i by (simp add: base32_string_def list_all_length)
  ultimately show ?thesis
    using c i by (simp add: 1 2 xor_bits_append xor_bits_self length_string_bits char_bits_length)
qed

text \<open>
  Changing any single character of a valid Stellar address makes it invalid: the version
  byte, the checksum and the alphabet together catch every one-character typing error, wherever
  it is, including the character that straddles the last key byte and the checksum.
\<close>

theorem strkey_typo_detected:
  assumes "isStellarAddress s" and "i < length s" and "c \<noteq> s ! i"
  shows "\<not> isStellarAddress (s[i := c])"
proof
  assume "isStellarAddress (s[i := c])"
  then have t: "base32_string (s[i := c])" "strkey_bits_ok (string_bits (s[i := c]))"
    by (simp_all add: isStellarAddress_bits)
  from assms(1) have s: "length s = 56" "base32_string s" "strkey_bits_ok (string_bits s)"
    by (simp_all add: isStellarAddress_bits)
  have idx: "index_of BASE32_ALPHABET c \<noteq> None" "index_of BASE32_ALPHABET (s ! i) \<noteq> None"
    using t(1) s(2) assms(2) by (fastforce simp: base32_string_def list_all_length)+
  let ?w = "xor_bits (char_bits (s ! i)) (char_bits c)"
  have "length ?w = 5" using idx by (simp add: char_bits_length)
  moreover have "True \<in> set ?w"
    using idx assms(3) char_bits_inject by (intro xor_bits_differ) (auto simp: char_bits_length)
  ultimately have "\<not> strkey_bits_ok (replicate (5 * i) False @ ?w @ replicate (275 - 5 * i) False)"
    using assms(2) s(1) by (intro char_error_detected) simp_all
  moreover have "strkey_bits_ok (xor_bits (string_bits s) (string_bits (s[i := c])))"
    using s t by (intro strkey_bits_ok_xor) (simp_all add: length_string_bits)
  ultimately show False
    using string_bits_update [OF s(2) assms(2) idx(1)] s(1) assms(2)
    by (simp add: diff_mult_distrib2)
qed

lemma funpow_8: "(f ^^ 8) x = f (f (f (f (f (f (f (f x)))))))"
  by (simp add: numeral_eq_Suc)

lemmas strkey_eval =
  isStellarAddress_def isValidStrkey_def crc16_def crc16_byte_def crc16_bit_def funpow_8 le16_def
  base32Decode_def BASE32_ALPHABET_def Let_def

definition sample_account :: string where
  "sample_account = ''GA5ZSEJYB37JRC5AVCIA5MOP4RHTM335X2KGX3IHOJAPP5RE34K4KZVN''"

lemma sample_account_valid: "isStellarAddress sample_account"
  by (simp add: sample_account_def strkey_eval)

theorem strkey_typo_detected_witness:
  "isStellarAddress sample_account \<and> (3::nat) < length sample_account \<and>
   CHR ''A'' \<noteq> sample_account ! 3 \<and> \<not> isStellarAddress (sample_account[3 := CHR ''A''])"
proof -
  have "(3::nat) < length sample_account" "CHR ''A'' \<noteq> sample_account ! 3"
    by (simp_all add: sample_account_def)
  with sample_account_valid strkey_typo_detected [OF sample_account_valid, of 3 "CHR ''A''"]
  show ?thesis by blast
qed

lemma first_char_version:
  assumes D: "base32Decode s = Some D" "length s = 56"
    and c: "index_of BASE32_ALPHABET c = Some v" "byte_bits b = nbits 5 (of_nat v) @ [False, False, False]"
    and "D ! 0 = b"
  shows "s ! 0 = c"
proof -
  obtain a t where s: "s = a # t" using D(2) by (cases s) auto
  obtain x xs where x: "D = x # xs" using decode_length_56 [OF D(1)] D(2) by (cases D) auto
  have a: "index_of BASE32_ALPHABET a \<noteq> None"
    using base32Decode_SomeD(1) [OF D(1)] s by (simp add: base32_string_def)
  have "take 5 (bytes_bits D) = take 5 (string_bits s)"
    using base32Decode_SomeD(2) [OF D(1)] by simp
  then have "char_bits a = char_bits c"
    using s x c \<open>D ! 0 = b\<close> a by (simp add: string_bits_def char_bits_length) (simp add: char_bits_def)
  then show ?thesis using a c(1) s by (auto intro: char_bits_inject)
qed

lemma version_bits:
  "byte_bits 0x30 = nbits 5 (of_nat 6) @ [False, False, False]"
  "byte_bits 0x10 = nbits 5 (of_nat 2) @ [False, False, False]"
  "index_of BASE32_ALPHABET (CHR ''G'') = Some 6" "index_of BASE32_ALPHABET (CHR ''C'') = Some 2"
  by (simp_all add: byte_bits_def nbits_def BASE32_ALPHABET_def upt_rec_numeral bit_numeral_rec upt_rec)

text \<open>
  The address predicate and the decoder agree: a string is accepted by \<open>isStellarAddress\<close>
  exactly when \<open>decodeStrkey\<close> returns a version and a key for it, so a validated destination can
  always be decoded later, and nothing else can.
\<close>

theorem address_iff_decodes: "isStellarAddress s \<longleftrightarrow> decodeStrkey s \<noteq> None"
proof (cases "base32Decode s")
  case None
  then show ?thesis by (simp add: isStellarAddress_def isValidStrkey_def decodeStrkey_def)
next
  case (Some D)
  show ?thesis
  proof (cases "length s = 56")
    case True
    then have l: "length D = 35" using Some decode_length_56 by blast
    have "D ! 0 = 0x30 \<Longrightarrow> s ! 0 = CHR ''G''" "D ! 0 = 0x10 \<Longrightarrow> s ! 0 = CHR ''C''"
      using first_char_version [OF Some True version_bits(3) version_bits(1)]
        first_char_version [OF Some True version_bits(4) version_bits(2)] by blast+
    moreover have "take (length D - 2) D = take 33 D" using l by simp
    ultimately show ?thesis
      using Some True l by (auto simp: isStellarAddress_def isValidStrkey_def decodeStrkey_def Let_def)
  next
    case False
    then have "length D \<noteq> 35" using Some decode_length_56 by blast
    with Some False show ?thesis by (simp add: isStellarAddress_def decodeStrkey_def)
  qed
qed

text \<open>
  Decoding loses nothing: two strkeys with the same version and key are the same string, so
  each account or contract has exactly one accepted spelling.
\<close>

theorem decodeStrkey_inject:
  assumes "decodeStrkey s = Some k" and "decodeStrkey t = Some k"
  shows "s = t"
proof -
  obtain D where D: "base32Decode s = Some D" "length D = 35"
    "crc16 (take 33 D) = le16 (D ! 33) (D ! 34)" "k = (D ! 0, take 32 (drop 1 D))"
    using assms(1) by (auto simp: decodeStrkey_def Let_def split: option.splits if_splits)
  obtain E where E: "base32Decode t = Some E" "length E = 35"
    "crc16 (take 33 E) = le16 (E ! 33) (E ! 34)" "k = (E ! 0, take 32 (drop 1 E))"
    using assms(2) by (auto simp: decodeStrkey_def Let_def split: option.splits if_splits)
  have head: "take 33 X = X ! 0 # take 32 (drop 1 X)" if "length X = 35" for X :: "8 word list"
    using that by (cases X) (simp_all add: take_Cons')
  from D E head have "take 33 D = take 33 E" by simp
  with D(3) E(3) have "place (byte_bits (D ! 34) @ byte_bits (D ! 33))
      = place (byte_bits (E ! 34) @ byte_bits (E ! 33))"
    by (simp add: le16_place ucast_16_32_inject)
  then have "le16 (D ! 33) (D ! 34) = le16 (E ! 33) (E ! 34)" by (simp add: le16_place)
  then have "D ! 33 = E ! 33 \<and> D ! 34 = E ! 34" by (rule le16_inject)
  with \<open>take 33 D = take 33 E\<close> have "D = E"
    using split_last_two [OF D(2)] split_last_two [OF E(2)] by simp
  with D E show ?thesis using base32Decode_inject by blast
qed

lemma sample_account_decodes: "\<exists>key. decodeStrkey sample_account = Some (48, key)"
  by (simp add: sample_account_def decodeStrkey_def strkey_eval)

theorem decodeStrkey_inject_witness:
  "\<exists>k. decodeStrkey sample_account = Some k
     \<and> (\<forall>t \<in> {sample_account[3 := CHR ''A''], sample_account}. decodeStrkey t = Some k \<longrightarrow> sample_account = t)"
  using sample_account_decodes decodeStrkey_inject [of sample_account] by blast

end
