(* ===== verification/Sdk_Intent.thy ===== *)
theory Sdk_Intent
  imports Sdk_Types Sdk_Stellar
begin

text \<open>
  \<^verbatim>\<open>sdk/src/intent.ts\<close>: construction, validation, hashing and signature verification of intents.
  The functions of viem the code calls are parameters: \<open>isAddress\<close>, \<open>hashTypedData\<close>,
  \<open>recoverTypedDataAddress\<close> and, for contract wallets, the two calls of a \<open>PublicClient\<close>. A call
  that may throw returns a sum with the unit error on the left.
\<close>

section \<open>The code\<close>

record domain =
  dom_name :: string
  dom_version :: string
  dom_chainId :: int
  dom_verifyingContract :: address

definition perihelionDomain :: "int \<Rightarrow> address \<Rightarrow> domain" where
  "perihelionDomain chainId verifyingContract =
     \<lparr>dom_name = ''Perihelion'', dom_version = ''1'', dom_chainId = chainId,
      dom_verifyingContract = verifyingContract\<rparr>"

definition INTENT_TYPES :: "(string \<times> string) list" where
  "INTENT_TYPES =
     [(''user'', ''address''), (''destination'', ''string''), (''sourceChainId'', ''uint256''),
      (''sourceAsset'', ''address''), (''sourceAmount'', ''uint256''), (''destAsset'', ''string''),
      (''minDestAmount'', ''uint256''), (''deadline'', ''uint256''), (''nonce'', ''uint256''),
      (''preferredSolver'', ''address'')]"

text \<open>Caller-supplied fields: the numbers are unchecked JavaScript numbers, the last two optional.\<close>

record intent_params =
  p_user :: address
  p_destination :: string
  p_sourceChainId :: jsnum
  p_sourceAsset :: address
  p_sourceAmount :: string
  p_destAsset :: string
  p_minDestAmount :: string
  p_deadline :: jsnum
  p_nonce :: "string option"
  p_preferredSolver :: "address option"

definition isPositiveIntString :: "string \<Rightarrow> bool" where
  "isPositiveIntString s = pos_numeral s"

definition isNonNegIntString :: "string \<Rightarrow> bool" where
  "isNonNegIntString s = nonneg_numeral s"

definition MAX_DESTINATION_LEN :: nat where "MAX_DESTINATION_LEN = 56"

definition MAX_DEST_ASSET_LEN :: nat where "MAX_DEST_ASSET_LEN = 69"

definition MAX_DEADLINE_HORIZON_SEC :: int where "MAX_DEADLINE_HORIZON_SEC = 604800"

definition MIN_FILL_HEADROOM_SECS :: int where "MIN_FILL_HEADROOM_SECS = 1920"

definition DEFAULT_V_MIN :: string where "DEFAULT_V_MIN = ''10000000''"

definition U128_MAX :: int where
  "U128_MAX = 340282366920938463463374607431768211455"

definition I128_MAX :: int where
  "I128_MAX = 170141183460469231731687303715884105727"

definition zeroAddress :: address where
  "zeroAddress = ''0x0000000000000000000000000000000000000000''"

definition validateIntent ::
  "(string \<Rightarrow> bool) \<Rightarrow> intent_params \<Rightarrow> int \<Rightarrow> (sdk_error, unit) result" where
  "validateIntent isAddress params now =
     (if \<not> isAddress (p_user params) then Inl (IntentValidationError ''user'')
      else if \<not> isStellarAddress (p_destination params) then Inl (IntentValidationError ''destination'')
      else if MAX_DESTINATION_LEN < utf8_len (p_destination params)
        then Inl (IntentValidationError ''destination'')
      else if \<not> is_integer (p_sourceChainId params) \<or> js_le (p_sourceChainId params) (Num 0)
        then Inl (IntentValidationError ''sourceChainId'')
      else if \<not> isAddress (p_sourceAsset params) then Inl (IntentValidationError ''sourceAsset'')
      else if \<not> isPositiveIntString (p_sourceAmount params)
        then Inl (IntentValidationError ''sourceAmount'')
      else case js_bigint (p_sourceAmount params) of
        None \<Rightarrow> Inl (IntentValidationError ''sourceAmount'')
      | Some sourceAmountBig \<Rightarrow>
      if U128_MAX < sourceAmountBig then Inl (IntentValidationError ''sourceAmount'')
      else if \<not> isStellarAsset (p_destAsset params)
        then Inl (PerihelionValidationError (Some ''destAsset''))
      else if MAX_DEST_ASSET_LEN < utf8_len (p_destAsset params)
        then Inl (IntentValidationError ''destAsset'')
      else if \<not> isPositiveIntString (p_minDestAmount params)
        then Inl (IntentValidationError ''minDestAmount'')
      else case js_bigint (p_minDestAmount params) of
        None \<Rightarrow> Inl (IntentValidationError ''minDestAmount'')
      | Some minDestAmountBig \<Rightarrow>
      if I128_MAX < minDestAmountBig then Inl (IntentValidationError ''minDestAmount'')
      else if \<not> is_integer (p_deadline params) \<or> js_le (p_deadline params) (num_of_int now)
        then Inl (IntentValidationError ''deadline'')
      else if js_lt (num_of_int (now + MAX_DEADLINE_HORIZON_SEC)) (p_deadline params)
        then Inl (IntentValidationError ''deadline'')
      else if (case p_nonce params of None \<Rightarrow> False | Some n \<Rightarrow> \<not> isNonNegIntString n)
        then Inl (IntentValidationError ''nonce'')
      else if (case p_nonce params of None \<Rightarrow> False
               | Some n \<Rightarrow> (case js_bigint n of None \<Rightarrow> True | Some v \<Rightarrow> 2 ^ 256 - 1 < v))
        then Inl (IntentValidationError ''nonce'')
      else if (case p_preferredSolver params of None \<Rightarrow> False | Some a \<Rightarrow> \<not> isAddress a)
        then Inl (IntentValidationError ''preferredSolver'')
      else Inr ())"

definition validateAmount :: "string \<Rightarrow> string \<Rightarrow> int \<Rightarrow> (sdk_error, unit) result" where
  "validateAmount value field maximum =
     (case js_bigint value of
        None \<Rightarrow> Inl (PerihelionValidationError (Some field))
      | Some n \<Rightarrow>
          if n \<le> 0 then Inl (PerihelionValidationError (Some field))
          else if maximum < n then Inl (PerihelionValidationError (Some field))
          else Inr ())"

record build_options =
  vMin :: "string option"
  sourceDecimals :: "int option"
  suppressWarning :: "bool option"

text \<open>
  The result carries, next to the intent, whether the \<open>V_min\<close> warning was printed. A negative
  exponent makes \<open>10n ** BigInt(sourceDecimals)\<close> throw a \<open>RangeError\<close>; a \<open>vMin\<close> that is no
  integer literal makes \<open>BigInt\<close> throw.
\<close>

definition below_v_min :: "string \<Rightarrow> int \<Rightarrow> string \<Rightarrow> (sdk_error, bool) result" where
  "below_v_min v_min source_decimals amount =
     (case (js_bigint v_min, js_bigint amount) of
        (Some vMinBig, Some sourceAmountBig) \<Rightarrow>
          if source_decimals < 0 then Inl (PlainError ''RangeError'')
          else Inr (sourceAmountBig * 10 ^ 6 < vMinBig * 10 ^ nat source_decimals)
      | _ \<Rightarrow> Inl (PlainError ''SyntaxError''))"

definition option_default :: "'a option \<Rightarrow> 'a \<Rightarrow> 'a" where
  "option_default x d = (case x of None \<Rightarrow> d | Some v \<Rightarrow> v)"

definition buildIntent ::
  "(string \<Rightarrow> bool) \<Rightarrow> string \<Rightarrow> int \<Rightarrow> intent_params \<Rightarrow> build_options
     \<Rightarrow> (sdk_error, intent \<times> bool) result" where
  "buildIntent isAddress randomNonce now params options =
     bind_result (validateIntent isAddress params now) (\<lambda>_.
       let v_min = option_default (vMin options) DEFAULT_V_MIN;
           suppress = option_default (suppressWarning options) False;
           intent =
             \<lparr>user = p_user params, destination = p_destination params,
              sourceChainId = int_of_num (p_sourceChainId params),
              sourceAsset = p_sourceAsset params, sourceAmount = p_sourceAmount params,
              destAsset = p_destAsset params, minDestAmount = p_minDestAmount params,
              deadline = int_of_num (p_deadline params),
              nonce = option_default (p_nonce params) randomNonce,
              preferredSolver = option_default (p_preferredSolver params) zeroAddress\<rparr>
       in bind_result (validateAmount (sourceAmount intent) ''sourceAmount'' U128_MAX) (\<lambda>_.
          bind_result (validateAmount (minDestAmount intent) ''minDestAmount'' I128_MAX) (\<lambda>_.
            if suppress then Inr (intent, False)
            else bind_result
                   (below_v_min v_min (option_default (sourceDecimals options) 6) (sourceAmount intent))
                   (\<lambda>warn. Inr (intent, warn)))))"

text \<open>\<open>randomNonce\<close>: 32 random bytes read as a big-endian integer, in decimal.\<close>

definition nonce_of_bytes :: "8 word list \<Rightarrow> string" where
  "nonce_of_bytes bytes = digits_of_nat (foldl (\<lambda>acc b. 256 * acc + unat b) 0 bytes)"

section \<open>Hashing and signatures\<close>

record message =
  m_user :: address
  m_destination :: string
  m_sourceChainId :: int
  m_sourceAsset :: address
  m_sourceAmount :: int
  m_destAsset :: string
  m_minDestAmount :: int
  m_deadline :: int
  m_nonce :: int
  m_preferredSolver :: address

text \<open>\<open>BigInt\<close> of a string that is no integer literal throws, so \<open>toMessage\<close> may.\<close>

definition toMessage :: "intent \<Rightarrow> (sdk_error, message) result" where
  "toMessage i =
     (case (js_bigint (sourceAmount i), js_bigint (minDestAmount i), js_bigint (nonce i)) of
        (Some a, Some m, Some n) \<Rightarrow>
          Inr \<lparr>m_user = user i, m_destination = destination i, m_sourceChainId = sourceChainId i,
               m_sourceAsset = sourceAsset i, m_sourceAmount = a, m_destAsset = destAsset i,
               m_minDestAmount = m, m_deadline = deadline i, m_nonce = n,
               m_preferredSolver = preferredSolver i\<rparr>
      | _ \<Rightarrow> Inl (PlainError ''SyntaxError''))"

definition hashIntent ::
  "(domain \<Rightarrow> message \<Rightarrow> hex) \<Rightarrow> intent \<Rightarrow> domain \<Rightarrow> (sdk_error, hex) result" where
  "hashIntent hashTypedData i dmn = bind_result (toMessage i) (\<lambda>m. Inr (hashTypedData dmn m))"

definition SECP256K1_HALF_N :: nat where
  "SECP256K1_HALF_N = 0x7fffffffffffffffffffffffffffffff5d576e7357a4501ddfe92f46681b20a0"

definition ERC1271_MAGIC_VALUE :: hex where
  "ERC1271_MAGIC_VALUE = ''0x1626ba7e''"

record viem_client =
  getCode :: "address \<Rightarrow> (unit, hex option) result"
  isValidSignature :: "address \<Rightarrow> hex \<Rightarrow> hex \<Rightarrow> (unit, jval) result"

record verify_options =
  vo_client :: "viem_client option"
  vo_isContract :: "bool option"

definition is_contract_user :: "intent \<Rightarrow> verify_options \<Rightarrow> bool" where
  "is_contract_user i options =
     (case vo_isContract options of
        Some b \<Rightarrow> b
      | None \<Rightarrow>
          (case vo_client options of
             None \<Rightarrow> False
           | Some client \<Rightarrow>
               (case getCode client (user i) of
                  Inl _ \<Rightarrow> False
                | Inr code \<Rightarrow> code \<noteq> None \<and> code \<noteq> Some ''0x'')))"

text \<open>The \<open>s\<close> value of a 65-byte signature, where the slice is hexadecimal.\<close>

definition signature_s :: "hex \<Rightarrow> nat option" where
  "signature_s sig = radix_nat 16 (take 64 (drop 66 sig))"

definition verifyIntent ::
  "(domain \<Rightarrow> message \<Rightarrow> hex) \<Rightarrow> (domain \<Rightarrow> message \<Rightarrow> hex \<Rightarrow> (unit, address) result)
     \<Rightarrow> intent \<Rightarrow> hex \<Rightarrow> domain \<Rightarrow> verify_options \<Rightarrow> (sdk_error, bool) result" where
  "verifyIntent hashTypedData recoverTypedDataAddress i sig dmn options =
     (if is_contract_user i options then
        (case vo_client options of
           None \<Rightarrow> Inr False
         | Some client \<Rightarrow>
             bind_result (hashIntent hashTypedData i dmn) (\<lambda>digest.
               case isValidSignature client (user i) digest sig of
                 Inl _ \<Rightarrow> Inr False
               | Inr (JStr r) \<Rightarrow> Inr (to_lower r = ERC1271_MAGIC_VALUE)
               | Inr _ \<Rightarrow> Inr False))
      else if length sig \<noteq> 132 then Inr False
      else
        (case signature_s sig of
           None \<Rightarrow> Inl (PlainError ''SyntaxError'')
         | Some s \<Rightarrow>
             if SECP256K1_HALF_N < s then Inr False
             else bind_result (toMessage i) (\<lambda>m.
               case recoverTypedDataAddress dmn m sig of
                 Inl _ \<Rightarrow> Inl (PlainError ''recover'')
               | Inr recovered \<Rightarrow> Inr (to_lower recovered = to_lower (user i)))))"

definition isExpired :: "intent \<Rightarrow> int \<Rightarrow> int \<Rightarrow> bool" where
  "isExpired i now clockSkew \<longleftrightarrow> deadline i \<le> now - clockSkew"

section \<open>Facts about the code\<close>

lemma js_bigint_nonneg: "nonneg_numeral s \<Longrightarrow> js_bigint s = Some (int (nat_of_digits s))"
  by (simp add: js_bigint_digits nonneg_numeral_digits)

lemma js_bigint_pos: "pos_numeral s \<Longrightarrow> js_bigint s = Some (int (nat_of_digits s))"
  by (simp add: js_bigint_nonneg nonneg_numeral_def)

lemma nonneg_numeral_inject:
  "nonneg_numeral s \<Longrightarrow> nonneg_numeral t \<Longrightarrow> nat_of_digits s = nat_of_digits t \<longleftrightarrow> s = t"
  using digits_of_nat_of_digits by metis

lemma nonce_of_bytes_numeral: "nonneg_numeral (nonce_of_bytes bs)"
  using pos_numeral_digits_of_nat by (force simp: nonce_of_bytes_def nonneg_numeral_def)

text \<open>Every condition of \<open>validateIntent\<close>, as one conjunction.\<close>

definition valid_params :: "(string \<Rightarrow> bool) \<Rightarrow> intent_params \<Rightarrow> int \<Rightarrow> bool" where
  "valid_params isAddress p now \<longleftrightarrow>
     isAddress (p_user p) \<and> isStellarAddress (p_destination p) \<and> utf8_len (p_destination p) \<le> 56
     \<and> is_integer (p_sourceChainId p) \<and> 0 < int_of_num (p_sourceChainId p)
     \<and> isAddress (p_sourceAsset p)
     \<and> pos_numeral (p_sourceAmount p) \<and> int (nat_of_digits (p_sourceAmount p)) \<le> U128_MAX
     \<and> isStellarAsset (p_destAsset p) \<and> utf8_len (p_destAsset p) \<le> 69
     \<and> pos_numeral (p_minDestAmount p) \<and> int (nat_of_digits (p_minDestAmount p)) \<le> I128_MAX
     \<and> is_integer (p_deadline p) \<and> now < int_of_num (p_deadline p)
     \<and> int_of_num (p_deadline p) \<le> now + MAX_DEADLINE_HORIZON_SEC
     \<and> (\<forall>n. p_nonce p = Some n \<longrightarrow> nonneg_numeral n \<and> nat_of_digits n < 2 ^ 256)
     \<and> (\<forall>a. p_preferredSolver p = Some a \<longrightarrow> isAddress a)"

lemma js_le_integer: "is_integer x \<Longrightarrow> js_le x (num_of_int k) \<longleftrightarrow> int_of_num x \<le> k"
  by (erule is_integerE) simp

lemma js_le_integer_0: "is_integer x \<Longrightarrow> js_le x (Num 0) \<longleftrightarrow> int_of_num x \<le> 0"
  by (erule is_integerE) simp

lemma js_lt_integer: "is_integer x \<Longrightarrow> js_lt (num_of_int k) x \<longleftrightarrow> k < int_of_num x"
  by (erule is_integerE) simp

lemma js_lt_integer_sum:
  "is_integer x \<Longrightarrow> js_lt (Num (rat_of_int j + rat_of_int k)) x \<longleftrightarrow> j + k < int_of_num x"
  using js_lt_integer [of x "j + k"] by simp

lemma validateIntent_grammar:
  "\<not> pos_numeral (p_sourceAmount p) \<Longrightarrow> validateIntent isAddress p now \<noteq> Inr ()"
  "\<not> pos_numeral (p_minDestAmount p) \<Longrightarrow> validateIntent isAddress p now \<noteq> Inr ()"
  "\<not> is_integer (p_sourceChainId p) \<Longrightarrow> validateIntent isAddress p now \<noteq> Inr ()"
  "\<not> is_integer (p_deadline p) \<Longrightarrow> validateIntent isAddress p now \<noteq> Inr ()"
  "p_nonce p = Some n \<Longrightarrow> \<not> nonneg_numeral n \<Longrightarrow> validateIntent isAddress p now \<noteq> Inr ()"
  by (simp_all add: validateIntent_def isPositiveIntString_def isNonNegIntString_def
      del: numeral_power_eq_of_nat_cancel_iff split: option.split)

lemma validateIntent_ok_iff:
  "validateIntent isAddress p now = Inr () \<longleftrightarrow> valid_params isAddress p now"
proof (cases "pos_numeral (p_sourceAmount p) \<and> pos_numeral (p_minDestAmount p)
    \<and> is_integer (p_sourceChainId p) \<and> is_integer (p_deadline p)
    \<and> (\<forall>n. p_nonce p = Some n \<longrightarrow> nonneg_numeral n)")
  case True
  then have nonce: "(case p_nonce p of None \<Rightarrow> False
      | Some n \<Rightarrow> (case js_bigint n of None \<Rightarrow> True | Some v \<Rightarrow> 2 ^ 256 - 1 < v))
      \<longleftrightarrow> \<not> (\<forall>n. p_nonce p = Some n \<longrightarrow> nat_of_digits n < 2 ^ 256)"
    by (auto simp: js_bigint_nonneg split: option.splits)
  have solver: "(case p_preferredSolver p of None \<Rightarrow> False | Some a \<Rightarrow> \<not> isAddress a)
      \<longleftrightarrow> \<not> (\<forall>a. p_preferredSolver p = Some a \<longrightarrow> isAddress a)"
    by (auto split: option.splits)
  have nsyn: "\<not> (case p_nonce p of None \<Rightarrow> False | Some n \<Rightarrow> \<not> isNonNegIntString n)"
    using True by (auto simp: isNonNegIntString_def split: option.splits)
  from True show ?thesis
    unfolding validateIntent_def nonce solver valid_params_def
    using nsyn
    by (simp add: isPositiveIntString_def js_bigint_pos js_le_integer js_le_integer_0 js_lt_integer_sum
        MAX_DESTINATION_LEN_def MAX_DEST_ASSET_LEN_def not_less not_le)
next
  case False
  then have "\<not> valid_params isAddress p now" by (auto simp: valid_params_def)
  moreover from False have "validateIntent isAddress p now \<noteq> Inr ()"
    using validateIntent_grammar [where p = p and isAddress = isAddress and now = now] by blast
  ultimately show ?thesis by blast
qed

lemma validateAmount_pos:
  "pos_numeral s \<Longrightarrow> int (nat_of_digits s) \<le> m \<Longrightarrow> validateAmount s f m = Inr ()"
  by (simp add: validateAmount_def js_bigint_pos pos_numeral_pos)

text \<open>The destination length check cannot fail once the strkey check has passed.\<close>

lemma index_of_Some_mem: "index_of xs c = Some i \<Longrightarrow> c \<in> set xs"
  by (induction xs arbitrary: i) (auto split: if_splits)

lemma stellar_address_ascii: "isStellarAddress s \<Longrightarrow> utf8_len s = 56"
proof -
  assume s: "isStellarAddress s"
  have "char_code c < 128" if "c \<in> set s" for c
  proof -
    have "\<exists>i. index_of BASE32_ALPHABET c = Some i"
      using isStellarAddress_bits [OF s] that by (auto simp: base32_string_def list_all_iff)
    then have "c \<in> set BASE32_ALPHABET" using index_of_Some_mem by blast
    then show ?thesis by (auto simp: BASE32_ALPHABET_def char_code_def)
  qed
  then show ?thesis using isStellarAddress_bits [OF s] by (simp add: utf8_len_ascii)
qed

text \<open>
  What \<open>buildIntent\<close> returns is within the protocol's limits: it succeeds only on parameters
  that pass every check, and then the two amounts fit the 128-bit wire fields, the deadline lies
  strictly in the future and at most seven days ahead, and the omitted fields have their defaults.
\<close>

theorem buildIntent_bounds:
  assumes "buildIntent isAddress rn now p opts = Inr (i, w)"
  shows "0 < nat_of_digits (sourceAmount i) \<and> int (nat_of_digits (sourceAmount i)) < 2 ^ 128
    \<and> 0 < nat_of_digits (minDestAmount i) \<and> int (nat_of_digits (minDestAmount i)) < 2 ^ 127
    \<and> now < deadline i \<and> deadline i \<le> now + 604800
    \<and> isStellarAddress (destination i) \<and> isStellarAsset (destAsset i)
    \<and> nonce i = option_default (p_nonce p) rn
    \<and> preferredSolver i = option_default (p_preferredSolver p) zeroAddress"
proof -
  have v: "validateIntent isAddress p now = Inr ()"
    using assms by (auto simp: buildIntent_def bind_result_Inr_iff)
  then have vp: "valid_params isAddress p now" by (simp only: validateIntent_ok_iff)
  have i: "sourceAmount i = p_sourceAmount p" "minDestAmount i = p_minDestAmount p"
    "deadline i = int_of_num (p_deadline p)" "destination i = p_destination p"
    "destAsset i = p_destAsset p" "nonce i = option_default (p_nonce p) rn"
    "preferredSolver i = option_default (p_preferredSolver p) zeroAddress"
    using assms by (auto simp: buildIntent_def Let_def bind_result_Inr_iff split: if_splits)
  show ?thesis
    using vp unfolding i valid_params_def
    by (simp add: U128_MAX_def I128_MAX_def MAX_DEADLINE_HORIZON_SEC_def pos_numeral_pos)
qed

definition sample_params :: intent_params where
  "sample_params =
     \<lparr>p_user = ''0x1111111111111111111111111111111111111111'', p_destination = sample_account,
      p_sourceChainId = Num 8453, p_sourceAsset = ''0x2222222222222222222222222222222222222222'',
      p_sourceAmount = ''1000000'', p_destAsset = ''native'', p_minDestAmount = ''9900000'',
      p_deadline = Num 1600, p_nonce = Some ''7'', p_preferredSolver = None\<rparr>"

definition sample_options :: build_options where
  "sample_options = \<lparr>vMin = None, sourceDecimals = None, suppressWarning = Some True\<rparr>"

lemma hex_chars [simp]:
  "is_hex (CHR ''0'')" "is_hex (CHR ''1'')" "is_hex (CHR ''2'')" "is_hex (CHR ''a'')"
  by (simp_all add: char_class_defs)

lemma sample_numerals:
  "pos_numeral ''1000000''" "pos_numeral ''9900000''" "nonneg_numeral ''7''"
  "nat_of_digits ''1000000'' = 1000000" "nat_of_digits ''9900000'' = 9900000"
  "nat_of_digits ''7'' = 7"
  by (simp_all add: pos_numeral_def nonneg_numeral_def is_digit_def char_code_def digit_val_def
      nat_of_digits_def)

lemma sample_params_valid:
  assumes "\<And>s. hex_string 40 s \<Longrightarrow> isAddress s"
  shows "valid_params isAddress sample_params 1000"
proof -
  have "isAddress ''0x1111111111111111111111111111111111111111''"
    "isAddress ''0x2222222222222222222222222222222222222222''"
    by (rule assms, simp add: hex_string_def)+
  then show ?thesis
    using sample_numerals stellar_address_ascii [OF sample_account_valid]
    by (simp add: valid_params_def sample_params_def sample_account_valid U128_MAX_def I128_MAX_def
        MAX_DEADLINE_HORIZON_SEC_def isStellarAsset_def utf8_len_def char_code_def)
qed

lemma sample_build:
  "\<exists>i. buildIntent (hex_string 40) ''0'' 1000 sample_params sample_options = Inr (i, False)"
proof -
  have "validateIntent (hex_string 40) sample_params 1000 = Inr ()"
    using sample_params_valid [of "hex_string 40"] by (simp add: validateIntent_ok_iff)
  moreover have "validateAmount (p_sourceAmount sample_params) ''sourceAmount'' U128_MAX = Inr ()"
    "validateAmount (p_minDestAmount sample_params) ''minDestAmount'' I128_MAX = Inr ()"
    using sample_numerals
    by (simp_all add: sample_params_def validateAmount_pos U128_MAX_def I128_MAX_def)
  ultimately show ?thesis
    by (simp add: buildIntent_def Let_def sample_options_def option_default_def)
qed

theorem buildIntent_bounds_witness:
  "\<exists>i. buildIntent (hex_string 40) ''0'' 1000 sample_params sample_options = Inr (i, False)
     \<and> 1000 < deadline i \<and> deadline i \<le> 1000 + 604800"
  using sample_build buildIntent_bounds by blast

text \<open>
  The \<open>V_min\<close> warning compares economic value, not raw units: it is printed exactly when the
  amount scaled by the source asset's own decimals is below \<open>vMin\<close> scaled by six decimals.
\<close>

theorem v_min_warning_exact:
  assumes "js_bigint v = Some vm" and "js_bigint a = Some amt"
  shows "below_v_min v (int d) a =
    Inr (rat_of_int amt / 10 ^ d < rat_of_int vm / 10 ^ 6)"
proof -
  have "rat_of_int amt / 10 ^ d < rat_of_int vm / 10 ^ 6
      \<longleftrightarrow> rat_of_int amt * 10 ^ 6 < rat_of_int vm * 10 ^ d"
    by (simp add: divide_less_eq pos_less_divide_eq field_simps)
  also have "\<dots> \<longleftrightarrow> rat_of_int (amt * 10 ^ 6) < rat_of_int (vm * 10 ^ d)"
    by (simp only: of_int_mult of_int_power of_int_numeral)
  also have "\<dots> \<longleftrightarrow> amt * 10 ^ 6 < vm * 10 ^ d" by (simp only: of_int_less_iff)
  finally show ?thesis using assms by (simp only: below_v_min_def) simp
qed

theorem v_min_warning_exact_witness:
  "below_v_min ''10000000'' 18 ''5000000000000000000'' = Inr True"
proof -
  have "js_bigint ''10000000'' = Some 10000000"
    "js_bigint ''5000000000000000000'' = Some 5000000000000000000"
    by (simp_all add: js_bigint_digits digit_string_def is_digit_def char_code_def nat_of_digits_def
        digit_val_def)
  from v_min_warning_exact [OF this, of 18] show ?thesis by simp
qed

text \<open>
  The order of the curve; the code's constant is half of it, rounded down.
\<close>

definition secp256k1_n :: nat where
  "secp256k1_n = 0xfffffffffffffffffffffffffffffffebaaedce6af48a03bbfd25e8cd0364141"

text \<open>
  Signatures of externally owned accounts are not malleable: when a signature is accepted, its
  \<open>s\<close> is at most half the curve order, so the twin with \<open>n - s\<close> that recovers to the same signer is
  refused, whatever its other bytes and whatever the recovery returns for it. Nothing but a
  65-byte signature is accepted either.
\<close>

theorem low_s_only:
  assumes "verifyIntent hashTD recover i sig d opts = Inr True" and "\<not> is_contract_user i opts"
    and "signature_s sig = Some s" and "signature_s twin = Some (secp256k1_n - s)"
  shows "length sig = 132 \<and> verifyIntent hashTD recover i twin d opts = Inr False"
proof -
  from assms(1-3) have len: "length sig = 132" and s: "s \<le> SECP256K1_HALF_N"
    by (auto simp: verifyIntent_def split: if_splits)
  from s have "SECP256K1_HALF_N < secp256k1_n - s"
    by (simp add: SECP256K1_HALF_N_def secp256k1_n_def)
  with assms(2,4) len show ?thesis by (simp add: verifyIntent_def)
qed

definition sample_sig :: hex where
  "sample_sig = ''0x'' @ replicate 64 (CHR ''0'') @ replicate 63 (CHR ''0'') @ ''1'' @ ''1b''"

definition twin_sig :: hex where
  "twin_sig = ''0x'' @ replicate 64 (CHR ''0'') @ ''fffffffffffffffffffffffffffffffebaaedce6af48a03bbfd25e8cd0364140'' @ ''1c''"

definition sample_intent :: intent where
  "sample_intent =
     \<lparr>user = ''0x1111111111111111111111111111111111111111'', destination = sample_account,
      sourceChainId = 8453, sourceAsset = ''0x2222222222222222222222222222222222222222'',
      sourceAmount = ''1000000'', destAsset = ''native'', minDestAmount = ''9900000'',
      deadline = 1600, nonce = ''7'', preferredSolver = zeroAddress\<rparr>"

definition eoa_options :: verify_options where
  "eoa_options = \<lparr>vo_client = None, vo_isContract = None\<rparr>"

lemma radix_zeros: "radix_digits 16 0 (replicate n (CHR ''0'') @ s) = radix_digits 16 0 s"
  by (induction n) (simp_all add: hex_digit_def is_digit_def char_code_def)

lemma sample_sig_s: "signature_s sample_sig = Some 1"
  by (simp add: signature_s_def sample_sig_def radix_nat_def radix_zeros hex_digit_def
      is_digit_def char_code_def Let_def)

lemma twin_sig_s: "signature_s twin_sig = Some (secp256k1_n - 1)"
  by (simp add: signature_s_def twin_sig_def radix_nat_def hex_digit_def is_digit_def char_code_def
      Let_def secp256k1_n_def)

lemma sample_message: "\<exists>m. toMessage sample_intent = Inr m"
  using sample_numerals
  by (simp add: toMessage_def sample_intent_def js_bigint_pos js_bigint_nonneg)

theorem low_s_only_witness:
  "\<exists>recover. verifyIntent (\<lambda>_ _. ''0x'') recover sample_intent sample_sig
       (perihelionDomain 1 zeroAddress) eoa_options = Inr True
     \<and> verifyIntent (\<lambda>_ _. ''0x'') recover sample_intent twin_sig
       (perihelionDomain 1 zeroAddress) eoa_options = Inr False"
proof -
  let ?recover = "\<lambda>d m sig. Inr (user sample_intent)"
  have c: "\<not> is_contract_user sample_intent eoa_options"
    by (simp add: is_contract_user_def eoa_options_def)
  have "length sample_sig = 132" by (simp add: sample_sig_def)
  then have v: "verifyIntent (\<lambda>_ _. ''0x'') ?recover sample_intent sample_sig
      (perihelionDomain 1 zeroAddress) eoa_options = Inr True"
    using c sample_message by (auto simp: verifyIntent_def sample_sig_s SECP256K1_HALF_N_def)
  show ?thesis
    using v low_s_only [OF v c sample_sig_s twin_sig_s] by blast
qed

end
