(* ===== verification/Sdk_Validate.thy ===== *)
theory Sdk_Validate
  imports Sdk_Intent
begin

text \<open>
  \<^verbatim>\<open>sdk/src/validate.ts\<close>: validation of the JSON a mempool returns. Every function takes an
  arbitrary JSON value and either narrows it or throws a \<open>MempoolResponseError\<close>; the model's error
  keeps the name of the offending field and drops the rendered value.
\<close>

section \<open>The code\<close>

definition MEMPOOL_STATUSES :: "intent_status list" where
  "MEMPOOL_STATUSES = [Pending, Settled, Refunded, Expired]"

definition asObject :: "jval \<Rightarrow> string \<Rightarrow> (sdk_error, (string \<times> jval) list) result" where
  "asObject value what =
     (case value of JObj obj \<Rightarrow> Inr obj | _ \<Rightarrow> Inl (MempoolResponseError what))"

definition asString :: "jval \<Rightarrow> string \<Rightarrow> (sdk_error, string) result" where
  "asString value field =
     (case value of JStr s \<Rightarrow> Inr s | _ \<Rightarrow> Inl (MempoolResponseError field))"

definition asFiniteNumber :: "jval \<Rightarrow> string \<Rightarrow> (sdk_error, jsnum) result" where
  "asFiniteNumber value field =
     (case value of
        JNum n \<Rightarrow> if is_finite_num n then Inr n else Inl (MempoolResponseError field)
      | _ \<Rightarrow> Inl (MempoolResponseError field))"

definition asTimestampInSeconds :: "jval \<Rightarrow> string \<Rightarrow> (sdk_error, int) result" where
  "asTimestampInSeconds value field =
     bind_result (asFiniteNumber value field) (\<lambda>n.
       if \<not> is_integer n \<or> js_lt n (Num 0) \<or> js_le (Num 100000000000) n
       then Inl (MempoolResponseError field) else Inr (int_of_num n))"

definition asPositiveInteger :: "jval \<Rightarrow> string \<Rightarrow> (sdk_error, int) result" where
  "asPositiveInteger value field =
     (case value of
        JNum n \<Rightarrow>
          if \<not> is_integer n \<or> js_le n (Num 0) then Inl (MempoolResponseError field)
          else Inr (int_of_num n)
      | _ \<Rightarrow> Inl (MempoolResponseError field))"

definition asAddress :: "(string \<Rightarrow> bool) \<Rightarrow> jval \<Rightarrow> string \<Rightarrow> (sdk_error, address) result" where
  "asAddress isAddress value field =
     (case value of
        JStr s \<Rightarrow> if isAddress s then Inr s else Inl (MempoolResponseError field)
      | _ \<Rightarrow> Inl (MempoolResponseError field))"

definition asHash :: "jval \<Rightarrow> string \<Rightarrow> (sdk_error, hex) result" where
  "asHash value field =
     (case value of
        JStr s \<Rightarrow> if hex_string 64 s then Inr s else Inl (MempoolResponseError field)
      | _ \<Rightarrow> Inl (MempoolResponseError field))"

definition asSignature :: "jval \<Rightarrow> string \<Rightarrow> (sdk_error, hex) result" where
  "asSignature value field =
     (case value of
        JStr s \<Rightarrow> if hex_string 130 s then Inr s else Inl (MempoolResponseError field)
      | _ \<Rightarrow> Inl (MempoolResponseError field))"

definition asStellarAddress :: "jval \<Rightarrow> string \<Rightarrow> (sdk_error, string) result" where
  "asStellarAddress value field =
     bind_result (asString value field) (\<lambda>s.
       if \<not> isStellarAddress s then Inl (MempoolResponseError field) else Inr s)"

definition asStellarAsset :: "jval \<Rightarrow> string \<Rightarrow> (sdk_error, string) result" where
  "asStellarAsset value field =
     bind_result (asString value field) (\<lambda>s.
       if \<not> isStellarAsset s then Inl (MempoolResponseError field) else Inr s)"

definition asIntegerString :: "jval \<Rightarrow> string \<Rightarrow> (sdk_error, string) result" where
  "asIntegerString value field =
     bind_result (asString value field) (\<lambda>s.
       if \<not> nonneg_numeral s then Inl (MempoolResponseError field) else Inr s)"

definition asPositiveIntegerString :: "jval \<Rightarrow> string \<Rightarrow> (sdk_error, string) result" where
  "asPositiveIntegerString value field =
     bind_result (asString value field) (\<lambda>s.
       if \<not> isPositiveIntString s then Inl (MempoolResponseError field) else Inr s)"

definition parseIntent :: "(string \<Rightarrow> bool) \<Rightarrow> jval \<Rightarrow> (sdk_error, intent) result" where
  "parseIntent isAddress value =
     bind_result (asObject value ''intent'') (\<lambda>v.
     bind_result (asAddress isAddress (obj_get v ''user'') ''intent.user'') (\<lambda>a_user.
     bind_result (asStellarAddress (obj_get v ''destination'') ''intent.destination'') (\<lambda>a_dest.
     bind_result (asPositiveInteger (obj_get v ''sourceChainId'') ''intent.sourceChainId'') (\<lambda>a_chain.
     bind_result (asAddress isAddress (obj_get v ''sourceAsset'') ''intent.sourceAsset'') (\<lambda>a_asset.
     bind_result (asPositiveIntegerString (obj_get v ''sourceAmount'') ''intent.sourceAmount'') (\<lambda>a_amount.
     bind_result (asStellarAsset (obj_get v ''destAsset'') ''intent.destAsset'') (\<lambda>a_dasset.
     bind_result (asPositiveIntegerString (obj_get v ''minDestAmount'') ''intent.minDestAmount'') (\<lambda>a_min.
     bind_result (asPositiveInteger (obj_get v ''deadline'') ''intent.deadline'') (\<lambda>a_deadline.
     bind_result (asIntegerString (obj_get v ''nonce'') ''intent.nonce'') (\<lambda>a_nonce.
     bind_result (asAddress isAddress (obj_get v ''preferredSolver'') ''intent.preferredSolver'') (\<lambda>a_solver.
       Inr \<lparr>user = a_user, destination = a_dest, sourceChainId = a_chain, sourceAsset = a_asset,
            sourceAmount = a_amount, destAsset = a_dasset, minDestAmount = a_min,
            deadline = a_deadline, nonce = a_nonce, preferredSolver = a_solver\<rparr>)))))))))))"

definition parseSignedIntent :: "(string \<Rightarrow> bool) \<Rightarrow> jval \<Rightarrow> (sdk_error, signed_intent) result" where
  "parseSignedIntent isAddress value =
     bind_result (asObject value ''signed intent'') (\<lambda>v.
     bind_result (parseIntent isAddress (obj_get v ''intent'')) (\<lambda>i.
     bind_result (asSignature (obj_get v ''signature'') ''signature'') (\<lambda>sig.
     bind_result (asHash (obj_get v ''hash'') ''hash'') (\<lambda>h.
       Inr \<lparr>intent_of = i, signature = sig, hash = h\<rparr>))))"

definition status_field :: "jval \<Rightarrow> (sdk_error, intent_status) result" where
  "status_field value =
     (case value of
        JStr s \<Rightarrow>
          (case status_of_name MEMPOOL_STATUSES s of
             None \<Rightarrow> Inl (MempoolResponseError ''status'')
           | Some st \<Rightarrow> Inr st)
      | _ \<Rightarrow> Inl (MempoolResponseError ''status''))"

text \<open>A field that may be absent: checked only when it is not \<open>undefined\<close>.\<close>

definition optional_field ::
  "(jval \<Rightarrow> string \<Rightarrow> (sdk_error, 'a) result) \<Rightarrow> jval \<Rightarrow> string \<Rightarrow> (sdk_error, 'a option) result" where
  "optional_field f value field =
     (if value = JUndef then Inr None else bind_result (f value field) (\<lambda>x. Inr (Some x)))"

definition parseIntentRecord :: "(string \<Rightarrow> bool) \<Rightarrow> jval \<Rightarrow> (sdk_error, intent_record) result" where
  "parseIntentRecord isAddress value =
     bind_result (asObject value ''intent record'') (\<lambda>v.
     bind_result (parseSignedIntent isAddress value) (\<lambda>signed.
     bind_result (status_field (obj_get v ''status'')) (\<lambda>st.
     bind_result (optional_field (asAddress isAddress) (obj_get v ''solver'') ''solver'') (\<lambda>sol.
     bind_result (optional_field asString (obj_get v ''settlementTx'') ''settlementTx'') (\<lambda>tx.
     bind_result (asTimestampInSeconds (obj_get v ''createdAt'') ''createdAt'') (\<lambda>t.
       Inr \<lparr>intent_of = intent_of signed, signature = signature signed, hash = hash signed,
            status = st, solver = sol, settlementTx = tx, createdAt = t\<rparr>))))))"

definition DEFAULT_MAX_INTENT_RECORDS :: int where
  "DEFAULT_MAX_INTENT_RECORDS = 5000"

definition parseIntentRecordArray ::
  "(string \<Rightarrow> bool) \<Rightarrow> jval \<Rightarrow> int \<Rightarrow> (sdk_error, intent_record list) result" where
  "parseIntentRecordArray isAddress value maxLimit =
     (case value of
        JArr xs \<Rightarrow>
          if maxLimit < int (length xs) then Inl (MempoolResponseTooLargeError (length xs) maxLimit)
          else map_result (parseIntentRecord isAddress) xs
      | _ \<Rightarrow> Inl (MempoolResponseError ''array''))"

section \<open>The JSON form of a record\<close>

definition intent_json :: "intent \<Rightarrow> jval" where
  "intent_json i = JObj
     [(''user'', JStr (user i)), (''destination'', JStr (destination i)),
      (''sourceChainId'', JNum (num_of_int (sourceChainId i))),
      (''sourceAsset'', JStr (sourceAsset i)), (''sourceAmount'', JStr (sourceAmount i)),
      (''destAsset'', JStr (destAsset i)), (''minDestAmount'', JStr (minDestAmount i)),
      (''deadline'', JNum (num_of_int (deadline i))), (''nonce'', JStr (nonce i)),
      (''preferredSolver'', JStr (preferredSolver i))]"

text \<open>What \<open>parseIntent\<close> guarantees of the intents it returns.\<close>

definition wire_intent :: "(string \<Rightarrow> bool) \<Rightarrow> intent \<Rightarrow> bool" where
  "wire_intent isAddress i \<longleftrightarrow>
     isAddress (user i) \<and> isStellarAddress (destination i) \<and> 0 < sourceChainId i
     \<and> isAddress (sourceAsset i) \<and> pos_numeral (sourceAmount i) \<and> isStellarAsset (destAsset i)
     \<and> pos_numeral (minDestAmount i) \<and> 0 < deadline i \<and> nonneg_numeral (nonce i)
     \<and> isAddress (preferredSolver i)"

section \<open>Facts about the code\<close>

lemmas as_defs =
  asObject_def asString_def asFiniteNumber_def asTimestampInSeconds_def asPositiveInteger_def
  asAddress_def asHash_def asSignature_def asStellarAddress_def asStellarAsset_def
  asIntegerString_def asPositiveIntegerString_def

lemma obj_get_intent_json:
  "intent_json i = JObj obj \<Longrightarrow>
     obj_get obj ''user'' = JStr (user i) \<and> obj_get obj ''destination'' = JStr (destination i)
     \<and> obj_get obj ''sourceChainId'' = JNum (num_of_int (sourceChainId i))
     \<and> obj_get obj ''sourceAsset'' = JStr (sourceAsset i)
     \<and> obj_get obj ''sourceAmount'' = JStr (sourceAmount i)
     \<and> obj_get obj ''destAsset'' = JStr (destAsset i)
     \<and> obj_get obj ''minDestAmount'' = JStr (minDestAmount i)
     \<and> obj_get obj ''deadline'' = JNum (num_of_int (deadline i))
     \<and> obj_get obj ''nonce'' = JStr (nonce i)
     \<and> obj_get obj ''preferredSolver'' = JStr (preferredSolver i)"
  by (auto simp: intent_json_def obj_get_def)

lemma asAddress_Inr: "asAddress f v l = Inr s \<longleftrightarrow> v = JStr s \<and> f s"
  by (auto simp: asAddress_def split: jval.splits if_splits)

lemma asStellarAddress_Inr: "asStellarAddress v l = Inr s \<longleftrightarrow> v = JStr s \<and> isStellarAddress s"
  by (auto simp: asStellarAddress_def asString_def bind_result_Inr_iff split: jval.splits if_splits)

lemma asStellarAsset_Inr: "asStellarAsset v l = Inr s \<longleftrightarrow> v = JStr s \<and> isStellarAsset s"
  by (auto simp: asStellarAsset_def asString_def bind_result_Inr_iff split: jval.splits if_splits)

lemma asIntegerString_Inr: "asIntegerString v l = Inr s \<longleftrightarrow> v = JStr s \<and> nonneg_numeral s"
  by (auto simp: asIntegerString_def asString_def bind_result_Inr_iff split: jval.splits if_splits)

lemma asPositiveIntegerString_Inr:
  "asPositiveIntegerString v l = Inr s \<longleftrightarrow> v = JStr s \<and> pos_numeral s"
  by (auto simp: asPositiveIntegerString_def isPositiveIntString_def asString_def bind_result_Inr_iff
      split: jval.splits if_splits)

lemma asPositiveInteger_Inr:
  "asPositiveInteger v l = Inr k \<longleftrightarrow> v = JNum (num_of_int k) \<and> 0 < k"
proof
  assume "asPositiveInteger v l = Inr k"
  then obtain n where n: "v = JNum n" "is_integer n" "\<not> js_le n (Num 0)" "k = int_of_num n"
    by (auto simp: asPositiveInteger_def split: jval.splits if_splits)
  then show "v = JNum (num_of_int k) \<and> 0 < k"
    by (auto simp: js_le_integer_0 simp flip: is_integer_iff)
qed (simp add: asPositiveInteger_def)

lemmas as_Inr_iffs =
  asAddress_Inr asStellarAddress_Inr asStellarAsset_Inr asIntegerString_Inr
  asPositiveIntegerString_Inr asPositiveInteger_Inr

lemma parseIntent_wire: "parseIntent isAddress v = Inr i \<Longrightarrow> wire_intent isAddress i"
  unfolding parseIntent_def wire_intent_def bind_result_Inr_iff as_Inr_iffs by auto

lemma intent_json_obj: "\<exists>obj. intent_json i = JObj obj"
  by (simp add: intent_json_def)

lemma wire_parseIntent: "wire_intent isAddress i \<Longrightarrow> parseIntent isAddress (intent_json i) = Inr i"
proof -
  assume w: "wire_intent isAddress i"
  obtain obj where obj: "intent_json i = JObj obj" using intent_json_obj by blast
  note get = obj_get_intent_json [OF obj]
  show ?thesis
    using w unfolding parseIntent_def obj wire_intent_def
    by (simp add: get asObject_def asAddress_def asStellarAddress_def asStellarAsset_def asString_def
        asIntegerString_def asPositiveIntegerString_def isPositiveIntString_def asPositiveInteger_def)
qed

text \<open>
  C35. A mempool round trip preserves an intent and nothing else gets through: parsing the JSON form of
  an intent returns that very intent exactly when its fields meet the wire rules, and every
  intent the parser ever returns meets them.
\<close>

theorem parseIntent_roundtrip:
  "(parseIntent isAddress (intent_json i) = Inr i \<longleftrightarrow> wire_intent isAddress i)
   \<and> (\<forall>v j. parseIntent isAddress v = Inr j \<longrightarrow> wire_intent isAddress j)"
  using parseIntent_wire wire_parseIntent by blast

theorem parseIntent_roundtrip_witness:
  "parseIntent (hex_string 40) (intent_json sample_intent) = Inr sample_intent
   \<and> wire_intent (hex_string 40) sample_intent"
proof -
  have "hex_string 40 (user sample_intent)" "hex_string 40 (sourceAsset sample_intent)"
    "hex_string 40 zeroAddress"
    by (simp_all add: hex_string_def sample_intent_def zeroAddress_def)
  then have "wire_intent (hex_string 40) sample_intent"
    using sample_numerals sample_account_valid
    by (simp add: wire_intent_def sample_intent_def isStellarAsset_def)
  with parseIntent_roundtrip [of "hex_string 40" sample_intent] show ?thesis by blast
qed

text \<open>
  The two validators agree in the direction a user needs: whatever \<open>buildIntent\<close> returns is
  accepted unchanged when it comes back through the mempool's JSON. The only facts used of viem
  are that its zero address passes \<open>isAddress\<close> and of the nonce that it is a numeral.
\<close>

theorem built_intent_parses:
  assumes "buildIntent isAddress rn now p opts = Inr (i, w)"
    and "isAddress zeroAddress" and "nonneg_numeral rn" and "0 \<le> now"
  shows "parseIntent isAddress (intent_json i) = Inr i"
proof -
  have "validateIntent isAddress p now = Inr ()"
    using assms(1) by (auto simp: buildIntent_def bind_result_Inr_iff)
  then have vp: "valid_params isAddress p now" by (simp only: validateIntent_ok_iff)
  have i: "user i = p_user p" "destination i = p_destination p"
    "sourceChainId i = int_of_num (p_sourceChainId p)" "sourceAsset i = p_sourceAsset p"
    "sourceAmount i = p_sourceAmount p" "destAsset i = p_destAsset p"
    "minDestAmount i = p_minDestAmount p" "deadline i = int_of_num (p_deadline p)"
    "nonce i = option_default (p_nonce p) rn"
    "preferredSolver i = option_default (p_preferredSolver p) zeroAddress"
    using assms(1) by (auto simp: buildIntent_def Let_def bind_result_Inr_iff split: if_splits)
  have "wire_intent isAddress i"
    using vp assms(2-4) unfolding wire_intent_def i valid_params_def
    by (auto simp: option_default_def split: option.splits)
  then show ?thesis by (rule wire_parseIntent)
qed

theorem built_intent_parses_witness:
  "\<exists>i. buildIntent (hex_string 40) ''0'' 1000 sample_params sample_options = Inr (i, False)
     \<and> parseIntent (hex_string 40) (intent_json i) = Inr i"
proof -
  have "hex_string 40 zeroAddress" by (simp add: hex_string_def zeroAddress_def)
  moreover have "nonneg_numeral ''0''" by (simp add: nonneg_numeral_def)
  ultimately show ?thesis using sample_build built_intent_parses by fastforce
qed

text \<open>
  C34. The signed message determines the intent: for intents that came through the parser,
  \<open>toMessage\<close> never throws and no two of them have the same EIP-712 message, because numerals have
  a single spelling. Two different intents can thus share a hash only if the typed-data hash
  itself collides.
\<close>

theorem message_determines_intent:
  assumes "parseIntent isAddress v = Inr i" and "parseIntent isAddress w = Inr j"
  shows "(\<exists>m. toMessage i = Inr m) \<and> (toMessage i = toMessage j \<longrightarrow> i = j)"
proof -
  have wi: "wire_intent isAddress i" "wire_intent isAddress j"
    using assms parseIntent_wire by blast+
  then have num: "js_bigint (sourceAmount k) = Some (int (nat_of_digits (sourceAmount k)))"
    "js_bigint (minDestAmount k) = Some (int (nat_of_digits (minDestAmount k)))"
    "js_bigint (nonce k) = Some (int (nat_of_digits (nonce k)))"
    "nonneg_numeral (sourceAmount k)" "nonneg_numeral (minDestAmount k)" "nonneg_numeral (nonce k)"
    if "k = i \<or> k = j" for k
    using that by (auto simp: wire_intent_def js_bigint_pos js_bigint_nonneg nonneg_numeral_def)
  have "\<exists>m. toMessage i = Inr m" by (simp add: toMessage_def num)
  moreover have "i = j" if "toMessage i = toMessage j"
  proof (rule intent.equality)
    show "sourceAmount i = sourceAmount j" "minDestAmount i = minDestAmount j" "nonce i = nonce j"
      using that num [of i] num [of j] nonneg_numeral_inject by (auto simp: toMessage_def)
  qed (use that in \<open>simp_all add: toMessage_def num\<close>)
  ultimately show ?thesis by blast
qed

theorem message_determines_intent_witness:
  "toMessage sample_intent \<noteq> toMessage (sample_intent\<lparr>nonce := ''8''\<rparr>)"
proof -
  let ?other = "sample_intent\<lparr>nonce := ''8''\<rparr>"
  have "hex_string 40 (user sample_intent)" "hex_string 40 (sourceAsset sample_intent)"
    "hex_string 40 zeroAddress"
    by (simp_all add: hex_string_def sample_intent_def zeroAddress_def)
  moreover have "nonneg_numeral ''8''"
    by (simp add: nonneg_numeral_def pos_numeral_def digit_string_def is_digit_def char_code_def)
  ultimately have "wire_intent (hex_string 40) sample_intent" "wire_intent (hex_string 40) ?other"
    using sample_numerals sample_account_valid
    by (simp_all add: wire_intent_def sample_intent_def isStellarAsset_def)
  then have p: "parseIntent (hex_string 40) (intent_json sample_intent) = Inr sample_intent"
    "parseIntent (hex_string 40) (intent_json ?other) = Inr ?other"
    by (simp_all only: wire_parseIntent)
  have "sample_intent \<noteq> ?other" by (simp add: sample_intent_def)
  then show ?thesis using message_determines_intent [OF p] by blast
qed

section \<open>Records\<close>

text \<open>A record as the mempool serialises it; \<open>JSON.stringify\<close> leaves out undefined members.\<close>

definition optional_member :: "string \<Rightarrow> string option \<Rightarrow> (string \<times> jval) list" where
  "optional_member k v = (case v of None \<Rightarrow> [] | Some s \<Rightarrow> [(k, JStr s)])"

definition signed_members :: "intent \<Rightarrow> hex \<Rightarrow> hex \<Rightarrow> (string \<times> jval) list" where
  "signed_members i sig h =
     [(''intent'', intent_json i), (''signature'', JStr sig), (''hash'', JStr h)]"

definition record_json :: "intent_record \<Rightarrow> jval" where
  "record_json r = JObj
     (signed_members (intent_of r) (signature r) (hash r)
      @ [(''status'', JStr (status_name (status r)))]
      @ optional_member ''solver'' (solver r) @ optional_member ''settlementTx'' (settlementTx r)
      @ [(''createdAt'', JNum (num_of_int (createdAt r)))])"

definition wire_signed :: "(string \<Rightarrow> bool) \<Rightarrow> intent \<Rightarrow> hex \<Rightarrow> hex \<Rightarrow> bool" where
  "wire_signed isAddress i sig h \<longleftrightarrow>
     wire_intent isAddress i \<and> hex_string 130 sig \<and> hex_string 64 h"

definition wire_record :: "(string \<Rightarrow> bool) \<Rightarrow> intent_record \<Rightarrow> bool" where
  "wire_record isAddress r \<longleftrightarrow>
     wire_signed isAddress (intent_of r) (signature r) (hash r)
     \<and> (\<forall>a. solver r = Some a \<longrightarrow> isAddress a)
     \<and> 0 \<le> createdAt r \<and> createdAt r < 100000000000"

lemma obj_get_Cons:
  "obj_get (e # es) k = (if k \<in> fst ` set es then obj_get es k else if fst e = k then snd e else JUndef)"
proof -
  have "map_of (rev es) k = None \<longleftrightarrow> k \<notin> fst ` set es" by (simp add: map_of_eq_None_iff)
  then show ?thesis by (cases e) (auto simp: obj_get_def map_add_def split: option.splits)
qed

lemma obj_get_Nil [simp]: "obj_get [] k = JUndef"
  by (simp add: obj_get_def)

lemma parseSignedIntent_members:
  assumes "wire_signed isAddress i sig h"
    and "obj_get obj ''intent'' = intent_json i" "obj_get obj ''signature'' = JStr sig"
      "obj_get obj ''hash'' = JStr h"
  shows "parseSignedIntent isAddress (JObj obj) = Inr \<lparr>intent_of = i, signature = sig, hash = h\<rparr>"
  using assms by (simp add: parseSignedIntent_def asObject_def wire_signed_def wire_parseIntent
      asSignature_def asHash_def)

lemma asTimestampInSeconds_int:
  "0 \<le> k \<Longrightarrow> k < 100000000000 \<Longrightarrow> asTimestampInSeconds (JNum (num_of_int k)) l = Inr k"
  by (simp add: asTimestampInSeconds_def asFiniteNumber_def is_finite_num_def)

lemma status_field_name:
  "status_field (JStr (status_name st)) =
     (if st \<in> set MEMPOOL_STATUSES then Inr st else Inl (MempoolResponseError ''status''))"
proof (cases "status_of_name MEMPOOL_STATUSES (status_name st)")
  case None
  then have "st \<notin> set MEMPOOL_STATUSES" by (auto simp: status_of_name_None)
  with None show ?thesis by (simp add: status_field_def)
next
  case (Some t)
  then have "t = st" "st \<in> set MEMPOOL_STATUSES" by (auto simp: status_of_name_Some)
  with Some show ?thesis by (simp add: status_field_def)
qed

lemma record_json_gets:
  assumes "record_json r = JObj obj"
  shows "obj_get obj ''intent'' = intent_json (intent_of r) \<and> obj_get obj ''signature'' = JStr (signature r)
    \<and> obj_get obj ''hash'' = JStr (hash r) \<and> obj_get obj ''status'' = JStr (status_name (status r))
    \<and> obj_get obj ''solver'' = (case solver r of None \<Rightarrow> JUndef | Some a \<Rightarrow> JStr a)
    \<and> obj_get obj ''settlementTx'' = (case settlementTx r of None \<Rightarrow> JUndef | Some a \<Rightarrow> JStr a)
    \<and> obj_get obj ''createdAt'' = JNum (num_of_int (createdAt r))"
  using assms
  by (auto simp: record_json_def signed_members_def optional_member_def obj_get_Cons split: option.splits)

lemma parseIntentRecord_json:
  assumes "wire_record isAddress r"
  shows "parseIntentRecord isAddress (record_json r) =
    (if status r \<in> set MEMPOOL_STATUSES then Inr r else Inl (MempoolResponseError ''status''))"
proof -
  obtain obj where obj: "record_json r = JObj obj" by (simp add: record_json_def)
  note get = record_json_gets [OF obj]
  have "parseSignedIntent isAddress (JObj obj) =
      Inr \<lparr>intent_of = intent_of r, signature = signature r, hash = hash r\<rparr>"
    using assms get by (intro parseSignedIntent_members) (auto simp: wire_record_def)
  then show ?thesis
    using assms get unfolding obj parseIntentRecord_def wire_record_def
    by (auto simp: asObject_def status_field_name optional_field_def asAddress_def asString_def
        asTimestampInSeconds_int split: option.splits)
qed

definition sample_intent_record :: "intent_status \<Rightarrow> intent_record" where
  "sample_intent_record st =
     \<lparr>intent_of = sample_intent, signature = sample_sig, hash = ''0x'' @ replicate 64 (CHR ''a''),
      status = st, solver = None, settlementTx = None, createdAt = 1000\<rparr>"

lemma sample_intent_wire: "wire_intent (hex_string 40) sample_intent"
proof -
  have "hex_string 40 (user sample_intent)" "hex_string 40 (sourceAsset sample_intent)"
    "hex_string 40 zeroAddress"
    by (simp_all add: hex_string_def sample_intent_def zeroAddress_def)
  then show ?thesis
    using sample_numerals sample_account_valid
    by (simp add: wire_intent_def sample_intent_def isStellarAsset_def)
qed

lemma sample_record_wire: "wire_record (hex_string 40) (sample_intent_record st)"
proof -
  have "is_hex (CHR ''0'')" "is_hex (CHR ''1'')" "is_hex (CHR ''a'')" "is_hex (CHR ''b'')"
    by (simp_all add: is_hex_def is_hex_lower_def is_digit_def char_code_def)
  then have "hex_string 130 sample_sig" "hex_string 64 (''0x'' @ replicate 64 (CHR ''a''))"
    by (simp_all add: hex_string_def sample_sig_def list_all_iff)
  then show ?thesis
    by (simp add: wire_record_def wire_signed_def sample_intent_record_def sample_intent_wire)
qed

text \<open>
  A well-formed record that a mempool serialises comes back from the client's parser
  unchanged when its status is pending, settled, refunded or expired. A \<open>filled\<close> record, which
  the mempool stores and serves like any other, is always refused: the client's status set leaves
  it out, so reading an intent fails between its fill and its settlement.
\<close>

theorem record_roundtrip_except_filled:
  assumes "wire_record isAddress r" and "status r \<in> set mempool_statuses"
  shows "parseIntentRecord isAddress (record_json r) =
    (if status r = Filled then Inl (MempoolResponseError ''status'') else Inr r)"
  using assms by (auto simp: parseIntentRecord_json mempool_statuses_def MEMPOOL_STATUSES_def)

theorem record_roundtrip_except_filled_witness:
  "parseIntentRecord (hex_string 40) (record_json (sample_intent_record Settled))
     = Inr (sample_intent_record Settled)
   \<and> parseIntentRecord (hex_string 40) (record_json (sample_intent_record Filled))
     = Inl (MempoolResponseError ''status'')"
  using record_roundtrip_except_filled [OF sample_record_wire, of Settled]
    record_roundtrip_except_filled [OF sample_record_wire, of Filled]
  by (simp add: sample_intent_record_def mempool_statuses_def)

end
