(* ===== verification/Paging.thy ===== *)
theory Paging
  imports Prelude
begin

text \<open>
  The contract between a paginated listing and the clients that walk it. A provider answers a query
  with the first \<open>n\<close> elements after a cursor, and with the key of the last one as the next cursor
  while more remain. The locale \<open>paged_source\<close> states this once; its lemmas say what a walk that
  follows the cursors collects. \<open>Mempool_Store\<close> interprets it with the store's \<open>list\<close>,
  \<open>Sdk_Client\<close> proves the SDK's \<open>listPending\<close> against it.
\<close>

fun after :: "('r \<Rightarrow> 'c) \<Rightarrow> 'c \<Rightarrow> 'r list \<Rightarrow> 'r list" where
  "after key c [] = []"
| "after key c (r # rs) = (if key r = c then rs else after key c rs)"

definition chunk :: "('r \<Rightarrow> 'c) \<Rightarrow> nat \<Rightarrow> 'r list \<Rightarrow> 'r list \<times> 'c option" where
  "chunk key n rs = (take n rs, if n < length rs then Some (key (last (take n rs))) else None)"

lemma after_split:
  "distinct (map key (xs @ r # ys)) \<Longrightarrow> after key (key r) (xs @ r # ys) = ys"
  by (induction xs) auto

lemma after_take:
  assumes "distinct (map key rs)" and "0 < n" and "n < length rs"
  shows "after key (key (last (take n rs))) rs = drop n rs"
proof -
  obtain m where n: "n = Suc m" using assms(2) by (cases n) auto
  with assms(3) have m: "m < length rs" by simp
  have "rs = take m rs @ rs ! m # drop n rs"
    using m n by (simp add: id_take_nth_drop)
  moreover have "last (take n rs) = rs ! m"
    using m n by (simp add: take_Suc_conv_app_nth)
  ultimately show ?thesis
    using assms(1) after_split by metis
qed

locale paged_source =
  fixes ok :: "'s \<Rightarrow> bool"
    and key :: "'r \<Rightarrow> 'c"
    and contents :: "'s \<Rightarrow> 'q \<Rightarrow> 'r list"
    and page :: "'s \<Rightarrow> 'q \<Rightarrow> nat \<Rightarrow> 'c option \<Rightarrow> 'r list \<times> 'c option"
  assumes distinct_keys: "ok s \<Longrightarrow> distinct (map key (contents s q))"
    and first_page: "ok s \<Longrightarrow> 0 < n \<Longrightarrow> page s q n None = chunk key n (contents s q)"
    and next_page: "ok s \<Longrightarrow> 0 < n \<Longrightarrow> r \<in> set (contents s q) \<Longrightarrow>
      page s q n (Some (key r)) = chunk key n (after key (key r) (contents s q))"
begin

text \<open>The cursor reached after \<open>k\<close> full pages, and the page it leads to.\<close>

definition cursor_at :: "'s \<Rightarrow> 'q \<Rightarrow> nat \<Rightarrow> nat \<Rightarrow> 'c option" where
  "cursor_at s q n k = (if k = 0 then None else Some (key (last (take (k * n) (contents s q)))))"

lemma page_at:
  assumes "ok s" and "0 < n" and "k = 0 \<or> k * n < length (contents s q)"
  shows "page s q n (cursor_at s q n k) = chunk key n (drop (k * n) (contents s q))"
proof (cases "k = 0")
  case True
  then show ?thesis using assms first_page by (simp add: cursor_at_def)
next
  case False
  let ?l = "last (take (k * n) (contents s q))"
  have "take (k * n) (contents s q) \<noteq> []" using False assms by auto
  then have "?l \<in> set (contents s q)" by (meson in_set_takeD last_in_set)
  then show ?thesis
    using False assms next_page [of s n ?l q] after_take [of key "contents s q" "k * n"]
      distinct_keys [of s q]
    by (simp add: cursor_at_def)
qed

lemma next_cursor_at:
  assumes "ok s" and "0 < n" and "k = 0 \<or> k * n < length (contents s q)"
  shows "snd (page s q n (cursor_at s q n k)) =
    (if Suc k * n < length (contents s q) then cursor_at s q n (Suc k) else None)"
proof -
  let ?c = "contents s q"
  have "last (take n (drop (k * n) ?c)) = last (take (Suc k * n) ?c)"
    if "Suc k * n < length ?c"
  proof -
    have "take (Suc k * n) ?c = take (k * n) ?c @ take n (drop (k * n) ?c)"
      by (metis add.commute mult_Suc take_add)
    moreover have "take n (drop (k * n) ?c) \<noteq> []" using that assms(2) by simp
    ultimately show ?thesis by simp
  qed
  then show ?thesis
    using page_at [OF assms] by (auto simp: chunk_def cursor_at_def less_diff_conv add.commute)
qed

lemma page_records_at:
  assumes "ok s" and "0 < n" and "k = 0 \<or> k * n < length (contents s q)"
  shows "take (k * n) (contents s q) @ fst (page s q n (cursor_at s q n k))
       = take (Suc k * n) (contents s q)"
proof -
  have "take (k * n + n) (contents s q) = take (k * n) (contents s q) @ take n (drop (k * n) (contents s q))"
    by (rule take_add)
  then show ?thesis using page_at [OF assms] by (simp add: chunk_def add.commute)
qed

lemma cursor_at_inject:
  assumes "ok s" and "0 < n" and "j < k" and "k * n < length (contents s q)"
  shows "cursor_at s q n j \<noteq> cursor_at s q n k"
proof (cases "j = 0")
  case False
  let ?c = "contents s q"
  have lt: "j * n < k * n" using assms(2,3) by simp
  have nth: "last (take m ?c) = ?c ! (m - 1)" if "0 < m" "m < length ?c" for m
    using that by (cases m) (simp_all add: take_Suc_conv_app_nth)
  have "0 < j * n" "0 < k * n" using False assms(2,3) by auto
  then have "last (take (j * n) ?c) = ?c ! (j * n - 1)" "last (take (k * n) ?c) = ?c ! (k * n - 1)"
    using nth [of "j * n"] nth [of "k * n"] lt assms(4) by simp_all
  moreover have "key (?c ! (j * n - 1)) \<noteq> key (?c ! (k * n - 1))"
  proof -
    have "j * n - 1 < length ?c" "k * n - 1 < length ?c" "j * n - 1 \<noteq> k * n - 1"
      using lt assms(4) \<open>0 < j * n\<close> by linarith+
    then have "map key ?c ! (j * n - 1) \<noteq> map key ?c ! (k * n - 1)"
      using distinct_keys [OF assms(1), of q] by (metis nth_eq_iff_index_eq length_map)
    then show ?thesis
      using \<open>j * n - 1 < length ?c\<close> \<open>k * n - 1 < length ?c\<close> by simp
  qed
  ultimately show ?thesis using False assms(3) by (simp add: cursor_at_def)
qed (use assms in \<open>simp add: cursor_at_def\<close>)

end

end
