(* ===== verification/Mempool_Store.thy ===== *)
theory Mempool_Store
  imports Sdk_Validate Paging
begin

text \<open>
  \<^verbatim>\<open>mempool/src/store.ts\<close> and \<^verbatim>\<open>mempool/src/types.ts\<close>: the in-memory intent store. The two
  JavaScript collections, the \<open>Map\<close> of records and the status index of \<open>Set\<close>s, are kept in
  insertion order, because eviction and pagination depend on it. The theory proves that the index
  always agrees with the records, that the bound is kept, and what each operation does to a lookup.
\<close>

section \<open>The code\<close>

record mempool_record = signed_intent +
  mr_status :: intent_status
  mr_createdAt :: int

record store =
  records :: "(hex, mempool_record) assoc"
  byStatus :: "(intent_status, hex list) assoc"
  maxSize :: int
  expiryGraceMs :: int

definition DEFAULT_MAX_SIZE :: int where "DEFAULT_MAX_SIZE = 50000"

definition DEFAULT_EXPIRY_GRACE_MS :: int where "DEFAULT_EXPIRY_GRACE_MS = 60000"

definition TERMINAL_STATUSES :: "intent_status list" where
  "TERMINAL_STATUSES = [Settled, Refunded, Expired]"

abbreviation terminal :: "intent_status \<Rightarrow> bool" where
  "terminal st \<equiv> st \<in> set TERMINAL_STATUSES"

definition new_store :: "int option \<Rightarrow> int option \<Rightarrow> store" where
  "new_store max_size grace =
     \<lparr>records = [], byStatus = [], maxSize = option_default max_size DEFAULT_MAX_SIZE,
      expiryGraceMs = option_default grace DEFAULT_EXPIRY_GRACE_MS\<rparr>"

text \<open>\<open>this.byStatus.get(status) ?? new Set()\<close>\<close>

definition index :: "store \<Rightarrow> intent_status \<Rightarrow> hex list" where
  "index s st = option_default (assoc_get (byStatus s) st) []"

definition indexAdd :: "hex \<Rightarrow> intent_status \<Rightarrow> store \<Rightarrow> store" where
  "indexAdd h st s =
     s\<lparr>byStatus := assoc_set st (if h \<in> set (index s st) then index s st else index s st @ [h])
                    (byStatus s)\<rparr>"

definition indexRemove :: "hex \<Rightarrow> intent_status \<Rightarrow> store \<Rightarrow> store" where
  "indexRemove h st s =
     (case assoc_get (byStatus s) st of
        None \<Rightarrow> s
      | Some hs \<Rightarrow> s\<lparr>byStatus := assoc_set st (removeAll h hs) (byStatus s)\<rparr>)"

definition store_get :: "store \<Rightarrow> hex \<Rightarrow> mempool_record option" where
  "store_get s h = assoc_get (records s) h"

definition store_delete :: "hex \<Rightarrow> store \<Rightarrow> bool \<times> store" where
  "store_delete h s =
     (case assoc_get (records s) h of
        None \<Rightarrow> (False, s)
      | Some r \<Rightarrow>
          (let s' = indexRemove h (mr_status r) s
           in (True, s'\<lparr>records := assoc_del h (records s')\<rparr>)))"

definition evictOne :: "store \<Rightarrow> store" where
  "evictOne s =
     (case find (\<lambda>e. terminal (mr_status (snd e))) (records s) of
        Some e \<Rightarrow> snd (store_delete (fst e) s)
      | None \<Rightarrow>
          (case records s of
             [] \<Rightarrow> s
           | e # _ \<Rightarrow> snd (store_delete (fst e) s)))"

definition store_set :: "hex \<Rightarrow> mempool_record \<Rightarrow> store \<Rightarrow> store" where
  "store_set h r s =
     (let s1 = snd (store_delete h s);
          s2 = (if maxSize s1 \<le> int (length (records s1)) then evictOne s1 else s1);
          s3 = s2\<lparr>records := assoc_set h r (records s2)\<rparr>
      in indexAdd h (mr_status r) s3)"

definition updateStatus :: "hex \<Rightarrow> intent_status \<Rightarrow> store \<Rightarrow> bool \<times> store" where
  "updateStatus h st s =
     (case assoc_get (records s) h of
        None \<Rightarrow> (False, s)
      | Some r \<Rightarrow>
          if terminal (mr_status r) then (False, s)
          else
            (let s1 = indexRemove h (mr_status r) s;
                 s2 = s1\<lparr>records := assoc_set h (r\<lparr>mr_status := st\<rparr>) (records s1)\<rparr>
             in (True, indexAdd h st s2)))"

text \<open>
  The loop deletes while it iterates; JavaScript visits every entry present at the start that has
  not been deleted, so it runs over the entries of the store as it was.
\<close>

definition evict_test :: "store \<Rightarrow> int \<Rightarrow> mempool_record \<Rightarrow> bool" where
  "evict_test s now r = isExpired (intent_of r) now (- (expiryGraceMs s div 1000))"

definition evictExpired :: "int \<Rightarrow> store \<Rightarrow> nat \<times> store" where
  "evictExpired now s =
     foldl (\<lambda>(n, t) (h, r).
              if evict_test s now r then (n + 1, snd (store_delete h t)) else (n, t))
           (0, s) (records s)"

definition listed_hashes :: "store \<Rightarrow> intent_status option \<Rightarrow> hex list" where
  "listed_hashes s st =
     (case st of Some x \<Rightarrow> index s x | None \<Rightarrow> assoc_keys (records s))"

fun found :: "store \<Rightarrow> hex list \<Rightarrow> mempool_record list" where
  "found s [] = []"
| "found s (h # hs) =
     (case store_get s h of None \<Rightarrow> found s hs | Some r \<Rightarrow> r # found s hs)"

definition store_all :: "store \<Rightarrow> intent_status option \<Rightarrow> mempool_record list" where
  "store_all s st = found s (listed_hashes s st)"

text \<open>The loop of \<open>list\<close>: the page so far, and whether it stopped with more to come.\<close>

fun list_loop ::
  "store \<Rightarrow> int option \<Rightarrow> hex option \<Rightarrow> int \<Rightarrow> bool \<Rightarrow> mempool_record list \<Rightarrow> hex list
     \<Rightarrow> mempool_record list \<times> bool" where
  "list_loop s chainId cursor limit reached page [] = (page, False)"
| "list_loop s chainId cursor limit reached page (h # hs) =
     (case store_get s h of
        None \<Rightarrow> list_loop s chainId cursor limit reached page hs
      | Some r \<Rightarrow>
          if chainId \<noteq> None \<and> chainId \<noteq> Some (sourceChainId (intent_of r))
          then list_loop s chainId cursor limit reached page hs
          else if \<not> reached
          then list_loop s chainId cursor limit (Some h = cursor) page hs
          else if limit \<le> int (length page) then (page, True)
          else list_loop s chainId cursor limit reached (page @ [r]) hs)"

record page_result =
  pg_records :: "mempool_record list"
  pg_nextCursor :: "hex option"

definition store_list ::
  "store \<Rightarrow> intent_status option \<Rightarrow> int option \<Rightarrow> hex option \<Rightarrow> int \<Rightarrow> page_result" where
  "store_list s st chainId cursor limit =
     (let (page, more) = list_loop s chainId cursor limit (cursor = None) [] (listed_hashes s st)
      in \<lparr>pg_records = page,
          pg_nextCursor = (if more \<and> page \<noteq> [] then Some (hash (last page)) else None)\<rparr>)"

definition store_size :: "store \<Rightarrow> nat" where
  "store_size s = length (records s)"

section \<open>The invariant\<close>

text \<open>
  Keys are unique, each record is filed under its own hash, and a hash is in the index of a status
  exactly when its record has that status.
\<close>

definition index_ok :: "store \<Rightarrow> bool" where
  "index_ok s \<longleftrightarrow>
     (\<forall>st. distinct (index s st)) \<and>
     (\<forall>st h. h \<in> set (index s st) \<longleftrightarrow> (\<exists>r. store_get s h = Some r \<and> mr_status r = st))"

definition store_ok :: "store \<Rightarrow> bool" where
  "store_ok s \<longleftrightarrow> assoc_ok (records s) \<and> index_ok s
     \<and> (\<forall>h r. store_get s h = Some r \<longrightarrow> hash r = h)"

lemma index_indexAdd:
  "index (indexAdd h st s) x =
     (if x = st then (if h \<in> set (index s st) then index s st else index s st @ [h]) else index s x)"
  by (simp add: index_def indexAdd_def option_default_def store_simps)

lemma index_indexRemove:
  "index (indexRemove h st s) x = (if x = st then removeAll h (index s st) else index s x)"
  by (auto simp: index_def indexRemove_def option_default_def store_simps split: option.splits)

lemma records_index_ops [simp]:
  "records (indexAdd h st s) = records s" "records (indexRemove h st s) = records s"
  "maxSize (indexAdd h st s) = maxSize s" "maxSize (indexRemove h st s) = maxSize s"
  "expiryGraceMs (indexAdd h st s) = expiryGraceMs s"
  "expiryGraceMs (indexRemove h st s) = expiryGraceMs s"
  by (simp_all add: indexAdd_def indexRemove_def split: option.split)

lemma store_get_index_ops [simp]:
  "store_get (indexAdd h st s) = store_get s" "store_get (indexRemove h st s) = store_get s"
  by (simp_all add: store_get_def fun_eq_iff)

lemma index_records_upd [simp]: "index (s\<lparr>records := m\<rparr>) = index s"
  by (simp add: index_def fun_eq_iff)

lemma assoc_get_records: "assoc_get (records s) = store_get s"
  by (simp add: store_get_def fun_eq_iff)

lemma store_get_records_upd: "store_get (s\<lparr>records := m\<rparr>) = assoc_get m"
  by (simp add: store_get_def fun_eq_iff)

subsection \<open>Delete\<close>

lemma store_delete_get [store_simps]:
  "store_get (snd (store_delete h s)) = (store_get s)(h := None)"
  by (auto simp: store_delete_def store_get_def Let_def store_simps fun_eq_iff split: option.split)

lemma store_delete_records: "records (snd (store_delete h s)) = assoc_del h (records s)"
  by (auto simp: store_delete_def Let_def assoc_get_None_iff assoc_del_absent split: option.split)

lemma store_delete_fields [simp]:
  "maxSize (snd (store_delete h s)) = maxSize s"
  "expiryGraceMs (snd (store_delete h s)) = expiryGraceMs s"
  by (simp_all add: store_delete_def Let_def split: option.split)

lemma index_store_delete:
  "index_ok s \<Longrightarrow> index (snd (store_delete h s)) st = removeAll h (index s st)"
  by (auto simp: store_delete_def Let_def index_indexRemove index_ok_def store_get_def
      split: option.split)

lemma store_delete_ok [inv_intros]: "store_ok s \<Longrightarrow> store_ok (snd (store_delete h s))"
  unfolding store_ok_def
proof (intro conjI allI impI)
  assume s: "assoc_ok (records s) \<and> index_ok s \<and> (\<forall>h r. store_get s h = Some r \<longrightarrow> hash r = h)"
  then show "assoc_ok (records (snd (store_delete h s)))"
    by (simp add: store_delete_records assoc_del_ok)
  from s show "index_ok (snd (store_delete h s))"
    by (auto simp: index_ok_def index_store_delete store_delete_get distinct_removeAll)
  show "hash r = k" if "store_get (snd (store_delete h s)) k = Some r" for k r
    using that s by (auto simp: store_delete_get split: if_splits)
qed

subsection \<open>Eviction and insertion\<close>

text \<open>The entry \<open>evictOne\<close> drops: the oldest terminal one, else the oldest.\<close>

definition victim :: "store \<Rightarrow> hex option" where
  "victim s =
     (case find (\<lambda>e. terminal (mr_status (snd e))) (records s) of
        Some e \<Rightarrow> Some (fst e)
      | None \<Rightarrow> (case records s of [] \<Rightarrow> None | e # _ \<Rightarrow> Some (fst e)))"

lemma evictOne_victim:
  "evictOne s = (case victim s of None \<Rightarrow> s | Some h \<Rightarrow> snd (store_delete h s))"
  by (auto simp: evictOne_def victim_def split: option.split list.split)

lemma find_Some_mem: "find P xs = Some x \<Longrightarrow> x \<in> set xs \<and> P x"
  by (induction xs) (auto split: if_splits)

lemma victim_mem: "victim s = Some h \<Longrightarrow> h \<in> set (map fst (records s))"
  by (auto simp: victim_def split: option.splits list.splits dest!: find_Some_mem)

lemma victim_None: "victim s = None \<longleftrightarrow> records s = []"
  by (auto simp: victim_def split: option.splits list.splits)

lemma evictOne_get:
  "store_get (evictOne s) = (case victim s of None \<Rightarrow> store_get s | Some h \<Rightarrow> (store_get s)(h := None))"
  by (simp add: evictOne_victim store_delete_get split: option.split)

lemma evictOne_ok [inv_intros]: "store_ok s \<Longrightarrow> store_ok (evictOne s)"
  by (simp add: evictOne_victim store_delete_ok split: option.split)

lemma evictOne_fields [simp]:
  "maxSize (evictOne s) = maxSize s" "expiryGraceMs (evictOne s) = expiryGraceMs s"
  by (simp_all add: evictOne_victim split: option.split)

lemma evictOne_length:
  assumes "assoc_ok (records s)"
  shows "length (records (evictOne s)) = length (records s) - 1"
proof (cases "victim s")
  case (Some h)
  then obtain v where "assoc_get (records s) h = Some v"
    using victim_mem by (cases "assoc_get (records s) h") (auto simp: assoc_get_None_iff)
  with Some show ?thesis
    using assms by (simp add: evictOne_victim store_delete_records length_assoc_del)
next
  case None
  then have "records s = []" by (simp only: victim_None)
  with None show ?thesis by (simp add: evictOne_victim)
qed

text \<open>The store an insertion writes into: without the key, and with room made.\<close>

definition make_room :: "hex \<Rightarrow> store \<Rightarrow> store" where
  "make_room h s =
     (let s1 = snd (store_delete h s)
      in if maxSize s1 \<le> int (length (records s1)) then evictOne s1 else s1)"

lemma store_set_room:
  "store_set h r s =
     indexAdd h (mr_status r) ((make_room h s)\<lparr>records := assoc_set h r (records (make_room h s))\<rparr>)"
  by (simp add: store_set_def make_room_def Let_def)

lemma make_room_get_key: "store_get (make_room h s) h = None"
  by (simp add: make_room_def Let_def evictOne_get store_delete_get split: option.split)

lemma make_room_ok [inv_intros]: "store_ok s \<Longrightarrow> store_ok (make_room h s)"
  by (simp add: make_room_def Let_def inv_intros)

lemma make_room_fields [simp]:
  "maxSize (make_room h s) = maxSize s" "expiryGraceMs (make_room h s) = expiryGraceMs s"
  by (simp_all add: make_room_def Let_def)

lemma store_set_fields [simp]:
  "maxSize (store_set h r s) = maxSize s" "expiryGraceMs (store_set h r s) = expiryGraceMs s"
  by (simp_all add: store_set_room)

lemma store_set_get [store_simps]:
  "store_get (store_set h r s) = (store_get (make_room h s))(h \<mapsto> r)"
  by (simp add: store_set_room store_get_records_upd assoc_get_set assoc_get_records)

lemma store_set_records: "records (store_set h r s) = records (make_room h s) @ [(h, r)]"
  using make_room_get_key [of h s]
  by (simp add: store_set_room store_get_def assoc_get_None_iff assoc_set_fresh)

lemma store_set_ok [inv_intros]:
  assumes s: "store_ok s" and h: "hash r = h"
  shows "store_ok (store_set h r s)"
proof -
  let ?m = "make_room h s"
  have "store_ok ?m" by (rule make_room_ok [OF s])
  then have m: "assoc_ok (records ?m)" "index_ok ?m"
    "\<And>k v. store_get ?m k = Some v \<Longrightarrow> hash v = k"
    by (simp_all add: store_ok_def)
  have fresh: "h \<notin> set (index ?m st)" for st
    using m(2) make_room_get_key [of h s] by (auto simp: index_ok_def)
  have "assoc_ok (records (store_set h r s))"
    using m(1) by (simp add: store_set_room assoc_set_ok)
  moreover have "index_ok (store_set h r s)"
    using m(2) fresh unfolding index_ok_def store_set_get
    by (auto simp: store_set_room index_indexAdd)
  moreover have "hash v = k" if "store_get (store_set h r s) k = Some v" for k v
    using that m(3) h by (auto simp: store_set_get split: if_splits)
  ultimately show ?thesis by (simp add: store_ok_def)
qed

lemma store_set_length:
  assumes "assoc_ok (records s)" and "int (length (records s)) \<le> max 1 (maxSize s)"
  shows "int (length (records (store_set h r s))) \<le> max 1 (maxSize s)"
proof -
  let ?d = "snd (store_delete h s)"
  have d: "assoc_ok (records ?d)" "length (records ?d) \<le> length (records s)"
    using assms(1) by (simp_all add: store_delete_records assoc_del_ok length_assoc_del_le)
  then show ?thesis
    using assms(2) evictOne_length [OF d(1)]
    by (auto simp: store_set_records make_room_def Let_def)
qed

subsection \<open>Status updates\<close>

lemma updateStatus_get [store_simps]:
  "store_get (snd (updateStatus h st s)) =
     (case store_get s h of
        Some r \<Rightarrow> if terminal (mr_status r) then store_get s
                  else (store_get s)(h \<mapsto> r\<lparr>mr_status := st\<rparr>)
      | None \<Rightarrow> store_get s)"
  by (simp add: updateStatus_def Let_def assoc_get_records store_get_records_upd assoc_get_set
      split: option.split)

lemma updateStatus_fst:
  "fst (updateStatus h st s) \<longleftrightarrow> (\<exists>r. store_get s h = Some r \<and> \<not> terminal (mr_status r))"
  by (auto simp: updateStatus_def Let_def store_get_def split: option.splits)

lemma updateStatus_fields [simp]:
  "maxSize (snd (updateStatus h st s)) = maxSize s"
  "expiryGraceMs (snd (updateStatus h st s)) = expiryGraceMs s"
  by (simp_all add: updateStatus_def Let_def split: option.split)

lemma updateStatus_keys:
  "map fst (records (snd (updateStatus h st s))) = map fst (records s)"
proof (cases "assoc_get (records s) h")
  case (Some r)
  then have "h \<in> set (map fst (records s))"
    by (metis assoc_get_None_iff option.distinct(1))
  with Some show ?thesis by (simp add: updateStatus_def Let_def keys_assoc_set)
qed (simp add: updateStatus_def)

lemma updateStatus_ok [inv_intros]:
  assumes "store_ok s" shows "store_ok (snd (updateStatus h st s))"
proof (cases "fst (updateStatus h st s)")
  case False
  then have "snd (updateStatus h st s) = s"
    by (auto simp: updateStatus_def Let_def split: option.splits if_splits)
  with assms show ?thesis by simp
next
  case True
  then obtain r where r: "store_get s h = Some r" "\<not> terminal (mr_status r)"
    by (auto simp: updateStatus_fst)
  let ?t = "snd (updateStatus h st s)"
  have get: "store_get ?t = (store_get s)(h \<mapsto> r\<lparr>mr_status := st\<rparr>)"
    using r by (simp add: updateStatus_get)
  have idx: "index ?t x = (if x = st then removeAll h (index s x) @ [h] else removeAll h (index s x))" for x
  proof -
    have "h \<notin> set (index s x)" if "x \<noteq> mr_status r"
      using assms r(1) that by (auto simp: store_ok_def index_ok_def)
    then show ?thesis
      using r by (auto simp: updateStatus_def Let_def store_get_def index_indexAdd index_indexRemove
          split: option.splits)
  qed
  have "assoc_ok (records ?t)"
    using assms updateStatus_keys [of h st s] by (simp add: store_ok_def assoc_ok_def)
  moreover have "index_ok ?t"
    using assms unfolding index_ok_def store_ok_def get idx
    by (auto simp: distinct_removeAll)
  moreover have "hash v = k" if "store_get ?t k = Some v" for k v
    using that assms r by (auto simp: get store_ok_def split: if_splits)
  ultimately show ?thesis by (simp add: store_ok_def)
qed

subsection \<open>The expiry sweep\<close>

definition sweep_step :: "store \<Rightarrow> int \<Rightarrow> nat \<times> store \<Rightarrow> hex \<times> mempool_record \<Rightarrow> nat \<times> store" where
  "sweep_step s now = (\<lambda>(n, t) (h, r).
     if evict_test s now r then (n + 1, snd (store_delete h t)) else (n, t))"

lemma evictExpired_fold: "evictExpired now s = foldl (sweep_step s now) (0, s) (records s)"
  by (simp add: evictExpired_def sweep_step_def)

lemma sweep_fold:
  assumes "distinct (map fst es)"
  shows "fst (foldl (sweep_step s now) (n, t) es) = n + length (filter (\<lambda>e. evict_test s now (snd e)) es)
    \<and> records (snd (foldl (sweep_step s now) (n, t) es))
      = filter (\<lambda>e. \<not> (\<exists>r. (fst e, r) \<in> set es \<and> evict_test s now r)) (records t)
    \<and> (store_ok t \<longrightarrow> store_ok (snd (foldl (sweep_step s now) (n, t) es)))"
  using assms
proof (induction es arbitrary: n t)
  case (Cons e es)
  obtain h r where e: "e = (h, r)" by force
  have IH: "fst (foldl (sweep_step s now) (n', t') es) = n' + length (filter (\<lambda>e. evict_test s now (snd e)) es)"
    "records (snd (foldl (sweep_step s now) (n', t') es))
      = filter (\<lambda>e. \<not> (\<exists>r. (fst e, r) \<in> set es \<and> evict_test s now r)) (records t')"
    "store_ok t' \<Longrightarrow> store_ok (snd (foldl (sweep_step s now) (n', t') es))" for n' t'
    using Cons by auto
  have step: "foldl (sweep_step s now) (n, t) (e # es) =
      (if evict_test s now r then foldl (sweep_step s now) (n + 1, snd (store_delete h t)) es
       else foldl (sweep_step s now) (n, t) es)"
    by (simp add: e sweep_step_def)
  show ?case
  proof (cases "evict_test s now r")
    case True
    then have *: "(\<exists>v. (k, v) \<in> set (e # es) \<and> evict_test s now v)
        \<longleftrightarrow> k = h \<or> (\<exists>v. (k, v) \<in> set es \<and> evict_test s now v)" for k
      using Cons.prems by (auto simp: e)
    show ?thesis
      unfolding step using True
      by (auto simp: IH(1) IH(2) store_delete_records assoc_del_def * e intro!: IH(3) store_delete_ok
          filter_cong)
  next
    case False
    then have "(\<exists>v. (k, v) \<in> set (e # es) \<and> evict_test s now v)
        \<longleftrightarrow> (\<exists>v. (k, v) \<in> set es \<and> evict_test s now v)" for k
      by (auto simp: e)
    then show ?thesis
      unfolding step using False by (simp add: IH(1) IH(2) IH(3) e)
  qed
qed simp

lemma evictExpired_count:
  "assoc_ok (records s) \<Longrightarrow>
   fst (evictExpired now s) = length (filter (\<lambda>e. evict_test s now (snd e)) (records s))"
  using sweep_fold [of "records s" s now 0 s] by (simp add: evictExpired_fold assoc_ok_def)

lemma evictExpired_records:
  assumes "assoc_ok (records s)"
  shows "records (snd (evictExpired now s)) = filter (\<lambda>e. \<not> evict_test s now (snd e)) (records s)"
proof -
  have "(\<exists>r. (fst e, r) \<in> set (records s) \<and> evict_test s now r) \<longleftrightarrow> evict_test s now (snd e)"
    if "e \<in> set (records s)" for e
  proof -
    have "(fst e, r) \<in> set (records s) \<longleftrightarrow> r = snd e" for r
      using that assms eq_key_imp_eq_value [of "records s" "fst e" r "snd e"]
      by (auto simp: assoc_ok_def)
    then show ?thesis by simp
  qed
  then have "filter (\<lambda>e. \<not> (\<exists>r. (fst e, r) \<in> set (records s) \<and> evict_test s now r)) (records s)
      = filter (\<lambda>e. \<not> evict_test s now (snd e)) (records s)"
    by (intro filter_cong) simp_all
  then show ?thesis
    using sweep_fold [of "records s" s now 0 s] assms
    by (simp only: evictExpired_fold assoc_ok_def simp_thms)
qed

lemma evictExpired_ok [inv_intros]: "store_ok s \<Longrightarrow> store_ok (snd (evictExpired now s))"
  using sweep_fold [of "records s" s now 0 s]
  by (simp only: evictExpired_fold) (metis assoc_ok_def store_ok_def)

section \<open>Listing\<close>

definition key_matches :: "int option \<Rightarrow> mempool_record \<Rightarrow> bool" where
  "key_matches chainId r \<longleftrightarrow> chainId = None \<or> chainId = Some (sourceChainId (intent_of r))"

text \<open>The records a query selects, in listing order.\<close>

definition selected :: "store \<Rightarrow> intent_status option \<times> int option \<Rightarrow> mempool_record list" where
  "selected s q = filter (key_matches (snd q)) (store_all s (fst q))"

lemma list_loop_Cons:
  "list_loop s chainId cursor limit reached page (h # hs) =
     (case store_get s h of
        None \<Rightarrow> list_loop s chainId cursor limit reached page hs
      | Some r \<Rightarrow>
          if \<not> key_matches chainId r then list_loop s chainId cursor limit reached page hs
          else if \<not> reached then list_loop s chainId cursor limit (Some h = cursor) page hs
          else if limit \<le> int (length page) then (page, True)
          else list_loop s chainId cursor limit reached (page @ [r]) hs)"
  by (cases "store_get s h") (auto simp: key_matches_def)

declare list_loop.simps(2) [simp del]

lemma list_loop_reached:
  "int (length page) \<le> limit \<Longrightarrow>
   list_loop s chainId cursor limit True page hs =
     (page @ take (nat limit - length page) (filter (key_matches chainId) (found s hs)),
      nat limit - length page < length (filter (key_matches chainId) (found s hs)))"
proof (induction hs arbitrary: page)
  case (Cons h hs)
  show ?case
  proof (cases "limit \<le> int (length page)")
    case True
    with Cons show ?thesis by (auto simp: list_loop_Cons split: option.split)
  next
    case False
    then have "nat limit - length page = Suc (nat limit - length (page @ [r]))" for r by simp
    with False Cons show ?thesis by (auto simp: list_loop_Cons split: option.split)
  qed
qed simp

lemma list_loop_skip:
  assumes "store_ok s" and "0 \<le> limit"
  shows "list_loop s chainId (Some c) limit False [] hs =
     (take (nat limit) (after hash c (filter (key_matches chainId) (found s hs))),
      nat limit < length (after hash c (filter (key_matches chainId) (found s hs))))"
proof (induction hs)
  case (Cons h hs)
  show ?case
  proof (cases "store_get s h")
    case (Some r)
    then have "hash r = h" using assms(1) by (simp add: store_ok_def)
    with Some Cons assms(2) show ?thesis
      by (cases "h = c") (auto simp: list_loop_Cons list_loop_reached)
  qed (use Cons in \<open>simp add: list_loop_Cons\<close>)
qed simp

definition page_pair :: "page_result \<Rightarrow> mempool_record list \<times> hex option" where
  "page_pair p = (pg_records p, pg_nextCursor p)"

definition store_page ::
  "store \<Rightarrow> intent_status option \<times> int option \<Rightarrow> nat \<Rightarrow> hex option \<Rightarrow> mempool_record list \<times> hex option" where
  "store_page s q n cursor = page_pair (store_list s (fst q) (snd q) cursor (int n))"

lemma store_page_first:
  "0 < n \<Longrightarrow> store_page s q n None = chunk hash n (selected s q)"
  by (auto simp: store_page_def page_pair_def store_list_def list_loop_reached selected_def
      store_all_def chunk_def Let_def)

lemma store_page_next:
  "store_ok s \<Longrightarrow> 0 < n \<Longrightarrow> store_page s q n (Some c) = chunk hash n (after hash c (selected s q))"
  by (auto simp: store_page_def page_pair_def store_list_def list_loop_skip selected_def
      store_all_def chunk_def Let_def)

lemma listed_hashes_distinct: "store_ok s \<Longrightarrow> distinct (listed_hashes s st)"
  by (auto simp: listed_hashes_def store_ok_def index_ok_def assoc_ok_def assoc_keys_def
      split: option.split)

lemma map_hash_found:
  assumes "store_ok s"
  shows "map hash (found s hs) = filter (\<lambda>h. store_get s h \<noteq> None) hs"
  using assms by (induction hs) (auto simp: store_ok_def split: option.split)

lemma set_found:
  assumes "store_ok s"
  shows "r \<in> set (found s hs) \<longleftrightarrow> hash r \<in> set hs \<and> store_get s (hash r) = Some r"
proof (induction hs)
  case (Cons h hs)
  show ?case
  proof (cases "store_get s h")
    case (Some v)
    then have "hash v = h" using assms by (simp add: store_ok_def)
    with Some Cons show ?thesis by auto
  qed (use Cons in auto)
qed simp

lemma selected_distinct: "store_ok s \<Longrightarrow> distinct (map hash (selected s q))"
  using listed_hashes_distinct [of s "fst q"]
  by (simp add: selected_def store_all_def distinct_map_filter map_hash_found)

interpretation mempool_pages: paged_source store_ok hash selected store_page
  by unfold_locales (simp_all add: selected_distinct store_page_first store_page_next)

lemma set_selected:
  assumes "store_ok s"
  shows "r \<in> set (selected s (st, chain)) \<longleftrightarrow>
    store_get s (hash r) = Some r \<and> (\<forall>x. st = Some x \<longrightarrow> mr_status r = x) \<and> key_matches chain r"
proof -
  have "h \<in> set (listed_hashes s st) \<longleftrightarrow> (\<forall>x. st = Some x \<longrightarrow> mr_status r = x)"
    if "store_get s h = Some r" for h
  proof (cases st)
    case None
    have "h \<in> set (map fst (records s))"
      using that by (metis assoc_get_None_iff assoc_get_records option.distinct(1))
    with None show ?thesis by (simp add: listed_hashes_def assoc_keys_def)
  next
    case (Some x)
    with assms that show ?thesis by (auto simp: listed_hashes_def store_ok_def index_ok_def)
  qed
  then show ?thesis using assms by (auto simp: selected_def store_all_def set_found)
qed

section \<open>Updates through the store's contract\<close>

text \<open>
  What the server relies on when it reports statuses: an update succeeds exactly for a record that
  exists and is not final, changes that record's status only, and leaves every other lookup alone.
\<close>

locale status_store =
  fixes get :: "'s \<Rightarrow> 'k \<Rightarrow> 'r option"
    and update :: "'k \<Rightarrow> 'st \<Rightarrow> 's \<Rightarrow> bool \<times> 's"
    and with_status :: "'st \<Rightarrow> 'r \<Rightarrow> 'r"
    and final :: "'r \<Rightarrow> bool"
  assumes update_missing: "get s k = None \<Longrightarrow> update k st s = (False, s)"
    and update_final: "get s k = Some r \<Longrightarrow> final r \<Longrightarrow> update k st s = (False, s)"
    and update_open: "get s k = Some r \<Longrightarrow> \<not> final r \<Longrightarrow>
      fst (update k st s) \<and> get (snd (update k st s)) = (get s)(k \<mapsto> with_status st r)"
begin

definition run_updates :: "('k \<times> 'st) list \<Rightarrow> 's \<Rightarrow> 's" where
  "run_updates us s = foldl (\<lambda>s (k, st). snd (update k st s)) s us"

lemma run_updates_simps [simp]:
  "run_updates [] s = s"
  "run_updates ((k, st) # us) s = run_updates us (snd (update k st s))"
  by (simp_all add: run_updates_def)

lemma update_other: "k \<noteq> k' \<Longrightarrow> get (snd (update k st s)) k' = get s k'"
  using update_missing [of s k st] update_final [of s k _ st] update_open [of s k _ st]
  by (cases "get s k") (auto, metis fun_upd_other snd_conv)

lemma final_stays: "get s k = Some r \<Longrightarrow> final r \<Longrightarrow> get (run_updates us s) k = Some r"
proof (induction us arbitrary: s)
  case (Cons u us)
  obtain k' st where u: "u = (k', st)" by force
  have "get (snd (update k' st s)) k = Some r"
    using Cons.prems update_other [of k' k st s] update_final [of s k r st] by (cases "k' = k") auto
  with Cons u show ?case by simp
qed simp

lemma keys_stay: "(get (run_updates us s) k = None) = (get s k = None)"
proof (induction us arbitrary: s)
  case (Cons u us)
  obtain k' st where u: "u = (k', st)" by force
  have "(get (snd (update k' st s)) k = None) = (get s k = None)"
  proof (cases "k' = k")
    case True
    then show ?thesis
      using update_missing [of s k st] update_final [of s k _ st] update_open [of s k _ st]
      by (cases "get s k") (auto, metis fun_upd_same option.distinct(1) snd_conv)
  qed (simp add: update_other)
  with Cons u show ?case by simp
qed simp

end

interpretation mempool_statuses:
  status_store store_get updateStatus "\<lambda>st r. r\<lparr>mr_status := st\<rparr>" "\<lambda>r. terminal (mr_status r)"
proof (unfold_locales, goal_cases)
  case (3 s k r st)
  then show ?case by (simp add: updateStatus_get updateStatus_fst)
qed (simp_all add: updateStatus_def store_get_def)

section \<open>Properties\<close>

text \<open>One operation of the store, as the server issues them, and a sequence of them.\<close>

datatype store_op =
    OpSet mempool_record
  | OpUpdate hex intent_status
  | OpDelete hex
  | OpSweep int

fun store_step :: "store_op \<Rightarrow> store \<Rightarrow> store" where
  "store_step (OpSet r) s = store_set (hash r) r s"
| "store_step (OpUpdate h st) s = snd (updateStatus h st s)"
| "store_step (OpDelete h) s = snd (store_delete h s)"
| "store_step (OpSweep now) s = snd (evictExpired now s)"

definition store_run :: "store_op list \<Rightarrow> store \<Rightarrow> store" where
  "store_run ops s = foldl (\<lambda>s op. store_step op s) s ops"

definition store_bounded :: "store \<Rightarrow> bool" where
  "store_bounded s \<longleftrightarrow> int (store_size s) \<le> max 1 (maxSize s)"

lemma evictExpired_fields [simp]: "maxSize (snd (evictExpired now s)) = maxSize s"
proof -
  have "maxSize (snd (foldl (sweep_step s now) (n, t) es)) = maxSize t" for n t es
    by (induction es arbitrary: n t) (auto simp: sweep_step_def split: prod.splits)
  then show ?thesis by (simp add: evictExpired_fold)
qed

lemma store_step_fields [simp]: "maxSize (store_step op s) = maxSize s"
  by (cases op) simp_all

lemma store_step_inv:
  assumes "store_ok s" and "store_bounded s"
  shows "store_ok (store_step op s) \<and> store_bounded (store_step op s)"
proof -
  have a: "assoc_ok (records s)" using assms(1) by (simp add: store_ok_def)
  have "store_ok (store_step op s)"
    by (cases op) (simp_all add: assms(1) inv_intros)
  moreover have "int (length (records (store_step op s))) \<le> max 1 (maxSize s)"
  proof (cases op)
    case (OpSet r)
    then show ?thesis
      using a assms(2) by (simp add: store_set_length store_bounded_def store_size_def)
  next
    case (OpUpdate h st)
    then have "length (records (store_step op s)) = length (records s)"
      by (metis length_map store_step.simps(2) updateStatus_keys)
    then show ?thesis using assms(2) by (simp add: store_bounded_def store_size_def)
  next
    case (OpDelete h)
    then have "length (records (store_step op s)) \<le> length (records s)"
      by (simp add: store_delete_records length_assoc_del_le)
    then show ?thesis using assms(2) by (simp add: store_bounded_def store_size_def)
  next
    case (OpSweep now)
    then have "length (records (store_step op s)) \<le> length (records s)"
      by (simp add: evictExpired_records [OF a])
    then show ?thesis using assms(2) by (simp add: store_bounded_def store_size_def)
  qed
  ultimately show ?thesis by (simp add: store_bounded_def store_size_def)
qed

lemma new_store_inv: "store_ok (new_store m g) \<and> store_bounded (new_store m g)"
  by (simp add: store_ok_def index_ok_def index_def new_store_def option_default_def store_get_def
      store_bounded_def store_size_def)

lemma store_invariant_core:
  "store_ok (store_run ops (new_store m g)) \<and> store_bounded (store_run ops (new_store m g))"
proof -
  have "store_ok (store_run ops s) \<and> store_bounded (store_run ops s)"
    if "store_ok s \<and> store_bounded s" for s
    using that unfolding store_run_def
    by (induction ops arbitrary: s) (simp_all add: store_step_inv)
  then show ?thesis using new_store_inv by blast
qed

text \<open>
  C16. Whatever sequence of submissions, status reports, deletions and sweeps a store has seen since it
  was created: its keys are unique, each record sits under its own hash, the status index lists
  exactly the records of each status once, and the store never holds more than \<open>maxSize\<close> records
  (one, if the bound is below one).
\<close>

theorem store_invariant:
  "store_ok (store_run ops (new_store m g)) \<and> store_bounded (store_run ops (new_store m g))"
  by (rule store_invariant_core)

text \<open>
  The mempool loses a live order only when it must: an insertion makes its record readable, keeps
  every other record when there is room, and at capacity drops exactly one, which is the oldest
  finished record if there is any finished one, and the oldest record of all otherwise.
\<close>

theorem insertion_evicts_finished_first:
  assumes "store_ok s" and "d = snd (store_delete h s)"
  shows "store_get (store_set h r s) h = Some r
    \<and> (\<forall>k. k \<noteq> h \<longrightarrow> store_get (store_set h r s) k =
         (if maxSize s \<le> int (store_size d) \<and> victim d = Some k then None else store_get s k))
    \<and> (\<forall>k v. victim d = Some k \<and> store_get s k = Some v \<and> \<not> terminal (mr_status v) \<longrightarrow>
         (\<forall>e \<in> set (records d). \<not> terminal (mr_status (snd e))))"
proof (intro conjI allI impI)
  show "store_get (store_set h r s) h = Some r" by (simp add: store_set_get)
  show "store_get (store_set h r s) k =
      (if maxSize s \<le> int (store_size d) \<and> victim d = Some k then None else store_get s k)"
    if "k \<noteq> h" for k
    using that assms(2) by (auto simp: store_set_get make_room_def Let_def store_size_def
        store_delete_get evictOne_get split: option.split)
  fix k v assume v: "victim d = Some k \<and> store_get s k = Some v \<and> \<not> terminal (mr_status v)"
  have a: "assoc_ok (records d)"
    using assms by (simp add: store_ok_def store_delete_records assoc_del_ok)
  show "\<forall>e \<in> set (records d). \<not> terminal (mr_status (snd e))"
  proof (cases "find (\<lambda>e. terminal (mr_status (snd e))) (records d)")
    case (Some e)
    with v have e: "fst e = k" "e \<in> set (records d)" "terminal (mr_status (snd e))"
      using find_Some_mem [OF Some] by (auto simp: victim_def)
    then have "store_get d k = Some (snd e)"
      using a by (auto simp: store_get_def intro!: assoc_get_SomeI)
    then have "store_get s k = Some (snd e)"
      using assms(2) by (auto simp: store_delete_get split: if_splits)
    with v e show ?thesis by simp
  qed (auto simp: find_None_iff)
qed

definition sample_record :: "string \<Rightarrow> intent_status \<Rightarrow> mempool_record" where
  "sample_record h st =
     \<lparr>intent_of = sample_intent, signature = sample_sig, hash = h, mr_status = st, mr_createdAt = 0\<rparr>"

text \<open>A full store of two: the older record is pending, the newer one settled.\<close>

definition sample_store :: store where
  "sample_store = store_run
     [OpSet (sample_record ''a'' Pending), OpSet (sample_record ''b'' Pending), OpUpdate ''b'' Settled]
     (new_store (Some 2) None)"

lemma sample_store_ok: "store_ok sample_store"
  unfolding sample_store_def using store_invariant_core by blast

lemmas store_eval =
  store_run_def store_step.simps new_store_def store_set_def store_delete_def evictOne_def
  updateStatus_def indexAdd_def indexRemove_def index_def option_default_def assoc_get_def
  assoc_del_def Let_def sample_record_def TERMINAL_STATUSES_def

lemma sample_store_records:
  "records sample_store = [(''a'', sample_record ''a'' Pending), (''b'', sample_record ''b'' Settled)]"
  by (simp add: sample_store_def store_eval)

theorem insertion_evicts_finished_first_witness:
  "store_get (store_set ''c'' (sample_record ''c'' Pending) sample_store) ''a'' \<noteq> None
   \<and> store_get (store_set ''c'' (sample_record ''c'' Pending) sample_store) ''b'' = None"
proof -
  let ?d = "snd (store_delete ''c'' sample_store)"
  have d: "?d = sample_store"
    by (simp add: store_delete_def assoc_get_def sample_store_records)
  have "maxSize sample_store = 2" by (simp add: sample_store_def store_eval)
  moreover have "store_size sample_store = 2" by (simp add: store_size_def sample_store_records)
  moreover have "victim sample_store = Some ''b''"
    by (simp add: victim_def sample_store_records sample_record_def TERMINAL_STATUSES_def)
  moreover have "store_get sample_store ''a'' \<noteq> None"
    by (simp add: store_get_def assoc_get_def sample_store_records)
  ultimately show ?thesis
    using insertion_evicts_finished_first
      [OF sample_store_ok refl, of "''c''" "sample_record ''c'' Pending"] d by simp
qed

text \<open>
  C39. Final statuses are final: once a record is settled, refunded or expired, no sequence of status
  reports, for this or any other intent, changes it; and reports never create or remove records.
\<close>

theorem terminal_status_is_final:
  assumes "store_get s h = Some r" and "terminal (mr_status r)"
  shows "store_get (foldl (\<lambda>s (k, st). snd (updateStatus k st s)) s us) h = Some r
    \<and> (\<forall>k. store_get (foldl (\<lambda>s (k, st). snd (updateStatus k st s)) s us) k = None
           \<longleftrightarrow> store_get s k = None)"
  using mempool_statuses.final_stays [OF assms, of us] mempool_statuses.keys_stay [of us s]
  by (simp add: mempool_statuses.run_updates_def)

theorem terminal_status_is_final_witness:
  "store_get (foldl (\<lambda>s (k, st). snd (updateStatus k st s)) sample_store
      [(''b'', Pending), (''a'', Filled), (''b'', Refunded)]) ''b'' = Some (sample_record ''b'' Settled)"
proof -
  have "store_get sample_store ''b'' = Some (sample_record ''b'' Settled)"
    by (simp add: store_get_def assoc_get_def sample_store_records)
  moreover have "terminal (mr_status (sample_record ''b'' Settled))"
    by (simp add: sample_record_def TERMINAL_STATUSES_def)
  ultimately show ?thesis using terminal_status_is_final by blast
qed

text \<open>
  The sweep removes exactly the records whose deadline is at most the grace period \<^emph>\<open>ahead\<close> of
  the clock, returns how many it removed, and keeps the others in order. The grace period is
  passed to \<open>isExpired\<close> with the wrong sign: an intent is dropped up to a grace period before its
  deadline instead of being kept that long after it.
\<close>

theorem sweep_drops_early:
  assumes "store_ok s"
  shows "records (snd (evictExpired now s)) =
      filter (\<lambda>e. now + expiryGraceMs s div 1000 < deadline (intent_of (snd e))) (records s)
    \<and> store_size (snd (evictExpired now s)) + fst (evictExpired now s) = store_size s"
proof -
  have a: "assoc_ok (records s)" using assms by (simp add: store_ok_def)
  have t: "evict_test s now r \<longleftrightarrow> \<not> now + expiryGraceMs s div 1000 < deadline (intent_of r)" for r
    by (auto simp: evict_test_def isExpired_def)
  have "length (filter (\<lambda>e. \<not> evict_test s now (snd e)) (records s))
      + length (filter (\<lambda>e. evict_test s now (snd e)) (records s)) = length (records s)"
    using sum_length_filter_compl [of "\<lambda>e. evict_test s now (snd e)" "records s"] by simp
  then show ?thesis
    by (simp add: evictExpired_records [OF a] evictExpired_count [OF a] store_size_def t)
qed

theorem sweep_drops_early_witness:
  "deadline (intent_of (sample_record ''a'' Pending)) = 1600
   \<and> records (snd (evictExpired 1540 sample_store)) = []"
proof -
  have "expiryGraceMs sample_store = 60000"
    by (simp add: sample_store_def store_eval DEFAULT_EXPIRY_GRACE_MS_def)
  moreover have "deadline (intent_of (sample_record h st)) = 1600" for h st
    by (simp add: sample_record_def sample_intent_def)
  ultimately show ?thesis
    using sweep_drops_early [OF sample_store_ok, of 1540] by (simp add: sample_store_records)
qed

end
