(* ===== verification/Mempool_Server.thy ===== *)
theory Mempool_Server
  imports Mempool_Store
begin

text \<open>
  \<^verbatim>\<open>mempool/src/server.ts\<close>: the HTTP server around the store. Every handler maps the server's
  state and the parts of a request it reads to a response and a new state; responses keep the
  status code and the JSON body, with the texts of the source. What the server takes from viem
  (\<open>isAddress\<close>, the typed-data hash and the address recovery) is the record \<open>viem_lib\<close>. Express
  itself (routing, body parsing) is not modelled beyond the order in which \<open>setupRoutes\<close> chains
  its parts. A submission awaits the signature check; before the await the handler reads only
  fields that never change, so it acts on the state at the moment it resumes, and the clock is
  read once on either side.
\<close>

section \<open>State and construction\<close>

record viem_lib =
  isAddress :: "string \<Rightarrow> bool"
  hashTypedData :: "domain \<Rightarrow> message \<Rightarrow> hex"
  recoverTypedDataAddress :: "domain \<Rightarrow> message \<Rightarrow> hex \<Rightarrow> (unit, address) result"

record response =
  res_status :: int
  res_body :: jval

definition json_response :: "int \<Rightarrow> jval \<Rightarrow> response" where
  "json_response code body = \<lparr>res_status = code, res_body = body\<rparr>"

definition error_response :: "int \<Rightarrow> string \<Rightarrow> response" where
  "error_response code msg = json_response code (JObj [(''error'', JStr msg)])"

record server_options =
  so_port :: "int option"
  so_host :: "string option"
  so_chainId :: "jsnum option"
  so_verifyingContract :: string
  so_statusToken :: "string option"
  so_maxStoreSize :: "int option"
  so_expiryGraceMs :: "int option"
  so_rateLimitWindowMs :: "int option"
  so_writeRateLimit :: "int option"
  so_readRateLimit :: "int option"
  so_client :: "viem_client option"

record server =
  sv_store :: store
  sv_port :: int
  sv_host :: string
  sv_chainId :: jsnum
  sv_verifyingContract :: address
  sv_domain :: domain
  rateLimitHits :: "(string, int list) assoc"
  rateLimitWindowMs :: int
  writeRateLimit :: int
  readRateLimit :: int
  sweepTimer :: bool
  listening :: bool
  statusToken :: "string option"
  sv_client :: "viem_client option"
  isReady :: bool
  accepted :: nat
  rejected :: nat
  rateLimitRejections :: nat

definition DEFAULT_RATE_LIMIT_WINDOW_MS :: int where "DEFAULT_RATE_LIMIT_WINDOW_MS = 60000"
definition DEFAULT_WRITE_RATE_LIMIT :: int where "DEFAULT_WRITE_RATE_LIMIT = 60"
definition DEFAULT_READ_RATE_LIMIT :: int where "DEFAULT_READ_RATE_LIMIT = 600"
definition DEFAULT_LIST_LIMIT :: int where "DEFAULT_LIST_LIMIT = 100"
definition MAX_LIST_LIMIT :: int where "MAX_LIST_LIMIT = 1000"
definition ZERO_ADDRESS :: address where
  "ZERO_ADDRESS = ''0x0000000000000000000000000000000000000000''"

definition INTENT_STATUSES :: "intent_status list" where
  "INTENT_STATUSES = [Pending, Filled, Settled, Refunded, Expired]"

text \<open>
  The constructor. The EIP-712 domain takes the chain id as a number; the ones the configuration
  lets through are positive integers. The result also says whether the unauthenticated-endpoint
  warning is printed.
\<close>

definition new_server :: "server_options \<Rightarrow> (string, server \<times> bool) result" where
  "new_server opts =
     (case so_chainId opts of
        None \<Rightarrow> Inl ''chainId''
      | Some chain \<Rightarrow>
          if chain = NaN then Inl ''chainId''
          else if so_verifyingContract opts = '''' \<or> to_lower (so_verifyingContract opts) = ZERO_ADDRESS
          then Inl ''verifyingContract''
          else
            (let host = option_default (so_host opts) ''localhost''
             in Inr (\<lparr>sv_store = new_store (so_maxStoreSize opts) (so_expiryGraceMs opts),
                      sv_port = option_default (so_port opts) 3000, sv_host = host,
                      sv_chainId = chain, sv_verifyingContract = so_verifyingContract opts,
                      sv_domain = perihelionDomain (int_of_num chain) (so_verifyingContract opts),
                      rateLimitHits = [],
                      rateLimitWindowMs =
                        option_default (so_rateLimitWindowMs opts) DEFAULT_RATE_LIMIT_WINDOW_MS,
                      writeRateLimit = option_default (so_writeRateLimit opts) DEFAULT_WRITE_RATE_LIMIT,
                      readRateLimit = option_default (so_readRateLimit opts) DEFAULT_READ_RATE_LIMIT,
                      sweepTimer = False, listening = False, statusToken = so_statusToken opts,
                      sv_client = so_client opts, isReady = False, accepted = 0, rejected = 0,
                      rateLimitRejections = 0\<rparr>,
                     host \<noteq> ''localhost'' \<and> host \<noteq> ''127.0.0.1'')))"

definition start_server :: "server \<Rightarrow> server" where
  "start_server sv =
     (if listening sv then sv else sv\<lparr>sweepTimer := True, isReady := True, listening := True\<rparr>)"

definition stop_server :: "server \<Rightarrow> server" where
  "stop_server sv = sv\<lparr>isReady := False, sweepTimer := False, listening := False\<rparr>"

section \<open>Requests\<close>

definition parseHashParam :: "jval \<Rightarrow> (response, hex) result" where
  "parseHashParam raw =
     (case raw of
        JStr s \<Rightarrow>
          if hex_string_lower 64 (to_lower s) then Inr (to_lower s)
          else Inl (error_response 400 ''Invalid intent hash'')
      | _ \<Rightarrow> Inl (error_response 400 ''Invalid intent hash''))"

text \<open>\<open>rateLimit\<close>: whether the request goes on to its handler.\<close>

datatype rate_kind = Read | Write

fun kind_name :: "rate_kind \<Rightarrow> string" where
  "kind_name Read = ''read''"
| "kind_name Write = ''write''"

definition rate_key :: "rate_kind \<Rightarrow> string option \<Rightarrow> string" where
  "rate_key kind ip = kind_name kind @ '':'' @ option_default ip ''unknown''"

definition recent_hits :: "server \<Rightarrow> string \<Rightarrow> int \<Rightarrow> int list" where
  "recent_hits sv key now =
     filter (\<lambda>t. now - t < rateLimitWindowMs sv) (option_default (assoc_get (rateLimitHits sv) key) [])"

definition rateLimit :: "string \<Rightarrow> int \<Rightarrow> int \<Rightarrow> server \<Rightarrow> bool \<times> server" where
  "rateLimit key limit now sv =
     (let hits = recent_hits sv key now
      in if limit \<le> int (length hits)
         then (False, sv\<lparr>rateLimitRejections := rateLimitRejections sv + 1\<rparr>)
         else (True, sv\<lparr>rateLimitHits := assoc_set key (hits @ [now]) (rateLimitHits sv)\<rparr>))"

text \<open>A property read from a parsed body that is an object or an array.\<close>

definition body_get :: "jval \<Rightarrow> string \<Rightarrow> jval" where
  "body_get body k = (case body of JObj obj \<Rightarrow> obj_get obj k | _ \<Rightarrow> JUndef)"

definition is_object :: "jval \<Rightarrow> bool" where
  "is_object v = (case v of JObj _ \<Rightarrow> True | JArr _ \<Rightarrow> True | _ \<Rightarrow> False)"

definition verifySignature :: "viem_lib \<Rightarrow> server \<Rightarrow> intent \<Rightarrow> hex \<Rightarrow> bool" where
  "verifySignature v sv i sig =
     (case verifyIntent (hashTypedData v) (recoverTypedDataAddress v) i sig (sv_domain sv)
             \<lparr>vo_client = sv_client sv, vo_isContract = None\<rparr> of
        Inl _ \<Rightarrow> False
      | Inr b \<Rightarrow> b)"

text \<open>The guards of \<open>handleSubmitIntent\<close>, up to and including the signature check.\<close>

definition check_submission ::
  "viem_lib \<Rightarrow> int \<Rightarrow> jval \<Rightarrow> server \<Rightarrow> (string, intent \<times> hex) result" where
  "check_submission v nowMs body sv =
     (if \<not> is_object body then Inl ''Missing request body''
      else if \<not> is_object (body_get body ''intent'') then Inl ''Missing intent''
      else
        (case body_get body ''signature'' of
           JStr sig \<Rightarrow>
             if \<not> hex_string_any sig then Inl ''Invalid signature''
             else
               (case parseIntent (isAddress v) (body_get body ''intent'') of
                  Inl _ \<Rightarrow> Inl ''Invalid intent''
                | Inr parsed \<Rightarrow>
                    if isExpired parsed (nowMs div 1000) 0 then Inl ''Intent has expired''
                    else if \<not> verifySignature v sv parsed sig
                    then Inl ''Signature verification failed''
                    else Inr (parsed, sig))
         | _ \<Rightarrow> Inl ''Invalid signature''))"

text \<open>No response at all would be an unhandled rejection; the handler is proved never to have one.\<close>

definition handleSubmitIntent ::
  "viem_lib \<Rightarrow> int \<Rightarrow> int \<Rightarrow> jval \<Rightarrow> server \<Rightarrow> response option \<times> server" where
  "handleSubmitIntent v nowMs laterMs body sv =
     (case check_submission v nowMs body sv of
        Inl msg \<Rightarrow> (Some (error_response 400 msg), sv\<lparr>rejected := rejected sv + 1\<rparr>)
      | Inr (parsed, sig) \<Rightarrow>
          (case hashIntent (hashTypedData v) parsed (sv_domain sv) of
             Inl _ \<Rightarrow> (None, sv)
           | Inr h \<Rightarrow>
               (Some (json_response 201 (JObj [(''hash'', JStr h)])),
                sv\<lparr>sv_store := store_set h
                     \<lparr>intent_of = parsed, signature = sig, hash = h, mr_status = Pending,
                      mr_createdAt = laterMs div 1000\<rparr> (sv_store sv),
                   accepted := accepted sv + 1\<rparr>)))"

definition mempool_record_json :: "mempool_record \<Rightarrow> jval" where
  "mempool_record_json r = JObj
     [(''hash'', JStr (hash r)), (''intent'', intent_json (intent_of r)),
      (''signature'', JStr (signature r)), (''status'', JStr (status_name (mr_status r))),
      (''createdAt'', JNum (num_of_int (mr_createdAt r)))]"

definition handleGetIntent :: "jval \<Rightarrow> server \<Rightarrow> response" where
  "handleGetIntent raw sv =
     (case parseHashParam raw of
        Inl res \<Rightarrow> res
      | Inr h \<Rightarrow>
          (case store_get (sv_store sv) h of
             None \<Rightarrow> error_response 404 ''Intent not found''
           | Some r \<Rightarrow> json_response 200 (mempool_record_json r)))"

subsection \<open>Listing\<close>

text \<open>The four query parameters; a repeated one arrives as an array, an absent one as undefined.\<close>

definition status_param :: "jval \<Rightarrow> (response, intent_status option) result" where
  "status_param p =
     (case p of
        JUndef \<Rightarrow> Inr None
      | JStr s \<Rightarrow>
          (case status_of_name INTENT_STATUSES s of
             None \<Rightarrow> Inl (error_response 400 ''Invalid status filter'')
           | Some st \<Rightarrow> Inr (Some st))
      | _ \<Rightarrow> Inl (error_response 400 ''Invalid status filter''))"

definition param_number :: "jval \<Rightarrow> jsnum" where
  "param_number p = (case p of JStr s \<Rightarrow> js_number s | _ \<Rightarrow> NaN)"

definition chain_param :: "jval \<Rightarrow> (response, int option) result" where
  "chain_param p =
     (if p = JUndef then Inr None
      else if \<not> is_integer (param_number p) \<or> js_lt (param_number p) (Num 1)
      then Inl (error_response 400 ''Invalid chainId filter'')
      else Inr (Some (int_of_num (param_number p))))"

definition limit_param :: "jval \<Rightarrow> (response, int) result" where
  "limit_param p =
     (if p = JUndef then Inr DEFAULT_LIST_LIMIT
      else if \<not> is_integer (param_number p) \<or> js_lt (param_number p) (Num 1)
        \<or> js_lt (num_of_int MAX_LIST_LIMIT) (param_number p)
      then Inl (error_response 400 ''Invalid limit'')
      else Inr (int_of_num (param_number p)))"

definition cursor_param :: "store \<Rightarrow> jval \<Rightarrow> (response, hex option) result" where
  "cursor_param s p =
     (case p of
        JUndef \<Rightarrow> Inr None
      | JStr c \<Rightarrow>
          if \<not> hex_string_lower 64 (to_lower c) then Inl (error_response 400 ''Invalid cursor'')
          else if store_get s (to_lower c) = None then Inl (error_response 400 ''Invalid cursor'')
          else Inr (Some (to_lower c))
      | _ \<Rightarrow> Inl (error_response 400 ''Invalid cursor''))"

definition page_json :: "page_result \<Rightarrow> jval" where
  "page_json p = JObj
     ([(''records'', JArr (map mempool_record_json (pg_records p)))]
      @ optional_member ''nextCursor'' (pg_nextCursor p))"

record list_query =
  q_status :: jval
  q_chainId :: jval
  q_limit :: jval
  q_cursor :: jval

definition handleListIntents :: "list_query \<Rightarrow> server \<Rightarrow> response" where
  "handleListIntents q sv =
     (case bind_result (status_param (q_status q)) (\<lambda>st.
           bind_result (chain_param (q_chainId q)) (\<lambda>chain.
           bind_result (limit_param (q_limit q)) (\<lambda>limit.
           bind_result (cursor_param (sv_store sv) (q_cursor q)) (\<lambda>cursor.
             Inr (store_list (sv_store sv) st chain cursor limit))))) of
        Inl res \<Rightarrow> res
      | Inr page \<Rightarrow> json_response 200 (page_json page))"

subsection \<open>Status updates, information and metrics\<close>

definition status_auth :: "server \<Rightarrow> string option \<Rightarrow> bool" where
  "status_auth sv auth =
     (case statusToken sv of
        None \<Rightarrow> True
      | Some tok \<Rightarrow> tok = '''' \<or> auth = Some (''Bearer '' @ tok))"

definition handleUpdateStatus :: "string option \<Rightarrow> jval \<Rightarrow> jval \<Rightarrow> server \<Rightarrow> response \<times> server" where
  "handleUpdateStatus auth raw body sv =
     (if \<not> status_auth sv auth then (error_response 401 ''Unauthorized'', sv)
      else
        (case parseHashParam raw of
           Inl res \<Rightarrow> (res, sv)
         | Inr h \<Rightarrow>
             (case (case body_get body ''status'' of
                      JStr s \<Rightarrow> status_of_name INTENT_STATUSES s | _ \<Rightarrow> None) of
                None \<Rightarrow> (error_response 400 ''Invalid status'', sv)
              | Some st \<Rightarrow>
                  (let (updated, s') = updateStatus h st (sv_store sv)
                   in if \<not> updated then (error_response 404 ''Intent not found'', sv\<lparr>sv_store := s'\<rparr>)
                      else (json_response 200 (JBool updated), sv\<lparr>sv_store := s'\<rparr>)))))"

definition handleInfo :: "server \<Rightarrow> response" where
  "handleInfo sv = json_response 200 (JObj
     [(''chainId'', JNum (sv_chainId sv)), (''verifyingContract'', JStr (sv_verifyingContract sv)),
      (''domain'', JObj
         [(''name'', JStr (dom_name (sv_domain sv))), (''version'', JStr (dom_version (sv_domain sv))),
          (''chainId'', JNum (num_of_int (dom_chainId (sv_domain sv)))),
          (''verifyingContract'', JStr (dom_verifyingContract (sv_domain sv)))])])"

definition readyz :: "server \<Rightarrow> response" where
  "readyz sv =
     (if \<not> isReady sv
      then json_response 503 (JObj [(''status'', JStr ''not ready''),
             (''reason'', JStr ''sweep timer not started'')])
      else json_response 200 (JObj [(''status'', JStr ''ready'')]))"

text \<open>The metrics page as its samples; the HELP and TYPE lines are fixed text.\<close>

definition count_status :: "store \<Rightarrow> intent_status \<Rightarrow> nat" where
  "count_status s st = length (filter (\<lambda>r. mr_status r = st) (store_all s None))"

definition getPrometheusMetrics :: "server \<Rightarrow> (string \<times> nat) list" where
  "getPrometheusMetrics sv =
     [(''mempool_store_size'', length (store_all (sv_store sv) None)),
      (''mempool_store_pending_intents'', count_status (sv_store sv) Pending),
      (''mempool_store_filled_intents'', count_status (sv_store sv) Filled),
      (''mempool_store_settled_intents'', count_status (sv_store sv) Settled),
      (''mempool_store_refunded_intents'', count_status (sv_store sv) Refunded),
      (''mempool_store_expired_intents'', count_status (sv_store sv) Expired),
      (''mempool_submissions_accepted'', accepted sv),
      (''mempool_submissions_rejected'', rejected sv),
      (''mempool_rate_limit_rejections'', rateLimitRejections sv)]"

text \<open>The middleware that turns a framework error into the server's JSON error shape.\<close>

record framework_error =
  fe_type :: "string option"
  fe_status :: "int option"
  fe_statusCode :: "int option"

definition framework_response :: "framework_error \<Rightarrow> response" where
  "framework_response e =
     (if fe_type e = Some ''entity.too.large''
      then error_response 413 ''Request body exceeds the 8kb limit''
      else if fe_type e \<in> Some ` {''entity.parse.failed'', ''encoding.unsupported'',
                                   ''charset.unsupported'', ''request.aborted''}
      then error_response 400 ''Malformed JSON request body''
      else
        (case (case fe_status e of Some c \<Rightarrow> Some c | None \<Rightarrow> fe_statusCode e) of
           Some c \<Rightarrow>
             if 400 \<le> c \<and> c < 500 then error_response c ''Bad request''
             else error_response 500 ''Internal server error''
         | None \<Rightarrow> error_response 500 ''Internal server error''))"

section \<open>One request\<close>

text \<open>
  \<open>setupRoutes\<close>: the body parser runs first, then the rate limiter of the route, then the handler.
  A request is the route it matches with the parts its handler reads; \<open>BadBody\<close> is one whose body
  the parser rejects. The response is \<open>None\<close> if none is ever sent.
\<close>

datatype request =
    Healthz
  | Readyz
  | Metrics
  | Info
  | PostIntent jval
  | GetIntent jval
  | ListIntents list_query
  | PatchStatus "string option" jval jval
  | OtherRoute
  | BadBody framework_error

definition limited ::
  "rate_kind \<Rightarrow> string option \<Rightarrow> int \<Rightarrow> (server \<Rightarrow> response option \<times> server) \<Rightarrow> server
     \<Rightarrow> response option \<times> server" where
  "limited kind ip now next sv =
     (let lim = (case kind of Read \<Rightarrow> readRateLimit sv | Write \<Rightarrow> writeRateLimit sv);
          (ok, sv') = rateLimit (rate_key kind ip) lim now sv
      in if ok then next sv' else (Some (error_response 429 ''Too many requests''), sv'))"

definition metrics_body :: "server \<Rightarrow> jval" where
  "metrics_body sv =
     JObj (map (\<lambda>(name, n). (name, JNum (num_of_int (int n)))) (getPrometheusMetrics sv))"

fun handle ::
  "viem_lib \<Rightarrow> string option \<Rightarrow> int \<Rightarrow> int \<Rightarrow> request \<Rightarrow> server \<Rightarrow> response option \<times> server" where
  "handle v ip now later Healthz sv =
     (Some (json_response 200 (JObj [(''status'', JStr ''ok'')])), sv)"
| "handle v ip now later Readyz sv = (Some (readyz sv), sv)"
| "handle v ip now later Metrics sv = (Some (json_response 200 (metrics_body sv)), sv)"
| "handle v ip now later Info sv = limited Read ip now (\<lambda>sv. (Some (handleInfo sv), sv)) sv"
| "handle v ip now later (PostIntent body) sv =
     limited Write ip now (handleSubmitIntent v now later body) sv"
| "handle v ip now later (GetIntent raw) sv =
     limited Read ip now (\<lambda>sv. (Some (handleGetIntent raw sv), sv)) sv"
| "handle v ip now later (ListIntents q) sv =
     limited Read ip now (\<lambda>sv. (Some (handleListIntents q sv), sv)) sv"
| "handle v ip now later (PatchStatus auth raw body) sv =
     limited Write ip now
       (\<lambda>sv. let (res, sv') = handleUpdateStatus auth raw body sv in (Some res, sv')) sv"
| "handle v ip now later OtherRoute sv = (Some (error_response 404 ''Not found''), sv)"
| "handle v ip now later (BadBody e) sv = (Some (framework_response e), sv)"

text \<open>What happens to a running server: requests, and the sweep timer firing.\<close>

datatype server_event =
    Request "string option" int int request
  | SweepTimer int

inductive server_step :: "viem_lib \<Rightarrow> server \<Rightarrow> server_event \<Rightarrow> response option \<Rightarrow> server \<Rightarrow> bool"
  for v :: viem_lib
  where
    request: "handle v ip now later req sv = (res, sv') \<Longrightarrow>
      server_step v sv (Request ip now later req) res sv'"
  | sweep: "sweepTimer sv \<Longrightarrow>
      server_step v sv (SweepTimer nowMs) None
        (sv\<lparr>sv_store := snd (evictExpired (nowMs div 1000) (sv_store sv))\<rparr>)"

inductive server_reach :: "viem_lib \<Rightarrow> server \<Rightarrow> server_event list \<Rightarrow> server \<Rightarrow> bool"
  for v :: viem_lib and sv0 :: server
  where
    init: "server_reach v sv0 [] sv0"
  | step: "server_reach v sv0 es sv \<Longrightarrow> server_step v sv e res sv' \<Longrightarrow>
      server_reach v sv0 (es @ [e]) sv'"

inductive_cases server_step_requestE: "server_step v sv (Request ip now later req) res sv'"
inductive_cases server_step_sweepE: "server_step v sv (SweepTimer nowMs) res sv'"
inductive_simps server_step_request_iff: "server_step v sv (Request ip now later req) res sv'"

section \<open>What a stored record vouches for\<close>

text \<open>
  The fields no request changes, and the invariant of the store under them: what is stored was
  parsed, is filed under its own typed-data hash, and carries a signature of hex digits that verified.
\<close>

definition same_identity :: "server \<Rightarrow> server \<Rightarrow> bool" where
  "same_identity sv sv' \<longleftrightarrow> sv_domain sv' = sv_domain sv \<and> sv_client sv' = sv_client sv
     \<and> statusToken sv' = statusToken sv"

definition vouched :: "viem_lib \<Rightarrow> server \<Rightarrow> mempool_record \<Rightarrow> bool" where
  "vouched v sv r \<longleftrightarrow>
     wire_intent (isAddress v) (intent_of r)
     \<and> hashIntent (hashTypedData v) (intent_of r) (sv_domain sv) = Inr (hash r)
     \<and> hex_string_any (signature r) \<and> verifySignature v sv (intent_of r) (signature r)
     \<and> mr_status r \<in> set mempool_statuses"

definition server_ok :: "viem_lib \<Rightarrow> server \<Rightarrow> bool" where
  "server_ok v sv \<longleftrightarrow> store_ok (sv_store sv) \<and> store_bounded (sv_store sv)
     \<and> (\<forall>h r. store_get (sv_store sv) h = Some r \<longrightarrow> vouched v sv r)"

lemma same_identity_refl [simp, intro]: "same_identity sv sv"
  by (simp add: same_identity_def)

lemma same_identity_trans: "same_identity a b \<Longrightarrow> same_identity b c \<Longrightarrow> same_identity a c"
  by (simp add: same_identity_def)

lemma verifySignature_identity: "same_identity sv sv' \<Longrightarrow> verifySignature v sv' = verifySignature v sv"
  by (simp add: verifySignature_def same_identity_def fun_eq_iff)

lemma vouched_identity: "same_identity sv sv' \<Longrightarrow> vouched v sv' r = vouched v sv r"
  using verifySignature_identity [of sv sv' v] by (simp add: vouched_def same_identity_def)

lemma vouched_update [simp]: "vouched v (sv\<lparr>sv_store := s\<rparr>) r = vouched v sv r"
  by (rule vouched_identity) (simp add: same_identity_def)

lemma server_ok_store_same:
  "same_identity sv sv' \<Longrightarrow> sv_store sv' = sv_store sv \<Longrightarrow> server_ok v sv \<Longrightarrow> server_ok v sv'"
  using vouched_identity [of sv sv' v] by (simp add: server_ok_def)

lemma server_ok_step:
  assumes "server_ok v sv" and "same_identity sv sv'" and "sv_store sv' = store_step op (sv_store sv)"
    and "\<And>h r. store_get (sv_store sv') h = Some r \<Longrightarrow>
      vouched v sv r \<or> store_get (sv_store sv) h = Some r"
  shows "server_ok v sv'"
proof -
  have "vouched v sv r" if "store_get (sv_store sv') h = Some r" for h r
    using assms(1) assms(4) [OF that] by (auto simp: server_ok_def)
  then show ?thesis
    using assms(1,3) store_step_inv [of "sv_store sv" op] vouched_identity [OF assms(2), of v]
    by (simp add: server_ok_def)
qed

lemma store_set_get_old:
  assumes "store_get (store_set h r s) k = Some x"
  shows "x = r \<or> store_get s k = Some x"
proof -
  have "store_get (make_room h s) k = Some x \<Longrightarrow> store_get s k = Some x"
    by (auto simp: make_room_def Let_def evictOne_get store_delete_get split: if_splits option.splits)
  with assms show ?thesis by (auto simp: store_set_get split: if_splits)
qed

lemma evictExpired_get_old:
  assumes "store_ok s" and "store_get (snd (evictExpired now s)) k = Some x"
  shows "store_get s k = Some x"
proof -
  have a: "assoc_ok (records s)" using assms(1) by (simp add: store_ok_def)
  have "(k, x) \<in> set (records (snd (evictExpired now s)))"
    using assms(2) by (auto simp: store_get_def dest: assoc_get_SomeD)
  then have "(k, x) \<in> set (records s)" by (simp add: evictExpired_records [OF a])
  with a show ?thesis by (simp add: store_get_def assoc_get_SomeI)
qed

lemma vouched_status [simp]: "st \<in> set mempool_statuses \<Longrightarrow> vouched v sv r \<Longrightarrow> vouched v sv (r\<lparr>mr_status := st\<rparr>)"
  by (simp add: vouched_def)

lemma INTENT_STATUSES_eq: "INTENT_STATUSES = mempool_statuses"
  by (simp add: INTENT_STATUSES_def mempool_statuses_def)

lemma check_submission_Inr:
  assumes "check_submission v now body sv = Inr (i, sig)"
  shows "parseIntent (isAddress v) (body_get body ''intent'') = Inr i"
    and "body_get body ''signature'' = JStr sig" and "hex_string_any sig"
    and "now div 1000 < deadline i" and "verifySignature v sv i sig"
proof -
  from assms obtain s where s: "body_get body ''signature'' = JStr s"
    by (cases "body_get body ''signature''") (simp_all add: check_submission_def split: if_splits)
  moreover obtain j where j: "parseIntent (isAddress v) (body_get body ''intent'') = Inr j"
    using assms s
    by (cases "parseIntent (isAddress v) (body_get body ''intent'')")
       (simp_all add: check_submission_def split: if_splits)
  ultimately have "s = sig" "j = i" "hex_string_any sig" "now div 1000 < deadline i" "verifySignature v sv i sig"
    using assms by (simp_all add: check_submission_def isExpired_def split: if_splits)
  with s j show "parseIntent (isAddress v) (body_get body ''intent'') = Inr i"
    "body_get body ''signature'' = JStr sig" "hex_string_any sig" "now div 1000 < deadline i"
    "verifySignature v sv i sig" by simp_all
qed

lemma handleSubmitIntent_ok:
  assumes "server_ok v sv" and "handleSubmitIntent v now later body sv = (res, sv')"
  shows "server_ok v sv' \<and> same_identity sv sv'"
proof (cases "check_submission v now body sv")
  case (Inl msg)
  then show ?thesis
    using assms by (auto simp: handleSubmitIntent_def same_identity_def intro: server_ok_store_same)
next
  case (Inr p)
  obtain i sig where p: "p = (i, sig)" by force
  note chk = check_submission_Inr [OF Inr [unfolded p]]
  show ?thesis
  proof (cases "hashIntent (hashTypedData v) i (sv_domain sv)")
    case (Inl e)
    then show ?thesis using assms Inr p by (simp add: handleSubmitIntent_def)
  next
    case h: (Inr h)
    let ?r = "\<lparr>intent_of = i, signature = sig, hash = h, mr_status = Pending, mr_createdAt = later div 1000\<rparr>"
    have sv': "sv' = sv\<lparr>sv_store := store_set h ?r (sv_store sv), accepted := accepted sv + 1\<rparr>"
      using assms(2) Inr p h by (simp add: handleSubmitIntent_def)
    have id: "same_identity sv sv'" by (simp add: sv' same_identity_def)
    have v: "vouched v sv ?r"
      using chk h parseIntent_wire [OF chk(1)] by (simp add: vouched_def mempool_statuses_def)
    have "server_ok v sv'"
    proof (rule server_ok_step [OF assms(1) id, of "OpSet ?r"])
      show "sv_store sv' = store_step (OpSet ?r) (sv_store sv)" by (simp add: sv')
      fix k x assume "store_get (sv_store sv') k = Some x"
      then show "vouched v sv x \<or> store_get (sv_store sv) k = Some x"
        using v store_set_get_old [of h ?r "sv_store sv" k x] by (auto simp: sv')
    qed
    with id show ?thesis by simp
  qed
qed

lemma handleUpdateStatus_ok:
  assumes "server_ok v sv" and "handleUpdateStatus auth raw body sv = (res, sv')"
  shows "server_ok v sv' \<and> same_identity sv sv'"
proof (cases "sv_store sv' = sv_store sv")
  case True
  then show ?thesis
    using assms by (auto simp: handleUpdateStatus_def same_identity_def Let_def split: if_splits
        sum.splits option.splits prod.splits intro: server_ok_store_same)
next
  case False
  then obtain h st where st: "st \<in> set mempool_statuses"
    and sv': "sv' = sv\<lparr>sv_store := snd (updateStatus h st (sv_store sv))\<rparr>"
    using assms(2) by (auto simp: handleUpdateStatus_def INTENT_STATUSES_eq status_of_name_Some
        case_prod_beta Let_def split: if_splits sum.splits option.splits jval.splits)
  have id: "same_identity sv sv'" by (simp add: sv' same_identity_def)
  have "server_ok v sv'"
  proof (rule server_ok_step [OF assms(1) id, of "OpUpdate h st"])
    show "sv_store sv' = store_step (OpUpdate h st) (sv_store sv)" by (simp add: sv')
    fix k x assume "store_get (sv_store sv') k = Some x"
    then show "vouched v sv x \<or> store_get (sv_store sv) k = Some x"
      using assms(1) st by (auto simp: sv' updateStatus_get server_ok_def split: option.splits if_splits)
  qed
  with id show ?thesis by simp
qed

lemma limited_ok:
  assumes "server_ok v sv" and "limited kind ip now next sv = (res, sv')"
    and "\<And>t. server_ok v t \<Longrightarrow> same_identity sv t \<Longrightarrow> next t = (res, sv') \<Longrightarrow>
      server_ok v sv' \<and> same_identity t sv'"
  shows "server_ok v sv' \<and> same_identity sv sv'"
proof -
  obtain ok t where t: "rateLimit (rate_key kind ip)
      (case kind of Read \<Rightarrow> readRateLimit sv | Write \<Rightarrow> writeRateLimit sv) now sv = (ok, t)" by force
  then have "same_identity sv t \<and> sv_store t = sv_store sv"
    by (auto simp: rateLimit_def Let_def same_identity_def split: if_splits)
  with assms(1) have "server_ok v t" "same_identity sv t" by (auto intro: server_ok_store_same)
  with assms(2,3) t show ?thesis
    by (auto simp: limited_def split: if_splits intro: same_identity_trans)
qed

lemma handle_ok:
  assumes "server_ok v sv" and "handle v ip now later req sv = (res, sv')"
  shows "server_ok v sv' \<and> same_identity sv sv'"
proof (cases req)
  case (PostIntent body)
  then show ?thesis
    using assms handleSubmitIntent_ok by (auto intro!: limited_ok [OF assms(1), of Write ip now _ res sv'])
next
  case (PatchStatus auth raw body)
  show ?thesis
  proof (rule limited_ok [OF assms(1), of Write ip now _ res sv'])
    show "limited Write ip now (\<lambda>sv. let (res, sv') = handleUpdateStatus auth raw body sv in (Some res, sv')) sv
        = (res, sv')" using assms(2) PatchStatus by simp
  qed (use handleUpdateStatus_ok in \<open>auto split: prod.splits\<close>)
qed (use assms in \<open>auto intro!: limited_ok [OF assms(1), of Read ip now _ res sv']\<close>)

lemma server_step_ok:
  assumes "server_step v sv e res sv'" and "server_ok v sv"
  shows "server_ok v sv' \<and> same_identity sv sv'"
  using assms
proof (induction rule: server_step.induct)
  case (request ip now later req sv res sv')
  then show ?case using handle_ok by blast
next
  case (sweep sv nowMs)
  let ?sv' = "sv\<lparr>sv_store := snd (evictExpired (nowMs div 1000) (sv_store sv))\<rparr>"
  have id: "same_identity sv ?sv'" by (simp add: same_identity_def)
  have "server_ok v ?sv'"
  proof (rule server_ok_step [OF sweep(2) id, of "OpSweep (nowMs div 1000)"])
    fix k x assume "store_get (sv_store ?sv') k = Some x"
    then show "vouched v sv x \<or> store_get (sv_store sv) k = Some x"
      using sweep(2) evictExpired_get_old [of "sv_store sv"] by (auto simp: server_ok_def)
  qed simp
  with id show ?case by simp
qed

lemma server_reach_ok:
  "server_reach v sv0 es sv \<Longrightarrow> server_ok v sv0 \<Longrightarrow> server_ok v sv \<and> same_identity sv0 sv"
  by (induction rule: server_reach.induct) (auto dest: server_step_ok intro: same_identity_trans)

lemma new_server_ok: "new_server opts = Inr (sv, w) \<Longrightarrow> server_ok v sv"
  using new_store_inv
  by (auto simp: new_server_def Let_def server_ok_def new_store_def store_get_def split: option.splits if_splits)

section \<open>A concrete server\<close>

definition sample_hash :: hex where
  "sample_hash = ''0x'' @ replicate 64 (CHR ''a'')"

definition sample_viem :: viem_lib where
  "sample_viem =
     \<lparr>isAddress = hex_string 40, hashTypedData = \<lambda>_ _. sample_hash,
      recoverTypedDataAddress = \<lambda>_ _ _. Inr (user sample_intent)\<rparr>"

definition sample_server_options :: server_options where
  "sample_server_options =
     \<lparr>so_port = None, so_host = None, so_chainId = Some (Num 8453),
      so_verifyingContract = ''0x3333333333333333333333333333333333333333'',
      so_statusToken = Some ''secret'', so_maxStoreSize = None, so_expiryGraceMs = None,
      so_rateLimitWindowMs = None, so_writeRateLimit = Some 2, so_readRateLimit = None,
      so_client = None\<rparr>"

definition sample_server :: server where
  "sample_server = fst (projr (new_server sample_server_options))"

definition sample_body :: jval where
  "sample_body = JObj [(''intent'', intent_json sample_intent), (''signature'', JStr sample_sig)]"

lemma lower_zero_char: "lower_char (CHR ''0'') = CHR ''0''" "lower_char (CHR ''x'') = CHR ''x''"
  "lower_char (CHR ''3'') = CHR ''3''"
  by (simp_all add: lower_char_def is_upper_def char_code_def)

lemma sample_server_new: "new_server sample_server_options = Inr (sample_server, False)"
  by (simp add: sample_server_def new_server_def sample_server_options_def option_default_def
      to_lower_def lower_zero_char ZERO_ADDRESS_def Let_def)

lemmas sample_server_fields =
  sample_server_def new_server_def sample_server_options_def option_default_def to_lower_def
  lower_zero_char ZERO_ADDRESS_def Let_def new_store_def

lemma sample_server_simps:
  "sv_client sample_server = None" "statusToken sample_server = Some ''secret''"
  "writeRateLimit sample_server = 2" "rateLimitHits sample_server = []"
  "rateLimitWindowMs sample_server = 60000" "records (sv_store sample_server) = []"
  "maxSize (sv_store sample_server) = 50000"
  by (simp_all add: sample_server_fields DEFAULT_RATE_LIMIT_WINDOW_MS_def DEFAULT_MAX_SIZE_def)

lemma sample_verifies:
  "sv_client sv = None \<Longrightarrow> verifySignature sample_viem sv sample_intent sample_sig"
proof -
  have "length sample_sig = 132" by (simp add: sample_sig_def)
  then show "sv_client sv = None \<Longrightarrow> verifySignature sample_viem sv sample_intent sample_sig"
    using sample_message
    by (auto simp: verifySignature_def verifyIntent_def is_contract_user_def sample_viem_def
        sample_sig_s SECP256K1_HALF_N_def)
qed

lemma sample_body_gets:
  "body_get sample_body ''intent'' = intent_json sample_intent"
  "body_get sample_body ''signature'' = JStr sample_sig"
  "is_object sample_body" "is_object (intent_json sample_intent)"
  by (simp_all add: sample_body_def body_get_def is_object_def obj_get_Cons intent_json_def)

lemma sample_sig_hex: "hex_string_any sample_sig"
  using sample_record_wire [of Pending]
  by (auto simp: wire_record_def wire_signed_def sample_intent_record_def intro: hex_string_any)

lemma sample_submission:
  "sv_client sv = None \<Longrightarrow> now div 1000 < 1600 \<Longrightarrow>
     check_submission sample_viem now sample_body sv = Inr (sample_intent, sample_sig)"
  using wire_parseIntent [OF sample_intent_wire] sample_verifies [of sv]
  by (simp add: check_submission_def sample_body_gets sample_sig_hex sample_viem_def isExpired_def)
     (simp add: sample_intent_def)

lemma sample_hashes: "hashIntent (hashTypedData sample_viem) sample_intent dmn = Inr sample_hash"
  using sample_message by (auto simp: hashIntent_def sample_viem_def)

definition sample_stored :: mempool_record where
  "sample_stored = \<lparr>intent_of = sample_intent, signature = sample_sig, hash = sample_hash,
     mr_status = Pending, mr_createdAt = 1000\<rparr>"

definition server_after_submit :: server where
  "server_after_submit = snd (handle sample_viem (Some ''ip'') 1000000 1000000 (PostIntent sample_body) sample_server)"

lemma store_set_empty: "records s = [] \<Longrightarrow> 0 < maxSize s \<Longrightarrow> store_get (store_set h r s) h = Some r"
  by (simp add: store_set_get)

lemma server_after_submit_get: "store_get (sv_store server_after_submit) sample_hash = Some sample_stored"
  using sample_submission [of "sample_server\<lparr>rateLimitHits := x\<rparr>" 1000000 for x]
  by (simp add: server_after_submit_def limited_def rateLimit_def recent_hits_def sample_server_simps
      option_default_def Let_def handleSubmitIntent_def sample_hashes store_set_get sample_stored_def)

section \<open>Properties\<close>

text \<open>
  C1. Everything the mempool serves is vouched for: after any sequence of requests, status reports
  and sweeps, a stored record sits under the typed-data hash of its intent in the domain the server
  was configured with, the intent meets the wire rules, its signature verified against that domain,
  and its status is one of the five the mempool assigns.
\<close>

theorem stored_intents_are_vouched:
  assumes "new_server opts = Inr (sv0, w)" and "so_chainId opts = Some (num_of_int chain)"
    and "server_reach v sv0 es sv" and "store_get (sv_store sv) h = Some r"
  shows "hash r = h
    \<and> hashIntent (hashTypedData v) (intent_of r) (perihelionDomain chain (so_verifyingContract opts)) = Inr h
    \<and> wire_intent (isAddress v) (intent_of r)
    \<and> verifySignature v sv0 (intent_of r) (signature r)
    \<and> mr_status r \<in> set mempool_statuses"
proof -
  have ok: "server_ok v sv" "same_identity sv0 sv"
    using server_reach_ok [OF assms(3) new_server_ok [OF assms(1)]] by simp_all
  then have "vouched v sv r" "hash r = h"
    using assms(4) by (auto simp: server_ok_def store_ok_def)
  moreover have "sv_domain sv0 = perihelionDomain chain (so_verifyingContract opts)"
    using assms(1,2) by (auto simp: new_server_def Let_def split: if_splits)
  ultimately show ?thesis
    using ok(2) verifySignature_identity [OF ok(2), of v] by (simp add: vouched_def same_identity_def)
qed

theorem stored_intents_are_vouched_witness:
  "\<exists>sv. server_reach sample_viem sample_server
      [Request (Some ''ip'') 1000000 1000000 (PostIntent sample_body)] sv
    \<and> store_get (sv_store sv) sample_hash = Some sample_stored
    \<and> hashIntent (hashTypedData sample_viem) sample_intent
        (perihelionDomain 8453 ''0x3333333333333333333333333333333333333333'') = Inr sample_hash"
proof -
  have "server_step sample_viem sample_server
      (Request (Some ''ip'') 1000000 1000000 (PostIntent sample_body))
      (fst (handle sample_viem (Some ''ip'') 1000000 1000000 (PostIntent sample_body) sample_server))
      server_after_submit"
    unfolding server_after_submit_def by (intro server_step.request) simp
  from server_reach.step [OF server_reach.init this]
  have r: "server_reach sample_viem sample_server
      [Request (Some ''ip'') 1000000 1000000 (PostIntent sample_body)] server_after_submit" by simp
  have "so_chainId sample_server_options = Some (num_of_int 8453)"
    by (simp add: sample_server_options_def)
  from stored_intents_are_vouched [OF sample_server_new this r server_after_submit_get] r
  show ?thesis
    using server_after_submit_get by (auto simp: sample_stored_def sample_server_options_def)
qed

section \<open>Rate limiting\<close>

text \<open>A sequence of limited requests, as key, limit and time, with the list of those granted.\<close>

definition rate_step :: "(string \<times> int) list \<times> server \<Rightarrow> string \<times> int \<times> int \<Rightarrow> (string \<times> int) list \<times> server" where
  "rate_step st req =
     (let (granted, sv) = st; (key, lmt, now) = req; (ok, sv') = rateLimit key lmt now sv
      in (if ok then granted @ [(key, now)] else granted, sv'))"

definition rate_log :: "(string \<times> int \<times> int) list \<Rightarrow> server \<Rightarrow> (string \<times> int) list" where
  "rate_log reqs sv = fst (foldl rate_step ([], sv) reqs)"

definition times :: "string \<Rightarrow> (string \<times> int) list \<Rightarrow> int list" where
  "times key granted = map snd (filter (\<lambda>e. fst e = key) granted)"

definition in_window :: "int \<Rightarrow> int \<Rightarrow> int list \<Rightarrow> nat" where
  "in_window w T ts = length (filter (\<lambda>t. T - t < w \<and> t \<le> T) ts)"

definition hits_of :: "server \<Rightarrow> string \<Rightarrow> int list" where
  "hits_of sv key = option_default (assoc_get (rateLimitHits sv) key) []"

definition rate_inv :: "int \<Rightarrow> int \<Rightarrow> string \<Rightarrow> int \<Rightarrow> (string \<times> int) list \<times> server \<Rightarrow> bool" where
  "rate_inv w L key t0 st \<longleftrightarrow>
     rateLimitWindowMs (snd st) = w
     \<and> (\<forall>t \<in> set (times key (fst st)). t \<le> t0)
     \<and> filter (\<lambda>t. t0 - t < w) (times key (fst st)) = filter (\<lambda>t. t0 - t < w) (hits_of (snd st) key)
     \<and> (\<forall>T. int (in_window w T (times key (fst st))) \<le> max 0 L)"

lemma hits_of_step:
  "hits_of (snd (rateLimit key lmt now sv)) k =
     (if k = key \<and> fst (rateLimit key lmt now sv)
      then filter (\<lambda>t. now - t < rateLimitWindowMs sv) (hits_of sv key) @ [now] else hits_of sv k)"
  by (auto simp: rateLimit_def Let_def recent_hits_def hits_of_def option_default_def store_simps)

lemma rateLimit_window: "rateLimitWindowMs (snd (rateLimit key lmt now sv)) = rateLimitWindowMs sv"
  by (simp add: rateLimit_def Let_def)

lemma rateLimit_fst:
  "fst (rateLimit key lmt now sv) \<longleftrightarrow>
     int (length (filter (\<lambda>t. now - t < rateLimitWindowMs sv) (hits_of sv key))) < lmt"
  by (auto simp: rateLimit_def Let_def recent_hits_def hits_of_def)

lemma filter_later:
  "filter (\<lambda>t. t0 - t < w) xs = filter (\<lambda>t. t0 - t < w) ys \<Longrightarrow> t0 \<le> now \<Longrightarrow>
   filter (\<lambda>t. now - t < (w::int)) xs = filter (\<lambda>t. now - t < w) ys"
proof -
  assume eq: "filter (\<lambda>t. t0 - t < w) xs = filter (\<lambda>t. t0 - t < w) ys" and le: "t0 \<le> now"
  have sub: "filter (\<lambda>t. now - t < w) zs = filter (\<lambda>t. now - t < w) (filter (\<lambda>t. t0 - t < w) zs)" for zs
    using le by (auto intro: filter_cong)
  show ?thesis by (simp only: sub [of xs] sub [of ys] eq)
qed

lemma in_window_append: "in_window w T (xs @ ys) = in_window w T xs + in_window w T ys"
  by (simp add: in_window_def)

lemma in_window_later:
  "now \<le> T \<Longrightarrow> in_window w T xs \<le> length (filter (\<lambda>t. now - t < w) xs)"
  by (induction xs) (auto simp: in_window_def)

lemma times_snoc: "times k (granted @ [(key, now)]) = times k granted @ (if key = k then [now] else [])"
  by (simp add: times_def)

lemma rate_step_inv:
  assumes "rate_inv w L key t0 st" and "t0 \<le> now" and "k = key \<Longrightarrow> lmt = L"
  shows "rate_inv w L key now (rate_step st (k, lmt, now))"
proof -
  obtain granted sv where st: "st = (granted, sv)" by force
  let ?ok = "fst (rateLimit k lmt now sv)" and ?sv = "snd (rateLimit k lmt now sv)"
  have step: "rate_step st (k, lmt, now) = (if ?ok then granted @ [(k, now)] else granted, ?sv)"
    by (simp add: rate_step_def st Let_def split: prod.split)
  from assms(1) have inv: "rateLimitWindowMs sv = w" "\<forall>t \<in> set (times key granted). t \<le> t0"
    "\<forall>T. int (in_window w T (times key granted)) \<le> max 0 L"
    "filter (\<lambda>t. t0 - t < w) (times key granted) = filter (\<lambda>t. t0 - t < w) (hits_of sv key)"
    by (simp_all add: rate_inv_def st)
  note now = filter_later [OF inv(4) assms(2)]
  show ?thesis
  proof (cases "?ok \<and> k = key")
    case False
    then have "times key (if ?ok then granted @ [(k, now)] else granted) = times key granted"
      "hits_of ?sv key = hits_of sv key"
      by (auto simp: times_snoc hits_of_step)
    then show ?thesis
      using inv(1-3) now assms(2) unfolding rate_inv_def step fst_conv snd_conv
      by (auto simp: rateLimit_window intro: order_trans)
  next
    case True
    then have t: "times key (if ?ok then granted @ [(k, now)] else granted) = times key granted @ [now]"
      and h: "hits_of ?sv key = filter (\<lambda>t. now - t < w) (hits_of sv key) @ [now]"
      by (auto simp: times_snoc hits_of_step inv(1))
    have lmt: "int (length (filter (\<lambda>t. now - t < w) (times key granted))) < L"
      using True assms(3) by (auto simp: rateLimit_fst inv(1) now)
    have "int (in_window w T (times key granted @ [now])) \<le> max 0 L" for T
    proof (cases "now \<le> T")
      case True
      then have "in_window w T (times key granted) \<le> length (filter (\<lambda>t. now - t < w) (times key granted))"
        by (rule in_window_later)
      moreover have "in_window w T [now] \<le> 1" by (simp add: in_window_def)
      ultimately show ?thesis using lmt by (simp add: in_window_append)
    next
      case False
      then have "in_window w T [now] = 0" by (simp add: in_window_def)
      then show ?thesis using inv(3) by (simp add: in_window_append)
    qed
    then show ?thesis
      using inv(1,2) now assms(2) unfolding rate_inv_def step fst_conv snd_conv t h
      by (auto simp: rateLimit_window intro: order_trans)
  qed
qed

lemma rate_inv_run:
  assumes "rate_inv w L key t0 st" and "sorted (t0 # map (snd \<circ> snd) reqs)"
    and "\<forall>(k, lmt, t) \<in> set reqs. k = key \<longrightarrow> lmt = L"
  shows "\<exists>t2. rate_inv w L key t2 (foldl rate_step st reqs)"
  using assms
proof (induction reqs arbitrary: st t0)
  case (Cons req reqs)
  obtain k lmt now where req: "req = (k, lmt, now)" by (cases req) auto
  have "rate_inv w L key now (rate_step st (k, lmt, now))"
    using Cons.prems req by (intro rate_step_inv [of w L key t0]) auto
  moreover have "sorted (now # map (snd \<circ> snd) reqs)" using Cons.prems(2) req by (simp add: comp_def)
  moreover have "\<forall>(k, lmt, t) \<in> set reqs. k = key \<longrightarrow> lmt = L" using Cons.prems(3) by simp
  ultimately show ?case using Cons.IH [of now] req by (simp add: comp_def)
qed auto

text \<open>
  C36. The rate limiter keeps its promise: starting from a server without history, whatever requests
  arrive under whatever keys, as long as the clock does not run backwards, at most \<open>L\<close> of the
  requests of a key whose limit is \<open>L\<close> are let through in any window of \<open>rateLimitWindowMs\<close>.
\<close>

theorem rate_limit_bound:
  assumes "rateLimitHits sv = []" and "sorted (map (snd \<circ> snd) reqs)"
    and "\<forall>(k, lmt, t) \<in> set reqs. k = key \<longrightarrow> lmt = L"
  shows "int (in_window (rateLimitWindowMs sv) T (times key (rate_log reqs sv))) \<le> max 0 L"
proof (cases reqs)
  case Nil
  then show ?thesis by (simp add: rate_log_def times_def in_window_def)
next
  case (Cons req rs)
  let ?t1 = "snd (snd req)"
  have "rate_inv (rateLimitWindowMs sv) L key ?t1 ([], sv)"
    using assms(1) by (simp add: rate_inv_def times_def hits_of_def option_default_def in_window_def)
  moreover have "sorted (?t1 # map (snd \<circ> snd) reqs)" using assms(2) Cons by simp
  ultimately show ?thesis
    using rate_inv_run [of _ L key ?t1 "([], sv)" reqs] assms(3)
    by (auto simp: rate_log_def rate_inv_def)
qed

theorem rate_limit_bound_witness:
  "times ''write:ip'' (rate_log [(''write:ip'', 2, 0), (''write:ip'', 2, 1), (''read:ip'', 600, 2), (''write:ip'', 2, 3)]
       sample_server) = [0, 1]
   \<and> int (in_window 60000 3 (times ''write:ip'' (rate_log
       [(''write:ip'', 2, 0), (''write:ip'', 2, 1), (''read:ip'', 600, 2), (''write:ip'', 2, 3)] sample_server))) \<le> max 0 2"
proof -
  let ?reqs = "[(''write:ip'', 2, 0), (''write:ip'', 2, 1), (''read:ip'', 600, 2), (''write:ip'', 2, 3)]"
  have "times ''write:ip'' (rate_log ?reqs sample_server) = [0, 1]"
    by (simp add: rate_log_def rate_step_def rateLimit_def recent_hits_def sample_server_simps
        option_default_def Let_def times_def assoc_get_def)
  moreover have "int (in_window (rateLimitWindowMs sample_server) 3 (times ''write:ip'' (rate_log ?reqs sample_server))) \<le> max 0 2"
    by (rule rate_limit_bound) (simp_all add: sample_server_simps)
  ultimately show ?thesis by (simp add: sample_server_simps)
qed

text \<open>
  Every request is answered: whatever arrives, the handler chain ends in a response; in
  particular hashing an intent that passed the checks never throws, so the asynchronous submission
  handler has no unhandled rejection.
\<close>

theorem every_request_answered: "fst (handle v ip now later req sv) \<noteq> None"
proof -
  have submit: "fst (handleSubmitIntent v now later body t) \<noteq> None" for body t
  proof (cases "check_submission v now body t")
    case (Inr p)
    obtain i sig where p: "p = (i, sig)" by force
    have "wire_intent (isAddress v) i"
      using check_submission_Inr(1) [OF Inr [unfolded p]] parseIntent_wire by blast
    then have "\<exists>m. toMessage i = Inr m"
      by (auto simp: wire_intent_def toMessage_def js_bigint_pos js_bigint_nonneg)
    then show ?thesis using Inr p by (auto simp: handleSubmitIntent_def hashIntent_def)
  qed (simp add: handleSubmitIntent_def)
  have lmtd: "fst (limited kind ip now next sv) \<noteq> None" if "\<And>t. fst (next t) \<noteq> None" for kind "next"
    using that by (simp add: limited_def Let_def split: prod.split)
  show ?thesis
    by (cases req) (auto simp del: not_None_eq intro!: lmtd submit split: prod.split)
qed

text \<open>
  Without the configured token nobody changes a status: a PATCH whose authorization header is not
  the bearer token leaves the store as it was and is answered 401, or 429 by the rate limiter.
\<close>

theorem status_updates_need_token:
  assumes "statusToken sv = Some tok" and "tok \<noteq> ''''" and "auth \<noteq> Some (''Bearer '' @ tok)"
  shows "\<exists>res sv'. handle v ip now later (PatchStatus auth raw body) sv = (Some res, sv')
    \<and> sv_store sv' = sv_store sv \<and> res_status res \<in> {401, 429}"
proof -
  obtain ok t where t: "rateLimit (rate_key Write ip) (writeRateLimit sv) now sv = (ok, t)" by force
  then have "statusToken t = statusToken sv" "sv_store t = sv_store sv"
    by (auto simp: rateLimit_def Let_def split: if_splits)
  with assms t show ?thesis
    by (simp add: limited_def handleUpdateStatus_def status_auth_def error_response_def
        json_response_def)
qed

theorem status_updates_need_token_witness:
  "\<exists>res. fst (handle sample_viem None 0 0 (PatchStatus (Some ''Bearer guess'') (JStr sample_hash)
      (JObj [(''status'', JStr ''settled'')])) sample_server) = Some res \<and> res_status res \<in> {401, 429}"
  using status_updates_need_token [of sample_server "''secret''" "Some ''Bearer guess''" sample_viem None 0 0
      "JStr sample_hash" "JObj [(''status'', JStr ''settled'')]"]
  by (auto simp: sample_server_simps)

text \<open>
  Finality stops at the submission route: posting the same signed intent again, which anyone can
  do because intents and signatures are public, is accepted until the deadline and puts a record
  that was settled, refunded or expired back to pending.
\<close>

theorem resubmission_reopens:
  assumes "check_submission v now body sv = Inr (i, sig)"
    and "hashIntent (hashTypedData v) i (sv_domain sv) = Inr h"
    and "store_get (sv_store sv) h = Some r" and "terminal (mr_status r)"
  shows "\<exists>res sv' r'. handleSubmitIntent v now later body sv = (Some res, sv') \<and> res_status res = 201
    \<and> store_get (sv_store sv') h = Some r' \<and> mr_status r' = Pending
    \<and> \<not> terminal (mr_status r')"
  using assms
  by (simp add: handleSubmitIntent_def store_set_get json_response_def TERMINAL_STATUSES_def)

definition settled_server :: server where
  "settled_server = sample_server\<lparr>sv_store :=
     store_run [OpSet sample_stored, OpUpdate sample_hash Settled] (sv_store sample_server)\<rparr>"

lemma settled_server_get:
  "store_get (sv_store settled_server) sample_hash = Some (sample_stored\<lparr>mr_status := Settled\<rparr>)"
  by (simp add: settled_server_def store_run_def updateStatus_get store_set_get sample_stored_def
      TERMINAL_STATUSES_def)

theorem resubmission_reopens_witness:
  "\<exists>res sv' r'. handleSubmitIntent sample_viem 1000000 1001000 sample_body settled_server = (Some res, sv')
    \<and> res_status res = 201 \<and> store_get (sv_store sv') sample_hash = Some r' \<and> mr_status r' = Pending
    \<and> \<not> terminal (mr_status r')"
proof -
  have "check_submission sample_viem 1000000 sample_body settled_server = Inr (sample_intent, sample_sig)"
    by (rule sample_submission) (simp_all add: settled_server_def sample_server_simps)
  from resubmission_reopens [OF this sample_hashes settled_server_get] show ?thesis
    by (simp add: TERMINAL_STATUSES_def)
qed

lemma to_lower_hex_lower:
  assumes "hex_string_lower n c" shows "to_lower c = c"
proof -
  have "lower_char x = x" if "is_hex_lower x" for x
    using that by (auto simp: lower_char_def is_upper_def is_hex_lower_def is_digit_def)
  then have "map lower_char (drop 2 c) = drop 2 c"
    using assms by (intro map_idI) (auto simp: hex_string_lower_def list_all_iff)
  moreover have "map lower_char (take 2 c) = take 2 c"
    using assms by (simp add: hex_string_lower_def lower_zero_char)
  ultimately show ?thesis by (metis append_take_drop_id map_append to_lower_def)
qed

lemma status_param_name:
  "st \<in> set mempool_statuses \<Longrightarrow> status_param (JStr (status_name st)) = Inr (Some st)"
  using status_of_name_Some [of INTENT_STATUSES "status_name st" st]
  by (simp add: status_param_def INTENT_STATUSES_eq)

text \<open>
  A listing by status breaks off when its cursor moves on: if the last record of a page has left
  the status by the time the next page is requested, the server accepts the cursor, because the
  record still exists, and answers with an empty last page, whatever else has that status.
\<close>

theorem moved_cursor_ends_listing:
  assumes "store_ok (sv_store sv)" and "store_get (sv_store sv) c = Some r"
    and "hex_string_lower 64 c" and "mr_status r \<noteq> st" and "st \<in> set mempool_statuses"
  shows "handleListIntents \<lparr>q_status = JStr (status_name st), q_chainId = JUndef, q_limit = JUndef,
      q_cursor = JStr c\<rparr> sv
    = json_response 200 (page_json \<lparr>pg_records = [], pg_nextCursor = None\<rparr>)"
proof -
  let ?s = "sv_store sv"
  have "r' \<notin> set (selected ?s (Some st, None))" if "hash r' = c" for r'
    using that assms(1,2,4) by (auto simp: set_selected)
  then have absent: "\<forall>r' \<in> set (selected ?s (Some st, None)). hash r' \<noteq> c" by blast
  have "after hash c rs = []" if "\<forall>r' \<in> set rs. hash r' \<noteq> c" for rs :: "mempool_record list"
    using that by (induction rs) auto
  then have "store_page ?s (Some st, None) 100 (Some c) = ([], None)"
    using absent store_page_next [OF assms(1), of 100] by (simp add: chunk_def)
  then have "store_list ?s (Some st) None (Some c) 100 = \<lparr>pg_records = [], pg_nextCursor = None\<rparr>"
    by (simp add: store_page_def page_pair_def)
  moreover have "to_lower c = c"
    using assms(3) by (rule to_lower_hex_lower)
  moreover have "status_param (JStr (status_name st)) = Inr (Some st)"
    using assms(5) by (simp add: status_param_name)
  ultimately show ?thesis
    using assms(2,3) by (simp add: handleListIntents_def chain_param_def limit_param_def
        cursor_param_def DEFAULT_LIST_LIMIT_def)
qed

theorem moved_cursor_ends_listing_witness:
  "handleListIntents \<lparr>q_status = JStr ''pending'', q_chainId = JUndef, q_limit = JUndef,
      q_cursor = JStr sample_hash\<rparr> settled_server
    = json_response 200 (page_json \<lparr>pg_records = [], pg_nextCursor = None\<rparr>)"
proof -
  have "store_ok (sv_store sample_server)"
    using new_server_ok [OF sample_server_new] by (simp add: server_ok_def)
  then have "store_ok (sv_store settled_server)"
    by (simp add: settled_server_def store_run_def inv_intros sample_stored_def)
  moreover have "hex_string_lower 64 sample_hash"
    by (simp add: sample_hash_def hex_string_lower_def list_all_iff is_hex_lower_def char_code_def)
  ultimately show ?thesis
    using moved_cursor_ends_listing [OF _ settled_server_get, of Pending]
    by (simp add: mempool_statuses_def)
qed

end
