(* ===== verification/Config_Values.thy ===== *)
theory Config_Values
  imports Js_Values
begin

text \<open>
  What the programs' configuration loaders share: the environment, a partial map of strings, the
  problems they collect and throw together (a problem keeps the variable it names and the raw value),
  and the facts about integer checks on \<open>Number(...)\<close> values.
\<close>

type_synonym env = "string \<Rightarrow> string option"

datatype config_error = Required string | Invalid string string | Conflicting string string

text \<open>\<open>console.warn\<close> lines that loading prints.\<close>

datatype config_warning = Deprecated string string | ClearTextUrl

lemma positive_integer:
  assumes "is_integer x" and "\<not> js_le x (Num 0)"
  shows "0 < int_of_num x"
proof -
  from assms(1) have "x = num_of_int (int_of_num x)" by (simp only: is_integer_iff)
  with assms(2) show ?thesis by (metis js_le.simps(1) not_le of_int_le_0_iff)
qed

lemma at_least_one:
  "is_integer x \<Longrightarrow> \<not> js_lt x (Num 1) \<Longrightarrow> 1 \<le> int_of_num x"
  by (cases x) (auto simp: is_integer_def int_of_num_def elim!: Ints_cases)

lemma at_most_int:
  "is_integer x \<Longrightarrow> \<not> js_lt (num_of_int k) x \<Longrightarrow> int_of_num x \<le> k"
  by (cases x) (auto simp: is_integer_def int_of_num_def elim!: Ints_cases)

end
