(* ===== verification/Mempool_Config.thy ===== *)
theory Mempool_Config
  imports Mempool_Server Config_Values
begin

text \<open>
  \<^verbatim>\<open>mempool/src/config.ts\<close> and the start of \<^verbatim>\<open>mempool/src/cli.ts\<close>: the configuration read from the
  environment, a partial map of strings. Problems are collected and thrown together; a problem keeps
  the variable it names and the raw value.
\<close>

section \<open>The code\<close>

record mempool_config =
  cf_port :: int
  cf_host :: string
  cf_chainId :: int
  cf_verifyingContract :: address
  cf_statusToken :: "string option"
  cf_maxStoreSize :: "int option"
  cf_expiryGraceMs :: "int option"
  cf_rateLimitWindowMs :: "int option"
  cf_writeRateLimit :: "int option"
  cf_readRateLimit :: "int option"

definition MAX_PORT :: int where "MAX_PORT = 65535"

definition optionalPositiveInt :: "env \<Rightarrow> string \<Rightarrow> config_error list \<times> int option" where
  "optionalPositiveInt env nm =
     (case env nm of
        None \<Rightarrow> ([], None)
      | Some raw \<Rightarrow>
          if raw = '''' then ([], None)
          else
            (let value = js_number raw
             in if \<not> is_integer value \<or> js_le value (Num 0) then ([Invalid nm raw], None)
                else ([], Some (int_of_num value))))"

definition port_errors :: "env \<Rightarrow> config_error list" where
  "port_errors env =
     (let raw = option_default (env ''PORT'') ''3000''; port = js_number raw
      in if \<not> is_integer port \<or> js_lt port (Num 1) \<or> js_lt (num_of_int MAX_PORT) port
         then [Invalid ''PORT'' raw] else [])"

definition config_host :: "env \<Rightarrow> string" where
  "config_host env =
     option_default (env ''PERIHELION_MEMPOOL_HOST'')
       (option_default (env ''PERIHELION_METRICS_HOST'')
         (option_default (env ''PERIHELION_HEALTH_HOST'') ''localhost''))"

definition chain_errors :: "env \<Rightarrow> config_error list" where
  "chain_errors env =
     (let raw = option_default (env ''PERIHELION_SOURCE_CHAIN_ID'') ''''; chainId = js_number raw
      in if raw = '''' then [Required ''PERIHELION_SOURCE_CHAIN_ID'']
         else if \<not> is_integer chainId \<or> js_le chainId (Num 0)
         then [Invalid ''PERIHELION_SOURCE_CHAIN_ID'' raw] else [])"

definition escrow_errors :: "env \<Rightarrow> config_error list" where
  "escrow_errors env =
     (let raw = option_default (env ''PERIHELION_ESCROW_ADDRESS'') ''''
      in if raw = '''' then [Required ''PERIHELION_ESCROW_ADDRESS'']
         else if \<not> hex_string 40 raw then [Invalid ''PERIHELION_ESCROW_ADDRESS'' raw] else [])"

definition loadConfig :: "env \<Rightarrow> (config_error list, mempool_config) result" where
  "loadConfig env =
     (let (e1, maxStoreSize) = optionalPositiveInt env ''PERIHELION_MEMPOOL_MAX_STORE_SIZE'';
          (e2, expiryGraceMs) = optionalPositiveInt env ''PERIHELION_MEMPOOL_EXPIRY_GRACE_MS'';
          (e3, windowMs) = optionalPositiveInt env ''PERIHELION_MEMPOOL_RATE_LIMIT_WINDOW_MS'';
          (e4, writeLimit) = optionalPositiveInt env ''PERIHELION_MEMPOOL_WRITE_RATE_LIMIT'';
          (e5, readLimit) = optionalPositiveInt env ''PERIHELION_MEMPOOL_READ_RATE_LIMIT'';
          errors = port_errors env @ chain_errors env @ escrow_errors env @ e1 @ e2 @ e3 @ e4 @ e5
      in if errors \<noteq> [] then Inl errors
         else Inr \<lparr>cf_port = int_of_num (js_number (option_default (env ''PORT'') ''3000'')),
                   cf_host = config_host env,
                   cf_chainId =
                     int_of_num (js_number (option_default (env ''PERIHELION_SOURCE_CHAIN_ID'') '''')),
                   cf_verifyingContract = option_default (env ''PERIHELION_ESCROW_ADDRESS'') '''',
                   cf_statusToken =
                     (case env ''PERIHELION_MEMPOOL_STATUS_TOKEN'' of
                        Some t \<Rightarrow> if t = '''' then None else Some t | None \<Rightarrow> None),
                   cf_maxStoreSize = maxStoreSize, cf_expiryGraceMs = expiryGraceMs,
                   cf_rateLimitWindowMs = windowMs, cf_writeRateLimit = writeLimit,
                   cf_readRateLimit = readLimit\<rparr>)"

text \<open>\<open>new MempoolServer(loadConfig())\<close>: the configuration passed on as options, without a client.\<close>

definition config_options :: "mempool_config \<Rightarrow> server_options" where
  "config_options c =
     \<lparr>so_port = Some (cf_port c), so_host = Some (cf_host c), so_chainId = Some (num_of_int (cf_chainId c)),
      so_verifyingContract = cf_verifyingContract c, so_statusToken = cf_statusToken c,
      so_maxStoreSize = cf_maxStoreSize c, so_expiryGraceMs = cf_expiryGraceMs c,
      so_rateLimitWindowMs = cf_rateLimitWindowMs c, so_writeRateLimit = cf_writeRateLimit c,
      so_readRateLimit = cf_readRateLimit c, so_client = None\<rparr>"

text \<open>\<open>shutdown\<close>: a second signal while stopping does nothing; the exit code tells whether stop threw.\<close>

record cli_state =
  shuttingDown :: bool
  cli_server :: server
  exitCode :: "int option"

definition shutdown :: "bool \<Rightarrow> cli_state \<Rightarrow> cli_state" where
  "shutdown stopThrows st =
     (if shuttingDown st then st
      else st\<lparr>shuttingDown := True, cli_server := stop_server (cli_server st),
              exitCode := Some (if stopThrows then 1 else 0)\<rparr>)"

section \<open>Facts about the code\<close>

lemma optionalPositiveInt_ok:
  "optionalPositiveInt env nm = ([], v) \<Longrightarrow> v = Some k \<Longrightarrow> 0 < k"
  by (rule ccontr) (auto simp: optionalPositiveInt_def Let_def split: option.splits if_splits
      dest: positive_integer)


lemma port_ok:
  "port_errors env = [] \<Longrightarrow> 1 \<le> int_of_num (js_number (option_default (env ''PORT'') ''3000''))
     \<and> int_of_num (js_number (option_default (env ''PORT'') ''3000'')) \<le> MAX_PORT"
  unfolding port_errors_def Let_def using at_least_one at_most_int by (metis list.distinct(1))

lemma chain_ok:
  assumes "chain_errors env = []"
  shows "0 < int_of_num (js_number (option_default (env ''PERIHELION_SOURCE_CHAIN_ID'') ''''))"
  using assms positive_integer unfolding chain_errors_def Let_def by (metis list.distinct(1))

lemma escrow_ok:
  assumes "escrow_errors env = []"
  shows "hex_string 40 (option_default (env ''PERIHELION_ESCROW_ADDRESS'') '''')"
  using assms unfolding escrow_errors_def Let_def by (metis list.distinct(1))

definition config_ok :: "mempool_config \<Rightarrow> bool" where
  "config_ok c \<longleftrightarrow> 1 \<le> cf_port c \<and> cf_port c \<le> MAX_PORT \<and> 0 < cf_chainId c
     \<and> hex_string 40 (cf_verifyingContract c) \<and> cf_statusToken c \<noteq> Some ''''
     \<and> (\<forall>v \<in> {cf_maxStoreSize c, cf_expiryGraceMs c, cf_rateLimitWindowMs c, cf_writeRateLimit c,
              cf_readRateLimit c}. \<forall>k. v = Some k \<longrightarrow> 0 < k)"

lemma loadConfig_ok:
  assumes "loadConfig env = Inr c" shows "config_ok c"
proof -
  obtain e1 v1 e2 v2 e3 v3 e4 v4 e5 v5 where o:
    "optionalPositiveInt env ''PERIHELION_MEMPOOL_MAX_STORE_SIZE'' = (e1, v1)"
    "optionalPositiveInt env ''PERIHELION_MEMPOOL_EXPIRY_GRACE_MS'' = (e2, v2)"
    "optionalPositiveInt env ''PERIHELION_MEMPOOL_RATE_LIMIT_WINDOW_MS'' = (e3, v3)"
    "optionalPositiveInt env ''PERIHELION_MEMPOOL_WRITE_RATE_LIMIT'' = (e4, v4)"
    "optionalPositiveInt env ''PERIHELION_MEMPOOL_READ_RATE_LIMIT'' = (e5, v5)"
    by (metis surj_pair)
  have e: "port_errors env = []" "chain_errors env = []" "escrow_errors env = []"
    "e1 = []" "e2 = []" "e3 = []" "e4 = []" "e5 = []"
    and c: "cf_port c = int_of_num (js_number (option_default (env ''PORT'') ''3000''))"
    "cf_chainId c = int_of_num (js_number (option_default (env ''PERIHELION_SOURCE_CHAIN_ID'') ''''))"
    "cf_verifyingContract c = option_default (env ''PERIHELION_ESCROW_ADDRESS'') ''''"
    "cf_statusToken c = (case env ''PERIHELION_MEMPOOL_STATUS_TOKEN'' of
        Some t \<Rightarrow> if t = '''' then None else Some t | None \<Rightarrow> None)"
    "cf_maxStoreSize c = v1" "cf_expiryGraceMs c = v2" "cf_rateLimitWindowMs c = v3"
    "cf_writeRateLimit c = v4" "cf_readRateLimit c = v5"
    using assms unfolding loadConfig_def o Let_def prod.case
    by (simp_all only: append_is_Nil_conv not_not split: if_splits) auto
  show ?thesis
    using port_ok [OF e(1)] chain_ok [OF e(2)] escrow_ok [OF e(3)] o e(4-) optionalPositiveInt_ok
    unfolding config_ok_def c by (auto split: option.splits if_splits)
qed

text \<open>
  A configuration that loads is one the server can run on: the port is a TCP port, the chain id and
  every tuning value are positive, the escrow address is 20 bytes of hexadecimal and an empty token
  counts as none; and building the server from it fails only for the zero address, otherwise it binds
  signatures to exactly the configured chain and contract, with an empty store of the configured
  bound.
\<close>

theorem loaded_config_starts:
  assumes "loadConfig env = Inr c"
  shows "config_ok c
    \<and> (if to_lower (cf_verifyingContract c) = ZERO_ADDRESS
       then new_server (config_options c) = Inl ''verifyingContract''
       else \<exists>sv w. new_server (config_options c) = Inr (sv, w)
         \<and> sv_domain sv = perihelionDomain (cf_chainId c) (cf_verifyingContract c)
         \<and> records (sv_store sv) = [] \<and> 0 < maxSize (sv_store sv)
         \<and> statusToken sv = cf_statusToken c \<and> 0 < writeRateLimit sv \<and> 0 < readRateLimit sv)"
proof -
  have ok: "config_ok c" using assms by (rule loadConfig_ok)
  then have "cf_verifyingContract c \<noteq> ''''" by (auto simp: config_ok_def hex_string_def)
  moreover have "0 < option_default (cf_maxStoreSize c) DEFAULT_MAX_SIZE"
    "0 < option_default (cf_writeRateLimit c) DEFAULT_WRITE_RATE_LIMIT"
    "0 < option_default (cf_readRateLimit c) DEFAULT_READ_RATE_LIMIT"
    using ok by (auto simp: config_ok_def option_default_def DEFAULT_MAX_SIZE_def
        DEFAULT_WRITE_RATE_LIMIT_def DEFAULT_READ_RATE_LIMIT_def split: option.split)
  ultimately show ?thesis
    using ok by (simp add: new_server_def config_options_def Let_def new_store_def)
qed

definition sample_env :: env where
  "sample_env = [''PERIHELION_SOURCE_CHAIN_ID'' \<mapsto> ''8453'',
     ''PERIHELION_ESCROW_ADDRESS'' \<mapsto> ''0x3333333333333333333333333333333333333333'']"

lemma sample_numbers:
  "js_number ''3000'' = Num 3000" "js_number ''8453'' = Num 8453"
proof -
  have d: "digit_string ''3000''" "digit_string ''8453''"
    by (simp_all add: digit_string_def is_digit_def char_code_def)
  have n: "nat_of_digits ''3000'' = 3000" "nat_of_digits ''8453'' = 8453"
    by (simp_all add: nat_of_digits_def digit_val_def char_code_def)
  show "js_number ''3000'' = Num 3000" "js_number ''8453'' = Num 8453"
    unfolding js_number_digits [OF d(1)] js_number_digits [OF d(2)] n by simp_all
qed

lemma sample_env_simps:
  "sample_env ''PERIHELION_SOURCE_CHAIN_ID'' = Some ''8453''"
  "sample_env ''PERIHELION_ESCROW_ADDRESS'' = Some ''0x3333333333333333333333333333333333333333''"
  "sample_env ''PORT'' = None" "sample_env ''PERIHELION_MEMPOOL_STATUS_TOKEN'' = None"
  "sample_env ''PERIHELION_MEMPOOL_MAX_STORE_SIZE'' = None"
  "sample_env ''PERIHELION_MEMPOOL_EXPIRY_GRACE_MS'' = None"
  "sample_env ''PERIHELION_MEMPOOL_RATE_LIMIT_WINDOW_MS'' = None"
  "sample_env ''PERIHELION_MEMPOOL_WRITE_RATE_LIMIT'' = None"
  "sample_env ''PERIHELION_MEMPOOL_READ_RATE_LIMIT'' = None"
  by (simp_all add: sample_env_def)

lemma sample_config:
  "\<exists>c. loadConfig sample_env = Inr c \<and> cf_port c = 3000 \<and> cf_chainId c = 8453
     \<and> cf_verifyingContract c = ''0x3333333333333333333333333333333333333333''"
proof -
  have three: "is_hex (CHR ''3'')" by (simp add: is_hex_def is_hex_lower_def is_digit_def char_code_def)
  have i: "is_integer (Num 3000)" "is_integer (Num 8453)"
    "int_of_num (Num 3000) = 3000" "int_of_num (Num 8453) = 8453"
    using is_integer_num_of_int [of 3000] is_integer_num_of_int [of 8453] by (simp_all add: int_of_num_def)
  have p: "port_errors sample_env = []"
    using i by (simp add: port_errors_def sample_env_simps option_default_def sample_numbers Let_def MAX_PORT_def)
  have c: "chain_errors sample_env = []"
    using i by (simp add: chain_errors_def sample_env_simps option_default_def sample_numbers Let_def)
  have e: "escrow_errors sample_env = []"
    using three by (simp add: escrow_errors_def sample_env_simps option_default_def Let_def hex_string_def)
  show ?thesis
    using i by (simp add: loadConfig_def p c e optionalPositiveInt_def sample_env_simps option_default_def
        sample_numbers)
qed

theorem loaded_config_starts_witness:
  "\<exists>c sv w. loadConfig sample_env = Inr c \<and> cf_port c = 3000 \<and> cf_chainId c = 8453
     \<and> new_server (config_options c) = Inr (sv, w)
     \<and> sv_domain sv = perihelionDomain 8453 ''0x3333333333333333333333333333333333333333''"
proof -
  obtain c where c: "loadConfig sample_env = Inr c" "cf_port c = 3000" "cf_chainId c = 8453"
    "cf_verifyingContract c = ''0x3333333333333333333333333333333333333333''"
    using sample_config by blast
  have "to_lower (cf_verifyingContract c) \<noteq> ZERO_ADDRESS"
    by (simp add: c to_lower_def lower_zero_char ZERO_ADDRESS_def)
  with loaded_config_starts [OF c(1)] c show ?thesis by auto
qed

end
