(* ===== verification/Sdk_Client.thy ===== *)
theory Sdk_Client
  imports Sdk_Validate Paging
begin

text \<open>
  \<^verbatim>\<open>sdk/src/client.ts\<close>: the client of the mempool. Everything outside the process is a state \<open>'w\<close> that
  the calls thread through: \<open>fetch\<close> takes a request and the world to an outcome and the next world,
  and a test double or the model of the server both fit. Requests keep their query parameters
  unencoded. A thrown value keeps what the code looks at: whether it is an SDK error, and otherwise
  the \<open>name\<close> and \<open>message\<close> of the exception. Sleeps are logged in milliseconds.
\<close>

section \<open>Construction and requests\<close>

record url =
  u_protocol :: string
  u_hostname :: string
  u_origin :: string
  u_pathname :: string

record client_options =
  mempoolUrl :: string
  co_chainId :: "int option"
  co_verifyingContract :: "address option"
  co_requestTimeoutMs :: "int option"
  co_maxRetries :: "int option"

record client =
  base_url :: string
  cl_chainId :: "int option"
  cl_verifyingContract :: "address option"
  requestTimeoutMs :: int
  maxRetries :: int

definition DEFAULT_CLIENT_LIST_LIMIT :: int where "DEFAULT_CLIENT_LIST_LIMIT = 100"

definition strip_slashes :: "string \<Rightarrow> string" where
  "strip_slashes s = rev (dropWhile (\<lambda>c. c = CHR ''/'') (rev s))"

text \<open>The constructor; the flag says that the clear-text warning is printed.\<close>

definition new_client :: "(string \<Rightarrow> url option) \<Rightarrow> client_options \<Rightarrow> (sdk_error, client \<times> bool) result" where
  "new_client parseUrl opts =
     (case parseUrl (mempoolUrl opts) of
        None \<Rightarrow> Inl (PerihelionValidationError None)
      | Some u \<Rightarrow>
          Inr (\<lparr>base_url = u_origin u @ strip_slashes (u_pathname u),
                cl_chainId = co_chainId opts, cl_verifyingContract = co_verifyingContract opts,
                requestTimeoutMs = option_default (co_requestTimeoutMs opts) 10000,
                maxRetries = option_default (co_maxRetries opts) 3\<rparr>,
               u_protocol u = ''http:'' \<and> u_hostname u \<notin> {''localhost'', ''127.0.0.1'', ''::1''}))"

definition intentUrl :: "client \<Rightarrow> jval \<Rightarrow> string \<Rightarrow> (sdk_error, string) result" where
  "intentUrl cl h sfx =
     (case h of
        JStr s \<Rightarrow>
          if hex_string 64 s then Inr (base_url cl @ ''/intents/'' @ to_lower s @ sfx)
          else Inl (PerihelionValidationError (Some ''hash''))
      | _ \<Rightarrow> Inl (PerihelionValidationError (Some ''hash'')))"

definition client_domain :: "client \<Rightarrow> (sdk_error, domain) result" where
  "client_domain cl =
     (case (cl_chainId cl, cl_verifyingContract cl) of
        (Some chain, Some contract) \<Rightarrow> Inr (perihelionDomain chain contract)
      | _ \<Rightarrow> Inl (PerihelionValidationError None))"

text \<open>\<open>signIntent\<close>: the wallet is its account and its signing function.\<close>

definition signIntent ::
  "(domain \<Rightarrow> message \<Rightarrow> hex) \<Rightarrow> client \<Rightarrow> address option
     \<Rightarrow> (address \<Rightarrow> domain \<Rightarrow> message \<Rightarrow> (sdk_error, hex) result) \<Rightarrow> intent
     \<Rightarrow> (sdk_error, signed_intent) result" where
  "signIntent hashTypedData cl account signTypedData i =
     (case account of
        None \<Rightarrow> Inl (PerihelionValidationError None)
      | Some acc \<Rightarrow>
          bind_result (client_domain cl) (\<lambda>dmn.
          bind_result (toMessage i) (\<lambda>m.
          bind_result (signTypedData acc dmn m) (\<lambda>sig.
          bind_result (hashIntent hashTypedData i dmn) (\<lambda>h.
            Inr \<lparr>intent_of = i, signature = sig, hash = h\<rparr>)))))"

section \<open>Fetching\<close>

datatype http_method = GET | POST | PATCH

record http_request =
  rq_method :: http_method
  rq_url :: string
  rq_query :: "(string \<times> string) list"
  rq_auth :: "string option"
  rq_body :: "jval option"

text \<open>A response body that is not JSON is \<open>None\<close>: its \<open>json()\<close> throws.\<close>

record http_response =
  hr_status :: int
  hr_json :: "jval option"
  hr_text :: string

datatype thrown = ThrownSdk sdk_error | ThrownError string string | ThrownValue

datatype fetch_outcome = Responded http_response | Threw thrown

definition res_ok :: "http_response \<Rightarrow> bool" where
  "res_ok res \<longleftrightarrow> 200 \<le> hr_status res \<and> hr_status res < 300"

fun str_includes :: "string \<Rightarrow> string \<Rightarrow> bool" where
  "str_includes [] t = (t = [])"
| "str_includes (c # s) t = (take (length t) (c # s) = t \<or> str_includes s t)"

fun is_timeout_sdk :: "sdk_error \<Rightarrow> bool" where
  "is_timeout_sdk (PerihelionTimeoutError _ _) = True"
| "is_timeout_sdk _ = False"

fun isTimeoutError :: "thrown \<Rightarrow> bool" where
  "isTimeoutError (ThrownSdk e) = is_timeout_sdk e"
| "isTimeoutError (ThrownError nm msg) =
     (nm = ''TimeoutError'' \<or> (nm = ''AbortError'' \<and> str_includes (to_lower msg) ''timed out''))"
| "isTimeoutError ThrownValue = False"

fun isAbortError :: "thrown \<Rightarrow> bool" where
  "isAbortError (ThrownSdk e) = is_timeout_sdk e"
| "isAbortError (ThrownError nm msg) = (nm = ''AbortError'' \<or> nm = ''TimeoutError'')"
| "isAbortError ThrownValue = False"

text \<open>Exponential backoff: 100 ms, 200 ms, 400 ms, up to 5 s.\<close>

definition client_backoff :: "nat \<Rightarrow> int" where
  "client_backoff attempt = min (100 * 2 ^ attempt) 5000"

text \<open>How the write calls turn a thrown value into an SDK error.\<close>

definition write_error :: "string \<Rightarrow> hex \<Rightarrow> thrown \<Rightarrow> sdk_error" where
  "write_error op h e =
     (case e of
        ThrownSdk x \<Rightarrow> x
      | _ \<Rightarrow> if isTimeoutError e then PerihelionTimeoutError (Some h) None
             else PerihelionNetworkError (Some op))"

text \<open>How the retrying reads do: \<open>Inl\<close> throws now, \<open>Inr\<close> is what to throw once no retry is left.\<close>

definition read_error :: "string \<Rightarrow> thrown \<Rightarrow> sdk_error + sdk_error" where
  "read_error op e =
     (if isAbortError e then
        Inl (if isTimeoutError e then PerihelionTimeoutError None None
             else (case e of ThrownSdk x \<Rightarrow> x | _ \<Rightarrow> PerihelionNetworkError (Some op)))
      else Inr (case e of ThrownSdk x \<Rightarrow> x | _ \<Rightarrow> PerihelionNetworkError (Some op)))"

type_synonym 'w fetch = "http_request \<Rightarrow> 'w \<Rightarrow> fetch_outcome \<times> 'w"

text \<open>The retry loop: the attempt counter, the sleeps so far and the world go round.\<close>

function fetch_loop ::
  "string \<Rightarrow> int \<Rightarrow> ('w \<Rightarrow> fetch_outcome \<times> 'w) \<Rightarrow> nat \<Rightarrow> int list \<Rightarrow> 'w
     \<Rightarrow> (sdk_error, http_response) result \<times> int list \<times> 'w" where
  "fetch_loop op retries fetch attempt sleeps w =
     (let (out, w') = fetch w
      in case out of
           Threw e \<Rightarrow>
             (case read_error op e of
                Inl x \<Rightarrow> (Inl x, sleeps, w')
              | Inr x \<Rightarrow>
                  if retries \<le> int attempt then (Inl x, sleeps, w')
                  else fetch_loop op retries fetch (attempt + 1) (sleeps @ [client_backoff attempt]) w')
         | Responded res \<Rightarrow>
             if 500 \<le> hr_status res \<and> int attempt < retries
             then fetch_loop op retries fetch (attempt + 1) (sleeps @ [client_backoff attempt]) w'
             else (Inr res, sleeps, w'))"
  by pat_completeness auto
termination
  by (relation "measure (\<lambda>(op, retries, fetch, attempt, sleeps, w). nat (retries - int attempt))") auto

declare fetch_loop.simps [simp del]

definition fetchWithRetry ::
  "client \<Rightarrow> string \<Rightarrow> 'w fetch \<Rightarrow> http_request \<Rightarrow> 'w \<Rightarrow> (sdk_error, http_response) result \<times> int list \<times> 'w" where
  "fetchWithRetry cl op fetch req w = fetch_loop op (maxRetries cl) (fetch req) 0 [] w"

section \<open>Calls\<close>

text \<open>Reading a member of a parsed body: \<open>null\<close> has none.\<close>

definition js_member :: "jval \<Rightarrow> string \<Rightarrow> (sdk_error, jval) result" where
  "js_member body k =
     (case body of
        JObj obj \<Rightarrow> Inr (obj_get obj k)
      | JNull \<Rightarrow> Inl (PlainError ''TypeError'')
      | JUndef \<Rightarrow> Inl (PlainError ''TypeError'')
      | _ \<Rightarrow> Inr JUndef)"

definition js_falsy :: "jval \<Rightarrow> bool" where
  "js_falsy v \<longleftrightarrow> v \<in> {JUndef, JNull, JBool False, JStr '''', JNum (Num 0), JNum NaN}"

text \<open>\<open>body.hash && body.hash.toLowerCase() !== ...\<close>: an absent or empty echo is accepted.\<close>

definition check_echo :: "jval \<Rightarrow> hex \<Rightarrow> (sdk_error, hex) result" where
  "check_echo body h =
     bind_result (js_member body ''hash'') (\<lambda>v.
       if js_falsy v then Inr h
       else (case v of
               JStr s \<Rightarrow> if to_lower s \<noteq> to_lower h then Inl (PerihelionHashMismatchError h s) else Inr h
             | _ \<Rightarrow> Inl (PlainError ''TypeError'')))"

definition submitIntent :: "client \<Rightarrow> 'w fetch \<Rightarrow> signed_intent \<Rightarrow> 'w \<Rightarrow> (sdk_error, hex) result \<times> 'w" where
  "submitIntent cl fetch si w =
     (let (out, w') = fetch \<lparr>rq_method = POST, rq_url = base_url cl @ ''/intents'', rq_query = [],
            rq_auth = None,
            rq_body = Some (JObj (signed_members (intent_of si) (signature si) (hash si)))\<rparr> w
      in (case out of
            Threw e \<Rightarrow> Inl (write_error ''submitIntent'' (hash si) e)
          | Responded res \<Rightarrow>
              if \<not> res_ok res then Inl (PerihelionHttpError ''submitIntent'' (hr_status res) (hr_text res))
              else
                (case hr_json res of
                   None \<Rightarrow> Inl (PerihelionNetworkError (Some ''submitIntent''))
                 | Some body \<Rightarrow> check_echo body (hash si)), w'))"

definition reportStatus ::
  "client \<Rightarrow> 'w fetch \<Rightarrow> hex \<Rightarrow> intent_status \<Rightarrow> string \<Rightarrow> 'w \<Rightarrow> (sdk_error, unit) result \<times> 'w" where
  "reportStatus cl fetch h st token w =
     (case intentUrl cl (JStr h) ''/status'' of
        Inl e \<Rightarrow> (Inl e, w)
      | Inr url \<Rightarrow>
          (let (out, w') = fetch \<lparr>rq_method = PATCH, rq_url = url, rq_query = [],
                 rq_auth = Some (''Bearer '' @ token),
                 rq_body = Some (JObj [(''status'', JStr (status_name st))])\<rparr> w
           in (case out of
                 Threw e \<Rightarrow> Inl (write_error ''reportStatus'' h e)
               | Responded res \<Rightarrow>
                   if \<not> res_ok res
                   then Inl (PerihelionHttpError ''reportStatus'' (hr_status res) (hr_text res))
                   else Inr (), w')))"

definition read_json ::
  "string \<Rightarrow> (sdk_error, http_response) result \<Rightarrow> (sdk_error, jval) result" where
  "read_json op r =
     bind_result r (\<lambda>res.
       if \<not> res_ok res then Inl (PerihelionHttpError op (hr_status res) (hr_text res))
       else (case hr_json res of
               None \<Rightarrow> Inl (PerihelionNetworkError (Some op)) | Some body \<Rightarrow> Inr body))"

definition getIntent ::
  "(string \<Rightarrow> bool) \<Rightarrow> client \<Rightarrow> 'w fetch \<Rightarrow> hex \<Rightarrow> 'w \<Rightarrow> (sdk_error, intent_record) result \<times> 'w" where
  "getIntent isAddr cl fetch h w =
     (case intentUrl cl (JStr h) '''' of
        Inl e \<Rightarrow> (Inl e, w)
      | Inr url \<Rightarrow>
          (let (r, _, w') = fetchWithRetry cl ''getIntent'' fetch
                 \<lparr>rq_method = GET, rq_url = url, rq_query = [], rq_auth = None, rq_body = None\<rparr> w
           in (bind_result (read_json ''getIntent'' r) (parseIntentRecord isAddr), w')))"

definition page_query :: "intent_status \<Rightarrow> string option \<Rightarrow> int option \<Rightarrow> (string \<times> string) list" where
  "page_query st cursor limit =
     [(''status'', status_name st)]
     @ (case cursor of Some c \<Rightarrow> if c = '''' then [] else [(''cursor'', c)] | None \<Rightarrow> [])
     @ (case limit of Some n \<Rightarrow> [(''limit'', (if n < 0 then ''-'' else '''') @ digits_of_nat (nat \<bar>n\<bar>))] | None \<Rightarrow> [])"

definition parse_page ::
  "(string \<Rightarrow> bool) \<Rightarrow> jval \<Rightarrow> (sdk_error, intent_record list \<times> string option) result" where
  "parse_page isAddr body =
     bind_result (js_member body ''records'') (\<lambda>rs.
     bind_result (js_member body ''nextCursor'') (\<lambda>c.
     bind_result (parseIntentRecordArray isAddr rs DEFAULT_MAX_INTENT_RECORDS) (\<lambda>recs.
       Inr (recs, case c of JStr s \<Rightarrow> Some s | _ \<Rightarrow> None))))"

definition listPendingPage ::
  "(string \<Rightarrow> bool) \<Rightarrow> client \<Rightarrow> 'w fetch \<Rightarrow> intent_status \<Rightarrow> int option \<Rightarrow> string option \<Rightarrow> 'w
     \<Rightarrow> (sdk_error, intent_record list \<times> string option) result \<times> 'w" where
  "listPendingPage isAddr cl fetch st limit cursor w =
     (let (r, _, w') = fetchWithRetry cl ''listPendingPage'' fetch
            \<lparr>rq_method = GET, rq_url = base_url cl @ ''/intents'', rq_query = page_query st cursor limit,
             rq_auth = None, rq_body = None\<rparr> w
      in (bind_result (read_json ''listPendingPage'' r) (parse_page isAddr), w'))"

section \<open>Walking the pages\<close>

text \<open>
  The do-while loop of \<open>listPending\<close>, over any page source. \<open>seen\<close> holds the cursors already
  returned; a page source that never ends is stopped by \<open>maxPages\<close>.
\<close>

type_synonym ('c, 'r, 'e, 'w) page_source = "'c option \<Rightarrow> 'w \<Rightarrow> ('e, 'r list \<times> 'c option) result \<times> 'w"

function list_pages ::
  "(pagination_reason \<Rightarrow> 'r list \<Rightarrow> 'c \<Rightarrow> nat \<Rightarrow> 'e) \<Rightarrow> ('c, 'r, 'e, 'w) page_source \<Rightarrow> int
     \<Rightarrow> 'r list \<Rightarrow> 'c list \<Rightarrow> 'c option \<Rightarrow> nat \<Rightarrow> 'w \<Rightarrow> ('e, 'r list) result \<times> 'w" where
  "list_pages err page maxPages acc seen cursor pages w =
     (case page cursor w of
        (Inl e, w') \<Rightarrow> (Inl e, w')
      | (Inr (rs, next), w') \<Rightarrow>
          (case next of
             None \<Rightarrow> (Inr (acc @ rs), w')
           | Some c \<Rightarrow>
               if c \<in> set seen then (Inl (err RepeatedCursor (acc @ rs) c (pages + 1)), w')
               else if int (pages + 1) < maxPages
               then list_pages err page maxPages (acc @ rs) (c # seen) (Some c) (pages + 1) w'
               else (Inl (err MaxPages (acc @ rs) c (pages + 1)), w')))"
  by pat_completeness auto
termination
  by (relation "measure (\<lambda>(err, page, maxPages, acc, seen, cursor, pages, w). nat (maxPages - int pages))") auto

declare list_pages.simps [simp del]

definition listPending ::
  "(string \<Rightarrow> bool) \<Rightarrow> client \<Rightarrow> 'w fetch \<Rightarrow> intent_status \<Rightarrow> int \<Rightarrow> int \<Rightarrow> 'w
     \<Rightarrow> (sdk_error, intent_record list) result \<times> 'w" where
  "listPending isAddr cl fetch st maxPages limit w =
     list_pages PerihelionPaginationError (listPendingPage isAddr cl fetch st (Some limit)) maxPages
       [] [] None 0 w"

text \<open>
  The generator \<open>listPendingPages\<close> has no page bound: the model runs it for at most \<open>n\<close> pages and
  returns the pages yielded, together with how it ended, \<open>None\<close> if it still runs.
\<close>

fun list_generator ::
  "nat \<Rightarrow> (string, 'r, sdk_error, 'w) page_source \<Rightarrow> string list \<Rightarrow> string option \<Rightarrow> nat \<Rightarrow> 'w
     \<Rightarrow> 'r list list \<times> (sdk_error, unit) result option \<times> 'w" where
  "list_generator 0 page seen cursor pages w = ([], None, w)"
| "list_generator (Suc n) page seen cursor pages w =
     (case page cursor w of
        (Inl e, w') \<Rightarrow> ([], Some (Inl e), w')
      | (Inr (rs, next), w') \<Rightarrow>
          (case next of
             None \<Rightarrow> ([rs], Some (Inr ()), w')
           | Some c \<Rightarrow>
               if c \<in> set seen
               then ([rs], Some (Inl (PerihelionPaginationError RepeatedCursor [] c (pages + 1))), w')
               else (let (ps, e, w'') = list_generator n page (c # seen) (Some c) (pages + 1) w'
                     in (rs # ps, e, w''))))"

section \<open>Waiting for settlement\<close>

text \<open>
  \<open>clock\<close> reads the time of a world, \<open>poll\<close> is \<open>getIntent\<close> under a timeout, \<open>sleep\<close> waits. The loop
  is unbounded in the source: the model gives it fuel, with \<open>None\<close> for fuel exhausted. The status
  changes reported to \<open>onStatus\<close> are collected in order.
\<close>

definition settled_statuses :: "intent_status list" where
  "settled_statuses = [Settled, Refunded, Expired]"

fun wait_loop ::
  "nat \<Rightarrow> ('w \<Rightarrow> int) \<Rightarrow> (int \<Rightarrow> 'w \<Rightarrow> (sdk_error, intent_record) result \<times> 'w) \<Rightarrow> (int \<Rightarrow> 'w \<Rightarrow> 'w)
     \<Rightarrow> client \<Rightarrow> hex \<Rightarrow> int \<Rightarrow> int \<Rightarrow> intent_status option \<Rightarrow> intent_status list \<Rightarrow> 'w
     \<Rightarrow> ((sdk_error, intent_record) result \<times> intent_status list \<times> 'w) option" where
  "wait_loop 0 clock poll sleep cl h interval dl lst seen w = None"
| "wait_loop (Suc fuel) clock poll sleep cl h interval dl lst seen w =
     (let remaining = dl - clock w in
      if remaining \<le> 0
      then Some (Inl (PerihelionTimeoutError (Some h) (map_option status_name lst)), seen, w)
      else
        (let perRequest = (if 0 < requestTimeoutMs cl then min remaining (requestTimeoutMs cl) else remaining);
             (r, w') = poll perRequest w
         in case r of
              Inl e \<Rightarrow>
                Some (Inl (if is_timeout_sdk e then PerihelionTimeoutError (Some h) (map_option status_name lst)
                           else e), seen, w')
            | Inr rec \<Rightarrow>
                (let seen' = (if Some (status rec) \<noteq> lst then seen @ [status rec] else seen)
                 in if status rec \<in> set settled_statuses then Some (Inr rec, seen', w')
                    else
                      (let remainingAfterPoll = dl - clock w';
                           w'' = (if remainingAfterPoll \<le> 0 then w'
                                  else sleep (min interval remainingAfterPoll) w')
                       in wait_loop fuel clock poll sleep cl h interval dl (Some (status rec)) seen' w''))))"

definition waitForSettlement ::
  "nat \<Rightarrow> ('w \<Rightarrow> int) \<Rightarrow> (int \<Rightarrow> 'w \<Rightarrow> (sdk_error, intent_record) result \<times> 'w) \<Rightarrow> (int \<Rightarrow> 'w \<Rightarrow> 'w)
     \<Rightarrow> client \<Rightarrow> hex \<Rightarrow> int option \<Rightarrow> int option \<Rightarrow> 'w
     \<Rightarrow> ((sdk_error, intent_record) result \<times> intent_status list \<times> 'w) option" where
  "waitForSettlement fuel clock poll sleep cl h intervalMs timeoutMs w =
     wait_loop fuel clock poll sleep cl h (option_default intervalMs 3000)
       (clock w + option_default timeoutMs (5 * 60000)) None [] w"

definition record_isRefundable :: "intent_record \<Rightarrow> int \<Rightarrow> int \<Rightarrow> int \<Rightarrow> bool" where
  "record_isRefundable r graceMs now skew =
     (if status r \<noteq> Pending then False
      else deadline (intent_of r) + graceMs div 1000 \<le> now - skew)"

section \<open>The retry loop\<close>

lemma fetch_loop_unfold:
  "fetch_loop op retries fetch attempt sleeps w =
     (case fst (fetch w) of
        Threw e \<Rightarrow>
          (case read_error op e of
             Inl x \<Rightarrow> (Inl x, sleeps, snd (fetch w))
           | Inr x \<Rightarrow>
               if retries \<le> int attempt then (Inl x, sleeps, snd (fetch w))
               else fetch_loop op retries fetch (attempt + 1) (sleeps @ [client_backoff attempt]) (snd (fetch w)))
      | Responded res \<Rightarrow>
          if 500 \<le> hr_status res \<and> int attempt < retries
          then fetch_loop op retries fetch (attempt + 1) (sleeps @ [client_backoff attempt]) (snd (fetch w))
          else (Inr res, sleeps, snd (fetch w)))"
  by (subst fetch_loop.simps) (simp add: case_prod_beta Let_def)

text \<open>An outcome that is worth another attempt.\<close>

definition transient :: "string \<Rightarrow> fetch_outcome \<Rightarrow> bool" where
  "transient op out = (case out of
     Threw e \<Rightarrow> (case read_error op e of Inl _ \<Rightarrow> False | Inr _ \<Rightarrow> True)
   | Responded res \<Rightarrow> 500 \<le> hr_status res)"

definition world_after :: "('w \<Rightarrow> fetch_outcome \<times> 'w) \<Rightarrow> nat \<Rightarrow> 'w \<Rightarrow> 'w" where
  "world_after fetch n w = ((\<lambda>w. snd (fetch w)) ^^ n) w"

definition final_result :: "string \<Rightarrow> fetch_outcome \<Rightarrow> (sdk_error, http_response) result" where
  "final_result op out = (case out of
     Threw e \<Rightarrow> Inl (case read_error op e of Inl x \<Rightarrow> x | Inr x \<Rightarrow> x)
   | Responded res \<Rightarrow> Inr res)"

lemma world_after_Suc: "world_after fetch (Suc n) w = world_after fetch n (snd (fetch w))"
  by (simp add: world_after_def funpow_Suc_right del: funpow.simps)

lemma world_after_0 [simp]: "world_after fetch 0 w = w"
  by (simp add: world_after_def)

lemma fetch_loop_step:
  "fetch_loop op retries fetch attempt sleeps w =
     (if transient op (fst (fetch w)) \<and> int attempt < retries
      then fetch_loop op retries fetch (attempt + 1) (sleeps @ [client_backoff attempt]) (snd (fetch w))
      else (final_result op (fst (fetch w)), sleeps, snd (fetch w)))"
  by (subst fetch_loop_unfold)
     (auto simp: transient_def final_result_def split: fetch_outcome.split sum.split)

lemma fetch_loop_result:
  "\<exists>n. fetch_loop op retries fetch attempt sleeps w =
       (final_result op (fst (fetch (world_after fetch n w))),
        sleeps @ map client_backoff [attempt ..< attempt + n], world_after fetch (Suc n) w)
     \<and> (\<forall>k < n. transient op (fst (fetch (world_after fetch k w))))
     \<and> int n \<le> max 0 (retries - int attempt)
     \<and> (transient op (fst (fetch (world_after fetch n w))) \<longrightarrow> int n = max 0 (retries - int attempt))"
proof (induction "nat (retries - int attempt)" arbitrary: attempt sleeps w)
  case 0
  then show ?case
    by (intro exI [of _ 0]) (simp add: fetch_loop_step [of op retries fetch attempt sleeps w] world_after_Suc)
next
  case (Suc m)
  note step = fetch_loop_step [of op retries fetch attempt sleeps w]
  show ?case
  proof (cases "transient op (fst (fetch w))")
    case False
    then show ?thesis by (intro exI [of _ 0]) (simp add: step world_after_Suc)
  next
    case True
    have lt: "int attempt < retries" using Suc(2) by simp
    have m: "m = nat (retries - int (attempt + 1))" using Suc(2) by simp
    obtain n where n: "fetch_loop op retries fetch (attempt + 1) (sleeps @ [client_backoff attempt]) (snd (fetch w)) =
        (final_result op (fst (fetch (world_after fetch n (snd (fetch w))))),
         (sleeps @ [client_backoff attempt]) @ map client_backoff [attempt + 1 ..< attempt + 1 + n],
         world_after fetch (Suc n) (snd (fetch w)))"
      "\<forall>k < n. transient op (fst (fetch (world_after fetch k (snd (fetch w)))))"
      "int n \<le> max 0 (retries - int (attempt + 1))"
      "transient op (fst (fetch (world_after fetch n (snd (fetch w))))) \<longrightarrow> int n = max 0 (retries - int (attempt + 1))"
      using Suc(1) [OF m] by blast
    have "client_backoff attempt # map client_backoff [attempt + 1 ..< attempt + 1 + n]
        = map client_backoff [attempt ..< attempt + Suc n]"
      by (simp add: upt_conv_Cons del: upt_Suc)
    moreover have "\<forall>k < Suc n. transient op (fst (fetch (world_after fetch k w)))"
      using True n(2) by (auto simp: less_Suc_eq_0_disj world_after_Suc)
    ultimately show ?thesis
      using True lt n by (intro exI [of _ "Suc n"]) (auto simp: step world_after_Suc)
  qed
qed

text \<open>
  Reads retry boundedly and only what is worth retrying: a read makes at most \<open>maxRetries + 1\<close>
  requests, every outcome before the last was transient (a network failure or a 5xx response, never
  an abort or timeout), it stops on a transient outcome only when the retries are used up, and it
  sleeps exactly the exponential schedule, capped at five seconds, between attempts.
\<close>

theorem retry_bounded:
  "\<exists>n. int n \<le> max 0 (maxRetries cl)
     \<and> fetchWithRetry cl op fetch req w =
         (final_result op (fst (fetch req (world_after (fetch req) n w))),
          map client_backoff [0 ..< n], world_after (fetch req) (Suc n) w)
     \<and> (\<forall>k < n. transient op (fst (fetch req (world_after (fetch req) k w))))
     \<and> (transient op (fst (fetch req (world_after (fetch req) n w))) \<longrightarrow> int n = max 0 (maxRetries cl))
     \<and> (\<forall>d \<in> set (map client_backoff [0 ..< n]). 0 < d \<and> d \<le> 5000)"
proof -
  obtain n where n: "fetch_loop op (maxRetries cl) (fetch req) 0 [] w =
       (final_result op (fst (fetch req (world_after (fetch req) n w))),
        [] @ map client_backoff [0 ..< 0 + n], world_after (fetch req) (Suc n) w)"
    "\<forall>k < n. transient op (fst (fetch req (world_after (fetch req) k w)))"
    "int n \<le> max 0 (maxRetries cl - int 0)"
    "transient op (fst (fetch req (world_after (fetch req) n w))) \<longrightarrow> int n = max 0 (maxRetries cl - int 0)"
    using fetch_loop_result [of op "maxRetries cl" "fetch req" 0 "[]" w] by blast
  moreover have "0 < client_backoff k \<and> client_backoff k \<le> 5000" for k
    by (simp add: client_backoff_def)
  ultimately show ?thesis by (intro exI [of _ n]) (simp add: fetchWithRetry_def)
qed

definition one_shot_fetch :: "fetch_outcome list fetch" where
  "one_shot_fetch req outs = (case outs of [] \<Rightarrow> (Threw ThrownValue, []) | x # xs \<Rightarrow> (x, xs))"

definition sample_client :: client where
  "sample_client = \<lparr>base_url = ''https://m'', cl_chainId = None, cl_verifyingContract = None,
     requestTimeoutMs = 10000, maxRetries = 3\<rparr>"

definition sample_request :: http_request where
  "sample_request = \<lparr>rq_method = GET, rq_url = ''https://m/intents'', rq_query = [], rq_auth = None, rq_body = None\<rparr>"

theorem retry_bounded_witness:
  "\<exists>n. int n \<le> 3 \<and> map client_backoff [0 ..< n] = [100, 200]
     \<and> fetchWithRetry sample_client ''getIntent'' one_shot_fetch sample_request
      [Threw ThrownValue, Responded \<lparr>hr_status = 503, hr_json = None, hr_text = []\<rparr>,
       Responded \<lparr>hr_status = 200, hr_json = None, hr_text = []\<rparr>]
    = (Inr \<lparr>hr_status = 200, hr_json = None, hr_text = []\<rparr>, [100, 200], [])"
proof -
  let ?outs = "[Threw ThrownValue, Responded \<lparr>hr_status = 503, hr_json = None, hr_text = []\<rparr>,
       Responded \<lparr>hr_status = 200, hr_json = None, hr_text = []\<rparr>]"
  have "fetchWithRetry sample_client ''getIntent'' one_shot_fetch sample_request ?outs
      = (Inr \<lparr>hr_status = 200, hr_json = None, hr_text = []\<rparr>, [100, 200], [])"
    by (simp add: fetchWithRetry_def fetch_loop.simps sample_client_def one_shot_fetch_def
        read_error_def client_backoff_def)
  moreover have "max 0 (maxRetries sample_client) = 3" by (simp add: sample_client_def)
  ultimately show ?thesis
    using retry_bounded [of sample_client "''getIntent''" one_shot_fetch sample_request ?outs] by auto
qed

section \<open>Walking a well-behaved source\<close>

lemma list_pages_unfold:
  "list_pages err page maxPages acc seen cursor pages w =
     (case fst (page cursor w) of
        Inl e \<Rightarrow> (Inl e, snd (page cursor w))
      | Inr (rs, next) \<Rightarrow>
          (case next of
             None \<Rightarrow> (Inr (acc @ rs), snd (page cursor w))
           | Some c \<Rightarrow>
               if c \<in> set seen then (Inl (err RepeatedCursor (acc @ rs) c (pages + 1)), snd (page cursor w))
               else if int (pages + 1) < maxPages
               then list_pages err page maxPages (acc @ rs) (c # seen) (Some c) (pages + 1) (snd (page cursor w))
               else (Inl (err MaxPages (acc @ rs) c (pages + 1)), snd (page cursor w))))"
  by (subst list_pages.simps) (simp add: case_prod_beta split: sum.split prod.split)

context paged_source
begin

text \<open>What the walk returns: everything, or the first pages with the cursor to go on from.\<close>

definition walk_result ::
  "(pagination_reason \<Rightarrow> 'r list \<Rightarrow> 'c \<Rightarrow> nat \<Rightarrow> 'e) \<Rightarrow> 's \<Rightarrow> 'q \<Rightarrow> nat \<Rightarrow> nat \<Rightarrow> ('e, 'r list) result" where
  "walk_result err s q n m =
     (if length (contents s q) \<le> m * n then Inr (contents s q)
      else Inl (err MaxPages (take (m * n) (contents s q)) (the (cursor_at s q n m)) m))"

lemma cursor_at_key:
  "0 < n \<Longrightarrow> 0 < k \<Longrightarrow> k * n < length (contents s q) \<Longrightarrow> \<exists>r \<in> set (contents s q). cursor_at s q n k = Some (key r)"
proof -
  assume a: "0 < n" "0 < k" "k * n < length (contents s q)"
  then have "take (k * n) (contents s q) \<noteq> []" by auto
  then have "last (take (k * n) (contents s q)) \<in> set (contents s q)"
    by (meson in_set_takeD last_in_set)
  with a show ?thesis by (auto simp: cursor_at_def)
qed

lemma walk_from:
  assumes s: "ok s" and n: "0 < n" and mx: "max 1 maxPages = int m"
    and page': "\<And>c. c = None \<or> (\<exists>r \<in> set (contents s q). c = Some (key r)) \<Longrightarrow>
      page' c w = (Inr (page s q n c), w)"
    and k: "k < m" "k = 0 \<or> k * n < length (contents s q)"
    and seen: "set seen = (\<lambda>j. the (cursor_at s q n j)) ` {1..k}"
  shows "list_pages err page' maxPages (take (k * n) (contents s q)) seen (cursor_at s q n k) k w
    = (walk_result err s q n m, w)"
  using k seen
proof (induction "m - k" arbitrary: k seen)
  case (Suc d)
  let ?c = "contents s q"
  have "cursor_at s q n k = None \<or> (\<exists>r \<in> set ?c. cursor_at s q n k = Some (key r))"
    using Suc.prems(2) cursor_at_key [OF n, of k] by (cases "k = 0") (auto simp: cursor_at_def)
  then have p: "page' (cursor_at s q n k) w = (Inr (page s q n (cursor_at s q n k)), w)"
    by (rule page')
  have rs: "take (k * n) ?c @ fst (page s q n (cursor_at s q n k)) = take (Suc k * n) ?c"
    by (rule page_records_at [OF s n Suc.prems(2)])
  have nxt: "snd (page s q n (cursor_at s q n k)) =
      (if Suc k * n < length ?c then cursor_at s q n (Suc k) else None)"
    by (rule next_cursor_at [OF s n Suc.prems(2)])
  show ?case
  proof (cases "Suc k * n < length ?c")
    case False
    then have "length ?c \<le> m * n"
      using Suc.prems(1) mult_le_mono1 [of "Suc k" m n] by linarith
    with False show ?thesis
      using rs nxt by (simp add: list_pages_unfold p case_prod_beta walk_result_def)
  next
    case True
    obtain c where c: "cursor_at s q n (Suc k) = Some c"
      using cursor_at_key [OF n _ True] by auto
    have fresh: "c \<notin> set seen"
    proof
      assume "c \<in> set seen"
      then obtain j where j: "1 \<le> j" "j \<le> k" "c = the (cursor_at s q n j)" using Suc.prems(3) by auto
      have "j * n < length ?c" using j(2) True mult_le_mono1 [of j "Suc k" n] by linarith
      then obtain r where "cursor_at s q n j = Some (key r)"
        using cursor_at_key [OF n, of j] j(1) by auto
      with j(3) c have "cursor_at s q n j = cursor_at s q n (Suc k)" by simp
      with cursor_at_inject [OF s n, of j "Suc k"] j(2) True show False by auto
    qed
    show ?thesis
    proof (cases "Suc k < m")
      case True': True
      have "d = m - Suc k" using Suc.hyps(2) by simp
      moreover have "set (c # seen) = (\<lambda>j. the (cursor_at s q n j)) ` {1..Suc k}"
        using Suc.prems(3) c by (auto simp: atLeastAtMostSuc_conv)
      ultimately have "list_pages err page' maxPages (take (Suc k * n) ?c) (c # seen)
          (cursor_at s q n (Suc k)) (Suc k) w = (walk_result err s q n m, w)"
        using Suc.hyps(1) [of "Suc k" "c # seen"] True True' by simp
      moreover have "int (Suc k) < maxPages" using True' mx by linarith
      ultimately show ?thesis
        using rs nxt fresh True c
        by (subst list_pages_unfold) (simp add: p case_prod_beta del: mult_Suc of_nat_Suc)
    next
      case False
      then have "m = Suc k" using Suc.prems(1) by simp
      moreover from this have "\<not> int (Suc k) < maxPages" using mx by linarith
      ultimately show ?thesis
        using rs nxt fresh True c
        by (subst list_pages_unfold) (simp add: p case_prod_beta walk_result_def del: mult_Suc of_nat_Suc)
    qed
  qed
qed simp

lemma walk_all:
  assumes "ok s" and "0 < n"
    and "\<And>c. c = None \<or> (\<exists>r \<in> set (contents s q). c = Some (key r)) \<Longrightarrow>
      page' c w = (Inr (page s q n c), w)"
  shows "list_pages err page' maxPages [] [] None 0 w
    = (walk_result err s q n (nat (max 1 maxPages)), w)"
proof -
  have "list_pages err page' maxPages (take (0 * n) (contents s q)) [] (cursor_at s q n 0) 0 w
      = (walk_result err s q n (nat (max 1 maxPages)), w)"
    by (rule walk_from [where m = "nat (max 1 maxPages)"]) (use assms in auto)
  then show ?thesis by (simp add: cursor_at_def)
qed

end

section \<open>Waiting\<close>

lemma wait_loop_returns:
  assumes "\<And>ms w. 0 \<le> ms \<Longrightarrow> clock w + ms \<le> clock (sleep ms w)"
    and "\<And>t w. clock w \<le> clock (snd (poll t w))" and "0 < interval"
    and "nat (dl - clock w) < fuel"
  shows "wait_loop fuel clock poll sleep cl h interval dl lst seen w \<noteq> None"
  using assms(4)
proof (induction fuel arbitrary: lst seen w)
  case (Suc fuel)
  show ?case
  proof (cases "dl - clock w \<le> 0")
    case False
    define t where "t = (if 0 < requestTimeoutMs cl then min (dl - clock w) (requestTimeoutMs cl) else dl - clock w)"
    obtain r w' where p: "poll t w = (r, w')" by force
    have mono: "clock w \<le> clock w'" using assms(2) [of w t] p by simp
    define w'' where "w'' = (if dl - clock w' \<le> 0 then w' else sleep (min interval (dl - clock w')) w')"
    have "clock w' + min interval (dl - clock w') \<le> clock w''" if "\<not> dl - clock w' \<le> 0"
      using assms(1) [of "min interval (dl - clock w')" w'] assms(3) that by (simp add: w''_def)
    then have "nat (dl - clock w'') < fuel"
      using Suc.prems False mono assms(3) by (cases "dl - clock w' \<le> 0") (auto simp: w''_def)
    note ih = Suc.IH [OF this, unfolded w''_def]
    show ?thesis
      using False p ih by (cases "dl - clock w' \<le> 0") (auto simp: Let_def t_def [symmetric] split: sum.split)
  qed simp
qed simp

definition wait_outcome ::
  "(int \<Rightarrow> 'w \<Rightarrow> (sdk_error, intent_record) result \<times> 'w) \<Rightarrow> (sdk_error, intent_record) result
     \<Rightarrow> intent_status list \<Rightarrow> bool" where
  "wait_outcome poll r seen \<longleftrightarrow> distinct_adj seen \<and>
     (case r of
        Inr rec \<Rightarrow> status rec \<in> set settled_statuses \<and> seen \<noteq> [] \<and> last seen = status rec
          \<and> (\<exists>t v. fst (poll t v) = Inr rec)
      | Inl e \<Rightarrow> is_timeout_sdk e \<or> (\<exists>t v. fst (poll t v) = Inl e))"

lemma distinct_adj_snoc:
  "distinct_adj (xs @ [x]) \<longleftrightarrow> distinct_adj xs \<and> (xs = [] \<or> last xs \<noteq> x)"
  by (auto simp: distinct_adj_append_iff)

lemma wait_loop_outcome:
  assumes "wait_loop fuel clock poll sleep cl h interval dl lst seen w = Some (r, seen', w')"
    and "distinct_adj seen" and "lst = (if seen = [] then None else Some (last seen))"
  shows "wait_outcome poll r seen'"
  using assms
proof (induction fuel arbitrary: lst seen w)
  case (Suc fuel)
  show ?case
  proof (cases "dl - clock w \<le> 0")
    case True
    then show ?thesis using Suc.prems by (auto simp: wait_outcome_def)
  next
    case False
    define t where "t = (if 0 < requestTimeoutMs cl then min (dl - clock w) (requestTimeoutMs cl) else dl - clock w)"
    obtain q w1 where p: "poll t w = (q, w1)" by force
    show ?thesis
    proof (cases q)
      case (Inl e)
      have "fst (poll t w) = Inl e" using p Inl by simp
      then have "wait_outcome poll (Inl e) seen"
        using Suc.prems(2) unfolding wait_outcome_def by (simp only: sum.case) blast
      moreover have "wait_outcome poll (Inl (PerihelionTimeoutError (Some h) (map_option status_name lst))) seen"
        using Suc.prems(2) by (simp add: wait_outcome_def)
      ultimately show ?thesis
        using Suc.prems(1) False p Inl by (auto simp: Let_def t_def [symmetric] split: if_splits)
    next
      case (Inr rec)
      define seen1 where "seen1 = (if Some (status rec) \<noteq> lst then seen @ [status rec] else seen)"
      have s1: "distinct_adj seen1" "seen1 \<noteq> []" "last seen1 = status rec"
        using Suc.prems(2,3) by (auto simp: seen1_def distinct_adj_snoc split: if_splits)
      have f: "fst (poll t w) = Inr rec" using p Inr by simp
      show ?thesis
      proof (cases "status rec \<in> set settled_statuses")
        case True
        then have "r = Inr rec" "seen' = seen1"
          using Suc.prems(1) False p Inr by (auto simp: Let_def t_def [symmetric] seen1_def)
        then show ?thesis using s1 f True by (auto simp: wait_outcome_def)
      next
        case nt: False
        obtain v where "wait_loop fuel clock poll sleep cl h interval dl (Some (status rec)) seen1 v
            = Some (r, seen', w')"
          using Suc.prems(1) False p Inr nt by (auto simp: Let_def t_def [symmetric] seen1_def)
        from Suc.IH [OF this s1(1)] show ?thesis using s1 by simp
      qed
    qed
  qed
qed simp


text \<open>A world that is its clock, and an intent that settles at 4000.\<close>

definition settling_poll :: "int \<Rightarrow> int \<Rightarrow> (sdk_error, intent_record) result \<times> int" where
  "settling_poll t now = (Inr (sample_intent_record (if now < 4000 then Pending else Settled)), now)"


section \<open>Where the token goes\<close>

definition logging :: "'w fetch \<Rightarrow> (http_request list \<times> 'w) fetch" where
  "logging fetch req s = (let (out, w') = fetch req (snd s) in (out, fst s @ [req], w'))"

lemma lower_hex_char: "is_hex c \<Longrightarrow> is_hex_lower (lower_char c)"
  by (auto simp: is_hex_def is_hex_lower_def is_digit_def is_upper_def lower_char_def Let_def
      char_code_char_of)

lemma hex_string_to_lower:
  assumes "hex_string n s" shows "hex_string_lower n (to_lower s)"
proof -
  have "lower_char (CHR ''0'') = CHR ''0''" "lower_char (CHR ''x'') = CHR ''x''"
    by (simp_all add: lower_char_def is_upper_def char_code_def)
  moreover have "take 2 (to_lower s) = map lower_char (take 2 s)"
    "drop 2 (to_lower s) = map lower_char (drop 2 s)"
    by (simp_all add: to_lower_def take_map drop_map)
  ultimately show ?thesis
    using assms lower_hex_char by (simp add: hex_string_def hex_string_lower_def list_all_iff)
qed

text \<open>
  The status token only ever goes to status URLs: whatever the hash argument is, every request
  \<open>reportStatus\<close> makes goes to the \<open>status\<close> path of an intent named by 32 bytes of lower-case
  hexadecimal under the configured base, at most one request is made, and a malformed hash is
  refused before any.
\<close>

theorem token_only_to_status_urls:
  "\<exists>reqs r w'. reportStatus cl (logging fetch) h st token ([], w) = (r, reqs, w')
     \<and> length reqs \<le> 1
     \<and> (\<forall>req \<in> set reqs. \<exists>i. hex_string_lower 64 i
          \<and> rq_url req = base_url cl @ ''/intents/'' @ i @ ''/status'')
     \<and> (reqs = [] \<longleftrightarrow> r = Inl (PerihelionValidationError (Some ''hash'')) \<and> \<not> hex_string 64 h)"
proof (cases "hex_string 64 h")
  case True
  obtain out v where "fetch \<lparr>rq_method = PATCH, rq_url = base_url cl @ ''/intents/'' @ to_lower h @ ''/status'',
      rq_query = [], rq_auth = Some (''Bearer '' @ token),
      rq_body = Some (JObj [(''status'', JStr (status_name st))])\<rparr> w = (out, v)" by force
  with True show ?thesis
    using hex_string_to_lower [OF True]
    by (auto simp: reportStatus_def intentUrl_def logging_def)
qed (simp add: reportStatus_def intentUrl_def)

theorem token_only_to_status_urls_witness:
  "\<exists>reqs r w'. reportStatus sample_client (logging one_shot_fetch) ''../admin'' Settled ''t'' ([], []) = (r, reqs, w')
     \<and> reqs = [] \<and> r = Inl (PerihelionValidationError (Some ''hash''))"
  using token_only_to_status_urls [of sample_client one_shot_fetch "''../admin''" Settled "''t''" "[]"]
  by (auto simp: reportStatus_def intentUrl_def hex_string_def)

end
