(* ===== verification/Backoff.thy ===== *)
theory Backoff
  imports Sdk_Client
begin

text \<open>
  \<^verbatim>\<open>solver/src/backoff.ts\<close>, of which \<^verbatim>\<open>relayer/src/backoff.ts\<close> is a copy, and the contract that the
  repository's capped exponential delays share: they grow with the failures and never exceed a cap.
\<close>

section \<open>Capped delays\<close>

locale capped_backoff =
  fixes valid :: "'c \<Rightarrow> bool"
    and delay :: "'c \<Rightarrow> nat \<Rightarrow> 'd::linordered_idom"
    and cap :: "'c \<Rightarrow> 'd"
  assumes delay_step: "valid c \<Longrightarrow> delay c n \<le> delay c (Suc n)"
    and delay_cap: "valid c \<Longrightarrow> delay c n \<le> cap c"
begin

lemma delay_mono: "valid c \<Longrightarrow> m \<le> n \<Longrightarrow> delay c m \<le> delay c n"
  using lift_Suc_mono_le [of "delay c" m n] delay_step by blast

lemma total_delay: "valid c \<Longrightarrow> (\<Sum>n < k. delay c n) \<le> of_nat k * cap c"
  using sum_mono [of "{..<k}" "delay c" "\<lambda>_. cap c"] delay_cap by simp

end

interpretation client_backoff: capped_backoff "\<lambda>_::unit. True" "\<lambda>_. client_backoff" "\<lambda>_. 5000"
proof (unfold_locales, goal_cases)
  case (1 c n)
  have "client_backoff n \<le> client_backoff (Suc n)"
    unfolding client_backoff_def by (intro min.mono) simp_all
  then show ?case by simp
qed (simp add: client_backoff_def)

section \<open>BackoffState\<close>

record backoff_config =
  bc_pollIntervalMs :: int
  bc_maxJitterMs :: "int option"
  bc_backoffMultiplier :: "rat option"
  bc_maxBackoffMs :: "rat option"

record backoff_state =
  failures :: nat
  bs_base :: int
  maxJitterMs :: int
  backoffMultiplier :: rat
  maxBackoffMs :: rat

definition new_backoff :: "backoff_config \<Rightarrow> backoff_state" where
  "new_backoff cfg =
     \<lparr>failures = 0, bs_base = bc_pollIntervalMs cfg,
      maxJitterMs = option_default (bc_maxJitterMs cfg) \<lfloor>rat_of_int (bc_pollIntervalMs cfg) * (1 / 4)\<rfloor>,
      backoffMultiplier = option_default (bc_backoffMultiplier cfg) 2,
      maxBackoffMs = option_default (bc_maxBackoffMs cfg) 60000\<rparr>"

definition recordSuccess :: "backoff_state \<Rightarrow> backoff_state" where
  "recordSuccess b = b\<lparr>failures := 0\<rparr>"

definition recordFailure :: "backoff_state \<Rightarrow> backoff_state" where
  "recordFailure b = b\<lparr>failures := failures b + 1\<rparr>"

definition backed_delay :: "backoff_state \<Rightarrow> nat \<Rightarrow> rat" where
  "backed_delay b n = min (rat_of_int (bs_base b) * backoffMultiplier b ^ n) (maxBackoffMs b)"

definition nextDelay :: "backoff_state \<Rightarrow> rat \<Rightarrow> rat" where
  "nextDelay b rng =
     backed_delay b (failures b) + rat_of_int \<lfloor>rng * rat_of_int (maxJitterMs b + 1)\<rfloor>"

definition consecutiveFailures :: "backoff_state \<Rightarrow> nat" where
  "consecutiveFailures b = failures b"

definition backoff_valid :: "backoff_state \<Rightarrow> bool" where
  "backoff_valid b \<longleftrightarrow> 0 \<le> bs_base b \<and> 1 \<le> backoffMultiplier b \<and> 0 \<le> maxJitterMs b"

interpretation backoff_state: capped_backoff backoff_valid backed_delay maxBackoffMs
proof (unfold_locales, goal_cases)
  case (1 c n)
  then have "backoffMultiplier c ^ n \<le> backoffMultiplier c ^ Suc n"
    by (intro power_increasing) (simp_all add: backoff_valid_def)
  then have "rat_of_int (bs_base c) * backoffMultiplier c ^ n \<le> rat_of_int (bs_base c) * backoffMultiplier c ^ Suc n"
    using 1 by (intro mult_left_mono) (simp_all add: backoff_valid_def)
  then show ?case unfolding backed_delay_def by (intro min.mono) simp_all
qed (simp add: backed_delay_def)

text \<open>
  Polling backs off within bounds: after any run of failures and successes the next delay depends
  only on the failures since the last success, is at least the poll interval (or the cap, if that is
  smaller) and at most the cap plus the jitter; and one more failure never shortens the delay before
  jitter.
\<close>

theorem next_delay_bounds:
  assumes "backoff_valid b" and "0 \<le> rng" and "rng < 1"
  shows "min (rat_of_int (bs_base b)) (maxBackoffMs b) \<le> nextDelay b rng
    \<and> nextDelay b rng \<le> maxBackoffMs b + rat_of_int (maxJitterMs b)
    \<and> nextDelay b 0 \<le> nextDelay (recordFailure b) 0
    \<and> (\<forall>n. nextDelay (recordSuccess ((recordFailure ^^ n) b)) rng = nextDelay (recordSuccess b) rng)"
proof -
  let ?j = "\<lfloor>rng * rat_of_int (maxJitterMs b + 1)\<rfloor>"
  have "rng * rat_of_int (maxJitterMs b + 1) < 1 * rat_of_int (maxJitterMs b + 1)"
    using assms by (intro mult_strict_right_mono) (simp_all add: backoff_valid_def)
  then have "?j < maxJitterMs b + 1" unfolding floor_less_iff by simp
  moreover have "0 \<le> ?j" using assms by (simp add: backoff_valid_def)
  ultimately have j: "0 \<le> rat_of_int ?j" "rat_of_int ?j \<le> rat_of_int (maxJitterMs b)" by simp_all
  have "backed_delay b 0 \<le> backed_delay b (failures b)"
    using backoff_state.delay_mono [OF assms(1), of 0] by simp
  moreover have "backed_delay b (failures b) \<le> maxBackoffMs b"
    using backoff_state.delay_cap [OF assms(1)] .
  moreover have "nextDelay b 0 \<le> nextDelay (recordFailure b) 0"
    using backoff_state.delay_step [OF assms(1), of "failures b"]
    by (simp add: nextDelay_def recordFailure_def backed_delay_def)
  moreover have "nextDelay (recordSuccess ((recordFailure ^^ n) b)) rng = nextDelay (recordSuccess b) rng" for n
  proof -
    have "recordSuccess ((recordFailure ^^ n) b) = recordSuccess b"
      by (induction n) (simp_all add: recordSuccess_def recordFailure_def)
    then show ?thesis by simp
  qed
  moreover have "min (rat_of_int (bs_base b)) (maxBackoffMs b) = backed_delay b 0"
    by (simp add: backed_delay_def)
  moreover have "nextDelay b rng = backed_delay b (failures b) + rat_of_int ?j"
    by (simp add: nextDelay_def)
  ultimately show ?thesis using j by (intro conjI allI) linarith+
qed

theorem next_delay_bounds_witness:
  "backoff_valid (new_backoff \<lparr>bc_pollIntervalMs = 2000, bc_maxJitterMs = None,
       bc_backoffMultiplier = None, bc_maxBackoffMs = None\<rparr>)
   \<and> nextDelay (new_backoff \<lparr>bc_pollIntervalMs = 2000, bc_maxJitterMs = None,
       bc_backoffMultiplier = None, bc_maxBackoffMs = None\<rparr>) (1 / 2) \<le> 60500"
proof -
  let ?b = "new_backoff \<lparr>bc_pollIntervalMs = 2000, bc_maxJitterMs = None,
       bc_backoffMultiplier = None, bc_maxBackoffMs = None\<rparr>"
  have v: "backoff_valid ?b" by (simp add: backoff_valid_def new_backoff_def option_default_def)
  have "maxBackoffMs ?b + rat_of_int (maxJitterMs ?b) = 60500"
    by (simp add: new_backoff_def option_default_def)
  then show ?thesis using v next_delay_bounds [OF v, of "1 / 2"] by simp
qed

end
