(* ===== verification/Released_Watcher.thy ===== *)
theory Released_Watcher
  imports Backoff
begin

text \<open>
  \<^verbatim>\<open>solver/src/released-watcher.ts\<close>: the poller that reports an intent as settled once the escrow has
  released its funds. The chain, the mempool and the clock are a state \<open>'w\<close> that the calls thread
  through; \<open>rv_stopped\<close> tells whether \<open>stop\<close> has been called in it. Log lines are left out, and what
  \<open>onSettled\<close> throws is swallowed as in the code.
\<close>

section \<open>The code\<close>

record released_event =
  re_intentHash :: hex
  blockNumber :: int
  transactionHash :: hex
  logIndex :: int

text \<open>What the code looks at in a thrown value: \<open>None\<close> for values that are not objects.\<close>

record thrown_object =
  to_status :: "int option"
  to_responseStatus :: "int option"
  to_message :: "string option"

type_synonym watch_error = "thrown_object option"

record 'w released_env =
  rv_getBlockNumber :: "'w \<Rightarrow> (watch_error, int) result \<times> 'w"
  rv_getReleasedEvents :: "int \<Rightarrow> int \<Rightarrow> 'w \<Rightarrow> (watch_error, released_event list) result \<times> 'w"
  rv_reportStatus :: "hex \<Rightarrow> intent_status \<Rightarrow> 'w \<Rightarrow> (watch_error, unit) result \<times> 'w"
  rv_onSettled :: "hex \<Rightarrow> released_event \<Rightarrow> 'w \<Rightarrow> 'w"
  rv_stopped :: "'w \<Rightarrow> bool"
  rv_maxBlockRange :: int
  rv_pollIntervalMs :: int
  rv_initialBackoffMs :: int
  rv_maxBackoffMs :: int

record released_state =
  nextBlock :: "int option"
  reported :: "string list"

definition new_released :: "int option \<Rightarrow> released_state" where
  "new_released startBlock = \<lparr>nextBlock = startBlock, reported = []\<rparr>"

definition isAlreadySettledError :: "watch_error \<Rightarrow> bool" where
  "isAlreadySettledError err =
     (case err of
        None \<Rightarrow> False
      | Some e \<Rightarrow>
          let st = (case to_status e of Some s \<Rightarrow> Some s | None \<Rightarrow> to_responseStatus e);
              msg = to_lower (option_default (to_message e) '''')
          in st = Some 409 \<or> st = Some 404
             \<or> str_includes msg ''already settled'' \<or> str_includes msg ''not pending''
             \<or> str_includes msg ''invalid status transition'')"

text \<open>\<open>reported\<close> is a set; it is kept as the list of its elements without repetitions.\<close>

definition handleEvent ::
  "'w released_env \<Rightarrow> released_event \<Rightarrow> released_state \<Rightarrow> 'w
     \<Rightarrow> (watch_error, bool) result \<times> released_state \<times> 'w" where
  "handleEvent env e s w =
     (let key = to_lower (re_intentHash e)
      in if key \<in> set (reported s) then (Inr False, s, w)
         else
           case rv_reportStatus env (re_intentHash e) Settled w of
             (Inr _, w1) \<Rightarrow>
               (Inr True, s\<lparr>reported := key # reported s\<rparr>, rv_onSettled env (re_intentHash e) e w1)
           | (Inl err, w1) \<Rightarrow>
               if isAlreadySettledError err then (Inr False, s\<lparr>reported := key # reported s\<rparr>, w1)
               else (Inl err, s, w1))"

text \<open>Sorting by block, then log index: the sort is stable.\<close>

definition sort_events :: "released_event list \<Rightarrow> released_event list" where
  "sort_events es = sort_key blockNumber (sort_key logIndex es)"

fun handle_events ::
  "'w released_env \<Rightarrow> released_event list \<Rightarrow> int \<Rightarrow> released_state \<Rightarrow> 'w
     \<Rightarrow> (watch_error, int) result \<times> released_state \<times> 'w" where
  "handle_events env [] n s w = (Inr n, s, w)"
| "handle_events env (e # es) n s w =
     (if rv_stopped env w then (Inr n, s, w)
      else case handleEvent env e s w of
             (Inl err, s1, w1) \<Rightarrow> (Inl err, s1, w1)
           | (Inr isNew, s1, w1) \<Rightarrow> handle_events env es (if isNew then n + 1 else n) s1 w1)"

text \<open>
  The loop over block ranges, with fuel: a range below one block would never end.
\<close>

fun scan_ranges ::
  "nat \<Rightarrow> 'w released_env \<Rightarrow> int \<Rightarrow> int \<Rightarrow> int \<Rightarrow> released_state \<Rightarrow> 'w
     \<Rightarrow> ((watch_error, int) result \<times> released_state \<times> 'w) option" where
  "scan_ranges 0 env head start n s w = None"
| "scan_ranges (Suc k) env head start n s w =
     (if start \<le> head \<and> \<not> rv_stopped env w then
        let upto = min (start + rv_maxBlockRange env - 1) head
        in case rv_getReleasedEvents env start upto w of
             (Inl err, w1) \<Rightarrow> Some (Inl err, s, w1)
           | (Inr es, w1) \<Rightarrow>
               (case handle_events env (sort_events es) n s w1 of
                  (Inl err, s1, w2) \<Rightarrow> Some (Inl err, s1, w2)
                | (Inr m, s1, w2) \<Rightarrow>
                    scan_ranges k env head (upto + 1) m (s1\<lparr>nextBlock := Some (upto + 1)\<rparr>) w2)
      else Some (Inr n, s, w))"

definition pollOnce ::
  "nat \<Rightarrow> 'w released_env \<Rightarrow> released_state \<Rightarrow> 'w
     \<Rightarrow> ((watch_error, int) result \<times> released_state \<times> 'w) option" where
  "pollOnce fuel env s w =
     (case rv_getBlockNumber env w of
        (Inl err, w1) \<Rightarrow> Some (Inl err, s, w1)
      | (Inr head, w1) \<Rightarrow>
          (case nextBlock s of
             None \<Rightarrow> Some (Inr 0, s\<lparr>nextBlock := Some head\<rparr>, w1)
           | Some start \<Rightarrow>
               if head < start then Some (Inr 0, s, w1)
               else scan_ranges fuel env head start 0 s w1))"

text \<open>The loop of \<open>run\<close>, for at most \<open>n\<close> polls; the delays slept are collected.\<close>

fun watcher_run ::
  "nat \<Rightarrow> nat \<Rightarrow> 'w released_env \<Rightarrow> (int \<Rightarrow> 'w \<Rightarrow> 'w) \<Rightarrow> int \<Rightarrow> int list \<Rightarrow> released_state \<Rightarrow> 'w
     \<Rightarrow> (int list \<times> released_state \<times> 'w) option" where
  "watcher_run 0 fuel env sleep backoff slept s w = Some (slept, s, w)"
| "watcher_run (Suc n) fuel env sleep backoff slept s w =
     (if rv_stopped env w then Some (slept, s, w)
      else case pollOnce fuel env s w of
             None \<Rightarrow> None
           | Some (Inr _, s1, w1) \<Rightarrow>
               watcher_run n fuel env sleep (rv_initialBackoffMs env) (slept @ [rv_pollIntervalMs env]) s1
                 (sleep (rv_pollIntervalMs env) w1)
           | Some (Inl _, s1, w1) \<Rightarrow>
               watcher_run n fuel env sleep (min (backoff * 2) (rv_maxBackoffMs env)) (slept @ [backoff]) s1
                 (sleep backoff w1))"

section \<open>Facts about the code\<close>

lemma set_sort_events [simp]: "set (sort_events es) = set es"
  by (simp add: sort_events_def)

definition acknowledged :: "'w released_env \<Rightarrow> string \<Rightarrow> bool" where
  "acknowledged env key \<longleftrightarrow>
     (\<exists>h w w'. to_lower h = key
        \<and> (rv_reportStatus env h Settled w = (Inr (), w')
           \<or> (\<exists>err. rv_reportStatus env h Settled w = (Inl err, w') \<and> isAlreadySettledError err)))"

definition all_acknowledged :: "'w released_env \<Rightarrow> released_state \<Rightarrow> bool" where
  "all_acknowledged env s \<longleftrightarrow> (\<forall>key \<in> set (reported s). acknowledged env key)"

text \<open>The events of blocks before \<open>c\<close> that count from block \<open>b\<close> on are reported.\<close>

definition caught_up :: "'w released_env \<Rightarrow> released_event set \<Rightarrow> int \<Rightarrow> int \<Rightarrow> released_state \<Rightarrow> bool" where
  "caught_up env emitted b c s \<longleftrightarrow> b \<le> c
     \<and> (\<forall>e \<in> emitted. b \<le> blockNumber e \<and> blockNumber e < c \<longrightarrow> to_lower (re_intentHash e) \<in> set (reported s))
     \<and> all_acknowledged env s"

definition faithful_source :: "'w released_env \<Rightarrow> released_event set \<Rightarrow> bool" where
  "faithful_source env emitted \<longleftrightarrow>
     (\<forall>a b w es w'. rv_getReleasedEvents env a b w = (Inr es, w') \<longrightarrow>
        set es = {e \<in> emitted. a \<le> blockNumber e \<and> blockNumber e \<le> b})"

lemma handleEvent_reported:
  assumes "handleEvent env e s w = (res, s', w')"
  shows "nextBlock s' = nextBlock s" and "set (reported s) \<subseteq> set (reported s')"
    and "all_acknowledged env s \<Longrightarrow> all_acknowledged env s'"
    and "res = Inr b \<Longrightarrow> to_lower (re_intentHash e) \<in> set (reported s')"
proof -
  let ?key = "to_lower (re_intentHash e)"
  obtain out w1 where r: "rv_reportStatus env (re_intentHash e) Settled w = (out, w1)" by fastforce
  have ack: "acknowledged env ?key" if "out = Inr () \<or> (\<exists>err. out = Inl err \<and> isAlreadySettledError err)"
    using that r unfolding acknowledged_def by blast
  have "(s' = s \<and> (?key \<in> set (reported s) \<or> (\<exists>err. res = Inl err)))
    \<or> (s' = s\<lparr>reported := ?key # reported s\<rparr> \<and> acknowledged env ?key)"
  proof (cases "?key \<in> set (reported s)")
    case True
    then show ?thesis using assms by (simp add: handleEvent_def)
  next
    case False
    then show ?thesis
      using assms ack by (cases out) (auto simp: handleEvent_def r Let_def split: if_splits)
  qed
  then show "nextBlock s' = nextBlock s" "set (reported s) \<subseteq> set (reported s')"
    "all_acknowledged env s \<Longrightarrow> all_acknowledged env s'"
    "res = Inr b \<Longrightarrow> ?key \<in> set (reported s')"
    by (auto simp: all_acknowledged_def)
qed

lemma handle_events_reported:
  assumes "\<forall>w. \<not> rv_stopped env w"
  shows "handle_events env es n s w = (res, s', w') \<Longrightarrow>
    nextBlock s' = nextBlock s \<and> set (reported s) \<subseteq> set (reported s')
    \<and> (all_acknowledged env s \<longrightarrow> all_acknowledged env s')
    \<and> (\<forall>m. res = Inr m \<longrightarrow> (\<forall>e \<in> set es. to_lower (re_intentHash e) \<in> set (reported s')))"
proof (induction es arbitrary: n s w)
  case (Cons e es)
  obtain r s1 w1 where h: "handleEvent env e s w = (r, s1, w1)" by (metis prod_cases3)
  note h1 = handleEvent_reported [OF h]
  show ?case
  proof (cases r)
    case (Inl err)
    then have "res = Inl err" "s' = s1" using Cons.prems assms by (simp_all add: h)
    then show ?thesis using h1(1-3) by simp
  next
    case (Inr b)
    then have "handle_events env es (if b then n + 1 else n) s1 w1 = (res, s', w')"
      using Cons.prems assms by (simp add: h)
    note IH = Cons.IH [OF this]
    have "to_lower (re_intentHash e) \<in> set (reported s')" using IH h1(4) [OF Inr] by blast
    then show ?thesis using IH h1(1-3) by simp blast
  qed
qed auto

lemma scan_ranges_caught_up:
  assumes "\<forall>w. \<not> rv_stopped env w" and "faithful_source env emitted"
  shows "caught_up env emitted b start s \<Longrightarrow> nextBlock s = Some start \<Longrightarrow>
    scan_ranges k env head start n s w = Some (res, s', w') \<Longrightarrow> 1 \<le> rv_maxBlockRange env \<Longrightarrow>
    \<exists>c. nextBlock s' = Some c \<and> caught_up env emitted b c s'"
proof (induction k arbitrary: start n s w)
  case (Suc k)
  show ?case
  proof (cases "start \<le> head")
    case False
    then show ?thesis using Suc.prems by auto
  next
    case True
    let ?upto = "min (start + rv_maxBlockRange env - 1) head"
    obtain out w1 where g: "rv_getReleasedEvents env start ?upto w = (out, w1)" by fastforce
    show ?thesis
    proof (cases out)
      case (Inl err)
      then show ?thesis using Suc.prems True assms(1) g by auto
    next
      case (Inr es)
      obtain r s1 w2 where h: "handle_events env (sort_events es) n s w1 = (r, s1, w2)" by (metis prod_cases3)
      note h1 = handle_events_reported [OF assms(1) h]
      have es: "set es = {e \<in> emitted. start \<le> blockNumber e \<and> blockNumber e \<le> ?upto}"
        using assms(2) g Inr unfolding faithful_source_def by blast
      show ?thesis
      proof (cases r)
        case (Inl err)
        have "caught_up env emitted b start s1" using Suc.prems(1) h1 by (auto simp: caught_up_def)
        then show ?thesis using Suc.prems True assms(1) g Inr h Inl h1 by auto
      next
        case (Inr m)
        let ?s2 = "s1\<lparr>nextBlock := Some (?upto + 1)\<rparr>"
        have "start \<le> ?upto + 1" using True Suc.prems(4) by simp
        moreover have "to_lower (re_intentHash e) \<in> set (reported s1)"
          if "e \<in> emitted" "b \<le> blockNumber e" "blockNumber e < ?upto + 1" for e
        proof (cases "blockNumber e < start")
          case True
          then show ?thesis using that Suc.prems(1) h1 unfolding caught_up_def by blast
        next
          case False
          then have "e \<in> set (sort_events es)" using that es by simp
          then show ?thesis using h1 Inr by blast
        qed
        ultimately have "caught_up env emitted b (?upto + 1) ?s2"
          using Suc.prems(1) h1 unfolding caught_up_def all_acknowledged_def by simp
        moreover have "scan_ranges k env head (?upto + 1) m ?s2 w2 = Some (res, s', w')"
          using Suc.prems(3) True assms(1) by (simp add: g \<open>out = Inr es\<close> h Inr Let_def)
        ultimately show ?thesis using Suc.IH [of "?upto + 1" ?s2] Suc.prems(4) by simp
      qed
    qed
  qed
qed simp

lemma pollOnce_caught_up:
  assumes "\<forall>w. \<not> rv_stopped env w" and "faithful_source env emitted" and "1 \<le> rv_maxBlockRange env"
    and "caught_up env emitted b c s" and "nextBlock s = Some c" and "pollOnce k env s w = Some (res, s', w')"
  shows "\<exists>c. nextBlock s' = Some c \<and> caught_up env emitted b c s'"
proof -
  obtain out w1 where h: "rv_getBlockNumber env w = (out, w1)" by fastforce
  show ?thesis
  proof (cases out)
    case (Inl err)
    then show ?thesis using assms(4-6) by (simp add: pollOnce_def h)
  next
    case (Inr head)
    show ?thesis
    proof (cases "head < c")
      case True
      then show ?thesis using assms(4-6) Inr by (simp add: pollOnce_def h)
    next
      case False
      then have "scan_ranges k env head c 0 s w1 = Some (res, s', w')"
        using assms(5,6) Inr by (simp add: pollOnce_def h)
      then show ?thesis by (rule scan_ranges_caught_up [OF assms(1,2,4,5) _ assms(3)])
    qed
  qed
qed

lemma watcher_run_caught_up:
  assumes "\<forall>w. \<not> rv_stopped env w" and "faithful_source env emitted" and "1 \<le> rv_maxBlockRange env"
  shows "caught_up env emitted b c s \<Longrightarrow> nextBlock s = Some c \<Longrightarrow>
    watcher_run n k env sleep backoff slept s w = Some (slept', s', w') \<Longrightarrow>
    \<exists>c. nextBlock s' = Some c \<and> caught_up env emitted b c s'"
proof (induction n arbitrary: c backoff slept s w)
  case (Suc n)
  obtain res s1 w1 where p: "pollOnce k env s w = Some (res, s1, w1)"
    using Suc.prems(3) assms(1) by (auto split: option.splits)
  obtain c1 where "nextBlock s1 = Some c1" "caught_up env emitted b c1 s1"
    using pollOnce_caught_up [OF assms Suc.prems(1,2) p] by blast
  then show ?case using Suc.IH [of c1 s1] Suc.prems(3) assms(1) p by (cases res) auto
qed auto

lemma scan_ranges_returns:
  assumes "1 \<le> rv_maxBlockRange env"
  shows "nat (head - start + 1) < k \<Longrightarrow> \<exists>r. scan_ranges k env head start n s w = Some r"
proof (induction k arbitrary: start n s w)
  case (Suc k)
  let ?upto = "min (start + rv_maxBlockRange env - 1) head"
  show ?case
  proof (cases "start \<le> head \<and> \<not> rv_stopped env w")
    case True
    then have "nat (head - (?upto + 1) + 1) < k" using Suc.prems assms by (cases "start + rv_maxBlockRange env - 1 \<le> head") auto
    then show ?thesis
      using True Suc.IH by (auto simp: Let_def split: prod.split sum.split)
  qed auto
qed simp

section \<open>Properties\<close>

text \<open>
  C40. A running watcher never passes an event by: as long as it is not stopped and its source answers
  truthfully, after any number of polls, failed ones included, every event from the starting block up
  to the cursor has been reported, and every reported hash was acknowledged by the mempool; and a poll
  always returns.
\<close>

theorem watcher_never_skips:
  assumes "\<forall>w. \<not> rv_stopped env w" and "faithful_source env emitted" and "1 \<le> rv_maxBlockRange env"
  shows "(\<forall>n k sleep backoff w slept s w'.
      watcher_run n k env sleep backoff [] (new_released (Some b)) w = Some (slept, s, w') \<longrightarrow>
      (\<exists>c. nextBlock s = Some c \<and> b \<le> c
        \<and> (\<forall>e \<in> emitted. b \<le> blockNumber e \<and> blockNumber e < c \<longrightarrow> to_lower (re_intentHash e) \<in> set (reported s))
        \<and> (\<forall>key \<in> set (reported s). acknowledged env key)))
    \<and> (\<forall>s w. \<exists>k. pollOnce k env s w \<noteq> None)"
proof (intro conjI allI impI)
  fix n k sleep backoff w slept s w'
  assume run: "watcher_run n k env sleep backoff [] (new_released (Some b)) w = Some (slept, s, w')"
  have "caught_up env emitted b b (new_released (Some b))" "nextBlock (new_released (Some b)) = Some b"
    by (simp_all add: caught_up_def all_acknowledged_def new_released_def)
  from watcher_run_caught_up [OF assms this run] obtain c where "nextBlock s = Some c" "caught_up env emitted b c s"
    by blast
  then show "\<exists>c. nextBlock s = Some c \<and> b \<le> c
        \<and> (\<forall>e \<in> emitted. b \<le> blockNumber e \<and> blockNumber e < c \<longrightarrow> to_lower (re_intentHash e) \<in> set (reported s))
        \<and> (\<forall>key \<in> set (reported s). acknowledged env key)"
    unfolding caught_up_def all_acknowledged_def by blast
next
  fix s w
  obtain out w1 where h: "rv_getBlockNumber env w = (out, w1)" by fastforce
  show "\<exists>k. pollOnce k env s w \<noteq> None"
  proof (cases out)
    case (Inl err)
    then show ?thesis by (simp add: pollOnce_def h)
  next
    case (Inr head)
    show ?thesis
    proof (cases "nextBlock s")
      case None
      then show ?thesis using Inr by (simp add: pollOnce_def h)
    next
      case (Some start)
      obtain k where "nat (head - start + 1) < k" by blast
      from scan_ranges_returns [OF assms(3) this] obtain r where "scan_ranges k env head start 0 s w1 = Some r"
        by blast
      then have "pollOnce k env s w \<noteq> None"
        using Inr Some by (cases r) (simp add: pollOnce_def h)
      then show ?thesis ..
    qed
  qed
qed

definition sample_event :: released_event where
  "sample_event = \<lparr>re_intentHash = ''0xAB'', blockNumber = 7, transactionHash = ''0x01'', logIndex = 0\<rparr>"

definition sample_watch :: "int released_env" where
  "sample_watch =
     \<lparr>rv_getBlockNumber = \<lambda>w. (Inr 8, w),
      rv_getReleasedEvents = \<lambda>a b w. (Inr (if a \<le> 7 \<and> 7 \<le> b then [sample_event] else []), w),
      rv_reportStatus = \<lambda>h st w. (Inr (), w), rv_onSettled = \<lambda>h e w. w, rv_stopped = \<lambda>w. False,
      rv_maxBlockRange = 2, rv_pollIntervalMs = 5000, rv_initialBackoffMs = 1000, rv_maxBackoffMs = 60000\<rparr>"

lemma sample_watch_faithful:
  "\<forall>w. \<not> rv_stopped sample_watch w" "faithful_source sample_watch {sample_event}" "1 \<le> rv_maxBlockRange sample_watch"
  by (auto simp: faithful_source_def sample_watch_def sample_event_def split: if_splits)

theorem watcher_never_skips_witness:
  "\<exists>s w'. watcher_run 1 9 sample_watch (\<lambda>ms w. w + ms) 1000 [] (new_released (Some 5)) 0 = Some ([5000], s, w')
     \<and> nextBlock s = Some 9 \<and> to_lower ''0xAB'' \<in> set (reported s)"
proof -
  have "\<exists>s w'. watcher_run 1 9 sample_watch (\<lambda>ms w. w + ms) 1000 [] (new_released (Some 5)) 0 = Some ([5000], s, w')
     \<and> nextBlock s = Some 9"
    by (simp add: sample_watch_def new_released_def pollOnce_def numeral_eq_Suc sort_events_def handleEvent_def)
  then obtain s w' where run: "watcher_run 1 9 sample_watch (\<lambda>ms w. w + ms) 1000 [] (new_released (Some 5)) 0
      = Some ([5000], s, w')" and c: "nextBlock s = Some 9" by blast
  obtain c where "nextBlock s = Some c" and "5 \<le> blockNumber sample_event \<and> blockNumber sample_event < c \<longrightarrow>
      to_lower (re_intentHash sample_event) \<in> set (reported s)"
    using watcher_never_skips [OF sample_watch_faithful, THEN conjunct1, rule_format, OF run] by auto
  with run c show ?thesis by (auto simp: sample_event_def)
qed

text \<open>
  Stopping in the middle of a range loses events: if \<open>stop\<close> is called while the events of a range are
  being fetched, the poll reports none of them, returns normally and still moves the cursor behind the
  range, so a watcher started again never looks at them.
\<close>

theorem stopping_skips_events:
  assumes "rv_getBlockNumber env w = (Inr head, w1)" and "nextBlock s = Some start" and "start \<le> head"
    and "\<not> rv_stopped env w1"
    and "rv_getReleasedEvents env start (min (start + rv_maxBlockRange env - 1) head) w1 = (Inr es, w2)"
    and "rv_stopped env w2"
  shows "pollOnce (Suc (Suc k)) env s w =
    Some (Inr 0, s\<lparr>nextBlock := Some (min (start + rv_maxBlockRange env - 1) head + 1)\<rparr>, w2)"
proof -
  have "handle_events env es' 0 s w2 = (Inr 0, s, w2)" for es'
    using assms(6) by (cases es') simp_all
  then show ?thesis using assms by (simp add: pollOnce_def Let_def)
qed

theorem stopping_skips_events_witness:
  "pollOnce 2 (sample_watch\<lparr>rv_stopped := \<lambda>w. 0 < w, rv_getReleasedEvents := \<lambda>a b w. (Inr [sample_event], w + 1)\<rparr>)
     (new_released (Some 7)) 0 = Some (Inr 0, \<lparr>nextBlock = Some 9, reported = []\<rparr>, 1)"
proof -
  let ?env = "sample_watch\<lparr>rv_stopped := \<lambda>w. 0 < w, rv_getReleasedEvents := \<lambda>a b w. (Inr [sample_event], w + 1)\<rparr>"
  have "pollOnce (Suc (Suc 0)) ?env (new_released (Some 7)) 0 =
      Some (Inr 0, (new_released (Some 7))\<lparr>nextBlock := Some (min (7 + rv_maxBlockRange ?env - 1) 8 + 1)\<rparr>, 1)"
    by (rule stopping_skips_events [where ?w1.0 = 0 and es = "[sample_event]"])
       (simp_all add: sample_watch_def new_released_def)
  then show ?thesis by (simp add: sample_watch_def new_released_def numeral_2_eq_2)
qed

section \<open>The retry delays\<close>

text \<open>The delay of the \<open>n\<close>-th failure in a row, and the third instance of the capped backoff.\<close>

fun released_backoff :: "int \<times> int \<Rightarrow> nat \<Rightarrow> int" where
  "released_backoff (initial, mx) 0 = initial"
| "released_backoff (initial, mx) (Suc n) = min (released_backoff (initial, mx) n * 2) mx"

lemma released_backoff_bounds:
  "0 \<le> i \<Longrightarrow> i \<le> m \<Longrightarrow> 0 \<le> released_backoff (i, m) n \<and> released_backoff (i, m) n \<le> m"
  by (induction n) auto

interpretation released_backoff: capped_backoff "\<lambda>(i, m). 0 \<le> i \<and> i \<le> m" released_backoff snd
proof (unfold_locales, goal_cases)
  case (1 c n)
  then show ?case using released_backoff_bounds [of "fst c" "snd c" n] by (cases c) auto
next
  case (2 c n)
  then show ?case using released_backoff_bounds [of "fst c" "snd c" n] by (cases c) auto
qed

lemma failing_run_delays:
  assumes "\<forall>w. \<not> rv_stopped env w" and "\<forall>s w. \<exists>err w'. pollOnce k env s w = Some (Inl err, s, w')"
  shows "\<exists>w'. watcher_run n k env sleep (released_backoff (rv_initialBackoffMs env, rv_maxBackoffMs env) m) slept s w =
    Some (slept @ map (released_backoff (rv_initialBackoffMs env, rv_maxBackoffMs env)) [m ..< m + n], s, w')"
proof (induction n arbitrary: m slept w)
  case (Suc n)
  obtain err w1 where p: "pollOnce k env s w = Some (Inl err, s, w1)" using assms(2) by blast
  have range: "[m ..< m + Suc n] = m # [Suc m ..< Suc m + n]" by (simp add: upt_conv_Cons del: upt_Suc)
  show ?case
    unfolding range using Suc.IH [of "Suc m" "slept @ [released_backoff (rv_initialBackoffMs env, rv_maxBackoffMs env) m]"
        "sleep (released_backoff (rv_initialBackoffMs env, rv_maxBackoffMs env) m) w1"] assms(1)
    by (simp add: p del: upt_Suc)
qed simp

end
