(* ===== verification/Relayer_Types.thy ===== *)
theory Relayer_Types
  imports Sdk_Types
begin

text \<open>
  The data of the relayer: the messages it carries with their composite keys (\<^verbatim>\<open>relayer/src/types.ts\<close>),
  its dead-letter stores (\<^verbatim>\<open>dead-letter.ts\<close>, \<^verbatim>\<open>file-dead-letter-store.ts\<close>) and its checkpoints
  (\<^verbatim>\<open>checkpoint.ts\<close>, \<^verbatim>\<open>file-checkpoint-store.ts\<close>). Endpoint ids, nonces and block numbers are integers
  in the range where a JavaScript number is exact.
\<close>

section \<open>Messages\<close>

definition FILL_INSTRUCTION_LENGTH :: nat where "FILL_INSTRUCTION_LENGTH = 227"
definition FILL_CONFIRMED_LENGTH :: nat where "FILL_CONFIRMED_LENGTH = 90"
definition CANCEL_INTENT_LENGTH :: nat where "CANCEL_INTENT_LENGTH = 35"

datatype message_type = FillInstruction | FillConfirmed | CancelIntent

fun message_type_name :: "message_type \<Rightarrow> string" where
  "message_type_name FillInstruction = ''FillInstruction''"
| "message_type_name FillConfirmed = ''FillConfirmed''"
| "message_type_name CancelIntent = ''CancelIntent''"

text \<open>
  The deadline is declared a bigint, but the watcher fills in its decimal text: both occur.
\<close>

datatype deadline_value = BigDeadline int | TextDeadline string

record bridge_message =
  bm_srcEid :: int
  bm_dstEid :: int
  bm_intentHash :: hex
  bm_messageType :: message_type
  bm_solver :: hex
  bm_recipient :: string
  bm_destAsset :: string
  bm_amount :: string
  bm_nonce :: int
  bm_deadline :: deadline_value
  bm_rawPayload :: hex

record pending_message =
  pm_message :: bridge_message
  srcTxHash :: string
  srcBlock :: int
  srcBlockHash :: "hex option"

record message_key =
  mk_srcEid :: int
  mk_dstEid :: int
  mk_intentHash :: hex
  mk_messageType :: message_type
  mk_nonce :: int

definition key_of :: "pending_message \<Rightarrow> message_key" where
  "key_of p =
     \<lparr>mk_srcEid = bm_srcEid (pm_message p), mk_dstEid = bm_dstEid (pm_message p),
      mk_intentHash = bm_intentHash (pm_message p), mk_messageType = bm_messageType (pm_message p),
      mk_nonce = bm_nonce (pm_message p)\<rparr>"

definition int_string :: "int \<Rightarrow> string" where
  "int_string i = (if i < 0 then CHR ''-'' # digits_of_nat (nat (- i)) else digits_of_nat (nat i))"

definition messageKeyString :: "message_key \<Rightarrow> string" where
  "messageKeyString k =
     int_string (mk_srcEid k) @ CHR '':'' # int_string (mk_dstEid k) @ CHR '':'' # mk_intentHash k
     @ CHR '':'' # message_type_name (mk_messageType k) @ CHR '':'' # int_string (mk_nonce k)"

datatype relay_error =
    DeadLettered
  | RetryDeferred int
  | DeadLetteredAfter nat string
  | DeliveryFailed string

record relay_result =
  rr_intentHash :: hex
  rr_key :: message_key
  rr_delivered :: bool
  resolved :: bool
  rr_alreadyDelivered :: bool
  rr_dstTxHash :: "string option"
  rr_error :: "relay_error option"

section \<open>Composite keys identify messages\<close>

lemma int_string_chars: "c \<in> set (int_string i) \<Longrightarrow> is_digit c \<or> c = CHR ''-''"
  using digits_of_nat_digits [of "nat i"] digits_of_nat_digits [of "nat (- i)"]
  by (auto simp: int_string_def list_all_iff split: if_splits)

lemma int_string_no_colon [simp]: "CHR '':'' \<notin> set (int_string i)"
  using int_string_chars [of "CHR '':''" i] by (auto simp: char_class_defs)

lemma digits_of_nat_inject: "digits_of_nat m = digits_of_nat n \<longleftrightarrow> m = n"
  by (metis nat_of_digits_of_nat)

lemma digits_of_nat_no_sign: "digits_of_nat n \<noteq> CHR ''-'' # s"
proof
  assume "digits_of_nat n = CHR ''-'' # s"
  then have "is_digit (CHR ''-'')" using digits_of_nat_digits [of n] by simp
  then show False by (simp add: char_class_defs)
qed

lemma int_string_inject [simp]: "int_string i = int_string j \<longleftrightarrow> i = j"
  using digits_of_nat_no_sign digits_of_nat_no_sign [symmetric]
  by (auto simp: int_string_def digits_of_nat_inject)

lemma message_type_name_inject [simp]: "message_type_name a = message_type_name b \<longleftrightarrow> a = b"
  by (cases a; cases b) simp_all

lemma message_type_name_no_colon [simp]: "CHR '':'' \<notin> set (message_type_name a)"
  by (cases a) simp_all

lemma split_at_colon:
  "CHR '':'' \<notin> set a \<Longrightarrow> CHR '':'' \<notin> set b \<Longrightarrow>
   a @ CHR '':'' # x = b @ CHR '':'' # y \<longleftrightarrow> a = b \<and> x = y"
proof (induction a arbitrary: b)
  case Nil
  then show ?case by (cases b) auto
next
  case (Cons c a)
  then show ?case by (cases b) auto
qed

lemma messageKeyString_inject:
  assumes "CHR '':'' \<notin> set (mk_intentHash a)" and "CHR '':'' \<notin> set (mk_intentHash b)"
  shows "messageKeyString a = messageKeyString b \<longleftrightarrow> a = b"
  using assms by (cases a; cases b) (simp add: messageKeyString_def split_at_colon)

lemma hex_no_colon: "hex_string n h \<Longrightarrow> CHR '':'' \<notin> set h"
proof
  assume h: "hex_string n h" and c: "CHR '':'' \<in> set h"
  have "h = take 2 h @ drop 2 h" by simp
  then have "CHR '':'' \<in> set (take 2 h) \<or> CHR '':'' \<in> set (drop 2 h)" using c by (metis Un_iff set_append)
  then show False using h by (auto simp: hex_string_def list_all_iff char_class_defs)
qed

end
