(* ===== verification/Relayer_Wire.thy ===== *)
theory Relayer_Wire
  imports Relayer_Types Sdk_Units
begin

text \<open>
  The bytes of the wire: the relayer's \<open>FillInstruction\<close> encoder and its packet-header reader
  (\<^verbatim>\<open>relayer/src/evm-watcher.ts\<close>), beside the encoder of the escrow
  (\<^verbatim>\<open>contracts/evm/src/PerihelionEscrow.sol\<close>) and the field reads of the settlement contract's decoder
  (\<^verbatim>\<open>contracts/soroban/settlement/src/messages.rs\<close>), which the relayer's bytes have to agree with.
\<close>

section \<open>Bytes\<close>

text \<open>Big-endian numbers of \<open>k\<close> bytes, and \<open>Buffer.from(s, "utf8")\<close> for characters below 256.\<close>

fun be_bytes :: "nat \<Rightarrow> nat \<Rightarrow> 8 word list" where
  "be_bytes 0 n = []"
| "be_bytes (Suc k) n = be_bytes k (n div 256) @ [of_nat n]"

definition be_nat :: "8 word list \<Rightarrow> nat" where
  "be_nat bs = foldl (\<lambda>acc b. 256 * acc + unat b) 0 bs"

definition utf8_char :: "char \<Rightarrow> 8 word list" where
  "utf8_char c =
     (let n = char_code c
      in if n < 128 then [of_nat n] else [of_nat (192 + n div 64), of_nat (128 + n mod 64)])"

definition utf8_bytes :: "string \<Rightarrow> 8 word list" where
  "utf8_bytes s = concat (map utf8_char s)"

text \<open>\<open>source.copy(out, off)\<close>, for a source that fits.\<close>

definition copy_at :: "nat \<Rightarrow> 8 word list \<Rightarrow> 8 word list \<Rightarrow> 8 word list" where
  "copy_at off bs out = take off out @ bs @ drop (off + length bs) out"

lemma length_be_bytes [simp]: "length (be_bytes k n) = k"
  by (induction k arbitrary: n) simp_all

lemma be_bytes_0: "be_bytes k 0 = replicate k 0"
  by (induction k) (simp_all add: replicate_append_same)

lemma be_nat_snoc: "be_nat (bs @ [b]) = 256 * be_nat bs + unat b"
  by (simp add: be_nat_def)

lemma be_nat_be_bytes: "n < 256 ^ k \<Longrightarrow> be_nat (be_bytes k n) = n"
proof (induction k arbitrary: n)
  case (Suc k)
  then have "n div 256 < 256 ^ k" by (simp add: less_mult_imp_div_less mult.commute)
  then show ?case using Suc.IH [of "n div 256"] by (simp add: be_nat_snoc unat_of_nat take_bit_eq_mod)
qed (simp add: be_nat_def)

lemma length_hex_bytes: "length (hex_bytes s) = length s div 2"
  by (induction s rule: hex_bytes.induct) auto

lemma copy_at_zeros:
  assumes "length a \<le> off" and "off + length bs \<le> length a + m"
  shows "copy_at off bs (a @ replicate m 0) =
    a @ replicate (off - length a) 0 @ bs @ replicate (length a + m - off - length bs) 0"
proof -
  have "off - length a \<le> m" using assms by simp
  then show ?thesis using assms by (simp add: copy_at_def min_absorb1 add.commute)
qed

section \<open>The relayer's encoder\<close>

datatype wire_error =
    InvalidIntentHash | InvalidSolverAddress | InvalidDestinationEid | AmountNotU128 | DeadlineNotU64 | FieldTooWide

definition fill_instruction_bytes ::
  "8 word list \<Rightarrow> int \<Rightarrow> 8 word list \<Rightarrow> 8 word list \<Rightarrow> int \<Rightarrow> int \<Rightarrow> 8 word list \<Rightarrow> 8 word list" where
  "fill_instruction_bytes ihash stellarEid recipient asset minAmount expiry solverBytes =
     (let out = replicate FILL_INSTRUCTION_LENGTH 0;
          out = copy_at 0 [1] out;
          out = copy_at 1 [1] out;
          out = copy_at 2 ihash out;
          out = copy_at 34 (be_bytes 4 (nat stellarEid)) out;
          out = copy_at 38 recipient out;
          out = copy_at 94 asset out;
          out = copy_at 163 (be_bytes 16 (nat minAmount)) out;
          out = copy_at 179 (be_bytes 8 (nat expiry)) out
      in copy_at 199 solverBytes out)"

definition canonicalFillInstruction ::
  "hex \<Rightarrow> hex \<Rightarrow> int \<Rightarrow> string \<Rightarrow> string \<Rightarrow> int \<Rightarrow> int \<Rightarrow> (wire_error, hex) result" where
  "canonicalFillInstruction iHash solverAddress stellarEid dest assetId minAmount expiry =
     (if \<not> hex_string 64 iHash then Inl InvalidIntentHash
      else if \<not> hex_string 40 solverAddress then Inl InvalidSolverAddress
      else if stellarEid < 0 \<or> 0xffffffff < stellarEid then Inl InvalidDestinationEid
      else if minAmount < 0 \<or> 0xffffffffffffffffffffffffffffffff < minAmount then Inl AmountNotU128
      else if expiry < 0 \<or> 0xffffffffffffffff < expiry then Inl DeadlineNotU64
      else
        let recipient = utf8_bytes dest; asset = utf8_bytes assetId
        in if 56 < length recipient \<or> 69 < length asset then Inl FieldTooWide
           else Inr (''0x'' @ bytes_hex
                  (fill_instruction_bytes (hex_bytes (drop 2 iHash)) stellarEid recipient asset
                     minAmount expiry (hex_bytes (drop 2 solverAddress)))))"

section \<open>The contracts\<close>

text \<open>
  \<open>_encodeFillInstruction\<close> of the escrow: \<open>abi.encodePacked\<close> of the fields, the texts cut to their field
  and padded with zeros on the right, the locking solver as a 32-byte word.
\<close>

definition right_padded :: "nat \<Rightarrow> 8 word list \<Rightarrow> 8 word list" where
  "right_padded n bs = take n bs @ replicate (n - length bs) 0"

definition escrow_fill_instruction ::
  "8 word list \<Rightarrow> nat \<Rightarrow> 8 word list \<Rightarrow> 8 word list \<Rightarrow> nat \<Rightarrow> nat \<Rightarrow> 8 word list \<Rightarrow> 8 word list" where
  "escrow_fill_instruction iHash stellarEid dest assetId minAmount expiry lockingSolver =
     [1, 1] @ iHash @ be_bytes 4 stellarEid @ right_padded 56 dest @ right_padded 69 assetId
     @ be_bytes 16 minAmount @ be_bytes 8 expiry @ (replicate 12 0 @ lockingSolver) @ be_bytes 8 0"

record wire_fill =
  wf_intent_hash :: "8 word list"
  wf_src_eid :: nat
  wf_recipient :: "8 word list"
  wf_dest_asset :: "8 word list"
  wf_min_dest_amount :: nat
  wf_deadline :: nat
  wf_locked_solver :: "8 word list option"
  wf_reservation_window :: nat

definition read_field :: "nat \<Rightarrow> nat \<Rightarrow> 8 word list \<Rightarrow> 8 word list" where
  "read_field n off message = take n (drop off message)"

definition trimmed :: "8 word list \<Rightarrow> 8 word list" where
  "trimmed padded = rev (dropWhile (\<lambda>b. b = 0) (rev padded))"

text \<open>
  The reads of \<open>decode_fill_instruction\<close>. Its checks that the recipient is a strkey and the asset an
  asset identifier come on top: here their bytes are returned as they are. The amount is signed.
\<close>

definition settlement_fields :: "8 word list \<Rightarrow> wire_fill option" where
  "settlement_fields message =
     (if length message \<noteq> 227 then None
      else
        let amount = be_nat (read_field 16 163 message);
            solver_word = read_field 32 187 message
        in if 2 ^ 127 \<le> amount then None
           else Some \<lparr>wf_intent_hash = read_field 32 2 message,
                     wf_src_eid = be_nat (read_field 4 34 message),
                     wf_recipient = trimmed (read_field 56 38 message),
                     wf_dest_asset = trimmed (read_field 69 94 message),
                     wf_min_dest_amount = amount,
                     wf_deadline = be_nat (read_field 8 179 message),
                     wf_locked_solver = (if solver_word = replicate 32 0 then None else Some solver_word),
                     wf_reservation_window = be_nat (read_field 8 219 message)\<rparr>)"

section \<open>The three agree\<close>

lemma fill_instruction_is_escrow:
  assumes "length ihash = 32" and "length recipient \<le> 56" and "length asset \<le> 69" and "length sol = 20"
  shows "fill_instruction_bytes ihash eid recipient asset amount d sol =
    escrow_fill_instruction ihash (nat eid) recipient asset (nat amount) (nat d) sol"
proof -
  let ?P = "[1, 1] @ ihash @ be_bytes 4 (nat eid)"
  let ?R = "?P @ recipient @ replicate (56 - length recipient) 0"
  let ?A = "?R @ asset @ replicate (69 - length asset) 0"
  have 1: "copy_at 0 [1] (replicate 227 0) = [1] @ replicate 226 0" using copy_at_zeros [of "[]" 0 "[1]" 227] by simp
  have 2: "copy_at 1 [1] ([1] @ replicate 226 0) = [1, 1] @ replicate 225 0"
    using copy_at_zeros [of "[1]" 1 "[1]" 226] by simp
  have 3: "copy_at 2 ihash ([1, 1] @ replicate 225 0) = ([1, 1] @ ihash) @ replicate 193 0"
    using copy_at_zeros [of "[1, 1]" 2 ihash 225] assms(1) by simp
  have 4: "copy_at 34 (be_bytes 4 (nat eid)) (([1, 1] @ ihash) @ replicate 193 0) = ?P @ replicate 189 0"
    using copy_at_zeros [of "[1, 1] @ ihash" 34 "be_bytes 4 (nat eid)" 193] assms(1) by simp
  have 5: "copy_at 38 recipient (?P @ replicate 189 0) = (?P @ recipient) @ replicate (189 - length recipient) 0"
    using copy_at_zeros [of ?P 38 recipient 189] assms(1,2) by simp
  have 6: "copy_at 94 asset ((?P @ recipient) @ replicate (189 - length recipient) 0)
      = (?R @ asset) @ replicate (133 - length asset) 0"
    using copy_at_zeros [of "?P @ recipient" 94 asset "189 - length recipient"] assms(1-3) by simp
  have 7: "copy_at 163 (be_bytes 16 (nat amount)) ((?R @ asset) @ replicate (133 - length asset) 0)
      = (?A @ be_bytes 16 (nat amount)) @ replicate 48 0"
    using copy_at_zeros [of "?R @ asset" 163 "be_bytes 16 (nat amount)" "133 - length asset"] assms(1-3) by simp
  have 8: "copy_at 179 (be_bytes 8 (nat d)) ((?A @ be_bytes 16 (nat amount)) @ replicate 48 0)
      = (?A @ be_bytes 16 (nat amount) @ be_bytes 8 (nat d)) @ replicate 40 0"
    using copy_at_zeros [of "?A @ be_bytes 16 (nat amount)" 179 "be_bytes 8 (nat d)" 48] assms(1-3) by simp
  have 9: "copy_at 199 sol ((?A @ be_bytes 16 (nat amount) @ be_bytes 8 (nat d)) @ replicate 40 0)
      = ?A @ be_bytes 16 (nat amount) @ be_bytes 8 (nat d) @ replicate 12 0 @ sol @ replicate 8 0"
    using copy_at_zeros [of "?A @ be_bytes 16 (nat amount) @ be_bytes 8 (nat d)" 199 sol 40] assms by simp
  have "fill_instruction_bytes ihash eid recipient asset amount d sol
      = ?A @ be_bytes 16 (nat amount) @ be_bytes 8 (nat d) @ replicate 12 0 @ sol @ replicate 8 0"
    unfolding fill_instruction_bytes_def FILL_INSTRUCTION_LENGTH_def Let_def 1 2 3 4 5 6 7 8 by (rule 9)
  then show ?thesis using assms(2,3) by (simp add: escrow_fill_instruction_def right_padded_def be_bytes_0)
qed

lemma length_right_padded: "length bs \<le> n \<Longrightarrow> length (right_padded n bs) = n"
  by (simp add: right_padded_def)

lemma trimmed_right_padded:
  assumes "length bs \<le> n" and "bs = [] \<or> last bs \<noteq> 0"
  shows "trimmed (right_padded n bs) = bs"
proof -
  have zeros: "dropWhile (\<lambda>b. b = 0) (replicate k 0 @ xs) = dropWhile (\<lambda>b. b = 0) xs" for k and xs :: "8 word list"
    by (induction k) simp_all
  have "dropWhile (\<lambda>b. b = 0) (rev bs) = rev bs"
    using assms(2) by (cases bs rule: rev_cases) auto
  then show ?thesis using assms(1) by (simp add: trimmed_def right_padded_def zeros)
qed

text \<open>The contract reads from the escrow's bytes what the escrow put in.\<close>

lemma settlement_fields_escrow:
  assumes "length iHash = 32" and "length recipient \<le> 56" and "length asset \<le> 69" and "length sol = 20"
    and "recipient = [] \<or> last recipient \<noteq> 0" and "asset = [] \<or> last asset \<noteq> 0"
    and "eid < 256 ^ 4" and "amount < 2 ^ 127" and "expiry < 256 ^ 8"
  shows "settlement_fields (escrow_fill_instruction iHash eid recipient asset amount expiry sol) =
    Some \<lparr>wf_intent_hash = iHash, wf_src_eid = eid, wf_recipient = recipient, wf_dest_asset = asset,
          wf_min_dest_amount = amount, wf_deadline = expiry,
          wf_locked_solver = (if sol = replicate 20 0 then None else Some (replicate 12 0 @ sol)),
          wf_reservation_window = 0\<rparr>"
proof -
  let ?m = "escrow_fill_instruction iHash eid recipient asset amount expiry sol"
  note lens = assms(1,4) length_right_padded [OF assms(2)] length_right_padded [OF assms(3)]
  have len: "length ?m = 227" by (simp add: escrow_fill_instruction_def lens)
  have reads: "read_field 32 2 ?m = iHash" "read_field 4 34 ?m = be_bytes 4 eid"
    "read_field 56 38 ?m = right_padded 56 recipient" "read_field 69 94 ?m = right_padded 69 asset"
    "read_field 16 163 ?m = be_bytes 16 amount" "read_field 8 179 ?m = be_bytes 8 expiry"
    "read_field 32 187 ?m = replicate 12 0 @ sol" "read_field 8 219 ?m = be_bytes 8 0"
    by (simp_all add: read_field_def escrow_fill_instruction_def lens del: be_bytes.simps)
  have "replicate 32 0 = replicate 12 0 @ replicate 20 (0 :: 8 word)" by (simp add: replicate_add [symmetric])
  then have z: "replicate 12 0 @ sol = replicate 32 0 \<longleftrightarrow> sol = replicate 20 0" by simp
  have "amount < 256 ^ 16" using assms(8) by (simp add: less_trans [of amount "2 ^ 127"])
  then have "be_nat (be_bytes 16 amount) = amount" "be_nat (be_bytes 4 eid) = eid" "be_nat (be_bytes 8 expiry) = expiry"
    "be_nat (be_bytes 8 0) = 0"
    using assms(7,9) by (intro be_nat_be_bytes; simp)+
  then show ?thesis
    unfolding settlement_fields_def len reads Let_def
    using assms(8) by (simp add: trimmed_right_padded [OF assms(2,5)] trimmed_right_padded [OF assms(3,6)] z)
qed

lemma hex_val_hex_char: "n < 16 \<Longrightarrow> hex_val (hex_char n) = n"
  by (auto simp: hex_val_def hex_char_def Let_def char_class_defs)

lemma hex_bytes_bytes_hex: "hex_bytes (bytes_hex bs) = bs"
proof (induction bs)
  case (Cons b bs)
  have b: "unat b < 256" by (rule order_less_le_trans [OF unsigned_less]) simp
  then have "hex_val (hex_char (unat b div 16)) = unat b div 16" "hex_val (hex_char (unat b mod 16)) = unat b mod 16"
    by (intro hex_val_hex_char; simp add: less_mult_imp_div_less)+
  then have "hex_bytes (bytes_hex (b # bs)) = of_nat (16 * (unat b div 16) + unat b mod 16) # hex_bytes (bytes_hex bs)"
    by (simp add: bytes_hex_def)
  then show ?case using Cons by simp
qed (simp add: bytes_hex_def)

lemma canonical_is_escrow:
  assumes "canonicalFillInstruction iHash sol eid dest asset amount expiry = Inr h"
  shows "h = ''0x'' @ bytes_hex (escrow_fill_instruction (hex_bytes (drop 2 iHash)) (nat eid) (utf8_bytes dest)
           (utf8_bytes asset) (nat amount) (nat expiry) (hex_bytes (drop 2 sol)))"
    and "length (hex_bytes (drop 2 iHash)) = 32" and "length (hex_bytes (drop 2 sol)) = 20"
    and "length (utf8_bytes dest) \<le> 56" and "length (utf8_bytes asset) \<le> 69"
    and "nat eid < 256 ^ 4" and "nat expiry < 256 ^ 8" and "0 \<le> amount"
proof -
  note d = assms [unfolded canonicalFillInstruction_def Let_def, simplified]
  show len: "length (hex_bytes (drop 2 iHash)) = 32" "length (hex_bytes (drop 2 sol)) = 20"
    using d by (auto simp: length_hex_bytes hex_string_def split: if_splits)
  show w: "length (utf8_bytes dest) \<le> 56" "length (utf8_bytes asset) \<le> 69" "0 \<le> amount"
    using d by (auto split: if_splits)
  show "nat eid < 256 ^ 4" "nat expiry < 256 ^ 8" using d by (auto split: if_splits)
  show "h = ''0x'' @ bytes_hex (escrow_fill_instruction (hex_bytes (drop 2 iHash)) (nat eid) (utf8_bytes dest)
           (utf8_bytes asset) (nat amount) (nat expiry) (hex_bytes (drop 2 sol)))"
    using d fill_instruction_is_escrow [OF len(1) w(1,2) len(2)] by (auto split: if_splits)
qed

section \<open>The packet header\<close>

definition PACKET_NONCE_OFFSET :: nat where "PACKET_NONCE_OFFSET = 1"
definition PACKET_NONCE_WIDTH :: nat where "PACKET_NONCE_WIDTH = 8"

text \<open>\<open>Inl ()\<close> is the \<open>SyntaxError\<close> of \<open>BigInt\<close>, \<open>Inr None\<close> the \<open>null\<close> of a payload that is too short.\<close>

definition decodePacketNonce :: "hex \<Rightarrow> (unit, int option) result" where
  "decodePacketNonce encodedPayload =
     (let digits = (if take 2 encodedPayload = ''0x'' then drop 2 encodedPayload else encodedPayload);
          headerBytes = PACKET_NONCE_OFFSET + PACKET_NONCE_WIDTH
      in if length digits < headerBytes * 2 then Inr None
         else case js_bigint (''0x'' @ take (PACKET_NONCE_WIDTH * 2) (drop (PACKET_NONCE_OFFSET * 2) digits)) of
                None \<Rightarrow> Inl ()
              | Some n \<Rightarrow> Inr (Some n))"

section \<open>Properties\<close>

text \<open>
  C19. The relayer sends the escrow's own bytes: whenever the encoder of the watcher produces a payload it
  is, byte for byte, the one the escrow dispatches for the same lock, and it produces one for every lock
  the escrow accepts.
\<close>

theorem relayer_payload_is_escrow_payload:
  "(canonicalFillInstruction iHash sol eid dest asset amount expiry = Inr h \<longrightarrow>
      h = ''0x'' @ bytes_hex (escrow_fill_instruction (hex_bytes (drop 2 iHash)) (nat eid) (utf8_bytes dest)
           (utf8_bytes asset) (nat amount) (nat expiry) (hex_bytes (drop 2 sol))))
   \<and> (hex_string 64 iHash \<and> hex_string 40 sol \<and> 0 \<le> eid \<and> eid < 2 ^ 32 \<and> 0 \<le> amount \<and> amount < 2 ^ 127
        \<and> 0 \<le> expiry \<and> expiry < 2 ^ 64 \<and> length (utf8_bytes dest) \<le> 56 \<and> length (utf8_bytes asset) \<le> 69 \<longrightarrow>
      (\<exists>h. canonicalFillInstruction iHash sol eid dest asset amount expiry = Inr h))"
proof (intro conjI impI)
  assume "canonicalFillInstruction iHash sol eid dest asset amount expiry = Inr h"
  then show "h = ''0x'' @ bytes_hex (escrow_fill_instruction (hex_bytes (drop 2 iHash)) (nat eid) (utf8_bytes dest)
           (utf8_bytes asset) (nat amount) (nat expiry) (hex_bytes (drop 2 sol)))"
    by (rule canonical_is_escrow)
next
  assume "hex_string 64 iHash \<and> hex_string 40 sol \<and> 0 \<le> eid \<and> eid < 2 ^ 32 \<and> 0 \<le> amount \<and> amount < 2 ^ 127
        \<and> 0 \<le> expiry \<and> expiry < 2 ^ 64 \<and> length (utf8_bytes dest) \<le> 56 \<and> length (utf8_bytes asset) \<le> 69"
  then show "\<exists>h. canonicalFillInstruction iHash sol eid dest asset amount expiry = Inr h"
    by (simp add: canonicalFillInstruction_def Let_def)
qed


lemma hex_digit_hex_char: "n < 16 \<Longrightarrow> hex_digit (hex_char n) = Some n"
  by (auto simp: hex_digit_def hex_char_def Let_def char_class_defs)

lemma hex_char_no_space: "n < 16 \<Longrightarrow> \<not> is_space (hex_char n)"
  by (auto simp: hex_char_def char_class_defs)

lemma radix_digits_bytes_hex: "radix_digits 16 acc (bytes_hex bs) = Some (foldl (\<lambda>acc b. 256 * acc + unat b) acc bs)"
proof (induction bs arbitrary: acc)
  case (Cons b bs)
  have "unat b < 256" by (rule order_less_le_trans [OF unsigned_less]) simp
  then have d: "unat b div 16 < 16" "unat b mod 16 < 16" by (simp_all add: less_mult_imp_div_less)
  have "16 * (16 * acc + unat b div 16) + unat b mod 16 = 256 * acc + unat b" by (simp add: algebra_simps)
  moreover have "radix_digits 16 acc (bytes_hex (b # bs)) =
      radix_digits 16 (16 * (16 * acc + unat b div 16) + unat b mod 16) (bytes_hex bs)"
    using d by (simp add: bytes_hex_def hex_digit_hex_char)
  ultimately show ?case by (simp only: Cons.IH foldl_Cons)
qed (simp add: bytes_hex_def)

lemma bytes_hex_last: "bs \<noteq> [] \<Longrightarrow> bytes_hex bs \<noteq> [] \<and> \<not> is_space (last (bytes_hex bs))"
  by (cases bs rule: rev_cases) (simp_all add: bytes_hex_def hex_char_no_space)

lemma js_bigint_bytes_hex:
  assumes "bs \<noteq> []" shows "js_bigint (''0x'' @ bytes_hex bs) = Some (int (be_nat bs))"
proof -
  have t: "trim (''0x'' @ bytes_hex bs) = ''0x'' @ bytes_hex bs"
    using bytes_hex_last [OF assms] by (intro trim_id) (simp add: is_space_def char_code_def)
  show ?thesis
    using bytes_hex_last [OF assms]
    by (simp add: js_bigint_def t [simplified] Let_def radix_prefix_def radix_nat_def radix_digits_bytes_hex be_nat_def)
qed

lemma length_bytes_hex: "length (bytes_hex bs) = 2 * length bs"
  by (induction bs) (simp_all add: bytes_hex_def)

lemma bytes_hex_append: "bytes_hex (a @ b) = bytes_hex a @ bytes_hex b"
  by (simp add: bytes_hex_def)

text \<open>The nonce of a packet header is read back.\<close>

lemma packet_nonce:
  assumes "n < 2 ^ 64"
  shows "decodePacketNonce (''0x'' @ bytes_hex (version # be_bytes 8 n @ rest)) = Inr (Some (int n))"
proof -
  let ?h = "bytes_hex (version # be_bytes 8 n @ rest)"
  have h: "?h = bytes_hex [version] @ bytes_hex (be_bytes 8 n) @ bytes_hex rest"
    using bytes_hex_append [of "[version]" "be_bytes 8 n @ rest"] by (simp only: bytes_hex_append append_Cons append_Nil)
  have "take 16 (drop 2 ?h) = bytes_hex (be_bytes 8 n)"
    unfolding h by (simp add: length_bytes_hex del: be_bytes.simps)
  moreover have "18 \<le> length ?h" by (simp add: length_bytes_hex)
  moreover have "js_bigint (''0x'' @ bytes_hex (be_bytes 8 n)) = Some (int n)"
    using assms by (subst js_bigint_bytes_hex) (auto simp: be_nat_be_bytes simp flip: length_0_conv)
  ultimately show ?thesis
    unfolding decodePacketNonce_def PACKET_NONCE_OFFSET_def PACKET_NONCE_WIDTH_def Let_def by simp
qed


theorem relayer_payload_is_escrow_payload_witness:
  "\<exists>h. canonicalFillInstruction (''0x'' @ replicate 64 (CHR ''a'')) (''0x'' @ replicate 40 (CHR ''0'')) 40161
        ''GABC'' ''native'' 25 1700000000 = Inr h"
proof -
  let ?h = "''0x'' @ replicate 64 (CHR ''a'')" and ?s = "''0x'' @ replicate 40 (CHR ''0'')"
  have "hex_string 64 ?h" "hex_string 40 ?s" by (simp_all add: hex_string_def list_all_iff char_class_defs)
  moreover have "utf8_bytes ''GABC'' = [71, 65, 66, 67]" "utf8_bytes ''native'' = [110, 97, 116, 105, 118, 101]"
    by (simp_all add: utf8_bytes_def utf8_char_def char_code_def)
  ultimately show ?thesis
    using relayer_payload_is_escrow_payload [of ?h ?s 40161 "''GABC''" "''native''" 25 1700000000, THEN conjunct2] by simp
qed

end
