(* ===== verification/Relayer_Stores.thy ===== *)
theory Relayer_Stores
  imports Relayer_Types
begin

text \<open>
  What the relayer keeps: the dead-letter queue (\<^verbatim>\<open>relayer/src/dead-letter.ts\<close>) and the two JSON files
  that survive a restart, the cursor (\<^verbatim>\<open>file-checkpoint-store.ts\<close>) and the dead letters
  (\<^verbatim>\<open>file-dead-letter-store.ts\<close>). A file is written to a temporary name and renamed; a crash may stop
  a save between two of its steps or in the middle of the write.
\<close>

section \<open>The dead-letter queue\<close>

record dead_letter_entry =
  dl_key :: message_key
  dl_pending :: pending_message
  dl_attempts :: nat
  dl_lastError :: string
  deadLetteredAt :: int

type_synonym dead_letters = "(string, dead_letter_entry) assoc"

definition dl_add :: "int \<Rightarrow> message_key \<Rightarrow> pending_message \<Rightarrow> nat \<Rightarrow> string \<Rightarrow> dead_letters \<Rightarrow> dead_letters" where
  "dl_add now key p n err q =
     assoc_set (messageKeyString key)
       \<lparr>dl_key = key, dl_pending = p, dl_attempts = n, dl_lastError = err, deadLetteredAt = now\<rparr> q"

definition dl_list :: "dead_letters \<Rightarrow> dead_letter_entry list" where
  "dl_list q = map snd q"

definition dl_drain :: "dead_letters \<Rightarrow> dead_letter_entry list \<times> dead_letters" where
  "dl_drain q = (dl_list q, [])"

definition dl_discard :: "message_key \<Rightarrow> dead_letters \<Rightarrow> bool \<times> dead_letters" where
  "dl_discard key q =
     (assoc_get q (messageKeyString key) \<noteq> None, assoc_del (messageKeyString key) q)"

definition dl_has :: "dead_letters \<Rightarrow> message_key \<Rightarrow> bool" where
  "dl_has q key \<longleftrightarrow> assoc_get q (messageKeyString key) \<noteq> None"

text \<open>What the relayer relies on in a \<open>DeadLetterStore\<close>: its laws, over the texts of the keys.\<close>

locale dead_letter_store =
  fixes add :: "message_key \<Rightarrow> 'e \<Rightarrow> 'q \<Rightarrow> 'q"
    and discard :: "message_key \<Rightarrow> 'q \<Rightarrow> bool \<times> 'q"
    and drain :: "'q \<Rightarrow> 'es \<times> 'q"
    and has :: "'q \<Rightarrow> message_key \<Rightarrow> bool"
  assumes has_add: "has (add k e q) k' \<longleftrightarrow> messageKeyString k' = messageKeyString k \<or> has q k'"
    and discard_has: "fst (discard k q) = has q k"
    and has_discard: "has (snd (discard k q)) k' \<longleftrightarrow> messageKeyString k' \<noteq> messageKeyString k \<and> has q k'"
    and has_drain: "\<not> has (snd (drain q)) k'"
begin

lemma has_adds: "has (foldl (\<lambda>q (k, e). add k e q) q kes) k' \<longleftrightarrow>
    has q k' \<or> (\<exists>(k, e) \<in> set kes. messageKeyString k' = messageKeyString k)"
  by (induction kes arbitrary: q) (auto simp: has_add)

lemma discard_add: "fst (discard k (add k e q))"
  by (simp add: discard_has has_add)

lemma discard_again: "\<not> fst (discard k (snd (discard k q)))"
  by (simp add: discard_has has_discard)

end

interpretation dl: dead_letter_store
  "\<lambda>k (now, p, n, err). dl_add now k p n err" dl_discard dl_drain dl_has
  by unfold_locales
     (auto simp: dl_add_def dl_has_def dl_discard_def dl_drain_def dl_list_def store_simps split: prod.splits)

lemma dl_ok [inv_intros]:
  "assoc_ok q \<Longrightarrow> assoc_ok (dl_add now key p n err q)" "assoc_ok q \<Longrightarrow> assoc_ok (snd (dl_discard key q))"
  by (simp_all add: dl_add_def dl_discard_def assoc_set_ok assoc_del_ok)

section \<open>Files\<close>

datatype 'a stored = Absent | Unreadable string | Torn | Holds 'a

record 'a disk =
  main_file :: "'a stored"
  tmp_file :: "'a stored"

datatype 'a file_step = MakeDir | WriteTemp 'a | RenameTemp

fun do_file_step :: "'a file_step \<Rightarrow> 'a disk \<Rightarrow> 'a disk" where
  "do_file_step MakeDir d = d"
| "do_file_step (WriteTemp a) d = d\<lparr>tmp_file := Holds a\<rparr>"
| "do_file_step RenameTemp d = d\<lparr>main_file := tmp_file d, tmp_file := Absent\<rparr>"

definition save_steps :: "'a \<Rightarrow> 'a file_step list" where
  "save_steps a = [MakeDir, WriteTemp a, RenameTemp]"

definition save_file :: "'a \<Rightarrow> 'a disk \<Rightarrow> 'a disk" where
  "save_file a d = foldl (\<lambda>d s. do_file_step s d) d (save_steps a)"

text \<open>The disks a crash during the steps may leave.\<close>

fun crash_disks :: "'a file_step list \<Rightarrow> 'a disk \<Rightarrow> 'a disk list" where
  "crash_disks [] d = [d]"
| "crash_disks (s # ss) d =
     d # (case s of WriteTemp a \<Rightarrow> [d\<lparr>tmp_file := Torn\<rparr>] | _ \<Rightarrow> []) @ crash_disks ss (do_file_step s d)"

datatype store_error = ReadError string | SyntaxError | TypeError

text \<open>Reading a file: \<open>None\<close> when there is none.\<close>

fun read_file :: "'a stored \<Rightarrow> (store_error, 'a option) result" where
  "read_file Absent = Inr None"
| "read_file (Unreadable err) = Inl (ReadError err)"
| "read_file Torn = Inl SyntaxError"
| "read_file (Holds a) = Inr (Some a)"

lemma crash_disks_main:
  "d' \<in> set (crash_disks (save_steps a) d) \<Longrightarrow> main_file d' = main_file d \<or> main_file d' = Holds a"
  by (auto simp: save_steps_def)

lemma save_file_main [simp]: "main_file (save_file a d) = Holds a"
  by (simp add: save_file_def save_steps_def)

text \<open>A value kept in such a file survives crashes: what is read back is the old value or the new one.\<close>

locale durable_file =
  fixes encode :: "'v \<Rightarrow> 'a"
    and decode :: "'a option \<Rightarrow> (store_error, 'r) result"
    and seen :: "'v \<Rightarrow> 'r"
  assumes decode_encode: "decode (Some (encode v)) = Inr (seen v)"
begin

lemma load_saved: "bind_result (read_file (main_file (save_file (encode v) d))) decode = Inr (seen v)"
  by (simp add: decode_encode)

lemma load_crashed:
  assumes "d' \<in> set (crash_disks (save_steps (encode v)) d)"
  shows "bind_result (read_file (main_file d')) decode \<in> {bind_result (read_file (main_file d)) decode, Inr (seen v)}"
  using crash_disks_main [OF assms] by (auto simp: decode_encode)

end

section \<open>The checkpoint\<close>

text \<open>\<open>JSON.stringify\<close> writes \<open>null\<close> for a number that is not finite.\<close>

definition checkpoint_json :: "jsnum \<Rightarrow> jval" where
  "checkpoint_json n = JObj [(''cursor'', if is_finite_num n then JNum n else JNull)]"

definition checkpoint_cursor :: "jval option \<Rightarrow> (store_error, jsnum option) result" where
  "checkpoint_cursor parsed =
     (case parsed of
        None \<Rightarrow> Inr None
      | Some JNull \<Rightarrow> Inl TypeError
      | Some v \<Rightarrow> (case js_prop v ''cursor'' of JNum n \<Rightarrow> Inr (Some n) | _ \<Rightarrow> Inr None))"

definition save_checkpoint :: "jsnum \<Rightarrow> jval disk \<Rightarrow> jval disk" where
  "save_checkpoint n d = save_file (checkpoint_json n) d"

definition load_checkpoint :: "jval disk \<Rightarrow> (store_error, jsnum option) result" where
  "load_checkpoint d = bind_result (read_file (main_file d)) checkpoint_cursor"

interpretation checkpoint: durable_file checkpoint_json checkpoint_cursor
  "\<lambda>n. if is_finite_num n then Some n else None"
  by unfold_locales (simp add: checkpoint_json_def checkpoint_cursor_def js_prop_def obj_get_def)

section \<open>The dead-letter file\<close>

text \<open>
  Entries are plain JSON except for a bigint deadline, which \<open>JSON.stringify\<close> refuses; keys contain
  colons, so that an object keeps their order.
\<close>

definition unserializable :: "dead_letter_entry \<Rightarrow> bool" where
  "unserializable e \<longleftrightarrow> (case bm_deadline (pm_message (dl_pending e)) of BigDeadline _ \<Rightarrow> True | TextDeadline _ \<Rightarrow> False)"

definition persist_dead_letters :: "dead_letters \<Rightarrow> dead_letters disk \<Rightarrow> (store_error, unit) result \<times> dead_letters disk" where
  "persist_dead_letters q d =
     (if \<exists>e \<in> set (dl_list q). unserializable e then (Inl TypeError, d) else (Inr (), save_file q d))"

definition load_dead_letters :: "dead_letters disk \<Rightarrow> (store_error, dead_letters) result" where
  "load_dead_letters d =
     bind_result (read_file (main_file d)) (\<lambda>parsed. Inr (case parsed of None \<Rightarrow> [] | Some q \<Rightarrow> q))"

interpretation dead_letter_file: durable_file id
  "\<lambda>parsed. Inr (case parsed of None \<Rightarrow> [] | Some q \<Rightarrow> q)" id
  by unfold_locales simp

section \<open>Properties\<close>

text \<open>
  C28. Checkpoints and dead letters survive crashes: whenever a save stops, between its steps or in the
  middle of a write, the next start reads the value saved before or the new one, never a mixture nor an
  error that was not there; a completed save is read back; and a queue that cannot be written is
  refused before anything is touched.
\<close>

theorem saves_are_atomic:
  "(d' \<in> set (crash_disks (save_steps (checkpoint_json (Num n))) d) \<longrightarrow>
     load_checkpoint d' = load_checkpoint d \<or> load_checkpoint d' = Inr (Some (Num n)))
   \<and> load_checkpoint (save_checkpoint (Num n) d) = Inr (Some (Num n))
   \<and> (e' \<in> set (crash_disks (save_steps q) e) \<longrightarrow>
        load_dead_letters e' = load_dead_letters e \<or> load_dead_letters e' = Inr q)
   \<and> (case persist_dead_letters q e of
        (Inr _, e2) \<Rightarrow> load_dead_letters e2 = Inr q
      | (Inl _, e2) \<Rightarrow> e2 = e \<and> (\<exists>x \<in> set (dl_list q). unserializable x))"
proof (intro conjI)
  show "d' \<in> set (crash_disks (save_steps (checkpoint_json (Num n))) d) \<longrightarrow>
     load_checkpoint d' = load_checkpoint d \<or> load_checkpoint d' = Inr (Some (Num n))"
    using checkpoint.load_crashed [of d' "Num n" d] by (auto simp: load_checkpoint_def is_finite_num_def)
  show "load_checkpoint (save_checkpoint (Num n) d) = Inr (Some (Num n))"
    using checkpoint.load_saved [of "Num n" d]
    by (simp add: load_checkpoint_def save_checkpoint_def is_finite_num_def)
  show "e' \<in> set (crash_disks (save_steps q) e) \<longrightarrow>
        load_dead_letters e' = load_dead_letters e \<or> load_dead_letters e' = Inr q"
    using dead_letter_file.load_crashed [of e' q e] by (auto simp: load_dead_letters_def)
  show "case persist_dead_letters q e of
        (Inr _, e2) \<Rightarrow> load_dead_letters e2 = Inr q
      | (Inl _, e2) \<Rightarrow> e2 = e \<and> (\<exists>x \<in> set (dl_list q). unserializable x)"
    using dead_letter_file.load_saved [of q e]
    by (simp add: persist_dead_letters_def load_dead_letters_def)
qed

text \<open>The cursor of a fresh disk, after a save that a crash cut in the middle of its write.\<close>

theorem saves_are_atomic_witness:
  "load_checkpoint \<lparr>main_file = Absent, tmp_file = Torn\<rparr> = Inr None
   \<and> load_checkpoint (save_checkpoint (Num 7) \<lparr>main_file = Absent, tmp_file = Torn\<rparr>) = Inr (Some (Num 7))"
proof -
  let ?d = "\<lparr>main_file = Absent, tmp_file = Absent\<rparr> :: jval disk"
  have crash: "?d\<lparr>tmp_file := Torn\<rparr> \<in> set (crash_disks (save_steps (checkpoint_json (Num 7))) ?d)"
    by (simp add: save_steps_def)
  have "load_checkpoint (?d\<lparr>tmp_file := Torn\<rparr>) \<in> {load_checkpoint ?d, Inr (Some (Num 7))}"
    using saves_are_atomic [THEN conjunct1, rule_format, OF crash] by simp
  moreover have "load_checkpoint (save_checkpoint (Num 7) \<lparr>main_file = Absent, tmp_file = Torn\<rparr>) = Inr (Some (Num 7))"
    using saves_are_atomic [of undefined 7] by blast
  ultimately show ?thesis by (simp add: load_checkpoint_def checkpoint_cursor_def)
qed

end
