(* ===== verification/Relayer_Reorg.thy ===== *)
theory Relayer_Reorg
  imports Relayer_Types
begin

text \<open>
  The window of block headers in \<^verbatim>\<open>relayer/src/relayer.ts\<close> and the reorg check over it
  (\<open>recordBlock\<close>, \<open>recordHeaders\<close>, \<open>detectReorg\<close>).
\<close>

section \<open>The code\<close>

record block_record =
  br_number :: int
  br_hash :: hex
  br_parentHash :: hex

definition block_at :: "int \<Rightarrow> block_record list \<Rightarrow> block_record option" where
  "block_at n window = find (\<lambda>b. br_number b = n) window"

definition window_limit :: "int \<Rightarrow> int" where
  "window_limit confirmations = max (confirmations + 10) 20"

text \<open>\<open>findIndex\<close> and \<open>splice\<close>: the first record of the height goes.\<close>

fun drop_height :: "int \<Rightarrow> block_record list \<Rightarrow> block_record list" where
  "drop_height n [] = []"
| "drop_height n (b # bs) = (if br_number b = n then bs else b # drop_height n bs)"

definition recordBlock :: "int \<Rightarrow> block_record \<Rightarrow> block_record list \<Rightarrow> block_record list" where
  "recordBlock confirmations b window =
     (let pushed = drop_height (br_number b) window @ [b]
      in if window_limit confirmations < int (length pushed) then tl pushed else pushed)"

definition recordHeaders ::
  "int \<Rightarrow> block_record list option \<Rightarrow> block_record \<Rightarrow> block_record list \<Rightarrow> block_record list" where
  "recordHeaders confirmations headers head window =
     recordBlock confirmations head
       (foldl (\<lambda>win b. recordBlock confirmations b win) window (case headers of None \<Rightarrow> [] | Some bs \<Rightarrow> bs))"

lemma block_at_Some:
  "block_at n window = Some b \<Longrightarrow> b \<in> set window \<and> br_number b = n"
  by (auto simp: block_at_def find_Some_iff)

lemma block_at_None: "block_at n window = None \<longleftrightarrow> (\<forall>b \<in> set window. br_number b \<noteq> n)"
  by (auto simp: block_at_def find_None_iff)

text \<open>The walk to a common ancestor.\<close>

function reorg_walk :: "int \<Rightarrow> int \<Rightarrow> block_record list \<Rightarrow> block_record \<Rightarrow> int \<Rightarrow> int" where
  "reorg_walk startBlock head window current depth =
     (if startBlock < br_number current then
        (case block_at (br_number current - 1) window of
           None \<Rightarrow> depth
         | Some ancestor \<Rightarrow>
             if br_hash ancestor = br_parentHash current then head - br_number current
             else reorg_walk startBlock head window ancestor (depth + 1))
      else depth)"
  by pat_completeness auto

termination
  by (relation "measure (\<lambda>(startBlock, head, window, current, depth). nat (br_number current - startBlock))")
     (auto dest: block_at_Some)

declare reorg_walk.simps [simp del]

definition detectReorg :: "int \<Rightarrow> int \<Rightarrow> hex \<Rightarrow> block_record list \<Rightarrow> int" where
  "detectReorg startBlock head parentHash window =
     (case block_at (head - 1) window of
        None \<Rightarrow> 0
      | Some prev \<Rightarrow>
          if br_hash prev = parentHash then 0
          else reorg_walk startBlock head window prev 1)"

section \<open>Facts about the code\<close>

lemma drop_height_subset: "set (drop_height n window) \<subseteq> set window"
  by (induction window) auto

lemma length_drop_height: "length (drop_height n window) \<le> length window"
  by (induction window) auto

lemma recordBlock_subset: "set (recordBlock confirmations b window) \<subseteq> insert b (set window)"
proof -
  let ?p = "drop_height (br_number b) window @ [b]"
  have "set (tl ?p) \<subseteq> set ?p" by (cases ?p) auto
  moreover have "set ?p \<subseteq> insert b (set window)" using drop_height_subset [of "br_number b" window] by auto
  ultimately have "set (tl ?p) \<subseteq> insert b (set window)" "set ?p \<subseteq> insert b (set window)" by blast+
  then show ?thesis unfolding recordBlock_def Let_def by (cases "window_limit confirmations < int (length ?p)") (simp_all only: if_True if_False)
qed

lemma recordHeaders_subset:
  "set (recordHeaders confirmations headers head window) \<subseteq>
     insert head (set window \<union> (case headers of None \<Rightarrow> {} | Some bs \<Rightarrow> set bs))"
proof -
  have "set (foldl (\<lambda>win b. recordBlock confirmations b win) window bs) \<subseteq> set window \<union> set bs" for bs
  proof (induction bs arbitrary: window)
    case (Cons b bs)
    then show ?case using recordBlock_subset [of confirmations b window] by fastforce
  qed simp
  then show ?thesis using recordBlock_subset by (fastforce simp: recordHeaders_def split: option.splits)
qed

definition heights_distinct :: "block_record list \<Rightarrow> bool" where
  "heights_distinct window \<longleftrightarrow> distinct (map br_number window)"

lemma drop_height_distinct:
  "heights_distinct window \<Longrightarrow>
     heights_distinct (drop_height n window) \<and> n \<notin> br_number ` set (drop_height n window)"
  by (induction window) (auto simp: heights_distinct_def dest: drop_height_subset [THEN subsetD])

text \<open>The window never outgrows its limit and has at most one record per height.\<close>

definition window_ok :: "int \<Rightarrow> block_record list \<Rightarrow> bool" where
  "window_ok confirmations window \<longleftrightarrow>
     int (length window) \<le> window_limit confirmations \<and> heights_distinct window"

lemma recordBlock_ok [inv_intros]: "window_ok confirmations window \<Longrightarrow> window_ok confirmations (recordBlock confirmations b window)"
proof -
  assume ok: "window_ok confirmations window"
  let ?p = "drop_height (br_number b) window @ [b]"
  have "heights_distinct ?p"
    using ok drop_height_distinct [of window "br_number b"]
    by (auto simp: window_ok_def heights_distinct_def)
  moreover from this have "heights_distinct (tl ?p)"
    by (simp add: heights_distinct_def map_tl distinct_tl)
  moreover have "int (length ?p) \<le> window_limit confirmations + 1"
    using ok length_drop_height [of "br_number b" window] by (simp add: window_ok_def)
  ultimately show ?thesis by (auto simp: window_ok_def recordBlock_def Let_def)
qed

lemma recordHeaders_ok [inv_intros]:
  "window_ok confirmations window \<Longrightarrow> window_ok confirmations (recordHeaders confirmations headers head window)"
  unfolding recordHeaders_def
  by (intro recordBlock_ok foldl_invariant [where P = "window_ok confirmations"]) (simp_all add: recordBlock_ok)

text \<open>
  A window is linked when each of its blocks names the block recorded below it as its parent: this is
  what recording the headers of one chain gives.
\<close>

definition linked :: "block_record list \<Rightarrow> bool" where
  "linked window \<longleftrightarrow>
     (\<forall>a \<in> set window. \<forall>b \<in> set window. br_number b = br_number a + 1 \<longrightarrow> br_parentHash b = br_hash a)"

lemma one_chain_linked:
  "\<forall>b \<in> set window. br_hash b = chain (br_number b) \<and> br_parentHash b = chain (br_number b - 1) \<Longrightarrow> linked window"
  by (auto simp: linked_def)

lemma linked_reorg_depth:
  assumes "linked window"
  shows "detectReorg startBlock head parentHash window =
    (case block_at (head - 1) window of
       None \<Rightarrow> 0 | Some prev \<Rightarrow> if br_hash prev = parentHash then 0 else 1)"
proof -
  have "reorg_walk startBlock head window prev 1 = 1" if prev: "block_at (head - 1) window = Some prev" for prev
  proof -
    have "prev \<in> set window" "br_number prev = head - 1" using block_at_Some [OF prev] by simp_all
    moreover have "br_hash ancestor = br_parentHash prev" if "block_at (br_number prev - 1) window = Some ancestor" for ancestor
      using block_at_Some [OF that] assms \<open>prev \<in> set window\<close> by (force simp: linked_def)
    ultimately show ?thesis by (subst reorg_walk.simps) (simp split: option.split)
  qed
  then show ?thesis by (simp add: detectReorg_def split: option.split)
qed

text \<open>Without a reorg the check is silent: every recorded hash is that of the one chain.\<close>

lemma no_reorg_detected:
  "\<forall>b \<in> set window. br_hash b = chain (br_number b) \<Longrightarrow> detectReorg startBlock head (chain (head - 1)) window = 0"
  by (auto simp: detectReorg_def dest: block_at_Some split: option.split)

end
