(* ===== verification/Relayer_Loop.thy ===== *)
theory Relayer_Loop
  imports Relayer_Stores Relayer_Reorg Backoff
begin

text \<open>
  The relay loop of \<^verbatim>\<open>relayer/src/relayer.ts\<close>: one delivery attempt, one tick, the loop of \<open>start\<close>. The
  chains, the mempool, the files and the clock are a state \<open>'w\<close> that the calls thread through;
  \<open>re_running\<close> tells whether \<open>stop\<close> has not been called in it. Log lines that record an outcome are kept
  as events.
\<close>

section \<open>The code\<close>

text \<open>A thrown value: whether it is a \<open>FatalError\<close>, and its text.\<close>

datatype relay_thrown = Fatal string | Thrown string

record poll_result =
  pr_messages :: "pending_message list"
  pr_head :: int
  pr_headHash :: "hex option"
  pr_parentHash :: "hex option"
  pr_blockHeaders :: "block_record list option"

record relay_retry =
  rt_attempts :: nat
  rt_nextRetryAt :: int

record relay_metrics =
  rm_delivered :: nat
  rm_alreadyDelivered :: nat
  rm_failed :: nat
  rm_deadLettered :: nat
  rm_maxRetryDepth :: nat
  rm_unresolvedMessages :: nat

record relay_readiness =
  rd_lastTickOk :: bool
  rd_lastTickAt :: int
  rd_cursor :: int
  rd_head :: int
  rd_confirmedHead :: int
  rd_lag :: int

datatype relay_log =
    LogDelivered message_key string
  | LogAlreadyDelivered message_key
  | LogDeadLetter message_key nat string
  | LogWillRetry message_key nat int string
  | LogDeepReorg int int
  | LogRollback int int int
  | LogFatal string
  | LogTickFailed string nat

record relayer_state =
  rl_cursor :: int
  rl_attempts :: "(string, relay_retry) assoc"
  rl_dead :: dead_letters
  rl_metrics :: relay_metrics
  rl_window :: "block_record list"
  rl_readiness :: relay_readiness
  rl_backoff :: backoff_state
  rl_log :: "relay_log list"

record 'w relayer_env =
  re_poll :: "int \<Rightarrow> 'w \<Rightarrow> (relay_thrown, poll_result) result \<times> 'w"
  re_isDelivered :: "message_key \<Rightarrow> 'w \<Rightarrow> (relay_thrown, bool) result \<times> 'w"
  re_deliver :: "pending_message \<Rightarrow> 'w \<Rightarrow> (relay_thrown, string) result \<times> 'w"
  re_reportStatus :: "hex \<Rightarrow> string \<Rightarrow> string \<Rightarrow> 'w \<Rightarrow> (relay_thrown, unit) result \<times> 'w"
  re_loadCheckpoint :: "'w \<Rightarrow> (relay_thrown, int option) result \<times> 'w"
  re_saveCheckpoint :: "int \<Rightarrow> 'w \<Rightarrow> (relay_thrown, unit) result \<times> 'w"
  re_persist :: "dead_letters \<Rightarrow> 'w \<Rightarrow> (relay_thrown, unit) result \<times> 'w"
  re_now :: "'w \<Rightarrow> int"
  re_random :: "'w \<Rightarrow> rat"
  re_sleep :: "rat \<Rightarrow> 'w \<Rightarrow> 'w"
  re_running :: "'w \<Rightarrow> bool"
  re_confirmations :: int
  re_startBlock :: int
  re_maxAttempts :: nat
  re_baseBackoffMs :: int
  re_mempoolUrl :: "string option"
  re_mempoolStatusToken :: "string option"
  re_backoffConfig :: backoff_config

definition DEFAULT_RETRY :: "nat \<times> int" where
  "DEFAULT_RETRY = (5, 500)"

definition new_relayer :: "'w relayer_env \<Rightarrow> dead_letters \<Rightarrow> relayer_state" where
  "new_relayer env dead =
     \<lparr>rl_cursor = re_startBlock env, rl_attempts = [], rl_dead = dead,
      rl_metrics = \<lparr>rm_delivered = 0, rm_alreadyDelivered = 0, rm_failed = 0, rm_deadLettered = 0,
                    rm_maxRetryDepth = 0, rm_unresolvedMessages = 0\<rparr>,
      rl_window = [],
      rl_readiness = \<lparr>rd_lastTickOk = False, rd_lastTickAt = 0, rd_cursor = re_startBlock env,
                      rd_head = 0, rd_confirmedHead = 0, rd_lag = 0\<rparr>,
      rl_backoff = new_backoff (re_backoffConfig env), rl_log = []\<rparr>"

definition put_cursor :: "int \<Rightarrow> relayer_state \<Rightarrow> relayer_state" where
  "put_cursor c s = s\<lparr>rl_cursor := c, rl_readiness := (rl_readiness s)\<lparr>rd_cursor := c\<rparr>\<rparr>"

definition log_event :: "relay_log \<Rightarrow> relayer_state \<Rightarrow> relayer_state" where
  "log_event e s = s\<lparr>rl_log := rl_log s @ [e]\<rparr>"

text \<open>A missing or empty setting is falsy.\<close>

definition truthy_setting :: "string option \<Rightarrow> bool" where
  "truthy_setting v = (case v of None \<Rightarrow> False | Some t \<Rightarrow> t \<noteq> [])"

definition report_mempool :: "'w relayer_env \<Rightarrow> string \<Rightarrow> hex \<Rightarrow> 'w \<Rightarrow> 'w" where
  "report_mempool env status_text intentHash w =
     (case re_mempoolStatusToken env of
        Some token \<Rightarrow>
          if truthy_setting (re_mempoolUrl env) \<and> token \<noteq> []
          then snd (re_reportStatus env intentHash status_text token w) else w
      | None \<Rightarrow> w)"

definition reportCancelling :: "'w relayer_env \<Rightarrow> hex \<Rightarrow> 'w \<Rightarrow> 'w" where
  "reportCancelling env = report_mempool env ''cancelling''"

definition onRefundObserved :: "'w relayer_env \<Rightarrow> hex \<Rightarrow> 'w \<Rightarrow> 'w" where
  "onRefundObserved env = report_mempool env ''refunded''"

definition relay_outcome :: "message_key \<Rightarrow> bool \<Rightarrow> bool \<Rightarrow> relay_error option \<Rightarrow> relay_result" where
  "relay_outcome key delivered done err =
     \<lparr>rr_intentHash = mk_intentHash key, rr_key = key, rr_delivered = delivered, resolved = done,
      rr_alreadyDelivered = False, rr_dstTxHash = None, rr_error = err\<rparr>"

section \<open>One delivery attempt\<close>

text \<open>The \<open>catch\<close> branch of \<open>relayOne\<close>, after \<open>n\<close> earlier attempts.\<close>

definition relay_failed ::
  "'w relayer_env \<Rightarrow> pending_message \<Rightarrow> nat \<Rightarrow> relay_thrown \<Rightarrow> relayer_state \<Rightarrow> 'w
     \<Rightarrow> (relay_thrown, relay_result) result \<times> relayer_state \<times> 'w" where
  "relay_failed env p n err s w =
     (case err of
        Fatal m \<Rightarrow> (Inl (Fatal m), s, w)
      | Thrown m \<Rightarrow>
          let key = key_of p; ks = messageKeyString key; attempt = n + 1;
              wait = re_baseBackoffMs env * 2 ^ n;
              s1 = s\<lparr>rl_attempts := assoc_set ks
                       \<lparr>rt_attempts = attempt, rt_nextRetryAt = re_now env w + wait\<rparr> (rl_attempts s),
                     rl_metrics := (rl_metrics s)\<lparr>rm_maxRetryDepth := max (rm_maxRetryDepth (rl_metrics s)) attempt\<rparr>\<rparr>
          in if re_maxAttempts env \<le> attempt then
               (Inr (relay_outcome key False True (Some (DeadLetteredAfter attempt m))),
                log_event (LogDeadLetter key attempt m)
                  (s1\<lparr>rl_dead := dl_add (re_now env w) key p attempt m (rl_dead s1),
                      rl_attempts := assoc_del ks (rl_attempts s1),
                      rl_metrics := (rl_metrics s1)\<lparr>rm_deadLettered := rm_deadLettered (rl_metrics s1) + 1\<rparr>\<rparr>),
                w)
             else
               (Inr (relay_outcome key False False (Some (DeliveryFailed m))),
                log_event (LogWillRetry key attempt wait m)
                  (s1\<lparr>rl_metrics := (rl_metrics s1)\<lparr>rm_failed := rm_failed (rl_metrics s1) + 1\<rparr>\<rparr>),
                w))"

definition attempt_relay ::
  "'w relayer_env \<Rightarrow> pending_message \<Rightarrow> nat \<Rightarrow> relayer_state \<Rightarrow> 'w
     \<Rightarrow> (relay_thrown, relay_result) result \<times> relayer_state \<times> 'w" where
  "attempt_relay env p n s w =
     (let key = key_of p; ks = messageKeyString key
      in case re_isDelivered env key w of
           (Inl err, w1) \<Rightarrow> relay_failed env p n err s w1
         | (Inr True, w1) \<Rightarrow>
             (Inr ((relay_outcome key False True None)\<lparr>rr_alreadyDelivered := True\<rparr>),
              log_event (LogAlreadyDelivered key)
                (s\<lparr>rl_attempts := assoc_del ks (rl_attempts s),
                   rl_metrics := (rl_metrics s)\<lparr>rm_alreadyDelivered := rm_alreadyDelivered (rl_metrics s) + 1\<rparr>\<rparr>),
              w1)
         | (Inr False, w1) \<Rightarrow>
             (case re_deliver env p w1 of
                (Inl err, w2) \<Rightarrow> relay_failed env p n err s w2
              | (Inr tx, w2) \<Rightarrow>
                  (Inr ((relay_outcome key True True None)\<lparr>rr_dstTxHash := Some tx\<rparr>),
                   log_event (LogDelivered key tx)
                     (s\<lparr>rl_attempts := assoc_del ks (rl_attempts s),
                        rl_metrics := (rl_metrics s)\<lparr>rm_delivered := rm_delivered (rl_metrics s) + 1\<rparr>\<rparr>),
                   if mk_messageType key = CancelIntent then reportCancelling env (mk_intentHash key) w2 else w2)))"

definition relayOne ::
  "'w relayer_env \<Rightarrow> pending_message \<Rightarrow> relayer_state \<Rightarrow> 'w
     \<Rightarrow> (relay_thrown, relay_result) result \<times> relayer_state \<times> 'w" where
  "relayOne env p s w =
     (let key = key_of p
      in if dl_has (rl_dead s) key then (Inr (relay_outcome key False True (Some DeadLettered)), s, w)
         else
           case assoc_get (rl_attempts s) (messageKeyString key) of
             None \<Rightarrow> attempt_relay env p 0 s w
           | Some st \<Rightarrow>
               if re_now env w < rt_nextRetryAt st
               then (Inr (relay_outcome key False False (Some (RetryDeferred (rt_nextRetryAt st)))), s, w)
               else attempt_relay env p (rt_attempts st) s w)"

section \<open>One tick\<close>

text \<open>Retry states of messages that the poll no longer shows are forgotten.\<close>

definition drop_unobserved :: "pending_message list \<Rightarrow> relayer_state \<Rightarrow> relayer_state" where
  "drop_unobserved messages s =
     (let observed = map (messageKeyString \<circ> key_of) messages
      in s\<lparr>rl_attempts := filter (\<lambda>e. fst e \<in> set observed) (rl_attempts s)\<rparr>)"

fun relay_confirmed ::
  "'w relayer_env \<Rightarrow> int \<Rightarrow> pending_message list \<Rightarrow> relayer_state \<Rightarrow> 'w
     \<Rightarrow> (relay_thrown, relay_result list) result \<times> relayer_state \<times> 'w" where
  "relay_confirmed env confirmedHead [] s w = (Inr [], s, w)"
| "relay_confirmed env confirmedHead (p # ps) s w =
     (if confirmedHead < srcBlock p then relay_confirmed env confirmedHead ps s w
      else case relayOne env p s w of
             (Inl err, s1, w1) \<Rightarrow> (Inl err, s1, w1)
           | (Inr r, s1, w1) \<Rightarrow>
               (case relay_confirmed env confirmedHead ps s1 w1 of
                  (Inl err, s2, w2) \<Rightarrow> (Inl err, s2, w2)
                | (Inr rs, s2, w2) \<Rightarrow> (Inr (r # rs), s2, w2)))"

definition result_by_key :: "relay_result list \<Rightarrow> (string, relay_result) assoc" where
  "result_by_key results = foldl (\<lambda>m r. assoc_set (messageKeyString (rr_key r)) r m) [] results"

text \<open>\<open>None\<close> stands for \<open>Infinity\<close>.\<close>

fun lowest_unresolved ::
  "(string, relay_result) assoc \<Rightarrow> int \<Rightarrow> pending_message list \<Rightarrow> int option \<Rightarrow> int option" where
  "lowest_unresolved byKey confirmedHead [] low = low"
| "lowest_unresolved byKey confirmedHead (p # ps) low =
     (if confirmedHead < srcBlock p then lowest_unresolved byKey confirmedHead ps low
      else
        case assoc_get byKey (messageKeyString (key_of p)) of
          None \<Rightarrow> lowest_unresolved byKey confirmedHead ps low
        | Some r \<Rightarrow>
            if resolved r then lowest_unresolved byKey confirmedHead ps low
            else lowest_unresolved byKey confirmedHead ps
                   (Some (case low of None \<Rightarrow> srcBlock p | Some b \<Rightarrow> min b (srcBlock p))))"

definition next_cursor :: "int \<Rightarrow> pending_message list \<Rightarrow> relay_result list \<Rightarrow> int" where
  "next_cursor confirmedHead messages results =
     (case lowest_unresolved (result_by_key results) confirmedHead messages None of
        None \<Rightarrow> confirmedHead + 1
      | Some b \<Rightarrow> min (confirmedHead + 1) b)"

definition confirmed_head :: "'w relayer_env \<Rightarrow> int \<Rightarrow> int" where
  "confirmed_head env head = max 0 (head - re_confirmations env)"

text \<open>The tick after the reorg check.\<close>

definition tick_deliver ::
  "'w relayer_env \<Rightarrow> poll_result \<Rightarrow> relayer_state \<Rightarrow> 'w
     \<Rightarrow> (relay_thrown, relay_result list) result \<times> relayer_state \<times> 'w" where
  "tick_deliver env pr s w =
     (let confirmedHead = confirmed_head env (pr_head pr);
          s1 = drop_unobserved (pr_messages pr)
                 (s\<lparr>rl_readiness := (rl_readiness s)\<lparr>rd_head := pr_head pr, rd_confirmedHead := confirmedHead,
                      rd_lag := max 0 (confirmedHead + 1 - rl_cursor s)\<rparr>\<rparr>)
      in case relay_confirmed env confirmedHead (pr_messages pr) s1 w of
           (Inl err, s2, w2) \<Rightarrow> (Inl err, s2, w2)
         | (Inr results, s2, w2) \<Rightarrow>
             let unresolved = filter (\<lambda>r. \<not> resolved r) results;
                 c = max (rl_cursor s2) (next_cursor confirmedHead (pr_messages pr) results);
                 s3 = put_cursor c
                        (s2\<lparr>rl_metrics := (rl_metrics s2)\<lparr>rm_unresolvedMessages := length unresolved\<rparr>\<rparr>)
             in case re_saveCheckpoint env c w2 of
                  (Inl err, w3) \<Rightarrow> (Inl err, s3, w3)
                | (Inr _, w3) \<Rightarrow>
                    (case re_persist env (rl_dead s3) w3 of
                       (Inl err, w4) \<Rightarrow> (Inl err, s3, w4)
                     | (Inr _, w4) \<Rightarrow> (Inr results, s3, w4)))"

definition record_poll :: "'w relayer_env \<Rightarrow> poll_result \<Rightarrow> hex \<Rightarrow> hex \<Rightarrow> relayer_state \<Rightarrow> relayer_state" where
  "record_poll env pr h p s =
     s\<lparr>rl_window := recordHeaders (re_confirmations env) (pr_blockHeaders pr)
         \<lparr>br_number = pr_head pr, br_hash = h, br_parentHash = p\<rparr> (rl_window s)\<rparr>"

definition relay_tick ::
  "'w relayer_env \<Rightarrow> relayer_state \<Rightarrow> 'w
     \<Rightarrow> (relay_thrown, relay_result list) result \<times> relayer_state \<times> 'w" where
  "relay_tick env s w =
     (case re_poll env (rl_cursor s) w of
        (Inl err, w1) \<Rightarrow> (Inl err, s, w1)
      | (Inr pr, w1) \<Rightarrow>
          (case (pr_headHash pr, pr_parentHash pr) of
             (Some h, Some p) \<Rightarrow>
               let head = pr_head pr;
                   depth = detectReorg (re_startBlock env) head p (rl_window s);
                   local_rollback = (head = rl_cursor s \<and> pr_messages pr \<noteq> [])
               in if 0 < depth then
                    if re_confirmations env < depth \<and> \<not> local_rollback then
                      tick_deliver env pr (record_poll env pr h p (log_event (LogDeepReorg head depth) s)) w1
                    else
                      (Inr [],
                       record_poll env pr h p
                         (put_cursor (max (re_startBlock env) (head - depth))
                            (log_event (LogRollback head depth (rl_cursor s)) s)),
                       w1)
                  else tick_deliver env pr (record_poll env pr h p s) w1
           | _ \<Rightarrow> tick_deliver env pr s w1))"

section \<open>The loop\<close>

definition after_relay_tick :: "'w relayer_env \<Rightarrow> relayer_state \<Rightarrow> 'w \<Rightarrow> relayer_state" where
  "after_relay_tick env s w =
     s\<lparr>rl_backoff := recordSuccess (rl_backoff s),
       rl_readiness := (rl_readiness s)\<lparr>rd_lastTickOk := True, rd_lastTickAt := re_now env w\<rparr>\<rparr>"

definition after_failed_tick :: "string \<Rightarrow> relayer_state \<Rightarrow> relayer_state" where
  "after_failed_tick m s =
     (let b = recordFailure (rl_backoff s)
      in log_event (LogTickFailed m (consecutiveFailures b))
           (s\<lparr>rl_backoff := b, rl_readiness := (rl_readiness s)\<lparr>rd_lastTickOk := False\<rparr>\<rparr>))"

definition relay_sleep :: "'w relayer_env \<Rightarrow> relayer_state \<Rightarrow> 'w \<Rightarrow> 'w" where
  "relay_sleep env s w =
     (if re_running env w then re_sleep env (nextDelay (rl_backoff s) (re_random env w)) w else w)"

fun relay_loop ::
  "nat \<Rightarrow> 'w relayer_env \<Rightarrow> relayer_state \<Rightarrow> 'w \<Rightarrow> (relay_thrown, unit) result \<times> relayer_state \<times> 'w" where
  "relay_loop 0 env s w = (Inr (), s, w)"
| "relay_loop (Suc n) env s w =
     (if \<not> re_running env w then (Inr (), s, w)
      else
        case relay_tick env s w of
          (Inr _, s1, w1) \<Rightarrow>
            let s2 = after_relay_tick env s1 w1 in relay_loop n env s2 (relay_sleep env s2 w1)
        | (Inl (Fatal m), s1, w1) \<Rightarrow> (Inl (Fatal m), log_event (LogFatal m) s1, w1)
        | (Inl (Thrown m), s1, w1) \<Rightarrow>
            let s2 = after_failed_tick m s1 in relay_loop n env s2 (relay_sleep env s2 w1))"

definition relay_resume :: "'w relayer_env \<Rightarrow> relayer_state \<Rightarrow> 'w \<Rightarrow> (relay_thrown, unit) result \<times> relayer_state \<times> 'w" where
  "relay_resume env s w =
     (case re_loadCheckpoint env w of
        (Inl err, w1) \<Rightarrow> (Inl err, s, w1)
      | (Inr c, w1) \<Rightarrow> (Inr (), put_cursor (case c of None \<Rightarrow> re_startBlock env | Some c \<Rightarrow> c) s, w1))"

text \<open>\<open>start\<close>, for at most \<open>n\<close> ticks.\<close>

definition relay_start :: "nat \<Rightarrow> 'w relayer_env \<Rightarrow> relayer_state \<Rightarrow> 'w \<Rightarrow> (relay_thrown, unit) result \<times> relayer_state \<times> 'w" where
  "relay_start n env s w =
     (case relay_resume env s w of
        (Inl err, s1, w1) \<Rightarrow> (Inl err, s1, w1)
      | (Inr _, s1, w1) \<Rightarrow> relay_loop n env s1 w1)"

end
