(* ===== verification/Relayer_Safety.thy ===== *)
theory Relayer_Safety
  imports Relayer_Loop
begin

text \<open>
  What the relay loop guarantees: the cursor never passes a message that was not settled one way or the
  other, as long as the source chain does not reorganise.
\<close>

section \<open>Handled messages\<close>

text \<open>
  A message is handled when it was delivered, was found delivered, or waits in the dead-letter queue;
  the relayer tells messages apart by the text of their keys.
\<close>

definition handled :: "relayer_state \<Rightarrow> string \<Rightarrow> bool" where
  "handled s ks \<longleftrightarrow>
     (\<exists>key. messageKeyString key = ks
        \<and> ((\<exists>tx. LogDelivered key tx \<in> set (rl_log s)) \<or> LogAlreadyDelivered key \<in> set (rl_log s)
           \<or> dl_has (rl_dead s) key))"

definition keeps :: "relayer_state \<Rightarrow> relayer_state \<Rightarrow> bool" where
  "keeps s s' \<longleftrightarrow> set (rl_log s) \<subseteq> set (rl_log s') \<and> (\<forall>k. dl_has (rl_dead s) k \<longrightarrow> dl_has (rl_dead s') k)"

lemma keeps_refl [simp]: "keeps s s"
  by (simp add: keeps_def)

lemma keeps_trans: "keeps a b \<Longrightarrow> keeps b c \<Longrightarrow> keeps a c"
  by (auto simp: keeps_def)

lemma keeps_handled: "keeps s s' \<Longrightarrow> handled s ks \<Longrightarrow> handled s' ks"
  unfolding keeps_def handled_def by blast

lemma keepsI:
  "set (rl_log s) \<subseteq> set (rl_log s') \<Longrightarrow> rl_dead s' = rl_dead s \<Longrightarrow> keeps s s'"
  by (simp add: keeps_def)

lemma has_dl_add: "dl_has (dl_add now k p n err q) k' \<longleftrightarrow> messageKeyString k' = messageKeyString k \<or> dl_has q k'"
  using dl.has_add [of k "(now, p, n, err)" q k'] by simp

lemmas outcome_simps = relay_outcome_def log_event_def put_cursor_def

text \<open>What one delivery attempt of message \<open>p\<close> does, whatever its outcome.\<close>

definition attempt_ok ::
  "pending_message \<Rightarrow> relayer_state \<Rightarrow> (relay_thrown, relay_result) result \<times> relayer_state \<times> 'w \<Rightarrow> bool" where
  "attempt_ok p s out \<longleftrightarrow>
     (case out of (res, s', w') \<Rightarrow>
        rl_cursor s' = rl_cursor s \<and> rl_window s' = rl_window s \<and> keeps s s'
        \<and> (\<forall>r. res = Inr r \<longrightarrow> rr_key r = key_of p \<and> (resolved r \<longrightarrow> handled s' (messageKeyString (key_of p)))))"

lemma relay_failed_ok: "attempt_ok p s (relay_failed env p n err s w)"
  by (cases err) (auto simp: attempt_ok_def relay_failed_def Let_def outcome_simps keeps_def handled_def has_dl_add)

lemma attempt_relay_ok: "attempt_ok p s (attempt_relay env p n s w)"
proof -
  obtain a w1 where i: "re_isDelivered env (key_of p) w = (a, w1)" by fastforce
  obtain b w2 where d: "re_deliver env p w1 = (b, w2)" by fastforce
  show ?thesis
  proof (cases a)
    case (Inl err)
    then show ?thesis using relay_failed_ok by (simp add: attempt_relay_def Let_def i)
  next
    case (Inr yes)
    show ?thesis
    proof (cases "\<not> yes \<and> (\<exists>err. b = Inl err)")
      case True
      then show ?thesis using relay_failed_ok Inr by (auto simp: attempt_relay_def Let_def i d)
    next
      case False
      then show ?thesis using Inr
        by (cases yes; cases b)
           (auto simp: attempt_relay_def Let_def i d attempt_ok_def outcome_simps keeps_def handled_def)
    qed
  qed
qed

lemma deferred_ok: "attempt_ok p s (Inr (relay_outcome (key_of p) False False err), s, w)"
  by (simp add: attempt_ok_def relay_outcome_def)

lemma relayOne_ok: "attempt_ok p s (relayOne env p s w)"
proof (cases "dl_has (rl_dead s) (key_of p)")
  case True
  then show ?thesis by (auto simp: relayOne_def Let_def attempt_ok_def outcome_simps handled_def)
next
  case False
  then show ?thesis by (simp add: relayOne_def Let_def attempt_relay_ok deferred_ok split: option.split)
qed

section \<open>One tick\<close>

lemma relay_confirmed_ok:
  "relay_confirmed env ch ps s w = (res, s', w') \<Longrightarrow>
     rl_cursor s' = rl_cursor s \<and> rl_window s' = rl_window s \<and> keeps s s'
     \<and> (\<forall>rs. res = Inr rs \<longrightarrow>
          (\<forall>r \<in> set rs. resolved r \<longrightarrow> handled s' (messageKeyString (rr_key r)))
          \<and> (\<forall>p \<in> set ps. srcBlock p \<le> ch \<longrightarrow> (\<exists>r \<in> set rs. rr_key r = key_of p)))"
proof (induction ps arbitrary: s w res s' w')
  case (Cons p ps)
  show ?case
  proof (cases "ch < srcBlock p")
    case True
    then show ?thesis using Cons.IH [of s w res s' w'] Cons.prems by auto
  next
    case False
    obtain a s1 w1 where one: "relayOne env p s w = (a, s1, w1)" by (metis prod_cases3)
    have ok: "attempt_ok p s (a, s1, w1)" using relayOne_ok [of p s env w] by (simp add: one)
    obtain b s2 w2 where rest: "relay_confirmed env ch ps s1 w1 = (b, s2, w2)" by (metis prod_cases3)
    note IH = Cons.IH [OF rest]
    have k: "keeps s s2" using ok IH keeps_trans unfolding attempt_ok_def by blast
    show ?thesis
    proof (cases a)
      case (Inl err)
      then show ?thesis using Cons.prems False one ok by (auto simp: attempt_ok_def)
    next
      case (Inr r)
      have h: "resolved r \<longrightarrow> handled s2 (messageKeyString (rr_key r))"
        using ok IH Inr keeps_handled unfolding attempt_ok_def by auto
      show ?thesis
        using Cons.prems False one rest Inr IH ok k h
        by (cases b) (auto simp: attempt_ok_def)
    qed
  qed
qed simp

lemma result_by_key_get:
  "assoc_get (result_by_key rs) ks = Some r \<Longrightarrow> r \<in> set rs \<and> messageKeyString (rr_key r) = ks"
  "r' \<in> set rs \<Longrightarrow> \<exists>r. assoc_get (result_by_key rs) (messageKeyString (rr_key r')) = Some r"
proof -
  let ?f = "\<lambda>m r. assoc_set (messageKeyString (rr_key r)) r m"
  have "assoc_get (foldl ?f m rs) ks = Some r \<Longrightarrow>
      assoc_get m ks = Some r \<or> (r \<in> set rs \<and> messageKeyString (rr_key r) = ks)" for m
  proof (induction rs arbitrary: m)
    case (Cons a rs)
    then show ?case using Cons.IH [of "?f m a"] by (auto simp: store_simps split: if_splits)
  qed simp
  from this [of "[]"] show "assoc_get (result_by_key rs) ks = Some r \<Longrightarrow> r \<in> set rs \<and> messageKeyString (rr_key r) = ks"
    by (simp add: result_by_key_def)
  have grow: "assoc_get m k \<noteq> None \<Longrightarrow> assoc_get (foldl ?f m rs) k \<noteq> None" for m k rs
    by (induction rs arbitrary: m) (auto simp: store_simps)
  have "r' \<in> set rs \<Longrightarrow> assoc_get (foldl ?f m rs) (messageKeyString (rr_key r')) \<noteq> None" for m
  proof (induction rs arbitrary: m)
    case (Cons r rs)
    then show ?case using grow [of "?f m r" "messageKeyString (rr_key r')" rs] by (auto simp: store_simps)
  qed simp
  from this [of "[]"] show "r' \<in> set rs \<Longrightarrow> \<exists>r. assoc_get (result_by_key rs) (messageKeyString (rr_key r')) = Some r"
    by (auto simp: result_by_key_def)
qed

lemma lowest_unresolved_bound:
  "(low = Some b \<longrightarrow> (\<exists>c. lowest_unresolved byKey ch ps low = Some c \<and> c \<le> b))
   \<and> (\<forall>p \<in> set ps. srcBlock p \<le> ch \<longrightarrow>
        (\<forall>r. assoc_get byKey (messageKeyString (key_of p)) = Some r \<longrightarrow> \<not> resolved r \<longrightarrow>
           (\<exists>c. lowest_unresolved byKey ch ps low = Some c \<and> c \<le> srcBlock p)))"
proof (induction ps arbitrary: low b)
  case (Cons p ps)
  let ?r = "assoc_get byKey (messageKeyString (key_of p))"
  let ?low = "Some (case low of None \<Rightarrow> srcBlock p | Some b \<Rightarrow> min b (srcBlock p))"
  show ?case
  proof (cases "srcBlock p \<le> ch \<and> (\<exists>r. ?r = Some r \<and> \<not> resolved r)")
    case True
    then have step: "lowest_unresolved byKey ch (p # ps) low = lowest_unresolved byKey ch ps ?low" by auto
    have "low = Some b \<longrightarrow> (\<exists>c. lowest_unresolved byKey ch ps ?low = Some c \<and> c \<le> b)"
      using Cons.IH [of ?low "min b (srcBlock p)"] by auto
    moreover have "\<exists>c. lowest_unresolved byKey ch ps ?low = Some c \<and> c \<le> srcBlock p"
    proof (cases low)
      case None
      then show ?thesis using Cons.IH [of ?low "srcBlock p"] by auto
    next
      case (Some l)
      then show ?thesis using Cons.IH [of ?low "min l (srcBlock p)"] by auto
    qed
    ultimately show ?thesis unfolding step using Cons.IH [of ?low] by simp
  next
    case False
    then have step: "lowest_unresolved byKey ch (p # ps) low = lowest_unresolved byKey ch ps low"
      by (auto split: option.split)
    have "\<forall>r. ?r = Some r \<longrightarrow> \<not> resolved r \<longrightarrow> \<not> srcBlock p \<le> ch" using False by blast
    then show ?thesis unfolding step using Cons.IH [of low b] by auto
  qed
qed simp

text \<open>A confirmed message below the next cursor has a result, and a resolved one.\<close>

lemma next_cursor_resolved:
  assumes "p \<in> set messages" and "srcBlock p < next_cursor ch messages results"
    and "\<forall>p \<in> set messages. srcBlock p \<le> ch \<longrightarrow> (\<exists>r \<in> set results. rr_key r = key_of p)"
  shows "\<exists>r \<in> set results. messageKeyString (rr_key r) = messageKeyString (key_of p) \<and> resolved r"
proof -
  have le: "srcBlock p \<le> ch" using assms(2) by (auto simp: next_cursor_def split: option.splits)
  then obtain r' where r': "r' \<in> set results" "rr_key r' = key_of p" using assms(1,3) by blast
  obtain r where get: "assoc_get (result_by_key results) (messageKeyString (key_of p)) = Some r"
    using result_by_key_get(2) [OF r'(1)] r'(2) by auto
  have "resolved r"
  proof (rule ccontr)
    assume "\<not> resolved r"
    then obtain c where "lowest_unresolved (result_by_key results) ch messages None = Some c" "c \<le> srcBlock p"
      using lowest_unresolved_bound [of None _ "result_by_key results" ch messages] assms(1) le get by blast
    then show False using assms(2) by (simp add: next_cursor_def)
  qed
  then show ?thesis using result_by_key_get(1) [OF get] by blast
qed

section \<open>The whole run\<close>

text \<open>
  A watcher of a chain that does not reorganise: a poll returns the messages \<open>M\<close> of the blocks it
  covers, and the hashes of the one chain when it returns hashes at all.
\<close>

definition faithful_watcher :: "'w relayer_env \<Rightarrow> pending_message set \<Rightarrow> (int \<Rightarrow> hex) \<Rightarrow> bool" where
  "faithful_watcher env M chain \<longleftrightarrow>
     (\<forall>b w pr w'. re_poll env b w = (Inr pr, w') \<longrightarrow>
        0 \<le> pr_head pr \<and> set (pr_messages pr) = {m \<in> M. b \<le> srcBlock m \<and> srcBlock m \<le> pr_head pr}
        \<and> (\<forall>h. pr_headHash pr = Some h \<longrightarrow> h = chain (pr_head pr))
        \<and> (\<forall>p. pr_parentHash pr = Some p \<longrightarrow> p = chain (pr_head pr - 1))
        \<and> (\<forall>bs. pr_blockHeaders pr = Some bs \<longrightarrow> (\<forall>b \<in> set bs. br_hash b = chain (br_number b))))"

definition passed :: "pending_message set \<Rightarrow> int \<Rightarrow> relayer_state \<Rightarrow> bool" where
  "passed M b s \<longleftrightarrow> b \<le> rl_cursor s
     \<and> (\<forall>m \<in> M. b \<le> srcBlock m \<and> srcBlock m < rl_cursor s \<longrightarrow> handled s (messageKeyString (key_of m)))"

definition on_chain :: "(int \<Rightarrow> hex) \<Rightarrow> relayer_state \<Rightarrow> bool" where
  "on_chain chain s \<longleftrightarrow> (\<forall>x \<in> set (rl_window s). br_hash x = chain (br_number x))"

lemma passed_keeps: "passed M b s \<Longrightarrow> keeps s s' \<Longrightarrow> rl_cursor s' = rl_cursor s \<Longrightarrow> passed M b s'"
  unfolding passed_def using keeps_handled by metis

lemma put_cursor_fields [simp]:
  "rl_cursor (put_cursor c s) = c" "rl_window (put_cursor c s) = rl_window s" "rl_log (put_cursor c s) = rl_log s"
  "rl_dead (put_cursor c s) = rl_dead s" "handled (put_cursor c s) ks = handled s ks"
  by (simp_all add: put_cursor_def handled_def)

text \<open>What a tick does to the cursor, and that all it passes is handled.\<close>

lemma tick_deliver_passed:
  assumes "tick_deliver env pr s w = (res, s', w')" and "passed M b s"
    and msgs: "set (pr_messages pr) = {m \<in> M. rl_cursor s \<le> srcBlock m \<and> srcBlock m \<le> pr_head pr}"
    and "0 \<le> pr_head pr" and "0 \<le> re_confirmations env"
  shows "passed M b s' \<and> rl_window s' = rl_window s \<and> rl_cursor s \<le> rl_cursor s'"
proof -
  let ?ch = "confirmed_head env (pr_head pr)"
  define s1 where "s1 = drop_unobserved (pr_messages pr)
      (s\<lparr>rl_readiness := (rl_readiness s)\<lparr>rd_head := pr_head pr, rd_confirmedHead := ?ch,
                      rd_lag := max 0 (?ch + 1 - rl_cursor s)\<rparr>\<rparr>)"
  have s1: "rl_cursor s1 = rl_cursor s" "rl_window s1 = rl_window s" "keeps s s1"
    by (simp_all add: s1_def drop_unobserved_def Let_def keeps_def)
  obtain a s2 w2 where conf: "relay_confirmed env ?ch (pr_messages pr) s1 w = (a, s2, w2)" by (metis prod_cases3)
  note c = relay_confirmed_ok [OF conf]
  have keep: "keeps s s2" "rl_cursor s2 = rl_cursor s" "rl_window s2 = rl_window s"
    using c s1 keeps_trans by auto
  have p2: "passed M b s2" using passed_keeps [OF assms(2) keep(1,2)] .
  show ?thesis
  proof (cases a)
    case (Inl err)
    then show ?thesis using assms(1) p2 keep conf unfolding tick_deliver_def s1_def by (simp add: Let_def)
  next
    case (Inr results)
    define s3 where "s3 = put_cursor (max (rl_cursor s2) (next_cursor ?ch (pr_messages pr) results))
        (s2\<lparr>rl_metrics := (rl_metrics s2)\<lparr>rm_unresolvedMessages := length (filter (\<lambda>r. \<not> resolved r) results)\<rparr>\<rparr>)"
    have "s' = s3"
      using assms(1) conf Inr unfolding tick_deliver_def s1_def s3_def
      by (auto simp: Let_def split: prod.splits sum.splits)
    moreover have "passed M b s3"
    proof -
      have h3: "handled s3 ks = handled s2 ks" for ks by (simp add: s3_def handled_def)
      have "handled s2 (messageKeyString (key_of m))"
        if "m \<in> M" "b \<le> srcBlock m" "srcBlock m < rl_cursor s3" for m
      proof (cases "srcBlock m < rl_cursor s2")
        case True
        then show ?thesis using that p2 by (simp add: passed_def)
      next
        case False
        then have lt: "srcBlock m < next_cursor ?ch (pr_messages pr) results" using that by (simp add: s3_def)
        then have "srcBlock m \<le> ?ch" by (auto simp: next_cursor_def split: option.splits)
        then have "m \<in> set (pr_messages pr)"
          using False that assms(4,5) keep by (auto simp: msgs confirmed_head_def)
        then show ?thesis using next_cursor_resolved [OF _ lt] c Inr by metis
      qed
      moreover have "b \<le> rl_cursor s3" using p2 by (simp add: s3_def passed_def le_max_iff_disj)
      ultimately show ?thesis by (simp add: passed_def h3)
    qed
    ultimately show ?thesis using keep by (simp add: s3_def)
  qed
qed

lemma relay_tick_passed:
  assumes "faithful_watcher env M chain" and "0 \<le> re_confirmations env"
    and "passed M b s" and "on_chain chain s" and "relay_tick env s w = (res, s', w')"
  shows "passed M b s' \<and> on_chain chain s'"
proof -
  obtain out w1 where poll: "re_poll env (rl_cursor s) w = (out, w1)" by fastforce
  show ?thesis
  proof (cases out)
    case (Inl err)
    then show ?thesis using assms(3-5) by (simp add: relay_tick_def poll)
  next
    case (Inr pr)
    have f: "0 \<le> pr_head pr" "set (pr_messages pr) = {m \<in> M. rl_cursor s \<le> srcBlock m \<and> srcBlock m \<le> pr_head pr}"
      "\<forall>h. pr_headHash pr = Some h \<longrightarrow> h = chain (pr_head pr)"
      "\<forall>p. pr_parentHash pr = Some p \<longrightarrow> p = chain (pr_head pr - 1)"
      "\<forall>bs. pr_blockHeaders pr = Some bs \<longrightarrow> (\<forall>b \<in> set bs. br_hash b = chain (br_number b))"
      using assms(1) poll Inr unfolding faithful_watcher_def by blast+
    show ?thesis
    proof (cases "\<exists>h p. pr_headHash pr = Some h \<and> pr_parentHash pr = Some p")
      case False
      then have "relay_tick env s w = tick_deliver env pr s w1"
        by (auto simp: relay_tick_def poll Inr split: option.split)
      then show ?thesis using tick_deliver_passed [OF _ assms(3) f(2,1) assms(2)] assms(4,5) unfolding on_chain_def by metis
    next
      case True
      then obtain h p where hp: "pr_headHash pr = Some h" "pr_parentHash pr = Some p" by blast
      let ?s = "record_poll env pr h p s"
      have "detectReorg (re_startBlock env) (pr_head pr) p (rl_window s) = 0"
        using f(4) hp no_reorg_detected [of "rl_window s" chain] assms(4) unfolding on_chain_def by blast
      then have t: "relay_tick env s w = tick_deliver env pr ?s w1"
        using hp by (simp add: relay_tick_def poll Inr)
      have "rl_cursor ?s = rl_cursor s" "keeps s ?s" by (simp_all add: record_poll_def keeps_def)
      then have ps: "passed M b ?s" "set (pr_messages pr) = {m \<in> M. rl_cursor ?s \<le> srcBlock m \<and> srcBlock m \<le> pr_head pr}"
        using passed_keeps [OF assms(3)] f(2) by simp_all
      have "on_chain chain ?s"
        using assms(4) f(3,5) hp recordHeaders_subset [of "re_confirmations env" "pr_blockHeaders pr"
          "\<lparr>br_number = pr_head pr, br_hash = h, br_parentHash = p\<rparr>" "rl_window s"]
        unfolding on_chain_def record_poll_def by (fastforce split: option.splits)
      then show ?thesis
        using tick_deliver_passed [OF _ ps f(1) assms(2)] t assms(5) unfolding on_chain_def by metis
    qed
  qed
qed

lemma loop_step_fields:
  "rl_cursor (after_relay_tick env s w) = rl_cursor s" "rl_window (after_relay_tick env s w) = rl_window s"
  "keeps s (after_relay_tick env s w)"
  "rl_cursor (after_failed_tick m s) = rl_cursor s" "rl_window (after_failed_tick m s) = rl_window s"
  "keeps s (after_failed_tick m s)"
  "rl_cursor (log_event e s) = rl_cursor s" "rl_window (log_event e s) = rl_window s" "keeps s (log_event e s)"
  by (auto simp: after_relay_tick_def after_failed_tick_def log_event_def Let_def keeps_def)

lemma relay_loop_passed:
  assumes "faithful_watcher env M chain" and "0 \<le> re_confirmations env"
  shows "passed M b s \<Longrightarrow> on_chain chain s \<Longrightarrow> relay_loop n env s w = (res, s', w') \<Longrightarrow>
    passed M b s' \<and> on_chain chain s'"
proof (induction n arbitrary: s w)
  case (Suc n)
  show ?case
  proof (cases "re_running env w")
    case False
    then show ?thesis using Suc.prems by simp
  next
    case True
    obtain a s1 w1 where t: "relay_tick env s w = (a, s1, w1)" by (metis prod_cases3)
    have p1: "passed M b s1" "on_chain chain s1"
      using relay_tick_passed [OF assms Suc.prems(1,2) t] by simp_all
    have q: "passed M b t \<and> on_chain chain t" if "keeps s1 t" "rl_cursor t = rl_cursor s1" "rl_window t = rl_window s1" for t
      using that p1 passed_keeps unfolding on_chain_def by metis
    show ?thesis
    proof (cases a)
      case (Inr rs)
      let ?t = "after_relay_tick env s1 w1"
      have "relay_loop n env ?t (relay_sleep env ?t w1) = (res, s', w')"
        using Suc.prems(3) True t Inr by (simp add: Let_def)
      moreover have "passed M b ?t \<and> on_chain chain ?t" by (rule q [OF loop_step_fields(3,1,2)])
      ultimately show ?thesis using Suc.IH by metis
    next
      case (Inl err)
      show ?thesis
      proof (cases err)
        case (Fatal m)
        then have "s' = log_event (LogFatal m) s1" using Suc.prems(3) True t Inl by simp
        then show ?thesis using q loop_step_fields by simp
      next
        case (Thrown m)
        let ?t = "after_failed_tick m s1"
        have "relay_loop n env ?t (relay_sleep env ?t w1) = (res, s', w')"
          using Suc.prems(3) True t Inl Thrown by (simp add: Let_def)
        moreover have "passed M b ?t \<and> on_chain chain ?t" by (rule q [OF loop_step_fields(6,4,5)])
        ultimately show ?thesis using Suc.IH by metis
      qed
    qed
  qed
qed simp

section \<open>Nothing else becomes handled\<close>

text \<open>Only the messages a poll shows are worked on.\<close>

definition works_only :: "string set \<Rightarrow> relayer_state \<Rightarrow> relayer_state \<Rightarrow> bool" where
  "works_only K s s' \<longleftrightarrow> (\<forall>ks. handled s' ks \<longrightarrow> handled s ks \<or> ks \<in> K)"

lemma works_only_refl [simp]: "works_only K s s"
  by (simp add: works_only_def)

lemma works_only_trans: "works_only K s t \<Longrightarrow> works_only K t u \<Longrightarrow> works_only K s u"
  by (auto simp: works_only_def)

lemma works_only_mono: "works_only K s t \<Longrightarrow> K \<subseteq> L \<Longrightarrow> works_only L s t"
  by (auto simp: works_only_def)

lemma same_events: "rl_log t = rl_log s \<Longrightarrow> rl_dead t = rl_dead s \<Longrightarrow> works_only K s t"
  by (simp add: works_only_def handled_def)

lemma relay_failed_only: "works_only {messageKeyString (key_of p)} s (fst (snd (relay_failed env p n err s w)))"
  by (cases err) (auto simp: relay_failed_def Let_def outcome_simps works_only_def handled_def has_dl_add)

lemma success_only:
  "works_only {messageKeyString key} s (log_event (LogDelivered key tx) (s\<lparr>rl_attempts := m, rl_metrics := x\<rparr>))"
  "works_only {messageKeyString key} s (log_event (LogAlreadyDelivered key) (s\<lparr>rl_attempts := m, rl_metrics := x\<rparr>))"
  by (auto simp: log_event_def works_only_def handled_def)

lemma attempt_relay_only: "works_only {messageKeyString (key_of p)} s (fst (snd (attempt_relay env p n s w)))"
  by (simp add: attempt_relay_def Let_def relay_failed_only success_only split: prod.split sum.split bool.split)

lemma relayOne_only: "works_only {messageKeyString (key_of p)} s (fst (snd (relayOne env p s w)))"
  using attempt_relay_only by (auto simp: relayOne_def Let_def split: option.split)

lemma relay_confirmed_only:
  "relay_confirmed env ch ps s w = (res, s', w') \<Longrightarrow> works_only ((messageKeyString \<circ> key_of) ` set ps) s s'"
proof (induction ps arbitrary: s w res s' w')
  case (Cons p ps)
  obtain a s1 w1 where one: "relayOne env p s w = (a, s1, w1)" by (metis prod_cases3)
  obtain b s2 w2 where rest: "relay_confirmed env ch ps s1 w1 = (b, s2, w2)" by (metis prod_cases3)
  let ?K = "(messageKeyString \<circ> key_of) ` set (p # ps)"
  have 1: "works_only ?K s s1" using relayOne_only [of p s env w] one by (auto intro: works_only_mono)
  have 2: "works_only ?K s1 s2" using Cons.IH [OF rest] by (auto intro: works_only_mono)
  show ?case
  proof (cases "ch < srcBlock p")
    case True
    then show ?thesis using Cons.IH [of s w res s' w'] Cons.prems by (auto intro: works_only_mono)
  next
    case False
    then have "s' = s1 \<or> s' = s2" using Cons.prems one rest by (cases a; cases b) auto
    then show ?thesis using 1 2 works_only_trans by blast
  qed
qed simp

lemma tick_deliver_only:
  assumes "tick_deliver env pr s w = (res, s', w')"
  shows "works_only ((messageKeyString \<circ> key_of) ` set (pr_messages pr)) s s'"
proof -
  let ?ch = "confirmed_head env (pr_head pr)" and ?K = "(messageKeyString \<circ> key_of) ` set (pr_messages pr)"
  define s1 where "s1 = drop_unobserved (pr_messages pr)
      (s\<lparr>rl_readiness := (rl_readiness s)\<lparr>rd_head := pr_head pr, rd_confirmedHead := ?ch,
                      rd_lag := max 0 (?ch + 1 - rl_cursor s)\<rparr>\<rparr>)"
  have 1: "works_only ?K s s1" by (rule same_events) (simp_all add: s1_def drop_unobserved_def Let_def)
  obtain a s2 w2 where conf: "relay_confirmed env ?ch (pr_messages pr) s1 w = (a, s2, w2)" by (metis prod_cases3)
  have "rl_log s' = rl_log s2 \<and> rl_dead s' = rl_dead s2"
    using assms conf unfolding tick_deliver_def s1_def by (auto simp: Let_def split: sum.splits prod.splits)
  then have "works_only ?K s2 s'" by (intro same_events) simp_all
  then show ?thesis using 1 relay_confirmed_only [OF conf] works_only_trans by blast
qed

text \<open>A tick of a faithful watcher works on the messages from the cursor on and never moves it back.\<close>

lemma relay_tick_only:
  assumes f: "faithful_watcher env M chain" and "0 \<le> re_confirmations env" and "on_chain chain s"
    and t: "relay_tick env s w = (res, s', w')"
  shows "works_only ((messageKeyString \<circ> key_of) ` {m \<in> M. rl_cursor s \<le> srcBlock m}) s s'
    \<and> rl_cursor s \<le> rl_cursor s' \<and> on_chain chain s'"
proof -
  define K where "K = (messageKeyString \<circ> key_of) ` {m \<in> M. rl_cursor s \<le> srcBlock m}"
  obtain out w1 where poll: "re_poll env (rl_cursor s) w = (out, w1)" by fastforce
  show ?thesis
  proof (cases out)
    case (Inl err)
    then show ?thesis using assms(3) t by (simp add: relay_tick_def poll)
  next
    case (Inr pr)
    have fp: "set (pr_messages pr) = {m \<in> M. rl_cursor s \<le> srcBlock m \<and> srcBlock m \<le> pr_head pr}" "0 \<le> pr_head pr"
      "\<forall>p. pr_parentHash pr = Some p \<longrightarrow> p = chain (pr_head pr - 1)"
      using f poll Inr unfolding faithful_watcher_def by blast+
    have sub: "(messageKeyString \<circ> key_of) ` set (pr_messages pr) \<subseteq> K" by (auto simp: fp K_def)
    have "\<exists>s0. rl_cursor s0 = rl_cursor s \<and> rl_log s0 = rl_log s \<and> rl_dead s0 = rl_dead s
        \<and> tick_deliver env pr s0 w1 = (res, s', w')"
    proof (cases "\<exists>h p. pr_headHash pr = Some h \<and> pr_parentHash pr = Some p")
      case False
      then show ?thesis using t by (auto simp: relay_tick_def poll Inr split: option.splits)
    next
      case True
      then obtain h p where hp: "pr_headHash pr = Some h" "pr_parentHash pr = Some p" by blast
      have "detectReorg (re_startBlock env) (pr_head pr) p (rl_window s) = 0"
        using fp(3) hp no_reorg_detected [of "rl_window s" chain] assms(3) unfolding on_chain_def by blast
      then have "tick_deliver env pr (record_poll env pr h p s) w1 = (res, s', w')"
        using t hp by (simp add: relay_tick_def poll Inr)
      then show ?thesis by (intro exI [of _ "record_poll env pr h p s"]) (simp add: record_poll_def)
    qed
    then obtain s0 where s0: "rl_cursor s0 = rl_cursor s" "rl_log s0 = rl_log s" "rl_dead s0 = rl_dead s"
      and d: "tick_deliver env pr s0 w1 = (res, s', w')" by blast
    have "works_only K s0 s'" using tick_deliver_only [OF d] sub works_only_mono by blast
    then have "works_only K s s'" using same_events [OF s0(2,3)] works_only_trans by blast
    moreover have "passed M (rl_cursor s) s' \<and> on_chain chain s'"
      by (rule relay_tick_passed [OF f assms(2) _ assms(3) t]) (auto simp: passed_def)
    ultimately show ?thesis by (simp add: passed_def K_def)
  qed
qed

lemma relay_loop_only:
  assumes "faithful_watcher env M chain" and "0 \<le> re_confirmations env"
  shows "on_chain chain s \<Longrightarrow> relay_loop n env s w = (res, s', w') \<Longrightarrow>
    works_only ((messageKeyString \<circ> key_of) ` {m \<in> M. rl_cursor s \<le> srcBlock m}) s s'"
proof (induction n arbitrary: s w)
  case (Suc n)
  let ?K = "\<lambda>s. (messageKeyString \<circ> key_of) ` {m \<in> M. rl_cursor s \<le> srcBlock m}"
  show ?case
  proof (cases "re_running env w")
    case False
    then show ?thesis using Suc.prems by simp
  next
    case True
    obtain a s1 w1 where t: "relay_tick env s w = (a, s1, w1)" by (metis prod_cases3)
    have 1: "works_only (?K s) s s1" "rl_cursor s \<le> rl_cursor s1" "on_chain chain s1"
      using relay_tick_only [OF assms Suc.prems(1) t] by simp_all
    have rest: "works_only (?K s) s s'" if "relay_loop n env t w2 = (res, s', w')" "rl_cursor t = rl_cursor s1"
        "rl_window t = rl_window s1" "works_only {} s1 t" for t w2
    proof -
      have "on_chain chain t" using 1(3) that(3) by (simp add: on_chain_def)
      from Suc.IH [OF this that(1)] have "works_only (?K s) t s'"
        by (rule works_only_mono) (use 1(2) that(2) in auto)
      moreover have "works_only (?K s) s1 t" using that(4) by (rule works_only_mono) simp
      ultimately show ?thesis using 1(1) works_only_trans by blast
    qed
    show ?thesis
    proof (cases a)
      case (Inr rs)
      then show ?thesis using Suc.prems(2) True t
        by (intro rest [of "after_relay_tick env s1 w1"])
           (simp_all add: Let_def after_relay_tick_def same_events)
    next
      case (Inl err)
      show ?thesis
      proof (cases err)
        case (Fatal m)
        then have "s' = log_event (LogFatal m) s1" using Suc.prems(2) True t Inl by simp
        moreover have "works_only {} s1 (log_event (LogFatal m) s1)"
          by (auto simp: works_only_def handled_def log_event_def)
        ultimately show ?thesis using 1(1) works_only_trans works_only_mono by blast
      next
        case (Thrown m)
        have "works_only {} s1 (after_failed_tick m s1)"
          by (auto simp: works_only_def handled_def after_failed_tick_def log_event_def Let_def)
        then show ?thesis using Suc.prems(2) True t Inl Thrown
          by (intro rest [of "after_failed_tick m s1"])
             (simp_all add: Let_def loop_step_fields)
      qed
    qed
  qed
qed simp

section \<open>Properties\<close>

text \<open>
  C23. The relayer skips no message: on a source chain that does not reorganise, whatever the deliveries,
  the files and the mempool do and however the run ends, every message from the block the relayer
  resumed at up to its cursor was delivered, was found delivered, or is in the dead-letter queue.
\<close>

theorem cursor_never_skips:
  assumes "faithful_watcher env M chain" and "0 \<le> re_confirmations env"
    and "relay_resume env (new_relayer env dead) w = (Inr (), s, w1)"
    and "relay_loop n env s w1 = (res, s', w')"
  shows "rl_cursor s \<le> rl_cursor s'
    \<and> (\<forall>m \<in> M. rl_cursor s \<le> srcBlock m \<and> srcBlock m < rl_cursor s' \<longrightarrow>
         handled s' (messageKeyString (key_of m)))"
proof -
  have "rl_window s = []"
    using assms(3) by (auto simp: relay_resume_def new_relayer_def split: prod.splits sum.splits)
  then have "on_chain chain s" by (simp add: on_chain_def)
  moreover have "passed M (rl_cursor s) s" by (auto simp: passed_def)
  ultimately have "passed M (rl_cursor s) s'" using relay_loop_passed [OF assms(1,2) _ _ assms(4)] by blast
  then show ?thesis by (simp add: passed_def)
qed

text \<open>
  A drained dead letter is lost: once the cursor is behind a dead-lettered message, draining the
  queue, which the runbook describes as the way to retry it, only forgets it. No later tick looks at
  it again, unless another message of a later block has the same key.
\<close>

theorem drained_letter_is_lost:
  assumes "faithful_watcher env M chain" and "0 \<le> re_confirmations env" and "on_chain chain s"
    and "srcBlock m < rl_cursor s"
    and "\<forall>m' \<in> M. rl_cursor s \<le> srcBlock m' \<longrightarrow> messageKeyString (key_of m') \<noteq> messageKeyString (key_of m)"
    and "\<not> handled (s\<lparr>rl_dead := []\<rparr>) (messageKeyString (key_of m))"
    and "relay_loop n env (s\<lparr>rl_dead := snd (dl_drain (rl_dead s))\<rparr>) w = (res, s', w')"
  shows "\<not> handled s' (messageKeyString (key_of m))"
proof -
  let ?s = "s\<lparr>rl_dead := snd (dl_drain (rl_dead s))\<rparr>"
  have "on_chain chain ?s" using assms(3) by (simp add: on_chain_def)
  from relay_loop_only [OF assms(1,2) this assms(7)]
  have "handled s' (messageKeyString (key_of m)) \<longrightarrow> handled ?s (messageKeyString (key_of m))"
    using assms(5) by (force simp: works_only_def)
  then show ?thesis using assms(6) by (simp add: dl_drain_def)
qed

text \<open>
  C26. The reorg check looks one block deep and moves the cursor the wrong way: with the headers of one
  chain recorded, any other parent hash counts as a reorg of depth one, however many blocks changed, so
  that with at least one confirmation no deep reorg is ever reported; the tick relays nothing and sets
  the cursor to the block below the head, which skips every message between the confirmed head and
  there.
\<close>

theorem rollback_moves_forward:
  assumes "linked (rl_window s)" and "re_poll env (rl_cursor s) w = (Inr pr, w1)"
    and "pr_headHash pr = Some h" and "pr_parentHash pr = Some p"
    and "block_at (pr_head pr - 1) (rl_window s) = Some prev" and "br_hash prev \<noteq> p"
    and "1 \<le> re_confirmations env" and "re_startBlock env \<le> pr_head pr - 1"
  shows "\<exists>s'. relay_tick env s w = (Inr [], s', w1) \<and> rl_cursor s' = pr_head pr - 1
    \<and> rl_log s' = rl_log s @ [LogRollback (pr_head pr) 1 (rl_cursor s)] \<and> rl_dead s' = rl_dead s
    \<and> (rl_cursor s \<le> confirmed_head env (pr_head pr) \<and> 2 \<le> re_confirmations env
        \<and> re_confirmations env \<le> pr_head pr \<longrightarrow> rl_cursor s < rl_cursor s')"
proof -
  have "detectReorg (re_startBlock env) (pr_head pr) p (rl_window s) = 1"
    using linked_reorg_depth [OF assms(1)] assms(5,6) by simp
  then show ?thesis
    using assms by (auto simp: relay_tick_def record_poll_def log_event_def confirmed_head_def Let_def)
qed

text \<open>
  C25. The retry budget of one message: a failing delivery that is due counts one attempt and waits twice
  as long as the one before; the last attempt of the budget moves the message to the dead-letter queue,
  after which it is left alone.
\<close>

theorem delivery_retry_budget:
  assumes "\<not> dl_has (rl_dead s) (key_of p)" and "\<not> (\<exists>st. assoc_get (rl_attempts s) ks = Some st \<and> re_now env w < rt_nextRetryAt st)"
    and ks: "ks = messageKeyString (key_of p)" and n: "n = (case assoc_get (rl_attempts s) ks of None \<Rightarrow> 0 | Some st \<Rightarrow> rt_attempts st)"
    and "re_isDelivered env (key_of p) w = (Inr False, w1)" and "re_deliver env p w1 = (Inl (Thrown m), w2)"
  shows "\<exists>r s'. relayOne env p s w = (Inr r, s', w2)
    \<and> (n + 1 < re_maxAttempts env \<longrightarrow> \<not> resolved r \<and> rl_dead s' = rl_dead s
        \<and> assoc_get (rl_attempts s') ks
            = Some \<lparr>rt_attempts = n + 1, rt_nextRetryAt = re_now env w2 + re_baseBackoffMs env * 2 ^ n\<rparr>
        \<and> (\<forall>v. re_now env v < re_now env w2 + re_baseBackoffMs env * 2 ^ n \<longrightarrow>
             (\<exists>r'. relayOne env p s' v = (Inr r', s', v) \<and> \<not> resolved r')))
    \<and> (re_maxAttempts env \<le> n + 1 \<longrightarrow> resolved r \<and> dl_has (rl_dead s') (key_of p)
        \<and> assoc_get (rl_attempts s') ks = None
        \<and> (\<forall>v. \<exists>r'. relayOne env p s' v = (Inr r', s', v) \<and> resolved r'))"
proof -
  have one: "relayOne env p s w = relay_failed env p n (Thrown m) s w2"
    using assms by (auto simp: relayOne_def attempt_relay_def Let_def split: option.splits)
  show ?thesis
  proof (cases "n + 1 < re_maxAttempts env")
    case True
    then show ?thesis using assms(1) ks unfolding one
      by (simp add: relay_failed_def Let_def outcome_simps relayOne_def store_simps)
  next
    case False
    then show ?thesis using ks unfolding one
      by (simp add: relay_failed_def Let_def outcome_simps relayOne_def store_simps has_dl_add)
  qed
qed

section \<open>Witnesses\<close>

definition sample_pending :: pending_message where
  "sample_pending =
     \<lparr>pm_message = \<lparr>bm_srcEid = 30101, bm_dstEid = 40161, bm_intentHash = ''0xab'', bm_messageType = FillInstruction,
        bm_solver = ''0x01'', bm_recipient = ''G'', bm_destAsset = ''native'', bm_amount = ''5'', bm_nonce = 1,
        bm_deadline = TextDeadline ''9'', bm_rawPayload = ''0x''\<rparr>,
      srcTxHash = ''0x02'', srcBlock = 97, srcBlockHash = None\<rparr>"

definition sample_relayer :: "int relayer_env" where
  "sample_relayer =
     \<lparr>re_poll = \<lambda>b w. (Inr \<lparr>pr_messages = filter (\<lambda>m. b \<le> srcBlock m) [sample_pending], pr_head = 110,
                         pr_headHash = Some ''a'', pr_parentHash = Some ''a'', pr_blockHeaders = None\<rparr>, w),
      re_isDelivered = \<lambda>k w. (Inr False, w), re_deliver = \<lambda>p w. (Inr ''tx'', w),
      re_reportStatus = \<lambda>h st t w. (Inr (), w), re_loadCheckpoint = \<lambda>w. (Inr None, w),
      re_saveCheckpoint = \<lambda>c w. (Inr (), w), re_persist = \<lambda>q w. (Inr (), w),
      re_now = \<lambda>w. w, re_random = \<lambda>w. 0, re_sleep = \<lambda>ms w. w + 1, re_running = \<lambda>w. True,
      re_confirmations = 6, re_startBlock = 90, re_maxAttempts = 5, re_baseBackoffMs = 500,
      re_mempoolUrl = None, re_mempoolStatusToken = None,
      re_backoffConfig = \<lparr>bc_pollIntervalMs = 5000, bc_maxJitterMs = None, bc_backoffMultiplier = None,
                          bc_maxBackoffMs = None\<rparr>\<rparr>"

lemma sample_relayer_faithful: "faithful_watcher sample_relayer {sample_pending} (\<lambda>n. ''a'')" "0 \<le> re_confirmations sample_relayer"
  by (auto simp: faithful_watcher_def sample_relayer_def sample_pending_def)

lemmas sample_defs = sample_relayer_def sample_pending_def new_relayer_def relay_tick_def tick_deliver_def
  confirmed_head_def drop_unobserved_def record_poll_def recordHeaders_def recordBlock_def window_limit_def
  detectReorg_def block_at_def relayOne_def attempt_relay_def relay_failed_def outcome_simps key_of_def dl_has_def
  next_cursor_def result_by_key_def Let_def

theorem cursor_never_skips_witness:
  "\<exists>s w. relay_start 1 sample_relayer (new_relayer sample_relayer []) 0 = (Inr (), s, w) \<and> rl_cursor s = 105
     \<and> handled s (messageKeyString (key_of sample_pending))"
proof -
  let ?s = "put_cursor 90 (new_relayer sample_relayer [])"
  have r: "relay_resume sample_relayer (new_relayer sample_relayer []) 0 = (Inr (), ?s, 0)"
    by (simp add: relay_resume_def sample_relayer_def)
  have "\<exists>s w. relay_loop (Suc 0) sample_relayer ?s 0 = (Inr (), s, w) \<and> rl_cursor s = 105"
    by (simp add: sample_defs after_relay_tick_def assoc_get_def)
  then obtain s w where l: "relay_loop (Suc 0) sample_relayer ?s 0 = (Inr (), s, w)" "rl_cursor s = 105" by blast
  have "handled s (messageKeyString (key_of sample_pending))"
    using cursor_never_skips [OF sample_relayer_faithful r l(1)] l(2) by (simp add: sample_pending_def)
  then show ?thesis using r l by (auto simp: relay_start_def)
qed

theorem drained_letter_is_lost_witness:
  "\<exists>s w. relay_loop 1 sample_relayer
       ((new_relayer sample_relayer (dl_add 0 (key_of sample_pending) sample_pending 5 ''reverted'' []))
          \<lparr>rl_cursor := 105, rl_dead := []\<rparr>) 0 = (Inr (), s, w)
     \<and> \<not> handled s (messageKeyString (key_of sample_pending))"
proof -
  let ?s = "(new_relayer sample_relayer (dl_add 0 (key_of sample_pending) sample_pending 5 ''reverted'' []))\<lparr>rl_cursor := 105\<rparr>"
  have "\<exists>s w. relay_loop (Suc 0) sample_relayer (?s\<lparr>rl_dead := []\<rparr>) 0 = (Inr (), s, w)"
    by (simp add: sample_defs after_relay_tick_def assoc_get_def)
  then obtain s w where l: "relay_loop (Suc 0) sample_relayer (?s\<lparr>rl_dead := snd (dl_drain (rl_dead ?s))\<rparr>) 0 = (Inr (), s, w)"
    by (auto simp: dl_drain_def)
  have "\<not> handled s (messageKeyString (key_of sample_pending))"
    by (rule drained_letter_is_lost [OF sample_relayer_faithful _ _ _ _ l])
       (simp_all add: on_chain_def new_relayer_def sample_pending_def handled_def dl_has_def)
  then show ?thesis using l by (auto simp: dl_drain_def)
qed

text \<open>A reorg right after the first tick: the message of block 97 is not final yet and is skipped.\<close>

definition reorged_relayer :: "int relayer_env" where
  "reorged_relayer = sample_relayer\<lparr>re_poll := \<lambda>b w. (Inr \<lparr>pr_messages = [sample_pending], pr_head = 101,
     pr_headHash = Some ''b1'', pr_parentHash = Some ''b0'', pr_blockHeaders = None\<rparr>, w)\<rparr>"

definition before_reorg :: relayer_state where
  "before_reorg = (new_relayer reorged_relayer [])\<lparr>rl_cursor := 95,
     rl_window := [\<lparr>br_number = 100, br_hash = ''a0'', br_parentHash = ''a''\<rparr>]\<rparr>"

theorem rollback_moves_forward_witness:
  "\<exists>s. relay_tick reorged_relayer before_reorg 0 = (Inr [], s, 0) \<and> rl_cursor before_reorg = 95 \<and> rl_cursor s = 100"
proof -
  let ?pr = "\<lparr>pr_messages = [sample_pending], pr_head = 101, pr_headHash = Some ''b1'',
    pr_parentHash = Some ''b0'', pr_blockHeaders = None\<rparr>"
  have "\<exists>s. relay_tick reorged_relayer before_reorg 0 = (Inr [], s, 0) \<and> rl_cursor s = pr_head ?pr - 1
      \<and> rl_log s = rl_log before_reorg @ [LogRollback (pr_head ?pr) 1 (rl_cursor before_reorg)] \<and> rl_dead s = rl_dead before_reorg
      \<and> (rl_cursor before_reorg \<le> confirmed_head reorged_relayer (pr_head ?pr) \<and> 2 \<le> re_confirmations reorged_relayer
        \<and> re_confirmations reorged_relayer \<le> pr_head ?pr \<longrightarrow> rl_cursor before_reorg < rl_cursor s)"
    by (rule rollback_moves_forward [where h = "''b1''" and p = "''b0''" and
          prev = "\<lparr>br_number = 100, br_hash = ''a0'', br_parentHash = ''a''\<rparr>"])
       (simp_all add: before_reorg_def reorged_relayer_def sample_relayer_def linked_def block_at_def)
  then show ?thesis by (auto simp: before_reorg_def)
qed

text \<open>The fifth failure in a row.\<close>

theorem delivery_retry_budget_witness:
  "\<exists>r s. relayOne (sample_relayer\<lparr>re_deliver := \<lambda>p w. (Inl (Thrown ''reverted''), w)\<rparr>) sample_pending
       ((new_relayer sample_relayer [])\<lparr>rl_attempts :=
          [(messageKeyString (key_of sample_pending), \<lparr>rt_attempts = 4, rt_nextRetryAt = 0\<rparr>)]\<rparr>) 7 = (Inr r, s, 7)
     \<and> resolved r \<and> dl_has (rl_dead s) (key_of sample_pending)"
proof -
  let ?env = "sample_relayer\<lparr>re_deliver := \<lambda>p w. (Inl (Thrown ''reverted''), w)\<rparr>"
  let ?s = "(new_relayer sample_relayer [])\<lparr>rl_attempts :=
          [(messageKeyString (key_of sample_pending), \<lparr>rt_attempts = 4, rt_nextRetryAt = 0\<rparr>)]\<rparr>"
  have 1: "\<not> dl_has (rl_dead ?s) (key_of sample_pending)" by (simp add: new_relayer_def dl_has_def)
  have 2: "assoc_get (rl_attempts ?s) (messageKeyString (key_of sample_pending)) = Some \<lparr>rt_attempts = 4, rt_nextRetryAt = 0\<rparr>"
    by (simp add: assoc_get_def)
  then have 3: "\<not> (\<exists>st. assoc_get (rl_attempts ?s) (messageKeyString (key_of sample_pending)) = Some st \<and> re_now ?env 7 < rt_nextRetryAt st)"
    by (simp add: sample_relayer_def)
  have 4: "4 = (case assoc_get (rl_attempts ?s) (messageKeyString (key_of sample_pending)) of None \<Rightarrow> 0 | Some st \<Rightarrow> rt_attempts st)"
    by (simp only: 2 option.case) simp
  have 5: "re_isDelivered ?env (key_of sample_pending) 7 = (Inr False, 7)" "re_deliver ?env sample_pending 7 = (Inl (Thrown ''reverted''), 7)"
    "re_maxAttempts ?env \<le> 4 + 1" by (simp_all add: sample_relayer_def)
  show ?thesis using delivery_retry_budget [OF 1 3 refl 4 5(1,2)] 5(3) by blast
qed

end
