(* ===== verification/Evm_Watcher.thy ===== *)
theory Evm_Watcher
  imports Relayer_Wire Relayer_Safety
begin

text \<open>
  The EVM source watcher (\<^verbatim>\<open>relayer/src/evm-watcher.ts\<close>): scanning the escrow's logs in block ranges that
  shrink when the provider refuses them, decoding a \<open>Locked\<close> log and finding its transport nonce. The
  RPC client and viem's ABI decoders are parameters; timeouts are outcomes of the calls, and the
  concurrent header fetches are one call per block.
\<close>

section \<open>Logs\<close>

record evm_log =
  lg_blockNumber :: "int option"
  lg_topics :: "hex list"
  lg_data :: hex
  lg_transactionHash :: "hex option"
  lg_logIndex :: "int option"
  lg_eventName :: "string option"

record locked_data =
  ld_destination :: string
  ld_destAsset :: string
  ld_minDestAmount :: int
  ld_deadline :: int

record receipt_log =
  rc_address :: address
  rc_topics :: "hex list"
  rc_data :: hex

record evm_block =
  eb_hash :: "hex option"
  eb_parentHash :: "hex option"

record refund_observation =
  ro_intentHash :: hex
  ro_localTimeout :: bool
  ro_blockNumber :: int
  ro_transactionHash :: hex
  ro_logIndex :: int

text \<open>Errors by the text of their message; \<open>None\<close> is a thrown value that is not an \<open>Error\<close>.\<close>

type_synonym rpc_error = "string option"

record 'w evm_env =
  ev_getBlockNumber :: "'w \<Rightarrow> (rpc_error, int) result \<times> 'w"
  ev_getBlock :: "int \<Rightarrow> 'w \<Rightarrow> (rpc_error, evm_block) result \<times> 'w"
  ev_getLocked :: "int \<Rightarrow> int \<Rightarrow> 'w \<Rightarrow> (rpc_error, evm_log list) result \<times> 'w"
  ev_getRefunds :: "int \<Rightarrow> int \<Rightarrow> 'w \<Rightarrow> (rpc_error, evm_log list) result \<times> 'w"
  ev_getReceipt :: "hex \<Rightarrow> 'w \<Rightarrow> (rpc_error, receipt_log list) result \<times> 'w"
  ev_onRefund :: "(refund_observation \<Rightarrow> 'w \<Rightarrow> 'w) option"
  ev_nonceCounter :: "(string \<Rightarrow> 'w \<Rightarrow> (rpc_error, int) result \<times> 'w) option"
  ev_decodeLocked :: "hex \<Rightarrow> locked_data option"
  ev_decodePacket :: "hex \<Rightarrow> hex option"
  ev_endpointAddress :: "address option"
  ev_sourceEid :: int
  ev_stellarEid :: int
  ev_initialRange :: "int option"

text \<open>
  \<open>lastRefundScanBlock\<close> is nowhere declared or initialised: it starts as \<open>undefined\<close>, which is \<open>None\<close>
  here.
\<close>

record evm_watcher =
  maxRange :: int
  fallbackNonces :: "(string, int) assoc"
  lastRefundScanBlock :: "int option"

definition new_evm_watcher :: "'w evm_env \<Rightarrow> evm_watcher" where
  "new_evm_watcher env =
     \<lparr>maxRange = (case ev_initialRange env of None \<Rightarrow> 2000 | Some r \<Rightarrow> r), fallbackNonces = [],
      lastRefundScanBlock = None\<rparr>"

definition isProviderRangeError :: "rpc_error \<Rightarrow> bool" where
  "isProviderRangeError err =
     (case err of
        None \<Rightarrow> False
      | Some m \<Rightarrow> let msg = to_lower m
                   in str_includes msg ''range'' \<or> str_includes msg ''too large'' \<or> str_includes msg ''limit'')"

section \<open>Decoding\<close>

text \<open>\<open>null\<close> is \<open>Inr None\<close>; what the encoder throws is passed on.\<close>

definition decodeLockedLog :: "'w evm_env \<Rightarrow> evm_log \<Rightarrow> (wire_error, pending_message option) result" where
  "decodeLockedLog env l =
     (case lg_blockNumber l of
        None \<Rightarrow> Inr None
      | Some n \<Rightarrow>
          if n = 0 \<or> length (lg_topics l) < 4 then Inr None
          else
            case ev_decodeLocked env (lg_data l) of
              None \<Rightarrow> Inr None
            | Some d \<Rightarrow>
                let ih = lg_topics l ! 1; sol = ''0x'' @ drop 26 (lg_topics l ! 2)
                in bind_result
                     (canonicalFillInstruction ih sol (ev_stellarEid env) (ld_destination d) (ld_destAsset d)
                        (ld_minDestAmount d) (ld_deadline d))
                     (\<lambda>raw. Inr (Some
                        \<lparr>pm_message =
                           \<lparr>bm_srcEid = ev_sourceEid env, bm_dstEid = ev_stellarEid env, bm_intentHash = ih,
                            bm_messageType = FillInstruction, bm_solver = sol, bm_recipient = ld_destination d,
                            bm_destAsset = ld_destAsset d, bm_amount = int_string (ld_minDestAmount d), bm_nonce = 0,
                            bm_deadline = TextDeadline (int_string (ld_deadline d)), bm_rawPayload = raw\<rparr>,
                         srcTxHash = option_default (lg_transactionHash l) [], srcBlock = n, srcBlockHash = None\<rparr>)))"

definition decodeRefundLog :: "evm_log \<Rightarrow> refund_observation option" where
  "decodeRefundLog l =
     (case lg_blockNumber l of
        None \<Rightarrow> None
      | Some n \<Rightarrow>
          if length (lg_topics l) < 2 \<or> \<not> hex_string 64 (lg_topics l ! 1) then None
          else Some \<lparr>ro_intentHash = lg_topics l ! 1, ro_localTimeout = (lg_eventName l = Some ''RefundedLocalTimeout''),
                    ro_blockNumber = n, ro_transactionHash = option_default (lg_transactionHash l) ''0x'',
                    ro_logIndex = option_default (lg_logIndex l) 0\<rparr>)"

section \<open>Nonces\<close>

fun packet_nonce_in :: "'w evm_env \<Rightarrow> address \<Rightarrow> receipt_log list \<Rightarrow> int option" where
  "packet_nonce_in env endpoint [] = None"
| "packet_nonce_in env endpoint (l # ls) =
     (if to_lower (rc_address l) \<noteq> endpoint \<or> rc_topics l = [] then packet_nonce_in env endpoint ls
      else
        case ev_decodePacket env (rc_data l) of
          None \<Rightarrow> packet_nonce_in env endpoint ls
        | Some payload \<Rightarrow>
            (case decodePacketNonce payload of
               Inr (Some n) \<Rightarrow> Some n
             | _ \<Rightarrow> packet_nonce_in env endpoint ls))"

definition fetchPacketSentNonce :: "'w evm_env \<Rightarrow> address \<Rightarrow> hex \<Rightarrow> 'w \<Rightarrow> int option \<times> 'w" where
  "fetchPacketSentNonce env endpoint txHash w =
     (case ev_getReceipt env txHash w of
        (Inl _, w1) \<Rightarrow> (None, w1)
      | (Inr logs, w1) \<Rightarrow> (packet_nonce_in env (to_lower endpoint) logs, w1))"

definition nextFallbackNonce :: "string \<Rightarrow> evm_watcher \<Rightarrow> int \<times> evm_watcher" where
  "nextFallbackNonce pathKey s =
     (let n = option_default (assoc_get (fallbackNonces s) pathKey) 0 + 1
      in (n, s\<lparr>fallbackNonces := assoc_set pathKey n (fallbackNonces s)\<rparr>))"

definition path_key :: "'w evm_env \<Rightarrow> string" where
  "path_key env = int_string (ev_sourceEid env) @ CHR '':'' # int_string (ev_stellarEid env)"

definition never_zero :: "int \<Rightarrow> int" where
  "never_zero n = (if n = 0 then 1 else n)"

definition fallback_nonce :: "'w evm_env \<Rightarrow> evm_watcher \<Rightarrow> 'w \<Rightarrow> (rpc_error, int) result \<times> evm_watcher \<times> 'w" where
  "fallback_nonce env s w =
     (case ev_nonceCounter env of
        Some counter \<Rightarrow>
          (case counter (path_key env) w of
             (Inl err, w1) \<Rightarrow> (Inl err, s, w1)
           | (Inr n, w1) \<Rightarrow> (Inr (never_zero n), s, w1))
      | None \<Rightarrow> let (n, s1) = nextFallbackNonce (path_key env) s in (Inr (never_zero n), s1, w))"

definition resolveTransportNonce ::
  "'w evm_env \<Rightarrow> evm_log \<Rightarrow> evm_watcher \<Rightarrow> 'w \<Rightarrow> (rpc_error, int) result \<times> evm_watcher \<times> 'w" where
  "resolveTransportNonce env l s w =
     (case (ev_endpointAddress env, lg_transactionHash l) of
        (Some endpoint, Some tx) \<Rightarrow>
          if endpoint \<noteq> [] \<and> tx \<noteq> [] then
            (case fetchPacketSentNonce env endpoint tx w of
               (Some n, w1) \<Rightarrow> (Inr n, s, w1)
             | (None, w1) \<Rightarrow> fallback_nonce env s w1)
          else fallback_nonce env s w
      | _ \<Rightarrow> fallback_nonce env s w)"

definition with_nonce :: "int \<Rightarrow> pending_message \<Rightarrow> pending_message" where
  "with_nonce n p = p\<lparr>pm_message := (pm_message p)\<lparr>bm_nonce := n\<rparr>\<rparr>"

datatype watch_failure = Rpc rpc_error | Wire wire_error | Undecodable

text \<open>The body of the loop over logs: a log that does not decode ends the poll.\<close>

definition decodeLockedLogWithNonce ::
  "'w evm_env \<Rightarrow> evm_log \<Rightarrow> evm_watcher \<Rightarrow> 'w \<Rightarrow> (watch_failure, pending_message option) result \<times> evm_watcher \<times> 'w" where
  "decodeLockedLogWithNonce env l s w =
     (case decodeLockedLog env l of
        Inl err \<Rightarrow> (Inl (Wire err), s, w)
      | Inr None \<Rightarrow> (Inr None, s, w)
      | Inr (Some base) \<Rightarrow>
          (case resolveTransportNonce env l s w of
             (Inl err, s1, w1) \<Rightarrow> (Inl (Rpc err), s1, w1)
           | (Inr n, s1, w1) \<Rightarrow> (Inr (Some (with_nonce n base)), s1, w1)))"

section \<open>Polling\<close>

fun decode_logs ::
  "'w evm_env \<Rightarrow> evm_log list \<Rightarrow> evm_watcher \<Rightarrow> 'w
     \<Rightarrow> (watch_failure, pending_message list) result \<times> evm_watcher \<times> 'w" where
  "decode_logs env [] s w = (Inr [], s, w)"
| "decode_logs env (l # ls) s w =
     (case decodeLockedLogWithNonce env l s w of
        (Inl err, s1, w1) \<Rightarrow> (Inl err, s1, w1)
      | (Inr None, s1, w1) \<Rightarrow> (Inl Undecodable, s1, w1)
      | (Inr (Some p), s1, w1) \<Rightarrow>
          (case decode_logs env ls s1 w1 of
             (Inl err, s2, w2) \<Rightarrow> (Inl err, s2, w2)
           | (Inr ps, s2, w2) \<Rightarrow> (Inr (p # ps), s2, w2)))"

definition halve_range :: "evm_watcher \<Rightarrow> evm_watcher" where
  "halve_range s = s\<lparr>maxRange := max 1 (maxRange s div 2)\<rparr>"

text \<open>The blocks that emitted messages form a set; it keeps the order in which they came.\<close>

definition add_blocks :: "evm_log list \<Rightarrow> int list \<Rightarrow> int list" where
  "add_blocks logs blocks =
     foldl (\<lambda>bs l. case lg_blockNumber l of None \<Rightarrow> bs | Some n \<Rightarrow> if n \<in> set bs then bs else bs @ [n]) blocks logs"

fun scan_locked ::
  "nat \<Rightarrow> 'w evm_env \<Rightarrow> int \<Rightarrow> int \<Rightarrow> int list \<Rightarrow> pending_message list \<Rightarrow> evm_watcher \<Rightarrow> 'w
     \<Rightarrow> ((watch_failure, int list \<times> pending_message list) result \<times> evm_watcher \<times> 'w) option" where
  "scan_locked 0 env head scanHead blocks messages s w = None"
| "scan_locked (Suc k) env head scanHead blocks messages s w =
     (if head < scanHead then Some (Inr (blocks, messages), s, w)
      else
        let toBlock = min (scanHead + maxRange s - 1) head
        in case ev_getLocked env scanHead toBlock w of
             (Inl err, w1) \<Rightarrow>
               if isProviderRangeError err \<and> 1 < maxRange s
               then scan_locked k env head scanHead blocks messages (halve_range s) w1
               else Some (Inl (Rpc err), s, w1)
           | (Inr logs, w1) \<Rightarrow>
               (case decode_logs env logs s w1 of
                  (Inl err, s1, w2) \<Rightarrow> Some (Inl err, s1, w2)
                | (Inr ps, s1, w2) \<Rightarrow>
                    scan_locked k env head (toBlock + 1) (add_blocks logs blocks) (messages @ ps) s1 w2))"

fun fetch_headers ::
  "'w evm_env \<Rightarrow> int list \<Rightarrow> 'w \<Rightarrow> (rpc_error, block_record list) result \<times> 'w" where
  "fetch_headers env [] w = (Inr [], w)"
| "fetch_headers env (n # ns) w =
     (case ev_getBlock env n w of
        (Inl err, w1) \<Rightarrow> (Inl err, w1)
      | (Inr b, w1) \<Rightarrow>
          (case fetch_headers env ns w1 of
             (Inl err, w2) \<Rightarrow> (Inl err, w2)
           | (Inr hs, w2) \<Rightarrow>
               (Inr (case (eb_hash b, eb_parentHash b) of
                       (Some h, Some p) \<Rightarrow>
                         if h \<noteq> [] \<and> p \<noteq> [] then \<lparr>br_number = n, br_hash = h, br_parentHash = p\<rparr> # hs else hs
                     | _ \<Rightarrow> hs), w2)))"

fun report_refunds :: "(refund_observation \<Rightarrow> 'w \<Rightarrow> 'w) \<Rightarrow> evm_log list \<Rightarrow> 'w \<Rightarrow> 'w" where
  "report_refunds onRefund [] w = w"
| "report_refunds onRefund (l # ls) w =
     report_refunds onRefund ls (case decodeRefundLog l of None \<Rightarrow> w | Some o1 \<Rightarrow> onRefund o1 w)"

fun refund_loop ::
  "nat \<Rightarrow> 'w evm_env \<Rightarrow> (refund_observation \<Rightarrow> 'w \<Rightarrow> 'w) \<Rightarrow> int \<Rightarrow> int \<Rightarrow> evm_watcher \<Rightarrow> 'w
     \<Rightarrow> ((watch_failure, unit) result \<times> evm_watcher \<times> 'w) option" where
  "refund_loop 0 env onRefund head scanHead s w = None"
| "refund_loop (Suc k) env onRefund head scanHead s w =
     (if head < scanHead then Some (Inr (), s\<lparr>lastRefundScanBlock := Some head\<rparr>, w)
      else
        let toBlock = min (scanHead + maxRange s - 1) head
        in case ev_getRefunds env scanHead toBlock w of
             (Inl err, w1) \<Rightarrow>
               if isProviderRangeError err \<and> 1 < maxRange s
               then refund_loop k env onRefund head scanHead (halve_range s) w1
               else Some (Inl (Rpc err), s, w1)
           | (Inr logs, w1) \<Rightarrow> refund_loop k env onRefund head (toBlock + 1) s (report_refunds onRefund logs w1))"

text \<open>
  With \<open>lastRefundScanBlock\<close> undefined the start is \<open>NaN\<close>: it is not above the head, and the loop over
  it does not run.
\<close>

definition scanRefunds ::
  "nat \<Rightarrow> 'w evm_env \<Rightarrow> int \<Rightarrow> int \<Rightarrow> evm_watcher \<Rightarrow> 'w
     \<Rightarrow> ((watch_failure, unit) result \<times> evm_watcher \<times> 'w) option" where
  "scanRefunds fuel env fromBlock head s w =
     (case ev_onRefund env of
        None \<Rightarrow> Some (Inr (), s, w)
      | Some onRefund \<Rightarrow>
          (case lastRefundScanBlock s of
             None \<Rightarrow> Some (Inr (), s\<lparr>lastRefundScanBlock := Some head\<rparr>, w)
           | Some b \<Rightarrow>
               let start = max fromBlock (b + 1)
               in if head < start then Some (Inr (), s, w)
                  else refund_loop fuel env onRefund head start s w))"

definition evm_poll ::
  "nat \<Rightarrow> 'w evm_env \<Rightarrow> int \<Rightarrow> evm_watcher \<Rightarrow> 'w
     \<Rightarrow> ((watch_failure, poll_result) result \<times> evm_watcher \<times> 'w) option" where
  "evm_poll fuel env fromBlock s w =
     (case ev_getBlockNumber env w of
        (Inl err, w1) \<Rightarrow> Some (Inl (Rpc err), s, w1)
      | (Inr head, w1) \<Rightarrow>
          (case ev_getBlock env head w1 of
             (Inl err, w2) \<Rightarrow> Some (Inl (Rpc err), s, w2)
           | (Inr latest, w2) \<Rightarrow>
               (case scan_locked fuel env head fromBlock [] [] s w2 of
                  None \<Rightarrow> None
                | Some (Inl err, s1, w3) \<Rightarrow> Some (Inl err, s1, w3)
                | Some (Inr (blocks, messages), s1, w3) \<Rightarrow>
                    (case (if eb_hash latest \<noteq> None \<and> eb_parentHash latest \<noteq> None
                           then fetch_headers env blocks w3 else (Inr [], w3)) of
                       (Inl err, w4) \<Rightarrow> Some (Inl (Rpc err), s1, w4)
                     | (Inr headers, w4) \<Rightarrow>
                         (case scanRefunds fuel env fromBlock head s1 w4 of
                            None \<Rightarrow> None
                          | Some (Inl err, s2, w5) \<Rightarrow> Some (Inl err, s2, w5)
                          | Some (Inr _, s2, w5) \<Rightarrow>
                              Some (Inr \<lparr>pr_messages = messages, pr_head = head, pr_headHash = eb_hash latest,
                                        pr_parentHash = eb_parentHash latest,
                                        pr_blockHeaders = (if headers = [] then None else Some headers)\<rparr>, s2, w5))))))"

section \<open>A scan covers its range\<close>

text \<open>A provider that answers with the logs of the blocks it is asked for, block by block.\<close>

definition logs_between :: "(int \<Rightarrow> evm_log list) \<Rightarrow> int \<Rightarrow> int \<Rightarrow> evm_log list" where
  "logs_between emitted a b = concat (map emitted [a..b])"

definition faithful_logs :: "'w evm_env \<Rightarrow> (int \<Rightarrow> evm_log list) \<Rightarrow> bool" where
  "faithful_logs env emitted \<longleftrightarrow>
     (\<forall>a b w logs w'. ev_getLocked env a b w = (Inr logs, w') \<longrightarrow> logs = logs_between emitted a b)"

definition decodes_to :: "'w evm_env \<Rightarrow> evm_log \<Rightarrow> pending_message \<Rightarrow> bool" where
  "decodes_to env l p \<longleftrightarrow> (\<exists>base n. decodeLockedLog env l = Inr (Some base) \<and> p = with_nonce n base)"

lemma logs_between_split: "a \<le> b + 1 \<Longrightarrow> b \<le> c \<Longrightarrow> logs_between emitted a c = logs_between emitted a b @ logs_between emitted (b + 1) c"
proof (cases "b < c")
  case True
  assume "a \<le> b + 1"
  then have "[a..c] = [a..b] @ [b + 1..c]" using True upto_split1 [of a "b + 1" c] by simp
  then show ?thesis by (simp add: logs_between_def)
qed (simp add: logs_between_def)

lemma logs_between_empty: "b < a \<Longrightarrow> logs_between emitted a b = []"
  by (simp add: logs_between_def)

lemma decode_logs_all:
  "decode_logs env ls s w = (Inr ps, s', w') \<Longrightarrow> list_all2 (decodes_to env) ls ps \<and> maxRange s' = maxRange s"
proof (induction ls arbitrary: s w ps)
  case (Cons l ls)
  obtain r s1 w1 where one: "decodeLockedLogWithNonce env l s w = (r, s1, w1)" by (metis prod_cases3)
  with Cons.prems obtain p where r: "r = Inr (Some p)" by (auto split: sum.splits option.splits)
  have "decodes_to env l p \<and> maxRange s1 = maxRange s"
    using one r
    by (auto simp: decodeLockedLogWithNonce_def decodes_to_def resolveTransportNonce_def fallback_nonce_def
        nextFallbackNonce_def Let_def split: sum.splits option.splits prod.splits if_splits)
  moreover obtain qs where "decode_logs env ls s1 w1 = (Inr qs, s', w')" "ps = p # qs"
    using Cons.prems one r by (auto split: sum.splits prod.splits)
  ultimately show ?case using Cons.IH by fastforce
qed simp

lemma decode_logs_range: "maxRange (fst (snd (decode_logs env ls s w))) = maxRange s"
proof (induction ls arbitrary: s w)
  case (Cons l ls)
  obtain r s1 w1 where one: "decodeLockedLogWithNonce env l s w = (r, s1, w1)" by (metis prod_cases3)
  then have "maxRange s1 = maxRange s"
    by (auto simp: decodeLockedLogWithNonce_def resolveTransportNonce_def fallback_nonce_def
        nextFallbackNonce_def Let_def split: sum.splits option.splits prod.splits if_splits)
  then show ?case using Cons [of s1 w1] one by (auto split: sum.splits option.splits prod.splits)
qed simp

text \<open>A range below one block never gets past its first block: such a scan does not succeed.\<close>

lemma scan_locked_stuck:
  "maxRange s < 1 \<Longrightarrow> a \<le> head \<Longrightarrow> scan_locked k env head a blocks ms s w \<noteq> Some (Inr r, s', w')"
proof (induction k arbitrary: a blocks ms s w)
  case (Suc k)
  let ?b = "min (a + maxRange s - 1) head"
  obtain g w1 where get: "ev_getLocked env a ?b w = (g, w1)" by fastforce
  show ?case
  proof (cases g)
    case (Inl err)
    then show ?thesis using Suc.prems get by (auto simp: Let_def)
  next
    case (Inr logs)
    obtain d s1 w2 where dec: "decode_logs env logs s w1 = (d, s1, w2)" by (metis prod_cases3)
    have "maxRange s1 < 1" using decode_logs_range [of env logs s w1] dec Suc.prems(1) by simp
    moreover have "?b + 1 \<le> head" using Suc.prems by auto
    ultimately show ?thesis using Suc.IH Suc.prems get Inr dec by (cases d) (auto simp: Let_def)
  qed
qed simp

lemma scan_locked_complete:
  assumes "faithful_logs env emitted" and "\<forall>n. \<forall>l \<in> set (emitted n). Q l"
    and R: "\<And>ls s w ps s' w'. \<forall>l \<in> set ls. Q l \<Longrightarrow> decode_logs env ls s w = (Inr ps, s', w') \<Longrightarrow> list_all2 R ls ps"
  shows "scan_locked k env head a blocks ms s w = Some (Inr (blocks', ms'), s', w') \<Longrightarrow>
    \<exists>ps. ms' = ms @ ps \<and> list_all2 R (logs_between emitted a head) ps"
proof (induction k arbitrary: a blocks ms s w)
  case (Suc k)
  let ?b = "min (a + maxRange s - 1) head"
  show ?case
  proof (cases "head < a")
    case True
    then show ?thesis using Suc.prems by (simp add: logs_between_empty)
  next
    case False
    have range: "1 \<le> maxRange s"
    proof (rule ccontr)
      assume "\<not> 1 \<le> maxRange s"
      then have "maxRange s < 1" "a \<le> head" using False by simp_all
      then show False using Suc.prems by (metis scan_locked_stuck)
    qed
    obtain r w1 where get: "ev_getLocked env a ?b w = (r, w1)" by fastforce
    show ?thesis
    proof (cases r)
      case (Inl err)
      then have "scan_locked k env head a blocks ms (halve_range s) w1 = Some (Inr (blocks', ms'), s', w')"
        using Suc.prems False get by (auto simp: Let_def split: if_splits)
      then show ?thesis using Suc.IH by blast
    next
      case (Inr logs)
      have logs: "logs = logs_between emitted a ?b" using assms(1) get Inr unfolding faithful_logs_def by blast
      obtain d s1 w2 where dec: "decode_logs env logs s w1 = (d, s1, w2)" by (metis prod_cases3)
      then obtain ps where d: "d = Inr ps" using Suc.prems False get Inr by (cases d) (auto simp: Let_def)
      then have "scan_locked k env head (?b + 1) (add_blocks logs blocks) (ms @ ps) s1 w2
          = Some (Inr (blocks', ms'), s', w')"
        using Suc.prems False get Inr dec by (simp add: Let_def)
      then obtain qs where qs: "ms' = (ms @ ps) @ qs" "list_all2 R (logs_between emitted (?b + 1) head) qs"
        using Suc.IH by metis
      have "\<forall>l \<in> set logs. Q l" using assms(2) by (auto simp: logs logs_between_def)
      then have "list_all2 R logs ps" using R dec [unfolded d] by blast
      moreover have "logs_between emitted a head = logs @ logs_between emitted (?b + 1) head"
        unfolding logs using False range by (intro logs_between_split) auto
      ultimately have "list_all2 R (logs_between emitted a head) (ps @ qs)"
        using qs(2) by (simp add: list_all2_appendI)
      then show ?thesis using qs(1) by auto
    qed
  qed
qed simp

lemma halve_range_less: "1 < maxRange s \<Longrightarrow> 1 \<le> maxRange (halve_range s) \<and> maxRange (halve_range s) < maxRange s"
  by (auto simp: halve_range_def)

text \<open>Each round either passes a block or shrinks the range: the fuel is their sum.\<close>

lemma scan_locked_returns:
  "nat (head - a + 1) + nat (maxRange s) < k \<Longrightarrow> 1 \<le> maxRange s \<Longrightarrow> \<exists>r. scan_locked k env head a blocks ms s w = Some r"
proof (induction k arbitrary: a blocks ms s w)
  case (Suc k)
  let ?b = "min (a + maxRange s - 1) head"
  show ?case
  proof (cases "head < a")
    case False
    obtain r w1 where get: "ev_getLocked env a ?b w = (r, w1)" by fastforce
    show ?thesis
    proof (cases r)
      case (Inl err)
      show ?thesis
      proof (cases "isProviderRangeError err \<and> 1 < maxRange s")
        case True
        then have "nat (head - a + 1) + nat (maxRange (halve_range s)) < k" "1 \<le> maxRange (halve_range s)"
          using halve_range_less [of s] Suc.prems by auto
        then show ?thesis using Suc.IH True False get Inl by (simp add: Let_def)
      next
        case no: False
        then show ?thesis using False get Inl by (auto simp: Let_def)
      qed
    next
      case (Inr logs)
      obtain d s1 w2 where dec: "decode_logs env logs s w1 = (d, s1, w2)" by (metis prod_cases3)
      then have "maxRange s1 = maxRange s" using decode_logs_range [of env logs s w1] by simp
      moreover have "a \<le> ?b" using False Suc.prems(2) by auto
      ultimately have "nat (head - (?b + 1) + 1) + nat (maxRange s1) < k" "1 \<le> maxRange s1" using Suc.prems by auto
      then show ?thesis using Suc.IH False get Inr dec by (cases d) (simp_all add: Let_def)
    qed
  qed simp
qed simp

lemma scan_locked_range:
  "scan_locked k env head a blocks ms s w = Some (r, s', w') \<Longrightarrow> 1 \<le> maxRange s \<Longrightarrow>
     1 \<le> maxRange s' \<and> maxRange s' \<le> maxRange s"
proof (induction k arbitrary: a blocks ms s w)
  case (Suc k)
  let ?b = "min (a + maxRange s - 1) head"
  show ?case
  proof (cases "head < a")
    case False
    obtain g w1 where get: "ev_getLocked env a ?b w = (g, w1)" by fastforce
    show ?thesis
    proof (cases g)
      case (Inl err)
      show ?thesis
      proof (cases "isProviderRangeError err \<and> 1 < maxRange s")
        case True
        then have "scan_locked k env head a blocks ms (halve_range s) w1 = Some (r, s', w')"
          using Suc.prems False get Inl by (simp add: Let_def)
        then show ?thesis using Suc.IH True halve_range_less [of s] by fastforce
      next
        case no: False
        then show ?thesis using Suc.prems False get Inl by (auto simp: Let_def)
      qed
    next
      case (Inr logs)
      obtain d s1 w2 where dec: "decode_logs env logs s w1 = (d, s1, w2)" by (metis prod_cases3)
      then have "maxRange s1 = maxRange s" using decode_logs_range [of env logs s w1] by simp
      then show ?thesis using Suc False get Inr dec by (cases d) (fastforce simp: Let_def)+
    qed
  qed (use Suc.prems in simp)
qed simp

lemma refund_loop_returns:
  "nat (head - a + 1) + nat (maxRange s) < k \<Longrightarrow> 1 \<le> maxRange s \<Longrightarrow> \<exists>r. refund_loop k env f head a s w = Some r"
proof (induction k arbitrary: a s w)
  case (Suc k)
  let ?b = "min (a + maxRange s - 1) head"
  show ?case
  proof (cases "head < a")
    case False
    obtain r w1 where get: "ev_getRefunds env a ?b w = (r, w1)" by fastforce
    show ?thesis
    proof (cases r)
      case (Inl err)
      show ?thesis
      proof (cases "isProviderRangeError err \<and> 1 < maxRange s")
        case True
        then have "nat (head - a + 1) + nat (maxRange (halve_range s)) < k" "1 \<le> maxRange (halve_range s)"
          using halve_range_less [of s] Suc.prems by auto
        then show ?thesis using Suc.IH True False get Inl by (simp add: Let_def)
      next
        case no: False
        then show ?thesis using False get Inl by (auto simp: Let_def)
      qed
    next
      case (Inr logs)
      have "a \<le> ?b" using False Suc.prems(2) by auto
      then have "nat (head - (?b + 1) + 1) + nat (maxRange s) < k" using Suc.prems by auto
      then show ?thesis using Suc False get Inr by (simp add: Let_def)
    qed
  qed simp
qed simp

lemma scanRefunds_returns:
  assumes "nat (head - a + 1) + nat (maxRange s) < k" and "1 \<le> maxRange s"
  shows "\<exists>r. scanRefunds k env a head s w = Some r"
proof -
  have "\<exists>r. refund_loop k env f head (max a (b + 1)) s w = Some r" for f b
    using assms by (intro refund_loop_returns) auto
  then show ?thesis by (simp add: scanRefunds_def Let_def split: option.split)
qed

lemma refund_loop_range:
  "refund_loop k env f head a s w = Some (r, s', w') \<Longrightarrow> 1 \<le> maxRange s \<Longrightarrow>
     1 \<le> maxRange s' \<and> maxRange s' \<le> maxRange s"
proof (induction k arbitrary: a s w)
  case (Suc k)
  let ?b = "min (a + maxRange s - 1) head"
  show ?case
  proof (cases "head < a")
    case False
    obtain g w1 where get: "ev_getRefunds env a ?b w = (g, w1)" by fastforce
    show ?thesis
    proof (cases "\<exists>err. g = Inl err \<and> isProviderRangeError err \<and> 1 < maxRange s")
      case True
      then have "refund_loop k env f head a (halve_range s) w1 = Some (r, s', w')"
        using Suc.prems False get by (auto simp: Let_def)
      then show ?thesis using Suc.IH True halve_range_less [of s] by fastforce
    next
      case no: False
      then show ?thesis using Suc False get by (cases g) (auto simp: Let_def)
    qed
  qed (use Suc.prems in auto)
qed simp

lemma scanRefunds_range:
  "scanRefunds k env a head s w = Some (r, s', w') \<Longrightarrow> 1 \<le> maxRange s \<Longrightarrow> 1 \<le> maxRange s' \<and> maxRange s' \<le> maxRange s"
  by (auto simp: scanRefunds_def Let_def dest: refund_loop_range split: option.splits if_splits)

text \<open>The steps of a poll that succeeds.\<close>

lemma evm_pollE:
  assumes "evm_poll k env a s w = Some (Inr pr, s', w')"
  obtains latest w1 w2 blocks s1 w3 headers w4 where
    "ev_getBlockNumber env w = (Inr (pr_head pr), w1)" and "ev_getBlock env (pr_head pr) w1 = (Inr latest, w2)"
    and "scan_locked k env (pr_head pr) a [] [] s w2 = Some (Inr (blocks, pr_messages pr), s1, w3)"
    and "(if eb_hash latest \<noteq> None \<and> eb_parentHash latest \<noteq> None
          then fetch_headers env blocks w3 else (Inr [], w3)) = (Inr headers, w4)"
    and "scanRefunds k env a (pr_head pr) s1 w4 = Some (Inr (), s', w')"
    and "pr_headHash pr = eb_hash latest" and "pr_parentHash pr = eb_parentHash latest"
    and "pr_blockHeaders pr = (if headers = [] then None else Some headers)"
  using assms unfolding evm_poll_def
  by (simp split: prod.splits sum.splits option.splits) (auto split: prod.splits)

lemma evm_poll_returns:
  assumes "1 \<le> maxRange s"
  shows "\<exists>k. evm_poll k env fromBlock s w \<noteq> None"
proof -
  obtain h w1 where n: "ev_getBlockNumber env w = (h, w1)" by fastforce
  show ?thesis
  proof (cases h)
    case (Inl err)
    then show ?thesis by (simp add: evm_poll_def n)
  next
    case (Inr head)
    obtain b w2 where l: "ev_getBlock env head w1 = (b, w2)" by fastforce
    obtain k where k: "nat (head - fromBlock + 1) + nat (maxRange s) < k" by blast
    obtain r s1 w3 where scan: "scan_locked k env head fromBlock [] [] s w2 = Some (r, s1, w3)"
      using scan_locked_returns [OF k assms] by (metis prod_cases3)
    have "1 \<le> maxRange s1" "nat (head - fromBlock + 1) + nat (maxRange s1) < k"
      using scan_locked_range [OF scan assms] k by auto
    then have refunds: "\<exists>r. scanRefunds k env fromBlock head s1 w = Some r" for w
      by (intro scanRefunds_returns)
    show ?thesis
    proof (cases b)
      case (Inl err)
      then show ?thesis using Inr by (simp add: evm_poll_def n l)
    next
      case blk: (Inr latest)
      show ?thesis
      proof (cases r)
        case (Inl err)
        then show ?thesis using Inr blk scan by (intro exI [of _ k]) (simp add: evm_poll_def n l)
      next
        case (Inr bm)
        let ?f = "if eb_hash latest \<noteq> None \<and> eb_parentHash latest \<noteq> None
            then fetch_headers env (fst bm) w3 else (Inr [], w3)"
        obtain x w4 where f: "?f = (x, w4)" by fastforce
        obtain q where q: "scanRefunds k env fromBlock head s1 w4 = Some q" using refunds by blast
        show ?thesis
          using \<open>h = Inr head\<close> blk scan Inr f q
          by (intro exI [of _ k]) (cases bm; cases x; auto simp: evm_poll_def n l split: sum.split prod.split)
      qed
    qed
  qed
qed

lemma evm_poll_decodes:
  assumes "faithful_logs env emitted" and "1 \<le> maxRange s"
    and "evm_poll fuel env fromBlock s w = Some (Inr pr, s', w')"
  shows "list_all2 (decodes_to env) (logs_between emitted fromBlock (pr_head pr)) (pr_messages pr)
    \<and> 1 \<le> maxRange s' \<and> maxRange s' \<le> maxRange s"
proof -
  from assms(3) obtain w2 blocks s1 w3 w4 where
    scan: "scan_locked fuel env (pr_head pr) fromBlock [] [] s w2 = Some (Inr (blocks, pr_messages pr), s1, w3)"
    and ref: "scanRefunds fuel env fromBlock (pr_head pr) s1 w4 = Some (Inr (), s', w')"
    by (rule evm_pollE)
  have "\<exists>ps. pr_messages pr = [] @ ps
      \<and> list_all2 (decodes_to env) (logs_between emitted fromBlock (pr_head pr)) ps"
    by (rule scan_locked_complete [where Q = "\<lambda>l. True", OF assms(1) _ _ scan]) (auto dest: decode_logs_all)
  then have all: "list_all2 (decodes_to env) (logs_between emitted fromBlock (pr_head pr)) (pr_messages pr)" by simp
  show "list_all2 (decodes_to env) (logs_between emitted fromBlock (pr_head pr)) (pr_messages pr)
      \<and> 1 \<le> maxRange s' \<and> maxRange s' \<le> maxRange s"
    using all scan_locked_range [OF scan assms(2)] scanRefunds_range [OF ref] by simp
qed

section \<open>Properties\<close>

text \<open>
  C21. A poll of the EVM chain is complete: with enough fuel it returns, however often the provider refuses
  a range and the range is halved; and when it succeeds its messages are, one for one and in order, the
  decoded \<open>Locked\<close> logs of all blocks from the start to the head.
\<close>

theorem evm_poll_complete:
  assumes "faithful_logs env emitted" and "1 \<le> maxRange s"
  shows "(\<exists>k. evm_poll k env fromBlock s w \<noteq> None)
    \<and> (evm_poll fuel env fromBlock s w = Some (Inr pr, s', w') \<longrightarrow>
        list_all2 (decodes_to env) (logs_between emitted fromBlock (pr_head pr)) (pr_messages pr)
        \<and> 1 \<le> maxRange s' \<and> maxRange s' \<le> maxRange s)"
  by (intro conjI impI, rule evm_poll_returns [OF assms(2)])
    (use evm_poll_decodes [OF assms] in blast)+

definition sample_locked_log :: evm_log where
  "sample_locked_log =
     \<lparr>lg_blockNumber = Some 97,
      lg_topics = [''0x'', ''0x'' @ replicate 64 (CHR ''a''), ''0x'' @ replicate 64 (CHR ''0''), ''0x''],
      lg_data = ''0xd'', lg_transactionHash = Some ''0x01'', lg_logIndex = Some 0, lg_eventName = None\<rparr>"

definition sample_evm :: "unit evm_env" where
  "sample_evm =
     \<lparr>ev_getBlockNumber = \<lambda>w. (Inr 98, w), ev_getBlock = \<lambda>n w. (Inr \<lparr>eb_hash = Some ''a'', eb_parentHash = Some ''a''\<rparr>, w),
      ev_getLocked = \<lambda>a b w. (Inr (if a \<le> 97 \<and> 97 \<le> b then [sample_locked_log] else []), w),
      ev_getRefunds = \<lambda>a b w. (Inr [], w), ev_getReceipt = \<lambda>h w. (Inr [], w), ev_onRefund = Some (\<lambda>r w. w),
      ev_nonceCounter = None,
      ev_decodeLocked = \<lambda>d. Some \<lparr>ld_destination = ''G'', ld_destAsset = ''native'', ld_minDestAmount = 5, ld_deadline = 9\<rparr>,
      ev_decodePacket = \<lambda>d. None, ev_endpointAddress = None, ev_sourceEid = 30101, ev_stellarEid = 40161,
      ev_initialRange = Some 2\<rparr>"

lemma sample_canonical:
  "\<exists>h. canonicalFillInstruction (''0x'' @ replicate 64 (CHR ''a'')) (''0x'' @ replicate 40 (CHR ''0'')) 40161
        ''G'' ''native'' 5 9 = Inr h"
proof -
  have "hex_string 64 (''0x'' @ replicate 64 (CHR ''a''))" "hex_string 40 (''0x'' @ replicate 40 (CHR ''0''))"
    by (simp_all add: hex_string_def list_all_iff char_class_defs)
  moreover have "utf8_bytes ''G'' = [71]" "utf8_bytes ''native'' = [110, 97, 116, 105, 118, 101]"
    by (simp_all add: utf8_bytes_def utf8_char_def char_code_def)
  ultimately show ?thesis by (simp add: canonicalFillInstruction_def Let_def)
qed

lemma sample_decodes: "\<exists>base. decodeLockedLog sample_evm sample_locked_log = Inr (Some base) \<and> srcBlock base = 97"
  using sample_canonical
  by (auto simp: decodeLockedLog_def sample_evm_def sample_locked_log_def Let_def)

definition sample_emitted :: "int \<Rightarrow> evm_log list" where
  "sample_emitted n = (if n = 97 then [sample_locked_log] else [])"

lemma sample_logs_between: "logs_between sample_emitted a b = (if a \<le> 97 \<and> 97 \<le> b then [sample_locked_log] else [])"
proof (cases "a \<le> 97 \<and> 97 \<le> b")
  case True
  have none: "concat (map sample_emitted xs) = []" if "97 \<notin> set xs" for xs
    using that by (induction xs) (auto simp: sample_emitted_def)
  have "[a..b] = [a..96] @ 97 # [98..b]" using True upto_split1 [of a 97 b] upto_rec1 [of 97 b] by simp
  moreover have "concat (map sample_emitted [a..96]) = []" "concat (map sample_emitted [98..b]) = []"
    by (rule none; simp)+
  moreover have "sample_emitted 97 = [sample_locked_log]" by (simp add: sample_emitted_def)
  ultimately show ?thesis using True by (simp add: logs_between_def del: concat_eq_Nil_conv)
qed (auto simp: logs_between_def sample_emitted_def)

lemma sample_faithful_logs: "faithful_logs sample_evm sample_emitted"
  by (auto simp: faithful_logs_def sample_logs_between) (auto simp: sample_evm_def)

theorem evm_poll_complete_witness:
  "\<exists>k. evm_poll k sample_evm 90 (new_evm_watcher sample_evm) () \<noteq> None"
proof -
  have "1 \<le> maxRange (new_evm_watcher sample_evm)" by (simp add: new_evm_watcher_def sample_evm_def)
  then show ?thesis using evm_poll_complete [OF sample_faithful_logs] by blast
qed

lemma refund_loop_local:
  assumes "\<forall>a b w. head < a \<longrightarrow> g a b w = ev_getRefunds env a b w"
  shows "head < c \<Longrightarrow> 1 \<le> maxRange s \<Longrightarrow>
    refund_loop k env h head1 c s w = refund_loop k (env\<lparr>ev_getRefunds := g\<rparr>) h head1 c s w"
proof (induction k arbitrary: c s w)
  case (Suc k)
  let ?b = "min (c + maxRange s - 1) head1"
  obtain r w1 where get: "ev_getRefunds env c ?b w = (r, w1)" by fastforce
  then have get': "g c ?b w = (r, w1)" using assms Suc.prems(1) by metis
  show ?case
  proof (cases "head1 < c")
    case False
    then have "head < ?b + 1" using Suc.prems by auto
    then show ?thesis
      using Suc.IH [of "?b + 1" s] Suc.IH [of c "halve_range s"] Suc.prems False get get' halve_range_less [of s]
      by (cases r) (simp_all add: Let_def)
  qed simp
qed simp

lemma refund_loop_last:
  "refund_loop k env h head1 c s w = Some (r, s', w') \<Longrightarrow>
     lastRefundScanBlock s' = lastRefundScanBlock s \<or> lastRefundScanBlock s' = Some head1"
proof (induction k arbitrary: c s w)
  case (Suc k)
  let ?b = "min (c + maxRange s - 1) head1"
  obtain g w1 where get: "ev_getRefunds env c ?b w = (g, w1)" by fastforce
  have "lastRefundScanBlock (halve_range s) = lastRefundScanBlock s" by (simp add: halve_range_def)
  then show ?case
    using Suc.IH [of "?b + 1" s] Suc.IH [of c "halve_range s" w1] Suc.prems get
    by (cases g) (auto simp: Let_def split: if_splits)
qed simp

text \<open>
  The refunds of the first poll are never reported: the block the refund scan continues from is not
  initialised, so the first scan looks at no log and only remembers its head, and no later scan asks for
  a block up to that head; whatever refund events lie there, nobody hears of them.
\<close>

theorem first_refunds_missed:
  assumes "ev_onRefund env = Some f" and "lastRefundScanBlock s = None"
    and "\<forall>a b w. head < a \<longrightarrow> g a b w = ev_getRefunds env a b w"
  shows "scanRefunds k env a head s w = Some (Inr (), s\<lparr>lastRefundScanBlock := Some head\<rparr>, w)
    \<and> (lastRefundScanBlock s1 = Some b \<and> head \<le> b \<and> 1 \<le> maxRange s1 \<longrightarrow>
         scanRefunds n env a1 head1 s1 w1 = scanRefunds n (env\<lparr>ev_getRefunds := g\<rparr>) a1 head1 s1 w1
         \<and> (\<forall>r s2 w2. scanRefunds n env a1 head1 s1 w1 = Some (r, s2, w2) \<longrightarrow>
              (\<exists>b2. lastRefundScanBlock s2 = Some b2 \<and> b \<le> b2)))"
proof (intro conjI impI)
  show "scanRefunds k env a head s w = Some (Inr (), s\<lparr>lastRefundScanBlock := Some head\<rparr>, w)"
    using assms(1,2) by (simp add: scanRefunds_def)
next
  assume s1: "lastRefundScanBlock s1 = Some b \<and> head \<le> b \<and> 1 \<le> maxRange s1"
  then have "refund_loop n env f head1 (max a1 (b + 1)) s1 w1
      = refund_loop n (env\<lparr>ev_getRefunds := g\<rparr>) f head1 (max a1 (b + 1)) s1 w1"
    by (intro refund_loop_local [OF assms(3)]) auto
  then show "scanRefunds n env a1 head1 s1 w1 = scanRefunds n (env\<lparr>ev_getRefunds := g\<rparr>) a1 head1 s1 w1"
    using assms(1) s1 by (simp add: scanRefunds_def Let_def)
next
  assume s1: "lastRefundScanBlock s1 = Some b \<and> head \<le> b \<and> 1 \<le> maxRange s1"
  show "\<forall>r s2 w2. scanRefunds n env a1 head1 s1 w1 = Some (r, s2, w2) \<longrightarrow>
      (\<exists>b2. lastRefundScanBlock s2 = Some b2 \<and> b \<le> b2)"
    using assms(1) s1
    by (auto simp: scanRefunds_def Let_def dest!: refund_loop_last split: if_splits)
qed

theorem first_refunds_missed_witness:
  "scanRefunds 3 sample_evm 90 98 (new_evm_watcher sample_evm) ()
     = Some (Inr (), (new_evm_watcher sample_evm)\<lparr>lastRefundScanBlock := Some 98\<rparr>, ())"
proof -
  have "ev_onRefund sample_evm = Some (\<lambda>r w. w)" "lastRefundScanBlock (new_evm_watcher sample_evm) = None"
    by (simp_all add: sample_evm_def new_evm_watcher_def)
  then show ?thesis using first_refunds_missed [where g = "ev_getRefunds sample_evm"] by blast
qed

end
