(* ===== verification/Evm_Relay.thy ===== *)
theory Evm_Relay
  imports Evm_Watcher
begin

text \<open>
  The relay loop over the EVM watcher, composed as in \<^verbatim>\<open>relayer/src/cli.ts\<close>: the state of the world is the
  watcher's own state beside the rest.
\<close>

section \<open>The composition\<close>

definition on_rest :: "('v \<Rightarrow> 'r \<times> 'v) \<Rightarrow> evm_watcher \<times> 'v \<Rightarrow> 'r \<times> (evm_watcher \<times> 'v)" where
  "on_rest f w = (case f (snd w) of (r, v) \<Rightarrow> (r, (fst w, v)))"

definition watch_thrown :: "watch_failure \<Rightarrow> relay_thrown" where
  "watch_thrown e =
     Thrown (case e of
               Rpc err \<Rightarrow> option_default err []
             | Wire _ \<Rightarrow> ''canonical field''
             | Undecodable \<Rightarrow> ''Failed to decode Locked event'')"

text \<open>A poll that runs out of fuel counts as failed; \<open>evm_poll_complete\<close> gives enough fuel.\<close>

definition watcher_poll ::
  "nat \<Rightarrow> 'v evm_env \<Rightarrow> int \<Rightarrow> evm_watcher \<times> 'v \<Rightarrow> (relay_thrown, poll_result) result \<times> (evm_watcher \<times> 'v)" where
  "watcher_poll fuel ev b w =
     (case evm_poll fuel ev b (fst w) (snd w) of
        None \<Rightarrow> (Inl (Thrown []), w)
      | Some (Inl e, s, v) \<Rightarrow> (Inl (watch_thrown e), (s, v))
      | Some (Inr pr, s, v) \<Rightarrow> (Inr pr, (s, v)))"

definition evm_relayer :: "nat \<Rightarrow> 'v evm_env \<Rightarrow> 'v relayer_env \<Rightarrow> (evm_watcher \<times> 'v) relayer_env" where
  "evm_relayer fuel ev env =
     \<lparr>re_poll = watcher_poll fuel ev,
      re_isDelivered = \<lambda>k. on_rest (re_isDelivered env k),
      re_deliver = \<lambda>p. on_rest (re_deliver env p),
      re_reportStatus = \<lambda>h st t. on_rest (re_reportStatus env h st t),
      re_loadCheckpoint = on_rest (re_loadCheckpoint env),
      re_saveCheckpoint = \<lambda>c. on_rest (re_saveCheckpoint env c),
      re_persist = \<lambda>q. on_rest (re_persist env q),
      re_now = \<lambda>w. re_now env (snd w), re_random = \<lambda>w. re_random env (snd w),
      re_sleep = \<lambda>ms w. (fst w, re_sleep env ms (snd w)), re_running = \<lambda>w. re_running env (snd w),
      re_confirmations = re_confirmations env, re_startBlock = re_startBlock env,
      re_maxAttempts = re_maxAttempts env, re_baseBackoffMs = re_baseBackoffMs env,
      re_mempoolUrl = re_mempoolUrl env, re_mempoolStatusToken = re_mempoolStatusToken env,
      re_backoffConfig = re_backoffConfig env\<rparr>"

section \<open>With the packets' nonces\<close>

text \<open>
  The endpoint is configured and the receipt of every lock transaction shows the packet, so that a lock
  has one nonce.
\<close>

definition receipts_available :: "'v evm_env \<Rightarrow> (int \<Rightarrow> evm_log list) \<Rightarrow> (evm_log \<Rightarrow> int) \<Rightarrow> bool" where
  "receipts_available ev emitted pnonce \<longleftrightarrow>
     (\<exists>ep. ev_endpointAddress ev = Some ep \<and> ep \<noteq> []
       \<and> (\<forall>n. \<forall>l \<in> set (emitted n). \<exists>tx. lg_transactionHash l = Some tx \<and> tx \<noteq> []
            \<and> (\<forall>v. \<exists>logs v'. ev_getReceipt ev tx v = (Inr logs, v') \<and> packet_nonce_in ev (to_lower ep) logs = Some (pnonce l))))"

definition lock_messages :: "'v evm_env \<Rightarrow> (int \<Rightarrow> evm_log list) \<Rightarrow> (evm_log \<Rightarrow> int) \<Rightarrow> pending_message set" where
  "lock_messages ev emitted pnonce =
     {with_nonce (pnonce l) base | l base. (\<exists>n. l \<in> set (emitted n)) \<and> decodeLockedLog ev l = Inr (Some base)}"

definition one_chain :: "'v evm_env \<Rightarrow> (int \<Rightarrow> hex) \<Rightarrow> bool" where
  "one_chain ev chain \<longleftrightarrow>
     (\<forall>v h v'. ev_getBlockNumber ev v = (Inr h, v') \<longrightarrow> 0 \<le> h)
     \<and> (\<forall>n v b v'. ev_getBlock ev n v = (Inr b, v') \<longrightarrow>
          (\<forall>h. eb_hash b = Some h \<longrightarrow> h = chain n) \<and> (\<forall>h. eb_parentHash b = Some h \<longrightarrow> h = chain (n - 1)))"

definition numbered :: "(int \<Rightarrow> evm_log list) \<Rightarrow> bool" where
  "numbered emitted \<longleftrightarrow> (\<forall>n. \<forall>l \<in> set (emitted n). lg_blockNumber l = Some n)"

lemma srcBlock_with_nonce [simp]: "srcBlock (with_nonce n p) = srcBlock p"
  by (simp add: with_nonce_def)

lemma decodeLockedLog_block: "decodeLockedLog ev l = Inr (Some base) \<Longrightarrow> lg_blockNumber l = Some (srcBlock base)"
  by (auto simp: decodeLockedLog_def Let_def bind_result_Inr_iff split: option.splits if_splits)

lemma decode_logs_nonces:
  assumes "receipts_available ev emitted pnonce"
  shows "\<forall>l \<in> set ls. \<exists>n. l \<in> set (emitted n) \<Longrightarrow> decode_logs ev ls s v = (Inr ps, s', v') \<Longrightarrow>
    list_all2 (\<lambda>l p. \<exists>base. decodeLockedLog ev l = Inr (Some base) \<and> p = with_nonce (pnonce l) base) ls ps"
proof (induction ls arbitrary: s v ps)
  case (Cons l ls)
  obtain r s1 v1 where one: "decodeLockedLogWithNonce ev l s v = (r, s1, v1)" by (metis prod_cases3)
  with Cons.prems obtain p where r: "r = Inr (Some p)" by (auto split: sum.splits option.splits)
  obtain ep tx where e: "ev_endpointAddress ev = Some ep" "ep \<noteq> []" "lg_transactionHash l = Some tx" "tx \<noteq> []"
    and rec: "\<forall>v. \<exists>logs v'. ev_getReceipt ev tx v = (Inr logs, v') \<and> packet_nonce_in ev (to_lower ep) logs = Some (pnonce l)"
    using assms Cons.prems(1) unfolding receipts_available_def by (metis list.set_intros(1))
  have "\<exists>v'. resolveTransportNonce ev l s v = (Inr (pnonce l), s, v')"
    using rec [rule_format, of v] e by (auto simp: resolveTransportNonce_def fetchPacketSentNonce_def)
  then have "\<exists>base. decodeLockedLog ev l = Inr (Some base) \<and> p = with_nonce (pnonce l) base"
    using one r by (auto simp: decodeLockedLogWithNonce_def split: sum.splits option.splits)
  moreover obtain qs where "decode_logs ev ls s1 v1 = (Inr qs, s', v')" "ps = p # qs"
    using Cons.prems(2) one r by (auto split: sum.splits prod.splits)
  ultimately show ?case using Cons.IH Cons.prems(1) by auto
qed simp

lemma fetch_headers_hashes:
  "one_chain ev chain \<Longrightarrow> fetch_headers ev ns v = (Inr hs, v') \<Longrightarrow> \<forall>b \<in> set hs. br_hash b = chain (br_number b)"
proof (induction ns arbitrary: v hs)
  case (Cons n ns)
  obtain b v1 where b: "ev_getBlock ev n v = (Inr b, v1)" using Cons.prems(2) by (auto split: prod.splits sum.splits)
  then obtain hs1 where hs1: "fetch_headers ev ns v1 = (Inr hs1, v')" using Cons.prems(2) by (auto split: prod.splits sum.splits)
  then have "\<forall>x \<in> set hs1. br_hash x = chain (br_number x)" using Cons by blast
  moreover have "\<forall>h. eb_hash b = Some h \<longrightarrow> h = chain n" using Cons.prems(1) b unfolding one_chain_def by blast
  ultimately show ?case using Cons.prems b hs1 by (auto split: option.splits if_splits)
qed simp

lemma logs_between_blocks:
  "numbered emitted \<Longrightarrow> l \<in> set (logs_between emitted a b) \<longleftrightarrow>
     (\<exists>n. lg_blockNumber l = Some n \<and> a \<le> n \<and> n \<le> b \<and> l \<in> set (emitted n))"
  by (auto simp: logs_between_def numbered_def)

lemma list_all2_members:
  assumes "list_all2 R xs ys"
  shows "x \<in> set xs \<Longrightarrow> \<exists>y \<in> set ys. R x y" and "y \<in> set ys \<Longrightarrow> \<exists>x \<in> set xs. R x y"
  using assms by (induction rule: list_all2_induct) auto

lemma evm_watcher_faithful:
  assumes logs: "faithful_logs ev emitted" and num: "numbered emitted" and chain: "one_chain ev chain"
    and nonces: "receipts_available ev emitted pnonce"
    and decodable: "\<forall>n. \<forall>l \<in> set (emitted n). \<exists>base. decodeLockedLog ev l = Inr (Some base)"
  shows "faithful_watcher (evm_relayer fuel ev env) (lock_messages ev emitted pnonce) chain"
  unfolding faithful_watcher_def
proof (intro allI impI)
  fix b w pr w'
  assume "re_poll (evm_relayer fuel ev env) b w = (Inr pr, w')"
  then obtain s' v' where p: "evm_poll fuel ev b (fst w) (snd w) = Some (Inr pr, s', v')"
    by (auto simp: evm_relayer_def watcher_poll_def split: option.splits sum.splits prod.splits)
  obtain latest v1 v2 blocks s1 v3 headers v4 where
      head: "ev_getBlockNumber ev (snd w) = (Inr (pr_head pr), v1)" and blk: "ev_getBlock ev (pr_head pr) v1 = (Inr latest, v2)"
    and scan: "scan_locked fuel ev (pr_head pr) b [] [] (fst w) v2 = Some (Inr (blocks, pr_messages pr), s1, v3)"
    and hdr: "(if eb_hash latest \<noteq> None \<and> eb_parentHash latest \<noteq> None
          then fetch_headers ev blocks v3 else (Inr [], v3)) = (Inr headers, v4)"
    and fields: "pr_headHash pr = eb_hash latest" "pr_parentHash pr = eb_parentHash latest"
      "pr_blockHeaders pr = (if headers = [] then None else Some headers)"
    using p by (rule evm_pollE)
  let ?R = "\<lambda>l p. \<exists>base. decodeLockedLog ev l = Inr (Some base) \<and> p = with_nonce (pnonce l) base"
  have "\<exists>ps. pr_messages pr = [] @ ps \<and> list_all2 ?R (logs_between emitted b (pr_head pr)) ps"
    by (rule scan_locked_complete [where Q = "\<lambda>l. \<exists>n. l \<in> set (emitted n)", OF logs _ _ scan])
       (auto dest: decode_logs_nonces [OF nonces])
  then have all: "list_all2 ?R (logs_between emitted b (pr_head pr)) (pr_messages pr)" by simp
  have "set (pr_messages pr) = {m \<in> lock_messages ev emitted pnonce. b \<le> srcBlock m \<and> srcBlock m \<le> pr_head pr}"
  proof (intro set_eqI iffI)
    fix m assume "m \<in> set (pr_messages pr)"
    then obtain l where l: "l \<in> set (logs_between emitted b (pr_head pr))" "?R l m"
      using list_all2_members(2) [OF all] by blast
    then obtain n where "lg_blockNumber l = Some n" "b \<le> n" "n \<le> pr_head pr" "l \<in> set (emitted n)"
      using logs_between_blocks [OF num] by blast
    then show "m \<in> {m \<in> lock_messages ev emitted pnonce. b \<le> srcBlock m \<and> srcBlock m \<le> pr_head pr}"
      using l(2) decodeLockedLog_block by (fastforce simp: lock_messages_def)
  next
    fix m assume "m \<in> {m \<in> lock_messages ev emitted pnonce. b \<le> srcBlock m \<and> srcBlock m \<le> pr_head pr}"
    then obtain l base n where m: "m = with_nonce (pnonce l) base" "l \<in> set (emitted n)" "decodeLockedLog ev l = Inr (Some base)"
      and range: "b \<le> srcBlock base" "srcBlock base \<le> pr_head pr" by (auto simp: lock_messages_def)
    have "n = srcBlock base" using num m(2) decodeLockedLog_block [OF m(3)] by (simp add: numbered_def)
    then have "l \<in> set (logs_between emitted b (pr_head pr))"
      using logs_between_blocks [OF num] range m(2) num by (auto simp: numbered_def)
    then obtain m' where "m' \<in> set (pr_messages pr)" "?R l m'"
      using list_all2_members(1) [OF all] by blast
    then show "m \<in> set (pr_messages pr)" using m by auto
  qed
  moreover have "0 \<le> pr_head pr" using chain head unfolding one_chain_def by blast
  moreover have "\<forall>h. eb_hash latest = Some h \<longrightarrow> h = chain (pr_head pr)"
    "\<forall>h. eb_parentHash latest = Some h \<longrightarrow> h = chain (pr_head pr - 1)"
    using chain blk unfolding one_chain_def by blast+
  moreover have "\<forall>b \<in> set headers. br_hash b = chain (br_number b)"
    using hdr fetch_headers_hashes [OF chain] by (auto split: if_splits)
  ultimately show "0 \<le> pr_head pr \<and>
       set (pr_messages pr) = {m \<in> lock_messages ev emitted pnonce. b \<le> srcBlock m \<and> srcBlock m \<le> pr_head pr} \<and>
       (\<forall>h. pr_headHash pr = Some h \<longrightarrow> h = chain (pr_head pr)) \<and>
       (\<forall>p. pr_parentHash pr = Some p \<longrightarrow> p = chain (pr_head pr - 1)) \<and>
       (\<forall>bs. pr_blockHeaders pr = Some bs \<longrightarrow> (\<forall>b\<in>set bs. br_hash b = chain (br_number b)))"
    using fields by (auto split: if_splits)
qed

section \<open>With fallback nonces\<close>

text \<open>
  The watcher of \<^verbatim>\<open>cli.ts\<close> is given neither the endpoint's address nor a counter: every decoded log takes
  the next number of the in-memory counter.
\<close>

definition no_packet_nonces :: "'v evm_env \<Rightarrow> bool" where
  "no_packet_nonces ev \<longleftrightarrow> ev_endpointAddress ev = None \<and> ev_nonceCounter ev = None"

definition counter :: "'v evm_env \<Rightarrow> evm_watcher \<Rightarrow> int" where
  "counter ev s = option_default (assoc_get (fallbackNonces s) (path_key ev)) 0"

definition nonce_of :: "pending_message \<Rightarrow> int" where
  "nonce_of p = bm_nonce (pm_message p)"

definition plain_hash :: "pending_message \<Rightarrow> bool" where
  "plain_hash p \<longleftrightarrow> CHR '':'' \<notin> set (bm_intentHash (pm_message p))"

lemma nonce_of_with_nonce [simp]: "nonce_of (with_nonce n p) = n" "plain_hash (with_nonce n p) = plain_hash p"
  by (simp_all add: nonce_of_def plain_hash_def with_nonce_def)

lemma decodeLockedLog_plain: "decodeLockedLog ev l = Inr (Some base) \<Longrightarrow> plain_hash base"
  by (auto simp: decodeLockedLog_def plain_hash_def canonicalFillInstruction_def Let_def bind_result_Inr_iff
      dest: hex_no_colon split: option.splits if_splits)

lemma decode_one_fresh:
  assumes "no_packet_nonces ev" and "0 \<le> counter ev s" and "decodeLockedLogWithNonce ev l s v = (r, s', v')"
  shows "(\<exists>p. r = Inr (Some p) \<and> nonce_of p = counter ev s + 1 \<and> plain_hash p \<and> counter ev s' = counter ev s + 1)
    \<or> (\<forall>p. r \<noteq> Inr (Some p)) \<and> counter ev s' = counter ev s"
  using assms
  by (auto simp: decodeLockedLogWithNonce_def resolveTransportNonce_def fallback_nonce_def nextFallbackNonce_def
      no_packet_nonces_def Let_def never_zero_def counter_def option_default_def store_simps dest: decodeLockedLog_plain
      split: sum.splits option.splits prod.splits if_splits)

lemma decode_logs_fresh:
  assumes "no_packet_nonces ev"
  shows "decode_logs ev ls s v = (r, s', v') \<Longrightarrow> 0 \<le> counter ev s \<Longrightarrow>
    counter ev s \<le> counter ev s'
    \<and> (\<forall>ps. r = Inr ps \<longrightarrow> map nonce_of ps = [counter ev s + 1 .. counter ev s'] \<and> list_all plain_hash ps)"
proof (induction ls arbitrary: s v r)
  case (Cons l ls)
  obtain a s1 v1 where one: "decodeLockedLogWithNonce ev l s v = (a, s1, v1)" by (metis prod_cases3)
  note f = decode_one_fresh [OF assms Cons.prems(2) one]
  show ?case
  proof (cases "\<exists>p. a = Inr (Some p)")
    case False
    then have "s' = s1 \<and> (\<exists>e. r = Inl e)"
      using Cons.prems(1) one by (cases a) (auto split: option.splits)
    then show ?thesis using f False by auto
  next
    case True
    then obtain p where p: "a = Inr (Some p)" by blast
    then have c: "nonce_of p = counter ev s + 1" "plain_hash p" "counter ev s1 = counter ev s + 1" using f by auto
    obtain b s2 v2 where rest: "decode_logs ev ls s1 v1 = (b, s2, v2)" by (metis prod_cases3)
    have s2: "s' = s2" "v' = v2" using Cons.prems(1) one p rest by (cases b; auto)+
    have IH: "counter ev s1 \<le> counter ev s'
        \<and> (\<forall>ps. b = Inr ps \<longrightarrow> map nonce_of ps = [counter ev s1 + 1 .. counter ev s'] \<and> list_all plain_hash ps)"
      using Cons.IH [of s1 v1 b] rest s2 c(3) Cons.prems(2) by simp
    show ?thesis
    proof (cases b)
      case (Inl e)
      then show ?thesis using IH c Cons.prems(1) one p rest by auto
    next
      case (Inr ps)
      have "[counter ev s + 1 .. counter ev s'] = (counter ev s + 1) # [counter ev s1 + 1 .. counter ev s']"
        using IH c by (subst upto_rec1) auto
      then show ?thesis using IH c Inr Cons.prems(1) one p rest by auto
    qed
  qed
qed auto

lemma counter_halve [simp]: "counter ev (halve_range s) = counter ev s"
  by (simp add: counter_def halve_range_def)

lemma scan_locked_fresh:
  assumes "no_packet_nonces ev"
  shows "scan_locked k ev head a blocks ms s v = Some (r, s', v') \<Longrightarrow> 0 \<le> counter ev s \<Longrightarrow>
    counter ev s \<le> counter ev s'
    \<and> (\<forall>bs ms'. r = Inr (bs, ms') \<longrightarrow>
         (\<exists>ps. ms' = ms @ ps \<and> map nonce_of ps = [counter ev s + 1 .. counter ev s'] \<and> list_all plain_hash ps))"
proof (induction k arbitrary: a blocks ms s v)
  case (Suc k)
  let ?b = "min (a + maxRange s - 1) head"
  show ?case
  proof (cases "head < a")
    case True
    then show ?thesis using Suc.prems by auto
  next
    case False
    obtain g v1 where get: "ev_getLocked ev a ?b v = (g, v1)" by fastforce
    show ?thesis
    proof (cases g)
      case (Inl err)
      show ?thesis
      proof (cases "isProviderRangeError err \<and> 1 < maxRange s")
        case True
        then have "scan_locked k ev head a blocks ms (halve_range s) v1 = Some (r, s', v')"
          using Suc.prems False get Inl by (simp add: Let_def)
        from Suc.IH [OF this] show ?thesis using Suc.prems(2) by simp
      next
        case no: False
        then show ?thesis using Suc.prems False get Inl by (auto simp: Let_def)
      qed
    next
      case (Inr logs)
      obtain d s1 v2 where dec: "decode_logs ev logs s v1 = (d, s1, v2)" by (metis prod_cases3)
      note f = decode_logs_fresh [OF assms dec Suc.prems(2)]
      show ?thesis
      proof (cases d)
        case (Inl e)
        then show ?thesis using Suc.prems False get Inr dec f by (auto simp: Let_def)
      next
        case d: (Inr ps)
        then have rest: "scan_locked k ev head (?b + 1) (add_blocks logs blocks) (ms @ ps) s1 v2 = Some (r, s', v')"
          using Suc.prems False get Inr dec by (simp add: Let_def)
        have IH: "counter ev s1 \<le> counter ev s'
            \<and> (\<forall>bs ms'. r = Inr (bs, ms') \<longrightarrow>
                 (\<exists>qs. ms' = (ms @ ps) @ qs \<and> map nonce_of qs = [counter ev s1 + 1 .. counter ev s'] \<and> list_all plain_hash qs))"
          using Suc.IH [OF rest] f Suc.prems(2) by simp
        have "[counter ev s + 1 .. counter ev s'] = [counter ev s + 1 .. counter ev s1] @ [counter ev s1 + 1 .. counter ev s']"
          using upto_split2 [of "counter ev s + 1" "counter ev s1" "counter ev s'"] f IH
          by (cases "counter ev s = counter ev s1") auto
        moreover have "map nonce_of ps = [counter ev s + 1 .. counter ev s1]" "list_all plain_hash ps" using f d by auto
        ultimately show ?thesis using IH f by force
      qed
    qed
  qed
qed simp

lemma refund_loop_counter: "refund_loop k ev h head a s v = Some (r, s', v') \<Longrightarrow> counter ev s' = counter ev s"
proof (induction k arbitrary: a s v)
  case (Suc k)
  let ?b = "min (a + maxRange s - 1) head"
  obtain g v1 where get: "ev_getRefunds ev a ?b v = (g, v1)" by fastforce
  have "counter ev (s\<lparr>lastRefundScanBlock := x\<rparr>) = counter ev s" for x by (simp add: counter_def)
  then show ?case
    using Suc.IH [of "?b + 1" s] Suc.IH [of a "halve_range s" v1] Suc.prems get
    by (cases g) (auto simp: Let_def split: if_splits)
qed simp

lemma scanRefunds_counter: "scanRefunds k ev a head s v = Some (r, s', v') \<Longrightarrow> counter ev s' = counter ev s"
  by (auto simp: scanRefunds_def Let_def counter_def [of ev "_\<lparr>lastRefundScanBlock := _\<rparr>"] dest: refund_loop_counter
      split: option.splits if_splits) (simp_all add: counter_def)

text \<open>A poll shows only messages with numbers that were never used.\<close>

lemma evm_poll_fresh:
  assumes "no_packet_nonces ev" and "0 \<le> counter ev s" and "evm_poll k ev a s v = Some (r, s', v')"
  shows "counter ev s \<le> counter ev s'
    \<and> (\<forall>pr. r = Inr pr \<longrightarrow> map nonce_of (pr_messages pr) = [counter ev s + 1 .. counter ev s']
         \<and> list_all plain_hash (pr_messages pr))"
proof -
  note fresh = scan_locked_fresh [OF assms(1) _ assms(2)]
  show ?thesis
  proof (cases r)
    case (Inr pr)
    with assms(3) have "evm_poll k ev a s v = Some (Inr pr, s', v')" by simp
    then obtain v2 blocks s1 v3 v4 where
      scan: "scan_locked k ev (pr_head pr) a [] [] s v2 = Some (Inr (blocks, pr_messages pr), s1, v3)"
      and ref: "scanRefunds k ev a (pr_head pr) s1 v4 = Some (Inr (), s', v')"
      by (rule evm_pollE)
    show ?thesis using fresh [OF scan] scanRefunds_counter [OF ref] Inr by auto
  next
    case (Inl e)
    have "counter ev s \<le> counter ev s'"
      using assms(3) fresh unfolding evm_poll_def
      by (auto dest!: scanRefunds_counter split: prod.splits sum.splits option.splits if_splits)
    then show ?thesis using Inl by simp
  qed
qed

text \<open>What no call but a poll changes in the world.\<close>

definition calls_keep :: "('w \<Rightarrow> 'x) \<Rightarrow> 'w relayer_env \<Rightarrow> bool" where
  "calls_keep f env \<longleftrightarrow>
     (\<forall>k w. f (snd (re_isDelivered env k w)) = f w) \<and> (\<forall>p w. f (snd (re_deliver env p w)) = f w)
     \<and> (\<forall>h st t w. f (snd (re_reportStatus env h st t w)) = f w) \<and> (\<forall>c w. f (snd (re_saveCheckpoint env c w)) = f w)
     \<and> (\<forall>q w. f (snd (re_persist env q w)) = f w) \<and> (\<forall>ms w. f (re_sleep env ms w) = f w)"

lemma evm_relayer_keeps: "calls_keep fst (evm_relayer fuel ev env)"
  by (simp add: calls_keep_def evm_relayer_def on_rest_def split: prod.split)

lemma relayOne_keeps:
  assumes "calls_keep f env" and "relayOne env p s w = (r, s', w')" shows "f w' = f w"
proof -
  have i: "f w1 = f w" if "re_isDelivered env k w = (a, w1)" for k w a w1
    using assms(1) that unfolding calls_keep_def by (metis snd_conv)
  have d: "f w1 = f w" if "re_deliver env q w = (a, w1)" for q w a w1
    using assms(1) that unfolding calls_keep_def by (metis snd_conv)
  have m: "f (reportCancelling env h w) = f w" for h w
    using assms(1) by (simp add: reportCancelling_def report_mempool_def calls_keep_def split: option.split)
  have "f w2 = f v" if "relay_failed env p n err s v = (r, s', w2)" for n err v w2
    using that by (auto simp: relay_failed_def Let_def split: relay_thrown.splits if_splits)
  then have "f w' = f w" if "attempt_relay env p n s w = (r, s', w')" for n
    using that by (auto simp: attempt_relay_def Let_def m dest!: i d split: prod.splits sum.splits bool.splits)
  then show ?thesis using assms(2) by (auto simp: relayOne_def Let_def split: option.splits if_splits)
qed

lemma relay_confirmed_keeps:
  assumes "calls_keep f env" shows "relay_confirmed env ch ps s w = (r, s', w') \<Longrightarrow> f w' = f w"
proof (induction ps arbitrary: s w r s' w')
  case (Cons p ps)
  obtain a s1 w1 where one: "relayOne env p s w = (a, s1, w1)" by (metis prod_cases3)
  obtain b s2 w2 where rest: "relay_confirmed env ch ps s1 w1 = (b, s2, w2)" by (metis prod_cases3)
  have "f w1 = f w" "f w2 = f w1" using relayOne_keeps [OF assms one] Cons.IH [OF rest] by simp_all
  then show ?case using Cons one rest by (cases "ch < srcBlock p"; cases a; cases b) auto
qed simp

lemma tick_deliver_keeps:
  assumes "calls_keep f env" and "tick_deliver env pr s w = (r, s', w')" shows "f w' = f w"
proof -
  have c: "f w1 = f w" if "re_saveCheckpoint env x w = (a, w1)" for x w a w1
    using assms(1) that unfolding calls_keep_def by (metis snd_conv)
  have p: "f w1 = f w" if "re_persist env q w = (a, w1)" for q w a w1
    using assms(1) that unfolding calls_keep_def by (metis snd_conv)
  show ?thesis using assms(2) relay_confirmed_keeps [OF assms(1)]
    unfolding tick_deliver_def Let_def
    by (auto dest!: c p split: prod.splits sum.splits)
qed

lemma keys_of_set: "fst ` set (assoc_set k x m) = insert k (fst ` set m)"
  using arg_cong [OF keys_assoc_set [of k x m], of set] by auto

lemma keys_of_del: "fst ` set (assoc_del k m) = fst ` set m - {k}"
  by (force simp: assoc_del_def)

text \<open>A message with a key that has no retry state starts over: with a budget of two it is not dead-lettered.\<close>

lemma relayOne_first:
  assumes "2 \<le> re_maxAttempts env" and "assoc_get (rl_attempts s) (messageKeyString (key_of p)) = None"
    and "relayOne env p s w = (r, s', w')"
  shows "rl_dead s' = rl_dead s
    \<and> fst ` set (rl_attempts s') \<subseteq> insert (messageKeyString (key_of p)) (fst ` set (rl_attempts s))"
proof -
  let ?ks = "messageKeyString (key_of p)"
  have "rl_dead s' = rl_dead s \<and> (rl_attempts s' = rl_attempts s \<or> rl_attempts s' = assoc_del ?ks (rl_attempts s)
      \<or> (\<exists>x. rl_attempts s' = assoc_set ?ks x (rl_attempts s)))"
    using assms
    by (auto simp: relayOne_def attempt_relay_def relay_failed_def Let_def log_event_def
        split: if_splits prod.splits sum.splits bool.splits relay_thrown.splits)
  then show ?thesis by (elim conjE disjE exE) (simp_all only: keys_of_set keys_of_del, blast+)
qed

lemma relay_confirmed_first:
  assumes "2 \<le> re_maxAttempts env"
  shows "relay_confirmed env ch ps s w = (r, s', w') \<Longrightarrow> distinct (map (messageKeyString \<circ> key_of) ps) \<Longrightarrow>
    \<forall>p \<in> set ps. messageKeyString (key_of p) \<notin> fst ` set (rl_attempts s) \<Longrightarrow>
    rl_dead s' = rl_dead s
    \<and> fst ` set (rl_attempts s') \<subseteq> fst ` set (rl_attempts s) \<union> (messageKeyString \<circ> key_of) ` set ps"
proof (induction ps arbitrary: s w r s' w')
  case (Cons p ps)
  show ?case
  proof (cases "ch < srcBlock p")
    case True
    then have "relay_confirmed env ch ps s w = (r, s', w')" using Cons.prems(1) by simp
    from Cons.IH [OF this] have "rl_dead s' = rl_dead s
        \<and> fst ` set (rl_attempts s') \<subseteq> fst ` set (rl_attempts s) \<union> (messageKeyString \<circ> key_of) ` set ps"
      using Cons.prems(2,3) by simp
    then show ?thesis by auto
  next
    case False
    obtain a s1 w1 where one: "relayOne env p s w = (a, s1, w1)" by (metis prod_cases3)
    obtain b s2 w2 where rest: "relay_confirmed env ch ps s1 w1 = (b, s2, w2)" by (metis prod_cases3)
    have "assoc_get (rl_attempts s) (messageKeyString (key_of p)) = None"
      using Cons.prems(3) by (simp add: assoc_get_None_iff)
    note 1 = relayOne_first [OF assms this one]
    have "\<forall>q \<in> set ps. messageKeyString (key_of q) \<notin> fst ` set (rl_attempts s1)"
    proof
      fix q assume q: "q \<in> set ps"
      have "messageKeyString (key_of p) \<notin> (messageKeyString \<circ> key_of) ` set ps" using Cons.prems(2) by simp
      then have "messageKeyString (key_of q) \<noteq> messageKeyString (key_of p)"
        using imageI [OF q, of "messageKeyString \<circ> key_of"] by (metis comp_apply)
      moreover have "messageKeyString (key_of q) \<notin> fst ` set (rl_attempts s)" using Cons.prems(3) q by simp
      ultimately show "messageKeyString (key_of q) \<notin> fst ` set (rl_attempts s1)" using 1 by blast
    qed
    then have 2: "rl_dead s2 = rl_dead s1
        \<and> fst ` set (rl_attempts s2) \<subseteq> fst ` set (rl_attempts s1) \<union> (messageKeyString \<circ> key_of) ` set ps"
      using Cons.IH [OF rest] Cons.prems(2) by simp
    have img: "(messageKeyString \<circ> key_of) ` set (p # ps)
        = insert (messageKeyString (key_of p)) ((messageKeyString \<circ> key_of) ` set ps)" by simp
    have "rl_dead s2 = rl_dead s" using 1 2 by simp
    moreover have "s' = s1 \<or> s' = s2" using Cons.prems(1) False one rest by (cases a; cases b) auto
    ultimately show ?thesis using 1 2 unfolding img by blast
  qed
qed auto

text \<open>The keys with numbers up to \<open>c\<close>.\<close>

definition old_keys :: "int \<Rightarrow> string set" where
  "old_keys c = {messageKeyString k | k. mk_nonce k \<le> c \<and> CHR '':'' \<notin> set (mk_intentHash k)}"

lemma old_keys_mono: "c \<le> d \<Longrightarrow> old_keys c \<subseteq> old_keys d"
  by (auto simp: old_keys_def)

lemma key_of_nonce: "mk_nonce (key_of p) = nonce_of p" "CHR '':'' \<notin> set (mk_intentHash (key_of p)) \<longleftrightarrow> plain_hash p"
  by (simp_all add: key_of_def nonce_of_def plain_hash_def)

lemma fresh_keys:
  assumes "map nonce_of ps = [c + 1 .. d]" and "list_all plain_hash ps"
  shows "distinct (map (messageKeyString \<circ> key_of) ps)"
    and "\<forall>p \<in> set ps. messageKeyString (key_of p) \<notin> old_keys c \<and> messageKeyString (key_of p) \<in> old_keys d"
proof -
  have eq: "messageKeyString (key_of p) = messageKeyString k \<longleftrightarrow> key_of p = k"
    if "p \<in> set ps" "CHR '':'' \<notin> set (mk_intentHash k)" for p k
    using that assms(2) key_of_nonce(2) by (intro messageKeyString_inject) (auto simp: list_all_iff)
  have "distinct (map nonce_of ps)" by (simp add: assms(1))
  then have "distinct ps" and inj: "inj_on nonce_of (set ps)" by (simp_all add: distinct_map)
  moreover have "inj_on (messageKeyString \<circ> key_of) (set ps)"
  proof (rule inj_onI)
    fix p q assume pq: "p \<in> set ps" "q \<in> set ps" "(messageKeyString \<circ> key_of) p = (messageKeyString \<circ> key_of) q"
    then have "key_of p = key_of q" using eq [of p "key_of q"] assms(2) key_of_nonce(2) by (auto simp: list_all_iff)
    then have "nonce_of p = nonce_of q" by (metis key_of_nonce(1))
    then show "p = q" using inj pq by (simp add: inj_on_eq_iff)
  qed
  ultimately show "distinct (map (messageKeyString \<circ> key_of) ps)" by (simp add: distinct_map)
  show "\<forall>p \<in> set ps. messageKeyString (key_of p) \<notin> old_keys c \<and> messageKeyString (key_of p) \<in> old_keys d"
  proof
    fix p assume p: "p \<in> set ps"
    then have "nonce_of p \<in> set [c + 1 .. d]" by (metis assms(1) image_eqI set_map)
    then have n: "c < nonce_of p" "nonce_of p \<le> d" by auto
    have "messageKeyString (key_of p) \<notin> old_keys c"
    proof
      assume "messageKeyString (key_of p) \<in> old_keys c"
      then obtain k where "messageKeyString (key_of p) = messageKeyString k" "mk_nonce k \<le> c" "CHR '':'' \<notin> set (mk_intentHash k)"
        by (auto simp: old_keys_def)
      then show False using eq [OF p, of k] n(1) key_of_nonce(1) [of p] by simp
    qed
    moreover have "messageKeyString (key_of p) \<in> old_keys d"
      using n(2) key_of_nonce [of p] assms(2) p by (auto simp: old_keys_def list_all_iff)
    ultimately show "messageKeyString (key_of p) \<notin> old_keys c \<and> messageKeyString (key_of p) \<in> old_keys d" ..
  qed
qed

text \<open>The relay loop over a watcher without packet numbers.\<close>

definition fresh_state :: "'v evm_env \<Rightarrow> dead_letters \<Rightarrow> relayer_state \<Rightarrow> evm_watcher \<Rightarrow> bool" where
  "fresh_state ev dead s watch \<longleftrightarrow>
     rl_dead s = dead \<and> 0 \<le> counter ev watch \<and> fst ` set (rl_attempts s) \<subseteq> old_keys (counter ev watch)"

lemma tick_deliver_fresh:
  assumes "2 \<le> re_maxAttempts env" and "distinct (map (messageKeyString \<circ> key_of) (pr_messages pr))"
    and "\<forall>p \<in> set (pr_messages pr). messageKeyString (key_of p) \<notin> fst ` set (rl_attempts s)"
    and "tick_deliver env pr s w = (r, s', w')"
  shows "rl_dead s' = rl_dead s \<and> fst ` set (rl_attempts s') \<subseteq> (messageKeyString \<circ> key_of) ` set (pr_messages pr)"
proof -
  let ?ch = "confirmed_head env (pr_head pr)"
  define s1 where "s1 = drop_unobserved (pr_messages pr)
      (s\<lparr>rl_readiness := (rl_readiness s)\<lparr>rd_head := pr_head pr, rd_confirmedHead := ?ch,
                      rd_lag := max 0 (?ch + 1 - rl_cursor s)\<rparr>\<rparr>)"
  have s1: "rl_dead s1 = rl_dead s" "set (rl_attempts s1) = {}"
  proof -
    have "\<forall>e \<in> set (rl_attempts s). fst e \<notin> (messageKeyString \<circ> key_of) ` set (pr_messages pr)"
    proof
      fix e assume "e \<in> set (rl_attempts s)"
      then have "fst e \<in> fst ` set (rl_attempts s)" by simp
      then show "fst e \<notin> (messageKeyString \<circ> key_of) ` set (pr_messages pr)"
        using assms(3) by (metis comp_apply imageE)
    qed
    moreover have "rl_attempts s1
        = filter (\<lambda>e. fst e \<in> (messageKeyString \<circ> key_of) ` set (pr_messages pr)) (rl_attempts s)"
      by (simp add: s1_def drop_unobserved_def)
    ultimately have "rl_attempts s1 = []" by (simp only: filter_empty_conv)
    then show "rl_dead s1 = rl_dead s" "set (rl_attempts s1) = {}"
      by (simp_all add: s1_def drop_unobserved_def Let_def)
  qed
  obtain a s2 w2 where conf: "relay_confirmed env ?ch (pr_messages pr) s1 w = (a, s2, w2)" by (metis prod_cases3)
  have "rl_dead s' = rl_dead s2 \<and> rl_attempts s' = rl_attempts s2"
    using assms(4) conf unfolding tick_deliver_def s1_def
    by (auto simp: Let_def put_cursor_def split: sum.splits prod.splits)
  moreover have "rl_dead s2 = rl_dead s1
      \<and> fst ` set (rl_attempts s2) \<subseteq> fst ` set (rl_attempts s1) \<union> (messageKeyString \<circ> key_of) ` set (pr_messages pr)"
    by (rule relay_confirmed_first [OF assms(1) conf assms(2)]) (simp add: s1)
  ultimately show ?thesis using s1 by simp
qed

text \<open>A tick after its poll: it delivers from some state with the same bookkeeping, or only rolls back.\<close>

lemma relay_tick_cases:
  assumes "re_poll env (rl_cursor s) w = (Inr pr, w1)"
  shows "\<exists>t. rl_dead t = rl_dead s \<and> rl_attempts t = rl_attempts s
    \<and> (relay_tick env s w = tick_deliver env pr t w1 \<or> relay_tick env s w = (Inr [], t, w1))"
proof (cases "\<exists>h p. pr_headHash pr = Some h \<and> pr_parentHash pr = Some p")
  case False
  then show ?thesis by (intro exI [of _ s]) (auto simp: relay_tick_def assms split: option.split)
next
  case True
  then obtain h p where hp: "pr_headHash pr = Some h" "pr_parentHash pr = Some p" by blast
  let ?d = "detectReorg (re_startBlock env) (pr_head pr) p (rl_window s)"
  let ?deep = "re_confirmations env < ?d \<and> \<not> (pr_head pr = rl_cursor s \<and> pr_messages pr \<noteq> [])"
  let ?t = "if 0 < ?d then if ?deep then record_poll env pr h p (log_event (LogDeepReorg (pr_head pr) ?d) s)
      else record_poll env pr h p (put_cursor (max (re_startBlock env) (pr_head pr - ?d))
             (log_event (LogRollback (pr_head pr) ?d (rl_cursor s)) s))
    else record_poll env pr h p s"
  have "rl_dead ?t = rl_dead s" "rl_attempts ?t = rl_attempts s"
    by (simp_all add: record_poll_def log_event_def put_cursor_def)
  moreover have "relay_tick env s w = tick_deliver env pr ?t w1 \<or> relay_tick env s w = (Inr [], ?t, w1)"
    using hp by (cases ?deep) (auto simp: relay_tick_def assms Let_def)
  ultimately show ?thesis by blast
qed

lemma relay_tick_fresh:
  assumes "no_packet_nonces ev" and "2 \<le> re_maxAttempts env" and "fresh_state ev dead s (fst w)"
    and tick: "relay_tick (evm_relayer fuel ev env) s w = (r, s', w')"
  shows "fresh_state ev dead s' (fst w')"
proof -
  let ?env = "evm_relayer fuel ev env"
  obtain out w1 where poll: "re_poll ?env (rl_cursor s) w = (out, w1)" by (metis surj_pair)
  have c: "0 \<le> counter ev (fst w)" using assms(3) by (simp add: fresh_state_def)
  have f: "counter ev (fst w) \<le> counter ev (fst w1)
      \<and> (\<forall>pr. out = Inr pr \<longrightarrow> map nonce_of (pr_messages pr) = [counter ev (fst w) + 1 .. counter ev (fst w1)]
           \<and> list_all plain_hash (pr_messages pr))"
    using poll evm_poll_fresh [OF assms(1) c]
    by (auto simp: evm_relayer_def watcher_poll_def split: option.splits sum.splits prod.splits)
  have later: "fresh_state ev dead t (fst w1)" if "rl_dead t = dead" "rl_attempts t = rl_attempts s" for t
    using that f assms(3) old_keys_mono [of "counter ev (fst w)" "counter ev (fst w1)"]
    by (auto simp: fresh_state_def)
  show ?thesis
  proof (cases out)
    case (Inl e)
    then show ?thesis using tick poll later [of s] assms(3) by (simp add: relay_tick_def fresh_state_def)
  next
    case (Inr pr)
    have keys: "distinct (map (messageKeyString \<circ> key_of) (pr_messages pr))"
      "\<forall>p \<in> set (pr_messages pr). messageKeyString (key_of p) \<notin> old_keys (counter ev (fst w))
         \<and> messageKeyString (key_of p) \<in> old_keys (counter ev (fst w1))"
      using f Inr fresh_keys by blast+
    have deliver: "fresh_state ev dead s' (fst w')"
      if t: "tick_deliver ?env pr t w1 = (r, s', w')" "rl_dead t = dead" "rl_attempts t = rl_attempts s" for t
    proof -
      have "\<forall>p \<in> set (pr_messages pr). messageKeyString (key_of p) \<notin> fst ` set (rl_attempts t)"
        using keys(2) assms(3) t(3) by (auto simp: fresh_state_def)
      then have "rl_dead s' = dead" "fst ` set (rl_attempts s') \<subseteq> (messageKeyString \<circ> key_of) ` set (pr_messages pr)"
        using tick_deliver_fresh [OF _ keys(1) _ t(1)] assms(2) t(2) by (auto simp: evm_relayer_def)
      moreover have "fst w' = fst w1" using tick_deliver_keeps [OF evm_relayer_keeps t(1)] .
      ultimately show ?thesis using keys(2) f c by (auto simp: fresh_state_def)
    qed
    have dead: "rl_dead s = dead" using assms(3) by (simp add: fresh_state_def)
    obtain t where t: "rl_dead t = dead" "rl_attempts t = rl_attempts s"
      "relay_tick ?env s w = tick_deliver ?env pr t w1 \<or> relay_tick ?env s w = (Inr [], t, w1)"
      using relay_tick_cases [OF poll [unfolded Inr]] dead by metis
    from t(3) show ?thesis
    proof
      assume "relay_tick ?env s w = tick_deliver ?env pr t w1"
      then show ?thesis using deliver [OF _ t(1,2)] tick by simp
    next
      assume "relay_tick ?env s w = (Inr [], t, w1)"
      then show ?thesis using later [OF t(1,2)] tick by simp
    qed
  qed
qed

lemma relay_loop_fresh:
  assumes "no_packet_nonces ev" and "2 \<le> re_maxAttempts env"
  shows "fresh_state ev dead s (fst w) \<Longrightarrow> relay_loop n (evm_relayer fuel ev env) s w = (r, s', w') \<Longrightarrow>
    fresh_state ev dead s' (fst w')"
proof (induction n arbitrary: s w)
  case (Suc n)
  let ?env = "evm_relayer fuel ev env"
  obtain a s1 w1 where t: "relay_tick ?env s w = (a, s1, w1)" by (metis prod_cases3)
  have 1: "fresh_state ev dead s1 (fst w1)" using relay_tick_fresh [OF assms Suc.prems(1) t] .
  have sleep: "fst (relay_sleep ?env x w1) = fst w1" for x by (simp add: relay_sleep_def evm_relayer_def)
  have same: "fresh_state ev dead (after_relay_tick ?env s1 w1) (fst w1)" "fresh_state ev dead (after_failed_tick m s1) (fst w1)"
    "fresh_state ev dead (log_event (LogFatal m) s1) (fst w1)" for m
    using 1 by (simp_all add: fresh_state_def after_relay_tick_def after_failed_tick_def log_event_def Let_def)
  show ?case
  proof (cases "re_running ?env w")
    case False
    then show ?thesis using Suc.prems by simp
  next
    case True
    have IH: "fresh_state ev dead s' (fst w')"
      if "relay_loop n ?env x (relay_sleep ?env x w1) = (r, s', w')" "fresh_state ev dead x (fst w1)" for x
      using Suc.IH [OF _ that(1)] that(2) sleep by simp
    show ?thesis
    proof (cases a)
      case (Inr rs)
      then show ?thesis using Suc.prems(2) True t IH [OF _ same(1)] by (simp add: Let_def)
    next
      case (Inl e)
      then show ?thesis using Suc.prems(2) True t IH [OF _ same(2)] same(3)
        by (cases e) (auto simp: Let_def)
    qed
  qed
qed simp

section \<open>Properties\<close>

text \<open>
  C3. No lock is skipped: the relay loop over the EVM watcher, with the endpoint configured and the
  receipts at hand, on a chain without reorganisations, has handled every \<open>Locked\<close> log of every block
  between the block it resumed at and its cursor, whatever the provider, the deliveries and the files
  do: the message decoded from the log was delivered, was found delivered, or is a dead letter.
\<close>

theorem locks_never_skipped:
  assumes "faithful_logs ev emitted" and "numbered emitted" and "one_chain ev chain"
    and "receipts_available ev emitted pnonce"
    and "\<forall>n. \<forall>l \<in> set (emitted n). \<exists>base. decodeLockedLog ev l = Inr (Some base)"
    and "0 \<le> re_confirmations env"
    and "relay_resume (evm_relayer fuel ev env) (new_relayer (evm_relayer fuel ev env) dead) w = (Inr (), s, w1)"
    and "relay_loop n (evm_relayer fuel ev env) s w1 = (res, s', w')"
    and "l \<in> set (emitted b)" and "rl_cursor s \<le> b" and "b < rl_cursor s'"
    and "decodeLockedLog ev l = Inr (Some base)"
  shows "handled s' (messageKeyString (key_of (with_nonce (pnonce l) base)))"
proof -
  have "srcBlock base = b" using assms(2,9) decodeLockedLog_block [OF assms(12)] by (simp add: numbered_def)
  moreover have "with_nonce (pnonce l) base \<in> lock_messages ev emitted pnonce"
    using assms(9,12) by (auto simp: lock_messages_def)
  moreover have "0 \<le> re_confirmations (evm_relayer fuel ev env)" using assms(6) by (simp add: evm_relayer_def)
  ultimately show ?thesis
    using cursor_never_skips [OF evm_watcher_faithful [OF assms(1-5)] _ assms(7,8)] assms(10,11) by simp
qed

text \<open>
  The relayer as the CLI builds it never gives up on a message: without the endpoint's address and a
  counter the watcher numbers the same log anew at every poll, the retry state of the previous number is
  dropped, and no attempt is ever counted as more than the first. However long it runs and however the
  deliveries fail, the dead-letter queue stays as it was.
\<close>

theorem fallback_nonces_never_dead_letter:
  assumes "ev_endpointAddress ev = None" and "ev_nonceCounter ev = None" and "2 \<le> re_maxAttempts env"
    and "relay_loop n (evm_relayer fuel ev env) (new_relayer (evm_relayer fuel ev env) dead)
           (new_evm_watcher ev, v) = (res, s', w')"
  shows "rl_dead s' = dead"
proof -
  have "no_packet_nonces ev" using assms(1,2) by (simp add: no_packet_nonces_def)
  moreover have "fresh_state ev dead (new_relayer (evm_relayer fuel ev env) dead) (fst (new_evm_watcher ev, v))"
    by (simp add: fresh_state_def new_relayer_def new_evm_watcher_def counter_def option_default_def)
  ultimately show ?thesis using relay_loop_fresh assms(3,4) by (metis fresh_state_def)
qed

definition quiet_relayer :: "unit relayer_env" where
  "quiet_relayer =
     \<lparr>re_poll = \<lambda>b w. (Inl (Thrown []), w),
      re_isDelivered = \<lambda>k w. (Inr False, w), re_deliver = \<lambda>p w. (Inr ''tx'', w),
      re_reportStatus = \<lambda>h st t w. (Inr (), w), re_loadCheckpoint = \<lambda>w. (Inr None, w),
      re_saveCheckpoint = \<lambda>c w. (Inr (), w), re_persist = \<lambda>q w. (Inr (), w),
      re_now = \<lambda>w. 0, re_random = \<lambda>w. 0, re_sleep = \<lambda>ms w. w, re_running = \<lambda>w. True,
      re_confirmations = 0, re_startBlock = 96, re_maxAttempts = 5, re_baseBackoffMs = 500,
      re_mempoolUrl = None, re_mempoolStatusToken = None,
      re_backoffConfig = \<lparr>bc_pollIntervalMs = 5000, bc_maxJitterMs = None, bc_backoffMultiplier = None,
                          bc_maxBackoffMs = None\<rparr>\<rparr>"

theorem fallback_nonces_never_dead_letter_witness:
  "rl_dead (fst (snd (relay_loop 9 (evm_relayer 20 sample_evm quiet_relayer)
     (new_relayer (evm_relayer 20 sample_evm quiet_relayer) []) (new_evm_watcher sample_evm, ())))) = []"
proof -
  obtain res s' w' where r: "relay_loop 9 (evm_relayer 20 sample_evm quiet_relayer)
     (new_relayer (evm_relayer 20 sample_evm quiet_relayer) []) (new_evm_watcher sample_evm, ()) = (res, s', w')"
    by (metis prod_cases3)
  have "ev_endpointAddress sample_evm = None" "ev_nonceCounter sample_evm = None" "2 \<le> re_maxAttempts quiet_relayer"
    by (simp_all add: sample_evm_def quiet_relayer_def)
  from fallback_nonces_never_dead_letter [OF this r] show ?thesis by (simp add: r)
qed

text \<open>The same chain with the endpoint configured; the packet carries number 7.\<close>

definition packet_evm :: "unit evm_env" where
  "packet_evm = sample_evm\<lparr>ev_endpointAddress := Some ''0xe'', ev_onRefund := None,
     ev_getReceipt := \<lambda>h w. (Inr [\<lparr>rc_address = ''0xe'', rc_topics = [''0x''], rc_data = ''0x''\<rparr>], w),
     ev_decodePacket := \<lambda>d. Some (''0x'' @ bytes_hex (1 # be_bytes 8 7 @ []))\<rparr>"

lemma packet_evm_ok:
  "faithful_logs packet_evm sample_emitted" "numbered sample_emitted" "one_chain packet_evm (\<lambda>n. ''a'')"
  "receipts_available packet_evm sample_emitted (\<lambda>l. 7)"
  "\<forall>n. \<forall>l \<in> set (sample_emitted n). \<exists>base. decodeLockedLog packet_evm l = Inr (Some base)"
proof -
  have same: "ev_getLocked packet_evm = ev_getLocked sample_evm" "decodeLockedLog packet_evm l = decodeLockedLog sample_evm l" for l
  proof -
    show "ev_getLocked packet_evm = ev_getLocked sample_evm" by (simp add: packet_evm_def sample_evm_def)
    have "ev_decodeLocked packet_evm = ev_decodeLocked sample_evm" "ev_stellarEid packet_evm = ev_stellarEid sample_evm"
      "ev_sourceEid packet_evm = ev_sourceEid sample_evm"
      by (simp_all add: packet_evm_def sample_evm_def)
    then show "decodeLockedLog packet_evm l = decodeLockedLog sample_evm l" for l
      by (simp add: decodeLockedLog_def split: option.split)
  qed
  show "faithful_logs packet_evm sample_emitted" using sample_faithful_logs by (simp add: faithful_logs_def same)
  show "numbered sample_emitted" by (simp add: numbered_def sample_emitted_def sample_locked_log_def)
  show "one_chain packet_evm (\<lambda>n. ''a'')" by (auto simp: one_chain_def packet_evm_def sample_evm_def)
  have "to_lower ''0xe'' = ''0xe''" by (simp add: to_lower_def lower_char_def is_upper_def char_code_def)
  then show "receipts_available packet_evm sample_emitted (\<lambda>l. 7)"
    using packet_nonce [of 7 1 "[]"]
    by (simp add: receipts_available_def packet_evm_def sample_evm_def sample_emitted_def sample_locked_log_def del: be_bytes.simps)
  show "\<forall>n. \<forall>l \<in> set (sample_emitted n). \<exists>base. decodeLockedLog packet_evm l = Inr (Some base)"
    using sample_decodes by (auto simp: same sample_emitted_def)
qed

lemma packet_log:
  assumes "decodeLockedLog packet_evm sample_locked_log = Inr (Some base)"
  shows "decodeLockedLogWithNonce packet_evm sample_locked_log t () = (Inr (Some (with_nonce 7 base)), t, ())"
proof -
  have "to_lower ''0xe'' = ''0xe''" by (simp add: to_lower_def lower_char_def is_upper_def char_code_def)
  then have "packet_nonce_in packet_evm ''0xe'' [\<lparr>rc_address = ''0xe'', rc_topics = [''0x''], rc_data = ''0x''\<rparr>] = Some 7"
    using packet_nonce [of 7 1 "[]"] by (simp add: packet_evm_def sample_evm_def del: be_bytes.simps)
  then show ?thesis
    using assms \<open>to_lower ''0xe'' = ''0xe''\<close>
    by (simp add: decodeLockedLogWithNonce_def resolveTransportNonce_def fetchPacketSentNonce_def packet_evm_def
        sample_evm_def sample_locked_log_def)
qed

lemma packet_evm_calls [simp]:
  "ev_getBlockNumber packet_evm w = (Inr 98, w)"
  "ev_getBlock packet_evm n w = (Inr \<lparr>eb_hash = Some ''a'', eb_parentHash = Some ''a''\<rparr>, w)"
  "ev_getLocked packet_evm a b w = (Inr (if a \<le> 97 \<and> 97 \<le> b then [sample_locked_log] else []), w)"
  "ev_onRefund packet_evm = None" "maxRange (new_evm_watcher packet_evm) = 2"
  "lg_blockNumber sample_locked_log = Some 97"
  by (simp_all add: packet_evm_def sample_evm_def new_evm_watcher_def sample_locked_log_def)

lemma packet_poll:
  assumes "decodeLockedLog packet_evm sample_locked_log = Inr (Some base)"
  shows "watcher_poll 3 packet_evm 96 (new_evm_watcher packet_evm, ())
    = (Inr \<lparr>pr_messages = [with_nonce 7 base], pr_head = 98, pr_headHash = Some ''a'', pr_parentHash = Some ''a'',
            pr_blockHeaders = Some [\<lparr>br_number = 97, br_hash = ''a'', br_parentHash = ''a''\<rparr>]\<rparr>,
       (new_evm_watcher packet_evm, ()))"
  using packet_log [OF assms]
  by (simp add: watcher_poll_def evm_poll_def numeral_3_eq_3 add_blocks_def scanRefunds_def)

lemma quiet_relayer_calls [simp]:
  "re_poll (evm_relayer k ev quiet_relayer) b w = watcher_poll k ev b w"
  "re_isDelivered (evm_relayer k ev quiet_relayer) key w = (Inr False, w)"
  "re_deliver (evm_relayer k ev quiet_relayer) p w = (Inr ''tx'', w)"
  "re_loadCheckpoint (evm_relayer k ev quiet_relayer) w = (Inr None, w)"
  "re_saveCheckpoint (evm_relayer k ev quiet_relayer) c w = (Inr (), w)"
  "re_persist (evm_relayer k ev quiet_relayer) q w = (Inr (), w)"
  "re_running (evm_relayer k ev quiet_relayer) w = True"
  "re_now (evm_relayer k ev quiet_relayer) w = 0"
  "re_sleep (evm_relayer k ev quiet_relayer) ms w = w"
  "re_confirmations (evm_relayer k ev quiet_relayer) = 0" "re_startBlock (evm_relayer k ev quiet_relayer) = 96"
  "re_mempoolStatusToken (evm_relayer k ev quiet_relayer) = None"
  by (simp_all add: evm_relayer_def quiet_relayer_def on_rest_def) (cases w, simp)+

theorem locks_never_skipped_witness:
  "\<exists>base s w. decodeLockedLog packet_evm sample_locked_log = Inr (Some base)
     \<and> relay_start 1 (evm_relayer 3 packet_evm quiet_relayer) (new_relayer (evm_relayer 3 packet_evm quiet_relayer) [])
         (new_evm_watcher packet_evm, ()) = (Inr (), s, w)
     \<and> rl_cursor s = 99 \<and> handled s (messageKeyString (key_of (with_nonce 7 base)))"
proof -
  let ?env = "evm_relayer 3 packet_evm quiet_relayer" and ?w = "(new_evm_watcher packet_evm, ())"
  let ?s = "put_cursor 96 (new_relayer ?env [])"
  obtain base where base: "decodeLockedLog packet_evm sample_locked_log = Inr (Some base)"
    using packet_evm_ok(5) by (auto simp: sample_emitted_def split: if_splits)
  have b97: "srcBlock base = 97" using decodeLockedLog_block [OF base] by simp
  have r: "relay_resume ?env (new_relayer ?env []) ?w = (Inr (), ?s, ?w)"
    by (simp add: relay_resume_def)
  have "\<exists>s w. relay_loop (Suc 0) ?env ?s ?w = (Inr (), s, w) \<and> rl_cursor s = 99"
    using packet_poll [OF base]
    by (simp add: relay_tick_def tick_deliver_def confirmed_head_def drop_unobserved_def record_poll_def put_cursor_def
        new_relayer_def detectReorg_def block_at_def relayOne_def attempt_relay_def relay_outcome_def log_event_def
        dl_has_def next_cursor_def result_by_key_def assoc_get_def after_relay_tick_def relay_sleep_def
        reportCancelling_def report_mempool_def b97 Let_def)
  then obtain s w where l: "relay_loop 1 ?env ?s ?w = (Inr (), s, w)" "rl_cursor s = 99" by auto
  have "handled s (messageKeyString (key_of (with_nonce 7 base)))"
    using locks_never_skipped [OF packet_evm_ok _ r l(1) _ _ _ base] l(2)
    by (simp add: sample_emitted_def put_cursor_def quiet_relayer_def)
  moreover have "relay_start 1 ?env (new_relayer ?env []) ?w = (Inr (), s, w)" 
    unfolding relay_start_def r using l(1) by (simp only: prod.case sum.case)
  ultimately show ?thesis using base l(2) by blast
qed

end
