(* ===== verification/Soroban_Delivery.thy ===== *)
theory Soroban_Delivery
  imports Evm_Relay
begin

text \<open>
  The delivery of messages to the settlement contract (\<^verbatim>\<open>relayer/src/soroban-delivery.ts\<close>): the checks of
  a message before it is sent, the trusted peer, restoring archived entries, submitting a transaction and
  waiting for it, and the check whether a message has arrived. The Soroban RPC server is a parameter; of
  the Stellar SDK a transaction is modelled by what the code puts into it, with the sequence number that
  \<open>build\<close> takes from the account and advances.
\<close>

section \<open>The RPC server\<close>

text \<open>What is thrown: a \<open>FatalError\<close>, another \<open>Error\<close> with its message, or any other value with its text.\<close>

datatype delivery_error = FatalDelivery string | ErrorDelivery string | OtherDelivery string

text \<open>Values of \<open>scValToNative\<close>; \<open>NativeBytes\<close> are buffers and byte arrays.\<close>

datatype native_value =
    NativeVoid
  | NativeNull
  | NativeBig int
  | NativeNumber jsnum
  | NativeBytes "8 word list"
  | NativeOther

datatype soroban_call =
    CallStatus "8 word list"
  | CallGetPeer int
  | CallLzReceive int "8 word list" int "8 word list" "8 word list"
  | RestoreFootprint string

record soroban_tx =
  tx_sequence :: int
  tx_fee :: int
  tx_call :: soroban_call
  tx_timeout :: int
  tx_assembled :: bool
  tx_signed :: bool

record restore_preamble =
  rp_minResourceFee :: int
  rp_transactionData :: string

text \<open>
  A simulation succeeds with an optional restore preamble and an optional return value, whose conversion
  may throw, or it fails with a text.
\<close>

datatype simulation = SimFailed string | SimSucceeded "restore_preamble option" "(unit, native_value) result option"

datatype send_status = SendError | TryAgainLater | SendPending | SendDuplicate

record send_result =
  sr_status :: send_status
  sr_hash :: hex
  sr_errorXdr :: "string option"

datatype tx_outcome = TxSuccess | TxFailed string | TxNotFound

record 'w soroban_env =
  sb_getAccount :: "'w \<Rightarrow> (delivery_error, int) result \<times> 'w"
  sb_simulate :: "soroban_tx \<Rightarrow> 'w \<Rightarrow> (delivery_error, simulation) result \<times> 'w"
  sb_sendTransaction :: "soroban_tx \<Rightarrow> 'w \<Rightarrow> (delivery_error, send_result) result \<times> 'w"
  sb_getTransaction :: "hex \<Rightarrow> 'w \<Rightarrow> (delivery_error, tx_outcome) result \<times> 'w"
  sb_sleep :: "int \<Rightarrow> 'w \<Rightarrow> 'w"
  sb_timeoutSeconds :: "int option"

section \<open>Statuses\<close>

definition relayer_decodeIntentStatus :: "(unit, native_value) result option \<Rightarrow> onchain_status option" where
  "relayer_decodeIntentStatus retval =
     (let of_number = (\<lambda>x.
            if \<not> is_integer x then None
            else let k = int_of_num x
                 in if k = 0 then Some OnLocked else if k = 1 then Some OnFilled
                    else if k = 2 then Some OnConfirmationSent else if k = 3 then Some OnCancelled else None)
      in case retval of
           Some (Inr (NativeBig n)) \<Rightarrow> of_number (num_of_int n)
         | Some (Inr (NativeNumber x)) \<Rightarrow> of_number x
         | _ \<Rightarrow> None)"

section \<open>Submitting\<close>

record submit_options =
  so_maxAttempts :: nat
  so_pollIntervalMs :: int
  so_maxResubmits :: nat
  so_backoffMs :: int

definition submit_defaults :: submit_options where
  "submit_defaults = \<lparr>so_maxAttempts = 20, so_pollIntervalMs = 1000, so_maxResubmits = 3, so_backoffMs = 1000\<rparr>"

fun poll_transaction :: "nat \<Rightarrow> 'w soroban_env \<Rightarrow> int \<Rightarrow> hex \<Rightarrow> 'w \<Rightarrow> (delivery_error, hex) result \<times> 'w" where
  "poll_transaction 0 env ms h w = (Inl (ErrorDelivery (''Transaction confirmation timeout: '' @ h)), w)"
| "poll_transaction (Suc k) env ms h w =
     (case sb_getTransaction env h w of
        (Inl err, w1) \<Rightarrow> (Inl err, w1)
      | (Inr TxSuccess, w1) \<Rightarrow> (Inr h, w1)
      | (Inr (TxFailed xdr), w1) \<Rightarrow> (Inl (ErrorDelivery (''Transaction failed: '' @ xdr)), w1)
      | (Inr TxNotFound, w1) \<Rightarrow> poll_transaction k env ms h (sb_sleep env ms w1))"

text \<open>One round of the submission; \<open>again\<close> is what follows \<open>TRY_AGAIN_LATER\<close>.\<close>

definition submit_round ::
  "submit_options \<Rightarrow> 'w soroban_env \<Rightarrow> soroban_tx \<Rightarrow> (hex \<Rightarrow> 'w \<Rightarrow> (delivery_error, hex) result \<times> 'w) \<Rightarrow> 'w
     \<Rightarrow> (delivery_error, hex) result \<times> 'w" where
  "submit_round opts env tx again w =
     (case sb_sendTransaction env tx w of
        (Inl err, w1) \<Rightarrow> (Inl err, w1)
      | (Inr r, w1) \<Rightarrow>
          (case sr_status r of
             SendError \<Rightarrow>
               (Inl (ErrorDelivery (''Transaction rejected by RPC: '' @ option_default (sr_errorXdr r) ''unknown error'')), w1)
           | TryAgainLater \<Rightarrow> again (sr_hash r) w1
           | _ \<Rightarrow> poll_transaction (so_maxAttempts opts) env (so_pollIntervalMs opts) (sr_hash r) w1))"

text \<open>\<open>left\<close> resubmissions are left, \<open>n\<close> have been made.\<close>

fun submit_loop ::
  "nat \<Rightarrow> nat \<Rightarrow> submit_options \<Rightarrow> 'w soroban_env \<Rightarrow> soroban_tx \<Rightarrow> 'w \<Rightarrow> (delivery_error, hex) result \<times> 'w" where
  "submit_loop 0 n opts env tx w =
     submit_round opts env tx
       (\<lambda>h w1. (Inl (ErrorDelivery (''Transaction not accepted after '' @ digits_of_nat n @ '' retries: '' @ h)), w1)) w"
| "submit_loop (Suc left) n opts env tx w =
     submit_round opts env tx
       (\<lambda>h w1. submit_loop left (n + 1) opts env tx (sb_sleep env (so_backoffMs opts * int (n + 1)) w1)) w"

definition submitAndWait ::
  "submit_options \<Rightarrow> 'w soroban_env \<Rightarrow> soroban_tx \<Rightarrow> 'w \<Rightarrow> (delivery_error, hex) result \<times> 'w" where
  "submitAndWait opts env tx w = submit_loop (so_maxResubmits opts) 0 opts env tx w"

section \<open>Views\<close>

definition sb_timeout :: "'w soroban_env \<Rightarrow> int" where
  "sb_timeout env = option_default (sb_timeoutSeconds env) 30"

text \<open>\<open>build\<close> takes the sequence number that follows the account's.\<close>

definition build_tx :: "'w soroban_env \<Rightarrow> int \<Rightarrow> int \<Rightarrow> soroban_call \<Rightarrow> soroban_tx" where
  "build_tx env seqno fee call =
     \<lparr>tx_sequence = seqno + 1, tx_fee = fee, tx_call = call, tx_timeout = sb_timeout env,
      tx_assembled = False, tx_signed = False\<rparr>"

definition intentHashScVal :: "hex \<Rightarrow> (delivery_error, 8 word list) result" where
  "intentHashScVal h =
     (if hex_string 64 h then Inr (hex_bytes (drop 2 h))
      else Inl (FatalDelivery ''Invalid intent hash: expected a 32-byte hex value''))"

definition readStatus :: "'w soroban_env \<Rightarrow> hex \<Rightarrow> 'w \<Rightarrow> (delivery_error, onchain_status option) result \<times> 'w" where
  "readStatus env h w =
     (case sb_getAccount env w of
        (Inl err, w1) \<Rightarrow> (Inl err, w1)
      | (Inr seqno, w1) \<Rightarrow>
          (case intentHashScVal h of
             Inl err \<Rightarrow> (Inl err, w1)
           | Inr bytes \<Rightarrow>
               (case sb_simulate env (build_tx env seqno 100 (CallStatus bytes)) w1 of
                  (Inl err, w2) \<Rightarrow> (Inl err, w2)
                | (Inr (SimFailed _), w2) \<Rightarrow> (Inr None, w2)
                | (Inr (SimSucceeded _ retval), w2) \<Rightarrow> (Inr (relayer_decodeIntentStatus retval), w2))))"

definition isDelivered :: "'w soroban_env \<Rightarrow> message_key \<Rightarrow> 'w \<Rightarrow> bool \<times> 'w" where
  "isDelivered env key w =
     (case readStatus env (mk_intentHash key) w of
        (Inl _, w1) \<Rightarrow> (False, w1)
      | (Inr st, w1) \<Rightarrow>
          (case mk_messageType key of
             FillInstruction \<Rightarrow> st \<noteq> None
           | CancelIntent \<Rightarrow> st = Some OnCancelled
           | FillConfirmed \<Rightarrow> st = Some OnFilled \<or> st = Some OnConfirmationSent, w1))"

text \<open>Every error of the call counts as no peer.\<close>

definition getPeer :: "'w soroban_env \<Rightarrow> int \<Rightarrow> 'w \<Rightarrow> 8 word list option \<times> 'w" where
  "getPeer env srcEid w =
     (case sb_getAccount env w of
        (Inl _, w1) \<Rightarrow> (None, w1)
      | (Inr seqno, w1) \<Rightarrow>
          (case sb_simulate env (build_tx env seqno 100 (CallGetPeer srcEid)) w1 of
             (Inr (SimSucceeded _ (Some (Inr (NativeBytes bs)))), w2) \<Rightarrow> (if length bs = 32 then Some bs else None, w2)
           | (_, w2) \<Rightarrow> (None, w2)))"

section \<open>Delivery\<close>

definition expected_length :: "message_type \<Rightarrow> nat" where
  "expected_length t = (if t = FillInstruction then FILL_INSTRUCTION_LENGTH else CANCEL_INTENT_LENGTH)"

text \<open>
  The checks before the peer is asked for. \<open>payloadLength\<close> may be a half: the comparison is on twice the
  lengths. A deadline text that \<open>BigInt\<close> refuses is a \<open>SyntaxError\<close>.
\<close>

definition check_message :: "bridge_message \<Rightarrow> (delivery_error, unit) result" where
  "check_message m =
     (if \<not> hex_string_any (bm_rawPayload m) then Inl (FatalDelivery ''Missing canonical LayerZero message payload'')
      else if length (bm_rawPayload m) - 2 \<noteq> 2 * expected_length (bm_messageType m)
      then Inl (FatalDelivery ''Invalid canonical payload length'')
      else if bm_messageType m \<noteq> FillInstruction then Inr ()
      else case (case bm_deadline m of BigDeadline n \<Rightarrow> Some n | TextDeadline t \<Rightarrow> js_bigint t) of
             None \<Rightarrow> Inl (ErrorDelivery ''Cannot convert to a BigInt'')
           | Some n \<Rightarrow> if n \<le> 0 then Inl (FatalDelivery ''Invalid deadline on FillInstruction message'') else Inr ())"

definition appendLzReceiveCall ::
  "'w soroban_env \<Rightarrow> pending_message \<Rightarrow> 'w \<Rightarrow> (delivery_error, soroban_call) result \<times> 'w" where
  "appendLzReceiveCall env p w =
     (case check_message (pm_message p) of
        Inl err \<Rightarrow> (Inl err, w)
      | Inr _ \<Rightarrow>
          (case getPeer env (bm_srcEid (pm_message p)) w of
             (None, w1) \<Rightarrow> (Inl (FatalDelivery ''No trusted peer configured for source eid''), w1)
           | (Some sender, w1) \<Rightarrow>
               (Inr (CallLzReceive (bm_nonce (pm_message p)) sender (bm_srcEid (pm_message p))
                       (replicate 32 0) (hex_bytes (drop 2 (bm_rawPayload (pm_message p))))), w1)))"

definition restoreFootprint :: "'w soroban_env \<Rightarrow> restore_preamble \<Rightarrow> 'w \<Rightarrow> (delivery_error, unit) result \<times> 'w" where
  "restoreFootprint env pre w =
     (case sb_getAccount env w of
        (Inl err, w1) \<Rightarrow> (Inl err, w1)
      | (Inr seqno, w1) \<Rightarrow>
          (case submitAndWait submit_defaults env
                  (build_tx env seqno (rp_minResourceFee pre) (RestoreFootprint (rp_transactionData pre))\<lparr>tx_signed := True\<rparr>) w1 of
             (Inl err, w2) \<Rightarrow> (Inl err, w2)
           | (Inr _, w2) \<Rightarrow> (Inr (), w2)))"

text \<open>
  Simulate; when entries are archived restore them, build again (with the next sequence number of the
  same account object) and simulate again. Gives the transaction to submit.
\<close>

definition prepare_tx ::
  "'w soroban_env \<Rightarrow> int \<Rightarrow> soroban_call \<Rightarrow> 'w \<Rightarrow> (delivery_error, soroban_tx) result \<times> 'w" where
  "prepare_tx env seqno call w =
     (let tx = build_tx env seqno 10000 call;
          finish = (\<lambda>tx sim. case sim of
              SimFailed e \<Rightarrow> Inl (ErrorDelivery (''Simulation failed: '' @ e))
            | SimSucceeded _ _ \<Rightarrow> Inr (tx\<lparr>tx_assembled := True, tx_signed := True\<rparr>))
      in case sb_simulate env tx w of
           (Inl err, w1) \<Rightarrow> (Inl err, w1)
         | (Inr (SimSucceeded (Some pre) _), w1) \<Rightarrow>
             (case restoreFootprint env pre w1 of
                (Inl err, w2) \<Rightarrow> (Inl err, w2)
              | (Inr _, w2) \<Rightarrow>
                  (let tx2 = build_tx env (seqno + 1) 10000 call
                   in case sb_simulate env tx2 w2 of
                        (Inl err, w3) \<Rightarrow> (Inl err, w3)
                      | (Inr sim, w3) \<Rightarrow> (finish tx2 sim, w3)))
         | (Inr sim, w1) \<Rightarrow> (finish tx sim, w1))"

definition deliver_try :: "'w soroban_env \<Rightarrow> pending_message \<Rightarrow> 'w \<Rightarrow> (delivery_error, hex) result \<times> 'w" where
  "deliver_try env p w =
     (case sb_getAccount env w of
        (Inl err, w1) \<Rightarrow> (Inl err, w1)
      | (Inr seqno, w1) \<Rightarrow>
          (case appendLzReceiveCall env p w1 of
             (Inl err, w2) \<Rightarrow> (Inl err, w2)
           | (Inr call, w2) \<Rightarrow>
               (case prepare_tx env seqno call w2 of
                  (Inl err, w3) \<Rightarrow> (Inl err, w3)
                | (Inr tx, w3) \<Rightarrow> submitAndWait submit_defaults env tx w3)))"

text \<open>The \<open>catch\<close> branch: an error whose message speaks of the signer, the secret key or the network passphrase is fatal.\<close>

definition delivery_thrown :: "delivery_error \<Rightarrow> relay_thrown" where
  "delivery_thrown err =
     (case err of
        FatalDelivery m \<Rightarrow> Fatal m
      | ErrorDelivery m \<Rightarrow>
          (let msg = to_lower m
           in if str_includes msg ''signer'' \<or> str_includes msg ''secret key'' \<or> str_includes msg ''network passphrase''
              then Fatal ''Soroban delivery configuration is invalid''
              else Thrown (''Failed to deliver to Soroban: Error: '' @ m))
      | OtherDelivery t \<Rightarrow> Thrown (''Failed to deliver to Soroban: '' @ t))"

definition deliver :: "'w soroban_env \<Rightarrow> pending_message \<Rightarrow> 'w \<Rightarrow> (relay_thrown, hex) result \<times> 'w" where
  "deliver env p w =
     (case deliver_try env p w of
        (Inl err, w1) \<Rightarrow> (Inl (delivery_thrown err), w1)
      | (Inr h, w1) \<Rightarrow> (Inr h, w1))"

text \<open>The leg from the EVM chain to Stellar, as \<^verbatim>\<open>cli.ts\<close> wires it.\<close>

definition stellar_leg :: "'w soroban_env \<Rightarrow> 'w relayer_env \<Rightarrow> 'w relayer_env" where
  "stellar_leg sb env =
     env\<lparr>re_isDelivered := \<lambda>k w. (case isDelivered sb k w of (b, w1) \<Rightarrow> (Inr b, w1)), re_deliver := deliver sb\<rparr>"

section \<open>Submissions\<close>

text \<open>The server accepted the transaction under this hash, and has confirmed the hash.\<close>

definition accepted :: "'w soroban_env \<Rightarrow> soroban_tx \<Rightarrow> hex \<Rightarrow> bool" where
  "accepted env tx h \<longleftrightarrow>
     (\<exists>w r w1. sb_sendTransaction env tx w = (Inr r, w1) \<and> sr_hash r = h \<and> sr_status r \<in> {SendPending, SendDuplicate})"

definition confirmed :: "'w soroban_env \<Rightarrow> hex \<Rightarrow> bool" where
  "confirmed env h \<longleftrightarrow> (\<exists>w w1. sb_getTransaction env h w = (Inr TxSuccess, w1))"

lemma poll_transaction_confirmed:
  "poll_transaction k env ms h w = (Inr h', w') \<Longrightarrow> h' = h \<and> confirmed env h"
proof (induction k arbitrary: w)
  case (Suc k)
  obtain r w1 where g: "sb_getTransaction env h w = (r, w1)" by fastforce
  then show ?case using Suc
    by (cases r; cases "\<exists>o1. r = Inr o1") (auto simp: confirmed_def split: sum.splits tx_outcome.splits)
qed simp

lemma submit_round_accepted:
  assumes "submit_round opts env tx again w = (Inr h, w')"
    and "\<And>g v. again g v = (Inr h, w') \<Longrightarrow> accepted env tx h \<and> confirmed env h"
  shows "accepted env tx h \<and> confirmed env h"
  using assms unfolding submit_round_def
  by (auto simp: accepted_def split: prod.splits sum.splits send_status.splits dest!: poll_transaction_confirmed)

lemma submit_loop_accepted: "submit_loop k n opts env tx w = (Inr h, w') \<Longrightarrow> accepted env tx h \<and> confirmed env h"
proof (induction k arbitrary: n w)
  case 0
  show ?case by (rule submit_round_accepted [OF 0 [unfolded submit_loop.simps]]) simp
next
  case (Suc k)
  show ?case by (rule submit_round_accepted [OF Suc.prems [unfolded submit_loop.simps]]) (rule Suc.IH)
qed

lemma submitAndWait_accepted: "submitAndWait opts env tx w = (Inr h, w') \<Longrightarrow> accepted env tx h \<and> confirmed env h"
  unfolding submitAndWait_def by (rule submit_loop_accepted)

text \<open>A server that also counts the submissions and the polls.\<close>

definition counted :: "'w soroban_env \<Rightarrow> ('w \<times> nat \<times> nat) soroban_env" where
  "counted env =
     \<lparr>sb_getAccount = \<lambda>(w, a, b). (case sb_getAccount env w of (r, w1) \<Rightarrow> (r, w1, a, b)),
      sb_simulate = \<lambda>tx (w, a, b). (case sb_simulate env tx w of (r, w1) \<Rightarrow> (r, w1, a, b)),
      sb_sendTransaction = \<lambda>tx (w, a, b). (case sb_sendTransaction env tx w of (r, w1) \<Rightarrow> (r, w1, Suc a, b)),
      sb_getTransaction = \<lambda>h (w, a, b). (case sb_getTransaction env h w of (r, w1) \<Rightarrow> (r, w1, a, Suc b)),
      sb_sleep = \<lambda>ms (w, a, b). (sb_sleep env ms w, a, b), sb_timeoutSeconds = sb_timeoutSeconds env\<rparr>"

lemma counted_calls [simp]:
  "sb_sendTransaction (counted env) tx (w, a, b) = (case sb_sendTransaction env tx w of (r, w1) \<Rightarrow> (r, w1, Suc a, b))"
  "sb_getTransaction (counted env) h (w, a, b) = (case sb_getTransaction env h w of (r, w1) \<Rightarrow> (r, w1, a, Suc b))"
  "sb_sleep (counted env) ms (w, a, b) = (sb_sleep env ms w, a, b)"
  by (simp_all add: counted_def)

lemma poll_counted:
  "\<exists>b'. poll_transaction k (counted env) ms h (w, a, b)
       = (fst (poll_transaction k env ms h w), snd (poll_transaction k env ms h w), a, b') \<and> b' \<le> b + k"
proof (induction k arbitrary: w b)
  case (Suc k)
  obtain r w1 where g: "sb_getTransaction env h w = (r, w1)" by fastforce
  obtain b' where "poll_transaction k (counted env) ms h (sb_sleep env ms w1, a, Suc b)
       = (fst (poll_transaction k env ms h (sb_sleep env ms w1)), snd (poll_transaction k env ms h (sb_sleep env ms w1)), a, b')"
    "b' \<le> Suc b + k" using Suc by blast
  then show ?case using g by (cases r) (auto split: tx_outcome.split)
qed simp

lemma submit_round_counted:
  assumes "\<And>h v. \<exists>a' b'. again' h (v, Suc a, b) = (fst (again h v), snd (again h v), a', b')
      \<and> a' \<le> m \<and> b' \<le> b + so_maxAttempts opts" and "Suc a \<le> m"
  shows "\<exists>a' b'. submit_round opts (counted env) tx again' (w, a, b)
       = (fst (submit_round opts env tx again w), snd (submit_round opts env tx again w), a', b')
     \<and> a' \<le> m \<and> b' \<le> b + so_maxAttempts opts"
proof -
  obtain r w1 where g: "sb_sendTransaction env tx w = (r, w1)" by fastforce
  have "\<exists>b'. poll_transaction (so_maxAttempts opts) (counted env) (so_pollIntervalMs opts) h (w1, Suc a, b)
       = (fst (poll_transaction (so_maxAttempts opts) env (so_pollIntervalMs opts) h w1),
          snd (poll_transaction (so_maxAttempts opts) env (so_pollIntervalMs opts) h w1), Suc a, b')
     \<and> b' \<le> b + so_maxAttempts opts" for h
    by (rule poll_counted)
  then show ?thesis using g assms unfolding submit_round_def
    by (cases r) (simp_all split: send_status.split, metis+)
qed

lemma submit_loop_counted:
  "\<exists>a' b'. submit_loop k n opts (counted env) tx (w, a, b)
       = (fst (submit_loop k n opts env tx w), snd (submit_loop k n opts env tx w), a', b')
     \<and> a' \<le> a + 1 + k \<and> b' \<le> b + so_maxAttempts opts"
proof (induction k arbitrary: n w a)
  case 0
  show ?case unfolding submit_loop.simps by (rule submit_round_counted) simp_all
next
  case (Suc k)
  show ?case unfolding submit_loop.simps
    by (rule submit_round_counted) (use Suc [of _ _ "Suc a"] in simp_all)
qed

section \<open>Deliveries\<close>

lemma deliver_try_sends:
  assumes "deliver_try env p w = (Inr h, w')"
  shows "\<exists>seqno sender. accepted env
      ((build_tx env seqno 10000
         (CallLzReceive (bm_nonce (pm_message p)) sender (bm_srcEid (pm_message p)) (replicate 32 0)
            (hex_bytes (drop 2 (bm_rawPayload (pm_message p))))))\<lparr>tx_assembled := True, tx_signed := True\<rparr>) h
    \<and> confirmed env h \<and> length sender = 32 \<and> check_message (pm_message p) = Inr ()"
proof -
  obtain seqno w1 where acc: "sb_getAccount env w = (Inr seqno, w1)"
    using assms by (auto simp: deliver_try_def split: prod.splits sum.splits)
  obtain call w2 where call: "appendLzReceiveCall env p w1 = (Inr call, w2)"
    using assms acc by (auto simp: deliver_try_def split: prod.splits sum.splits)
  obtain tx w3 where tx: "prepare_tx env seqno call w2 = (Inr tx, w3)"
    using assms acc call by (auto simp: deliver_try_def split: prod.splits sum.splits)
  have "submitAndWait submit_defaults env tx w3 = (Inr h, w')"
    using assms acc call tx by (simp add: deliver_try_def)
  then have "accepted env tx h \<and> confirmed env h" by (rule submitAndWait_accepted)
  moreover have "\<exists>n. tx = (build_tx env n 10000 call)\<lparr>tx_assembled := True, tx_signed := True\<rparr>"
    using tx by (auto simp: prepare_tx_def Let_def split: prod.splits sum.splits simulation.splits option.splits)
  moreover obtain sender where "call = CallLzReceive (bm_nonce (pm_message p)) sender (bm_srcEid (pm_message p))
      (replicate 32 0) (hex_bytes (drop 2 (bm_rawPayload (pm_message p))))" "length sender = 32"
    "check_message (pm_message p) = Inr ()"
    using call by (auto simp: appendLzReceiveCall_def getPeer_def split: prod.splits sum.splits option.splits
        simulation.splits native_value.splits if_splits)
  ultimately show ?thesis by blast
qed

text \<open>What a decoded lock carries.\<close>

lemma decoded_lock:
  assumes "decodeLockedLog ev l = Inr (Some base)"
  obtains d where "ev_decodeLocked ev (lg_data l) = Some d" and "bm_messageType (pm_message base) = FillInstruction"
    and "bm_srcEid (pm_message base) = ev_sourceEid ev"
    and "bm_deadline (pm_message base) = TextDeadline (int_string (ld_deadline d))" and "0 \<le> ld_deadline d"
    and "bm_rawPayload (pm_message base) = ''0x'' @ bytes_hex (escrow_fill_instruction
           (hex_bytes (drop 2 (lg_topics l ! 1))) (nat (ev_stellarEid ev)) (utf8_bytes (ld_destination d))
           (utf8_bytes (ld_destAsset d)) (nat (ld_minDestAmount d)) (nat (ld_deadline d))
           (hex_bytes (drop 26 (lg_topics l ! 2))))"
    and "length (bm_rawPayload (pm_message base)) = 2 + 2 * FILL_INSTRUCTION_LENGTH"
proof -
  let ?sol = "''0x'' @ drop 26 (lg_topics l ! 2)"
  obtain d raw where d: "ev_decodeLocked ev (lg_data l) = Some d"
    and raw: "canonicalFillInstruction (lg_topics l ! 1) ?sol (ev_stellarEid ev) (ld_destination d) (ld_destAsset d)
        (ld_minDestAmount d) (ld_deadline d) = Inr raw"
    and base: "bm_messageType (pm_message base) = FillInstruction" "bm_srcEid (pm_message base) = ev_sourceEid ev"
      "bm_deadline (pm_message base) = TextDeadline (int_string (ld_deadline d))"
      "bm_rawPayload (pm_message base) = raw"
    using assms by (auto simp: decodeLockedLog_def Let_def bind_result_Inr_iff split: option.splits if_splits)
  note e = canonical_is_escrow [OF raw]
  have "0 \<le> ld_deadline d" using raw by (auto simp: canonicalFillInstruction_def split: if_splits)
  moreover have "length raw = 2 + 2 * FILL_INSTRUCTION_LENGTH"
    using e(2-5) by (simp add: e(1) length_bytes_hex escrow_fill_instruction_def right_padded_def FILL_INSTRUCTION_LENGTH_def
        del: be_bytes.simps)
  moreover have "raw = ''0x'' @ bytes_hex (escrow_fill_instruction (hex_bytes (drop 2 (lg_topics l ! 1)))
      (nat (ev_stellarEid ev)) (utf8_bytes (ld_destination d)) (utf8_bytes (ld_destAsset d))
      (nat (ld_minDestAmount d)) (nat (ld_deadline d)) (hex_bytes (drop 26 (lg_topics l ! 2))))"
    using e(1) by simp
  ultimately show ?thesis using that [OF d base(1-3)] base(4) by simp
qed

lemma hex_string_any_bytes: "bs \<noteq> [] \<Longrightarrow> hex_string_any (''0x'' @ bytes_hex bs)"
proof -
  have "is_hex (hex_char n)" if "n < 16" for n using that by (auto simp: hex_char_def char_class_defs)
  moreover have "unat b < 256" for b :: "8 word" by (rule order_less_le_trans [OF unsigned_less]) simp
  then have "unat b div 16 < 16" for b :: "8 word" by (simp add: less_mult_imp_div_less)
  ultimately have "list_all is_hex (bytes_hex bs)" for bs by (induction bs) (simp_all add: bytes_hex_def)
  moreover assume "bs \<noteq> []"
  ultimately show ?thesis using length_bytes_hex [of bs] by (simp add: hex_string_any_def)
qed

lemma js_bigint_int_string: "0 \<le> n \<Longrightarrow> js_bigint (int_string n) = Some n"
  using digits_of_nat_digits [of "nat n"] by (simp add: int_string_def js_bigint_digits digit_string_def nat_of_digits_of_nat)

lemma check_with_nonce [simp]: "check_message (pm_message (with_nonce n p)) = check_message (pm_message p)"
  by (simp add: check_message_def with_nonce_def)

lemma decoded_passes:
  assumes "decodeLockedLog ev l = Inr (Some base)" and "\<And>d. ev_decodeLocked ev (lg_data l) = Some d \<Longrightarrow> 0 < ld_deadline d"
  shows "check_message (pm_message base) = Inr ()"
proof -
  obtain d where d: "ev_decodeLocked ev (lg_data l) = Some d" "bm_messageType (pm_message base) = FillInstruction"
    "bm_deadline (pm_message base) = TextDeadline (int_string (ld_deadline d))" "0 \<le> ld_deadline d"
    "length (bm_rawPayload (pm_message base)) = 2 + 2 * FILL_INSTRUCTION_LENGTH"
    and raw: "bm_rawPayload (pm_message base) = ''0x'' @ bytes_hex (escrow_fill_instruction
           (hex_bytes (drop 2 (lg_topics l ! 1))) (nat (ev_stellarEid ev)) (utf8_bytes (ld_destination d))
           (utf8_bytes (ld_destAsset d)) (nat (ld_minDestAmount d)) (nat (ld_deadline d))
           (hex_bytes (drop 26 (lg_topics l ! 2))))"
    by (rule decoded_lock [OF assms(1)])
  have "hex_string_any (bm_rawPayload (pm_message base))"
    unfolding raw by (rule hex_string_any_bytes) (simp add: escrow_fill_instruction_def)
  moreover have "0 < ld_deadline d" using assms(2) d(1) .
  ultimately show ?thesis using d by (simp add: check_message_def expected_length_def js_bigint_int_string)
qed

section \<open>Properties\<close>

text \<open>
  C11. Submitting a transaction is bounded and honest: the server is sent the transaction at most once more
  than the resubmissions allowed and asked for its outcome at most as often as configured, and a hash is
  returned only for a transaction that the server accepted under it and has confirmed.
\<close>

theorem submissions_bounded:
  "\<exists>sends polls. submitAndWait opts (counted env) tx (w, 0, 0)
       = (fst (submitAndWait opts env tx w), snd (submitAndWait opts env tx w), sends, polls)
     \<and> sends \<le> 1 + so_maxResubmits opts \<and> polls \<le> so_maxAttempts opts
     \<and> (\<forall>h. fst (submitAndWait opts env tx w) = Inr h \<longrightarrow> accepted env tx h \<and> confirmed env h)"
proof -
  have "\<forall>h. fst (submitAndWait opts env tx w) = Inr h \<longrightarrow> accepted env tx h \<and> confirmed env h"
    using submitAndWait_accepted by (metis prod.collapse)
  then show ?thesis
    using submit_loop_counted [of "so_maxResubmits opts" 0 opts env tx w 0 0] by (auto simp: submitAndWait_def)
qed

text \<open>
  C6. What the escrow sent is what reaches Stellar: a message decoded from a \<open>Locked\<close> log with a deadline
  passes the checks of the delivery, and when its delivery succeeds a signed transaction has been
  accepted and confirmed that calls the settlement contract with the message's nonce, a 32-byte peer
  and, byte for byte, the payload the escrow dispatches for that lock.
\<close>

theorem lock_bytes_reach_settlement:
  assumes "decodeLockedLog ev l = Inr (Some base)" and "ev_decodeLocked ev (lg_data l) = Some d"
  shows "(0 < ld_deadline d \<longrightarrow> check_message (pm_message (with_nonce n base)) = Inr ())
    \<and> (deliver sb (with_nonce n base) w = (Inr h, w') \<longrightarrow>
        (\<exists>tx sender. accepted sb tx h \<and> confirmed sb h \<and> tx_signed tx \<and> length sender = 32
           \<and> tx_call tx = CallLzReceive n sender (ev_sourceEid ev) (replicate 32 0)
               (escrow_fill_instruction (hex_bytes (drop 2 (lg_topics l ! 1))) (nat (ev_stellarEid ev))
                 (utf8_bytes (ld_destination d)) (utf8_bytes (ld_destAsset d)) (nat (ld_minDestAmount d))
                 (nat (ld_deadline d)) (hex_bytes (drop 26 (lg_topics l ! 2))))))"
proof -
  let ?bytes = "escrow_fill_instruction (hex_bytes (drop 2 (lg_topics l ! 1))) (nat (ev_stellarEid ev))
      (utf8_bytes (ld_destination d)) (utf8_bytes (ld_destAsset d)) (nat (ld_minDestAmount d))
      (nat (ld_deadline d)) (hex_bytes (drop 26 (lg_topics l ! 2)))"
  obtain d' where "ev_decodeLocked ev (lg_data l) = Some d'" and m: "bm_messageType (pm_message base) = FillInstruction"
    "bm_srcEid (pm_message base) = ev_sourceEid ev" "length (bm_rawPayload (pm_message base)) = 2 + 2 * FILL_INSTRUCTION_LENGTH"
    and "bm_deadline (pm_message base) = TextDeadline (int_string (ld_deadline d'))" "0 \<le> ld_deadline d'"
    and "bm_rawPayload (pm_message base) = ''0x'' @ bytes_hex (escrow_fill_instruction
           (hex_bytes (drop 2 (lg_topics l ! 1))) (nat (ev_stellarEid ev)) (utf8_bytes (ld_destination d'))
           (utf8_bytes (ld_destAsset d')) (nat (ld_minDestAmount d')) (nat (ld_deadline d'))
           (hex_bytes (drop 26 (lg_topics l ! 2))))"
    by (rule decoded_lock [OF assms(1)])
  then have dl: "bm_deadline (pm_message base) = TextDeadline (int_string (ld_deadline d))" "0 \<le> ld_deadline d"
    and raw: "bm_rawPayload (pm_message base) = ''0x'' @ bytes_hex ?bytes"
    using assms(2) by simp_all
  have "0 < ld_deadline d \<longrightarrow> check_message (pm_message (with_nonce n base)) = Inr ()"
  proof
    assume "0 < ld_deadline d"
    then show "check_message (pm_message (with_nonce n base)) = Inr ()"
      using decoded_passes [OF assms(1)] assms(2) by simp
  qed
  moreover have "\<exists>tx sender. accepted sb tx h \<and> confirmed sb h \<and> tx_signed tx \<and> length sender = 32
      \<and> tx_call tx = CallLzReceive n sender (ev_sourceEid ev) (replicate 32 0) ?bytes"
    if "deliver sb (with_nonce n base) w = (Inr h, w')"
  proof -
    have "deliver_try sb (with_nonce n base) w = (Inr h, w')"
      using that by (auto simp: deliver_def split: prod.splits sum.splits)
    then obtain seqno sender where "accepted sb ((build_tx sb seqno 10000 (CallLzReceive n sender (ev_sourceEid ev)
        (replicate 32 0) ?bytes))\<lparr>tx_assembled := True, tx_signed := True\<rparr>) h" "confirmed sb h" "length sender = 32"
      using deliver_try_sends [of sb "with_nonce n base" w h w'] m(2) raw hex_bytes_bytes_hex [of ?bytes]
      by (auto simp: with_nonce_def)
    then show ?thesis by (intro exI conjI) (auto simp: build_tx_def)
  qed
  ultimately show ?thesis by blast
qed

text \<open>
  An outage at the wrong moment stops the relayer: when reading the signer's account fails before a
  delivery the attempt is counted and retried, but when the same error hits the second reading, the one
  for the trusted peer, it is taken for a missing peer: the attempt ends in a \<open>FatalError\<close>, which no retry
  follows, and a tick that raises it ends the loop.
\<close>

theorem peer_outage_is_fatal:
  assumes "\<not> dl_has (rl_dead s) (key_of p)" and "assoc_get (rl_attempts s) (messageKeyString (key_of p)) = None"
    and "isDelivered sb (key_of p) w = (False, w1)" and "check_message (pm_message p) = Inr ()"
    and "1 < re_maxAttempts env" and "delivery_thrown (ErrorDelivery m) = Thrown t"
  shows "(sb_getAccount sb w1 = (Inl (ErrorDelivery m), w2) \<longrightarrow>
            (\<exists>r s'. relayOne (stellar_leg sb env) p s w = (Inr r, s', w2)
               \<and> (\<exists>st. assoc_get (rl_attempts s') (messageKeyString (key_of p)) = Some st \<and> rt_attempts st = 1)))
    \<and> (sb_getAccount sb w1 = (Inr seqno, w2) \<and> sb_getAccount sb w2 = (Inl (ErrorDelivery m), w3) \<longrightarrow>
         relayOne (stellar_leg sb env) p s w = (Inl (Fatal ''No trusted peer configured for source eid''), s, w3))
    \<and> (re_running env v \<and> relay_tick (stellar_leg sb env) s0 v = (Inl (Fatal f), s1, v1) \<longrightarrow>
         relay_loop (Suc k) (stellar_leg sb env) s0 v = (Inl (Fatal f), log_event (LogFatal f) s1, v1))"
proof (intro conjI impI)
  assume "sb_getAccount sb w1 = (Inl (ErrorDelivery m), w2)"
  then have d: "deliver sb p w1 = (Inl (Thrown t), w2)" using assms(6) by (simp add: deliver_def deliver_try_def)
  then show "\<exists>r s'. relayOne (stellar_leg sb env) p s w = (Inr r, s', w2)
      \<and> (\<exists>st. assoc_get (rl_attempts s') (messageKeyString (key_of p)) = Some st \<and> rt_attempts st = 1)"
    using assms(1-3,5)
    by (simp add: relayOne_def attempt_relay_def stellar_leg_def relay_failed_def log_event_def Let_def store_simps)
next
  assume "sb_getAccount sb w1 = (Inr seqno, w2) \<and> sb_getAccount sb w2 = (Inl (ErrorDelivery m), w3)"
  then have "deliver sb p w1 = (Inl (Fatal ''No trusted peer configured for source eid''), w3)"
    using assms(4) by (simp add: deliver_def deliver_try_def appendLzReceiveCall_def getPeer_def delivery_thrown_def)
  then show "relayOne (stellar_leg sb env) p s w = (Inl (Fatal ''No trusted peer configured for source eid''), s, w3)"
    using assms(1-3) by (simp add: relayOne_def attempt_relay_def stellar_leg_def relay_failed_def Let_def)
next
  assume "re_running env v \<and> relay_tick (stellar_leg sb env) s0 v = (Inl (Fatal f), s1, v1)"
  then show "relay_loop (Suc k) (stellar_leg sb env) s0 v = (Inl (Fatal f), log_event (LogFatal f) s1, v1)"
    by (simp add: stellar_leg_def)
qed

definition sample_soroban :: "unit soroban_env" where
  "sample_soroban =
     \<lparr>sb_getAccount = \<lambda>w. (Inr 5, w),
      sb_simulate = \<lambda>tx w. (Inr (SimSucceeded None (case tx_call tx of
          CallGetPeer _ \<Rightarrow> Some (Inr (NativeBytes (replicate 32 7))) | _ \<Rightarrow> None)), w),
      sb_sendTransaction = \<lambda>tx w. (Inr \<lparr>sr_status = SendPending, sr_hash = ''0x99'', sr_errorXdr = None\<rparr>, w),
      sb_getTransaction = \<lambda>h w. (Inr TxSuccess, w), sb_sleep = \<lambda>ms w. w, sb_timeoutSeconds = None\<rparr>"

lemma sample_soroban_calls [simp]:
  "sb_getAccount sample_soroban w = (Inr 5, w)"
  "sb_simulate sample_soroban tx w = (Inr (SimSucceeded None (case tx_call tx of
      CallGetPeer _ \<Rightarrow> Some (Inr (NativeBytes (replicate 32 7))) | _ \<Rightarrow> None)), w)"
  by (simp_all add: sample_soroban_def)

lemma sample_submit: "submitAndWait submit_defaults sample_soroban tx w = (Inr ''0x99'', w)"
  by (simp add: submitAndWait_def submit_defaults_def eval_nat_numeral submit_round_def sample_soroban_def)

theorem submissions_bounded_witness:
  "confirmed sample_soroban ''0x99''"
  using submissions_bounded [of submit_defaults sample_soroban _ "()"] by (auto simp: sample_submit)

theorem lock_bytes_reach_settlement_witness:
  "\<exists>base tx. decodeLockedLog sample_evm sample_locked_log = Inr (Some base)
     \<and> deliver sample_soroban (with_nonce 7 base) () = (Inr ''0x99'', ()) \<and> accepted sample_soroban tx ''0x99''
     \<and> (\<exists>sender bytes. tx_call tx = CallLzReceive 7 sender 30101 (replicate 32 0) bytes)"
proof -
  obtain base where base: "decodeLockedLog sample_evm sample_locked_log = Inr (Some base)" using sample_decodes by blast
  obtain d where d: "ev_decodeLocked sample_evm (lg_data sample_locked_log) = Some d" "ld_deadline d = 9"
    by (simp add: sample_evm_def)
  have c: "check_message (pm_message (with_nonce 7 base)) = Inr ()"
    using lock_bytes_reach_settlement [OF base d(1), of 7, THEN conjunct1] d(2) by simp
  have del: "deliver sample_soroban (with_nonce 7 base) () = (Inr ''0x99'', ())"
    using c sample_submit
    by (simp add: deliver_def deliver_try_def appendLzReceiveCall_def getPeer_def prepare_tx_def Let_def build_tx_def)
  have "ev_sourceEid sample_evm = 30101" by (simp add: sample_evm_def)
  then show ?thesis
    using lock_bytes_reach_settlement [OF base d(1), THEN conjunct2, rule_format, OF del] base del by auto
qed

definition flaky_soroban :: "int soroban_env" where
  "flaky_soroban =
     \<lparr>sb_getAccount = \<lambda>w. (if w = 2 then Inl (ErrorDelivery ''timeout'') else Inr 5, w + 1),
      sb_simulate = \<lambda>tx w. (Inr (SimSucceeded None None), w),
      sb_sendTransaction = \<lambda>tx w. (Inl (ErrorDelivery ''timeout''), w),
      sb_getTransaction = \<lambda>h w. (Inr TxNotFound, w), sb_sleep = \<lambda>ms w. w, sb_timeoutSeconds = None\<rparr>"

theorem peer_outage_is_fatal_witness:
  "\<exists>p. relayOne (stellar_leg flaky_soroban sample_relayer) p (new_relayer sample_relayer []) 0
     = (Inl (Fatal ''No trusted peer configured for source eid''), new_relayer sample_relayer [], 3)"
proof -
  obtain base where base: "decodeLockedLog sample_evm sample_locked_log = Inr (Some base)" using sample_decodes by blast
  have m: "check_message (pm_message base) = Inr ()" by (rule decoded_passes [OF base]) (auto simp: sample_evm_def)
  have i: "isDelivered flaky_soroban (key_of base) 0 = (False, 1)"
    by (simp add: isDelivered_def readStatus_def flaky_soroban_def relayer_decodeIntentStatus_def
        split: sum.split message_type.split)
  have t: "delivery_thrown (ErrorDelivery ''timeout'') = Thrown ''Failed to deliver to Soroban: Error: timeout''"
    by (simp add: delivery_thrown_def Let_def to_lower_def lower_char_def is_upper_def char_code_def)
  have g: "sb_getAccount flaky_soroban 1 = (Inr 5, 2)" "sb_getAccount flaky_soroban 2 = (Inl (ErrorDelivery ''timeout''), 3)"
    by (simp_all add: flaky_soroban_def)
  have fresh: "\<not> dl_has (rl_dead (new_relayer sample_relayer [])) k"
    "assoc_get (rl_attempts (new_relayer sample_relayer [])) ks = None" "1 < re_maxAttempts sample_relayer" for k ks
    by (simp_all add: new_relayer_def dl_has_def assoc_get_def sample_relayer_def)
  let ?s = "new_relayer sample_relayer []"
  have "\<not> dl_has (rl_dead ?s) (key_of base)" by (rule fresh(1))
  moreover have "assoc_get (rl_attempts ?s) (messageKeyString (key_of base)) = None" by (rule fresh(2))
  ultimately have "sb_getAccount flaky_soroban 1 = (Inr 5, 2) \<and> sb_getAccount flaky_soroban 2 = (Inl (ErrorDelivery ''timeout''), 3)
      \<longrightarrow> relayOne (stellar_leg flaky_soroban sample_relayer) base ?s 0
            = (Inl (Fatal ''No trusted peer configured for source eid''), ?s, 3)"
    using i m fresh(3) t by (rule peer_outage_is_fatal [THEN conjunct2, THEN conjunct1])
  then have "relayOne (stellar_leg flaky_soroban sample_relayer) base ?s 0
      = (Inl (Fatal ''No trusted peer configured for source eid''), ?s, 3)"
    by (rule mp) (rule conjI [OF g])
  then show ?thesis by (rule exI [where x = base])
qed

end
