(* ===== verification/Solver_Config.thy ===== *)
theory Solver_Config
  imports Config_Values Sdk_Client Sdk_Units
begin

text \<open>
  \<^verbatim>\<open>solver/src/config.ts\<close>: the solver's configuration, read from the environment. Address syntax
  (\<open>isAddress\<close> of viem) and URL parsing (\<open>new URL\<close>) are parameters. Loading returns the warnings it
  prints and either all the problems found or the configuration.
\<close>

section \<open>The code\<close>

record solver_config =
  sc_mempoolUrl :: string
  solverAddress :: address
  sc_sourceChainId :: int
  settlementContractId :: "string option"
  sorobanRpcUrl :: "string option"
  escrowAddress :: address
  minMarginBps :: int
  maxPlausibleProfitBps :: "int option"
  maxImplausibleProfitTriggers :: "int option"
  sourceNativeFeeFloor :: int
  stellarNativeFeeFloor :: int
  pollIntervalMs :: int
  supportedDestAssets :: "string list"
  verificationCacheSize :: "int option"
  fillConcurrency :: "int option"
  seenCacheSize :: "int option"
  retryCacheSize :: "int option"
  mempoolStatusToken :: "string option"

definition parseNonNegativeBigInt :: "string option \<Rightarrow> string \<Rightarrow> config_error list \<times> int" where
  "parseNonNegativeBigInt raw nm =
     (case raw of
        None \<Rightarrow> ([], 0)
      | Some r \<Rightarrow>
          if trim r = '''' then ([], 0)
          else (case js_bigint (trim r) of
                  None \<Rightarrow> ([Invalid nm r], 0)
                | Some v \<Rightarrow> if v < 0 then ([Invalid nm r], 0) else ([], v)))"

definition nonblank :: "string option \<Rightarrow> bool" where
  "nonblank v \<longleftrightarrow> (case v of None \<Rightarrow> False | Some s \<Rightarrow> trim s \<noteq> '''')"

definition readUnified ::
  "env \<Rightarrow> string \<Rightarrow> string \<Rightarrow> config_error list \<times> config_warning list \<times> string option" where
  "readUnified env nm legacyName =
     (if nonblank (env nm) then
        ((if nonblank (env legacyName) \<and> env legacyName \<noteq> env nm then [Conflicting nm legacyName] else []),
         [], env nm)
      else if nonblank (env legacyName) then ([], [Deprecated legacyName nm], env legacyName)
      else ([], [], None))"

definition address_setting :: "(string \<Rightarrow> bool) \<Rightarrow> env \<Rightarrow> string \<Rightarrow> config_error list \<times> address" where
  "address_setting isAddr env nm =
     (let a = option_default (env nm) ''''
      in ((if a = '''' then [Required nm] else if \<not> isAddr a then [Invalid nm a] else []), a))"

definition chain_setting :: "env \<Rightarrow> config_error list \<times> int" where
  "chain_setting env =
     (let nm = ''PERIHELION_SOURCE_CHAIN_ID''
      in case env nm of
           None \<Rightarrow> ([Required nm], 0)
         | Some raw \<Rightarrow>
             let value = js_number raw
             in ((if trim raw = '''' then [Required nm]
                  else if \<not> is_integer value \<or> js_le value (Num 0) then [Invalid nm raw] else []),
                 int_of_num value))"

text \<open>\<open>Number(env[name] ?? deflt)\<close>, which has to be an integer between two bounds.\<close>

definition number_setting ::
  "env \<Rightarrow> string \<Rightarrow> int \<Rightarrow> int \<Rightarrow> int option \<Rightarrow> config_error list \<times> int" where
  "number_setting env nm deflt lo hi =
     (case env nm of
        None \<Rightarrow> ([], deflt)
      | Some raw \<Rightarrow>
          let value = js_number raw
          in ((if \<not> is_integer value \<or> js_lt value (num_of_int lo)
                  \<or> (case hi of None \<Rightarrow> False | Some h \<Rightarrow> js_lt (num_of_int h) value)
               then [Invalid nm raw] else []),
              int_of_num value))"

definition asset_setting :: "env \<Rightarrow> config_error list \<times> string list" where
  "asset_setting env =
     (let assets = filter (\<lambda>s. s \<noteq> '''')
                     (map trim (split_on (CHR '','') (option_default (env ''PERIHELION_SUPPORTED_ASSETS'') ''native'')))
      in ((if assets = [] then [Required ''PERIHELION_SUPPORTED_ASSETS''] else []), assets))"

definition url_setting ::
  "(string \<Rightarrow> url option) \<Rightarrow> env \<Rightarrow> config_error list \<times> config_warning list \<times> string" where
  "url_setting parseUrl env =
     (let raw = option_default (env ''PERIHELION_MEMPOOL_URL'') ''http://localhost:3000''
      in case parseUrl raw of
           None \<Rightarrow> ([Invalid ''PERIHELION_MEMPOOL_URL'' raw], [], raw)
         | Some u \<Rightarrow>
             ([], (if u_protocol u = ''http:'' \<and> u_hostname u \<noteq> ''localhost''
                      \<and> u_hostname u \<noteq> ''127.0.0.1'' \<and> u_hostname u \<noteq> ''::1''
                   then [ClearTextUrl] else []), raw))"

definition loadSolverConfig ::
  "(string \<Rightarrow> bool) \<Rightarrow> (string \<Rightarrow> url option) \<Rightarrow> env
     \<Rightarrow> config_warning list \<times> (config_error list, solver_config) result" where
  "loadSolverConfig isAddr parseUrl env =
     (let (e1, solver) = address_setting isAddr env ''PERIHELION_SOLVER_ADDRESS'';
          (e2, escrow) = address_setting isAddr env ''PERIHELION_ESCROW_ADDRESS'';
          (e3, chain) = chain_setting env;
          (e4, w4, settlement) =
            readUnified env ''PERIHELION_SETTLEMENT_CONTRACT'' ''PERIHELION_SETTLEMENT_CONTRACT_ID'';
          (e5, w5, rpc) = readUnified env ''PERIHELION_SOROBAN_RPC_URL'' ''PERIHELION_STELLAR_RPC_URL'';
          (e6, margin) = number_setting env ''PERIHELION_MIN_MARGIN_BPS'' 15 0 (Some 10000);
          (e7, plausible) = number_setting env ''PERIHELION_MAX_PLAUSIBLE_PROFIT_BPS'' 1000 0 None;
          (e8, triggers) = number_setting env ''PERIHELION_MAX_IMPLAUSIBLE_PROFIT_TRIGGERS'' 5 1 None;
          (e9, poll) = number_setting env ''PERIHELION_POLL_INTERVAL_MS'' 2000 1 None;
          (e10, vsize) = number_setting env ''PERIHELION_VERIFICATION_CACHE_SIZE'' 10000 1 None;
          (e11, conc) = number_setting env ''PERIHELION_FILL_CONCURRENCY'' 4 1 None;
          (e12, ssize) = number_setting env ''PERIHELION_SEEN_CACHE_SIZE'' 50000 1 None;
          (e13, rsize) = number_setting env ''PERIHELION_RETRY_CACHE_SIZE'' 10000 1 None;
          (e14, srcFloor) = parseNonNegativeBigInt (env ''PERIHELION_SOURCE_NATIVE_FEE_FLOOR'')
                              ''PERIHELION_SOURCE_NATIVE_FEE_FLOOR'';
          (e15, dstFloor) = parseNonNegativeBigInt (env ''PERIHELION_STELLAR_NATIVE_FEE_FLOOR'')
                              ''PERIHELION_STELLAR_NATIVE_FEE_FLOOR'';
          (e16, assets) = asset_setting env;
          (e17, w17, mempool) = url_setting parseUrl env;
          errors = e1 @ e2 @ e3 @ e4 @ e5 @ e6 @ e7 @ e8 @ e9 @ e10 @ e11 @ e12 @ e13 @ e14 @ e15 @ e16 @ e17
      in (w4 @ w5 @ w17,
          if errors \<noteq> [] then Inl errors
          else Inr \<lparr>sc_mempoolUrl = mempool, solverAddress = solver, sc_sourceChainId = chain,
                    settlementContractId = settlement, sorobanRpcUrl = rpc, escrowAddress = escrow,
                    minMarginBps = margin, maxPlausibleProfitBps = Some plausible,
                    maxImplausibleProfitTriggers = Some triggers, sourceNativeFeeFloor = srcFloor,
                    stellarNativeFeeFloor = dstFloor, pollIntervalMs = poll,
                    supportedDestAssets = assets, verificationCacheSize = Some vsize,
                    fillConcurrency = Some conc, seenCacheSize = Some ssize, retryCacheSize = Some rsize,
                    mempoolStatusToken =
                      (case env ''PERIHELION_MEMPOOL_STATUS_TOKEN'' of
                         Some t \<Rightarrow> if t = '''' then None else Some t | None \<Rightarrow> None)\<rparr>))"

section \<open>Facts about the code\<close>

lemma address_setting_ok: "address_setting isAddr env nm = ([], a) \<Longrightarrow> isAddr a"
  by (auto simp: address_setting_def Let_def split: if_splits)

lemma chain_setting_ok: "chain_setting env = ([], n) \<Longrightarrow> 0 < n"
  by (auto simp: chain_setting_def Let_def positive_integer split: option.splits if_splits)

lemma at_least_int: "is_integer x \<Longrightarrow> \<not> js_lt x (num_of_int k) \<Longrightarrow> k \<le> int_of_num x"
  by (cases x) (auto simp: is_integer_def int_of_num_def elim!: Ints_cases)

lemma number_setting_ok:
  assumes "number_setting env nm d lo hi = ([], n)" and "lo \<le> d" and "\<forall>h. hi = Some h \<longrightarrow> d \<le> h"
  shows "lo \<le> n" and "hi = Some h \<Longrightarrow> n \<le> h"
  using assms at_least_int [of _ lo] at_most_int [of _ h]
  by (auto simp: number_setting_def Let_def split: option.splits if_splits)

lemma parseNonNegativeBigInt_ok: "parseNonNegativeBigInt raw nm = ([], n) \<Longrightarrow> 0 \<le> n"
  by (auto simp: parseNonNegativeBigInt_def split: option.splits if_splits)

lemma asset_setting_ok:
  "asset_setting env = ([], as) \<Longrightarrow> as \<noteq> [] \<and> (\<forall>a \<in> set as. a \<noteq> '''')"
  by (auto simp: asset_setting_def Let_def split: if_splits)

lemma url_setting_ok: "url_setting parseUrl env = ([], ws, u) \<Longrightarrow> parseUrl u \<noteq> None"
  by (auto simp: url_setting_def Let_def split: option.splits)

lemma readUnified_ok:
  "readUnified env nm legacy = ([], ws, v) \<Longrightarrow>
     (nonblank (env nm) \<and> nonblank (env legacy) \<longrightarrow> env nm = env legacy)
     \<and> v = (if nonblank (env nm) then env nm else if nonblank (env legacy) then env legacy else None)"
  by (auto simp: readUnified_def split: if_splits)

definition solver_config_ok :: "(string \<Rightarrow> bool) \<Rightarrow> (string \<Rightarrow> url option) \<Rightarrow> solver_config \<Rightarrow> bool" where
  "solver_config_ok isAddr parseUrl c \<longleftrightarrow>
     isAddr (solverAddress c) \<and> isAddr (escrowAddress c) \<and> 0 < sc_sourceChainId c
     \<and> parseUrl (sc_mempoolUrl c) \<noteq> None
     \<and> 0 \<le> minMarginBps c \<and> minMarginBps c \<le> 10000 \<and> 0 < pollIntervalMs c
     \<and> 0 \<le> sourceNativeFeeFloor c \<and> 0 \<le> stellarNativeFeeFloor c
     \<and> supportedDestAssets c \<noteq> [] \<and> (\<forall>a \<in> set (supportedDestAssets c). a \<noteq> '''')
     \<and> mempoolStatusToken c \<noteq> Some ''''
     \<and> (\<exists>p. maxPlausibleProfitBps c = Some p \<and> 0 \<le> p)
     \<and> (\<forall>s \<in> {maxImplausibleProfitTriggers c, verificationCacheSize c, fillConcurrency c, seenCacheSize c,
              retryCacheSize c}. \<exists>n. s = Some n \<and> 0 < n)"

text \<open>
  A solver configuration that loads is usable: both addresses are addresses, the chain id, the poll
  interval and every cache size are positive, the margin lies between 0 and 100 percent, the fee
  floors are not negative, at least one asset is served; and where a setting and its deprecated alias
  are both given, they agree.
\<close>

theorem loaded_solver_config_ok:
  assumes "loadSolverConfig isAddr parseUrl env = (ws, Inr c)"
  shows "solver_config_ok isAddr parseUrl c
    \<and> (nonblank (env ''PERIHELION_SETTLEMENT_CONTRACT'') \<and> nonblank (env ''PERIHELION_SETTLEMENT_CONTRACT_ID'')
        \<longrightarrow> env ''PERIHELION_SETTLEMENT_CONTRACT'' = env ''PERIHELION_SETTLEMENT_CONTRACT_ID'')
    \<and> (nonblank (env ''PERIHELION_STELLAR_RPC_URL'') \<longrightarrow> sorobanRpcUrl c = env ''PERIHELION_STELLAR_RPC_URL'')"
proof -
  obtain e1 v1 e2 v2 e3 v3 e4 w4 v4 e5 w5 v5 e6 v6 e7 v7 e8 v8 e9 v9 where o1:
    "address_setting isAddr env ''PERIHELION_SOLVER_ADDRESS'' = (e1, v1)"
    "address_setting isAddr env ''PERIHELION_ESCROW_ADDRESS'' = (e2, v2)"
    "chain_setting env = (e3, v3)"
    "readUnified env ''PERIHELION_SETTLEMENT_CONTRACT'' ''PERIHELION_SETTLEMENT_CONTRACT_ID'' = (e4, w4, v4)"
    "readUnified env ''PERIHELION_SOROBAN_RPC_URL'' ''PERIHELION_STELLAR_RPC_URL'' = (e5, w5, v5)"
    "number_setting env ''PERIHELION_MIN_MARGIN_BPS'' 15 0 (Some 10000) = (e6, v6)"
    "number_setting env ''PERIHELION_MAX_PLAUSIBLE_PROFIT_BPS'' 1000 0 None = (e7, v7)"
    "number_setting env ''PERIHELION_MAX_IMPLAUSIBLE_PROFIT_TRIGGERS'' 5 1 None = (e8, v8)"
    "number_setting env ''PERIHELION_POLL_INTERVAL_MS'' 2000 1 None = (e9, v9)"
    by (metis surj_pair)
  obtain e10 v10 e11 v11 e12 v12 e13 v13 e14 v14 e15 v15 e16 v16 e17 w17 v17 where o2:
    "number_setting env ''PERIHELION_VERIFICATION_CACHE_SIZE'' 10000 1 None = (e10, v10)"
    "number_setting env ''PERIHELION_FILL_CONCURRENCY'' 4 1 None = (e11, v11)"
    "number_setting env ''PERIHELION_SEEN_CACHE_SIZE'' 50000 1 None = (e12, v12)"
    "number_setting env ''PERIHELION_RETRY_CACHE_SIZE'' 10000 1 None = (e13, v13)"
    "parseNonNegativeBigInt (env ''PERIHELION_SOURCE_NATIVE_FEE_FLOOR'') ''PERIHELION_SOURCE_NATIVE_FEE_FLOOR'' = (e14, v14)"
    "parseNonNegativeBigInt (env ''PERIHELION_STELLAR_NATIVE_FEE_FLOOR'') ''PERIHELION_STELLAR_NATIVE_FEE_FLOOR'' = (e15, v15)"
    "asset_setting env = (e16, v16)"
    "url_setting parseUrl env = (e17, w17, v17)"
    by (metis surj_pair)
  let ?errors = "e1 @ e2 @ e3 @ e4 @ e5 @ e6 @ e7 @ e8 @ e9 @ e10 @ e11 @ e12 @ e13 @ e14 @ e15 @ e16 @ e17"
  note l = assms [unfolded loadSolverConfig_def o1 o2 Let_def prod.case]
  have "?errors = []" using l by (simp only: prod.inject split: if_splits) simp
  then have e: "e1 = []" "e2 = []" "e3 = []" "e4 = []" "e5 = []" "e6 = []" "e7 = []" "e8 = []" "e9 = []"
    "e10 = []" "e11 = []" "e12 = []" "e13 = []" "e14 = []" "e15 = []" "e16 = []" "e17 = []"
    by simp_all
  note c = l [unfolded e append_Nil if_False simp_thms prod.inject sum.inject, THEN conjunct2, symmetric]
  note o = o1 [unfolded e] o2 [unfolded e]
  have "0 \<le> v6" "v6 \<le> 10000" "0 \<le> v7" "1 \<le> v8" "1 \<le> v9" "1 \<le> v10" "1 \<le> v11" "1 \<le> v12" "1 \<le> v13"
    using number_setting_ok [OF o(6)] number_setting_ok(1) [OF o(7)] number_setting_ok(1) [OF o(8)]
      number_setting_ok(1) [OF o(9)] number_setting_ok(1) [OF o(10)] number_setting_ok(1) [OF o(11)]
      number_setting_ok(1) [OF o(12)] number_setting_ok(1) [OF o(13)] by simp_all
  moreover note address_setting_ok [OF o(1)] address_setting_ok [OF o(2)] chain_setting_ok [OF o(3)]
    parseNonNegativeBigInt_ok [OF o(14)] parseNonNegativeBigInt_ok [OF o(15)] asset_setting_ok [OF o(16)]
    url_setting_ok [OF o(17)]
  ultimately have "solver_config_ok isAddr parseUrl c"
    unfolding solver_config_ok_def c by (auto split: option.splits)
  moreover have "sorobanRpcUrl c = v5" unfolding c by simp
  ultimately show ?thesis
    using readUnified_ok [OF o(4)] readUnified_ok [OF o(5)] by (auto split: if_splits)
qed

definition sample_solver_address :: address where
  "sample_solver_address = ''0x4444444444444444444444444444444444444444''"

definition sample_solver_env :: env where
  "sample_solver_env = [''PERIHELION_SOURCE_CHAIN_ID'' \<mapsto> ''8453'',
     ''PERIHELION_SOLVER_ADDRESS'' \<mapsto> sample_solver_address,
     ''PERIHELION_ESCROW_ADDRESS'' \<mapsto> ''0x3333333333333333333333333333333333333333'',
     ''PERIHELION_STELLAR_RPC_URL'' \<mapsto> ''https://soroban.example'']"

definition sample_url :: url where
  "sample_url = \<lparr>u_protocol = ''http:'', u_hostname = ''localhost'', u_origin = ''http://localhost:3000'', u_pathname = ''/''\<rparr>"

lemma sample_chain_number: "js_number ''8453'' = Num 8453"
proof -
  have "digit_string ''8453''" by (simp add: digit_string_def is_digit_def char_code_def)
  moreover have "nat_of_digits ''8453'' = 8453" by (simp add: nat_of_digits_def digit_val_def char_code_def)
  ultimately show ?thesis using js_number_digits [of "''8453''"] by simp
qed

lemma sample_solver_loads:
  "\<exists>c. loadSolverConfig (hex_string 40) (\<lambda>_. Some sample_url) sample_solver_env
       = ([Deprecated ''PERIHELION_STELLAR_RPC_URL'' ''PERIHELION_SOROBAN_RPC_URL''], Inr c)
     \<and> sorobanRpcUrl c = Some ''https://soroban.example'' \<and> minMarginBps c = 15"
proof -
  have hex: "is_hex (CHR ''3'')" "is_hex (CHR ''4'')"
    by (simp_all add: is_hex_def is_hex_lower_def is_digit_def char_code_def)
  have i: "is_integer (Num 8453)" "int_of_num (Num 8453) = 8453"
    using is_integer_num_of_int [of 8453] by (simp_all add: int_of_num_def)
  have blank: "trim ''8453'' = ''8453''" "trim ''https://soroban.example'' = ''https://soroban.example''"
    "trim ''native'' = ''native''"
    by (simp_all add: trim_id is_space_def char_code_def)
  have e: "sample_solver_env ''PERIHELION_SOURCE_CHAIN_ID'' = Some ''8453''"
    "sample_solver_env ''PERIHELION_SOLVER_ADDRESS'' = Some ''0x4444444444444444444444444444444444444444''"
    "sample_solver_env ''PERIHELION_ESCROW_ADDRESS'' = Some ''0x3333333333333333333333333333333333333333''"
    "sample_solver_env ''PERIHELION_STELLAR_RPC_URL'' = Some ''https://soroban.example''"
    by (simp_all add: sample_solver_env_def sample_solver_address_def)
  have none: "sample_solver_env k = None"
    if "k \<notin> {''PERIHELION_SOURCE_CHAIN_ID'', ''PERIHELION_SOLVER_ADDRESS'', ''PERIHELION_ESCROW_ADDRESS'',
          ''PERIHELION_STELLAR_RPC_URL''}" for k
    using that unfolding sample_solver_env_def by auto
  have num: "number_setting sample_solver_env k d lo hi = ([], d)"
    if "sample_solver_env k = None" for k d lo hi
    using that by (simp add: number_setting_def)
  have parts: "address_setting (hex_string 40) sample_solver_env ''PERIHELION_SOLVER_ADDRESS''
      = ([], ''0x4444444444444444444444444444444444444444'')"
    "address_setting (hex_string 40) sample_solver_env ''PERIHELION_ESCROW_ADDRESS''
      = ([], ''0x3333333333333333333333333333333333333333'')"
    "chain_setting sample_solver_env = ([], 8453)"
    "asset_setting sample_solver_env = ([], [''native''])"
    using hex i blank
    by (simp_all add: address_setting_def chain_setting_def asset_setting_def e none sample_chain_number
        option_default_def hex_string_def)
  have unified: "readUnified sample_solver_env ''PERIHELION_SETTLEMENT_CONTRACT'' ''PERIHELION_SETTLEMENT_CONTRACT_ID''
      = ([], [], None)"
    "readUnified sample_solver_env ''PERIHELION_SOROBAN_RPC_URL'' ''PERIHELION_STELLAR_RPC_URL''
      = ([], [Deprecated ''PERIHELION_STELLAR_RPC_URL'' ''PERIHELION_SOROBAN_RPC_URL''], Some ''https://soroban.example'')"
    using blank by (simp_all add: readUnified_def nonblank_def e none)
  have url: "url_setting (\<lambda>_. Some sample_url) sample_solver_env = ([], [], ''http://localhost:3000'')"
    by (simp add: url_setting_def none option_default_def sample_url_def)
  show ?thesis
    by (simp add: loadSolverConfig_def parts unified url num none parseNonNegativeBigInt_def)
qed

theorem loaded_solver_config_ok_witness:
  "\<exists>c ws. loadSolverConfig (hex_string 40) (\<lambda>_. Some sample_url) sample_solver_env = (ws, Inr c)
     \<and> solver_config_ok (hex_string 40) (\<lambda>_. Some sample_url) c
     \<and> sorobanRpcUrl c = Some ''https://soroban.example''"
  using sample_solver_loads
    loaded_solver_config_ok [of "hex_string 40" "\<lambda>_. Some sample_url" sample_solver_env] by blast

end
