(* ===== verification/Solver_Inventory.thy ===== *)
theory Solver_Inventory
  imports Prelude "HOL-Library.Multiset"
begin

text \<open>
  \<^verbatim>\<open>solver/src/inventory.ts\<close>: the tracker of committed capital. Amounts are unbounded integers as in
  the source. The tracker is proved to implement a ledger of individual commitments.
\<close>

section \<open>The code\<close>

record inflight =
  reserved :: "(string, int) assoc"
  held :: "(string, int) assoc"

definition new_inflight :: inflight where
  "new_inflight = \<lparr>reserved = [], held = []\<rparr>"

definition amount_of :: "(string, int) assoc \<Rightarrow> string \<Rightarrow> int" where
  "amount_of m asset = (case assoc_get m asset of None \<Rightarrow> 0 | Some n \<Rightarrow> n)"

definition reserve :: "string \<Rightarrow> int \<Rightarrow> inflight \<Rightarrow> inflight" where
  "reserve asset amount t =
     t\<lparr>reserved := assoc_set asset (amount_of (reserved t) asset + amount) (reserved t)\<rparr>"

definition activeReservedFor :: "inflight \<Rightarrow> string \<Rightarrow> int" where
  "activeReservedFor t asset = amount_of (reserved t) asset"

definition release :: "string \<Rightarrow> int \<Rightarrow> inflight \<Rightarrow> inflight" where
  "release asset amount t =
     (let current = amount_of (reserved t) asset;
          next = (if amount < current then current - amount else 0)
      in if next = 0 then t\<lparr>reserved := assoc_del asset (reserved t)\<rparr>
         else t\<lparr>reserved := assoc_set asset next (reserved t)\<rparr>)"

definition holdForRefresh :: "string \<Rightarrow> int \<Rightarrow> inflight \<Rightarrow> inflight" where
  "holdForRefresh asset amount t =
     (let t' = release asset amount t
      in t'\<lparr>held := assoc_set asset (amount_of (held t') asset + amount) (held t')\<rparr>)"

definition flushHeld :: "inflight \<Rightarrow> nat \<times> inflight" where
  "flushHeld t = (length (held t), t\<lparr>held := []\<rparr>)"

definition reservedFor :: "inflight \<Rightarrow> string \<Rightarrow> int" where
  "reservedFor t asset = amount_of (reserved t) asset + amount_of (held t) asset"

text \<open>\<open>UnlimitedInventoryProvider\<close> reports \<open>Number.MAX_SAFE_INTEGER\<close> for everything.\<close>

definition MAX_SAFE_INTEGER :: int where "MAX_SAFE_INTEGER = 2 ^ 53 - 1"

definition unlimitedBalance :: "string \<Rightarrow> int" where "unlimitedBalance asset = MAX_SAFE_INTEGER"

section \<open>The ledger\<close>

text \<open>
  What the tracker promises: a multiset of open commitments and one of commitments held until the
  next flush. A fill opens a commitment and closes it by releasing or by holding it.
\<close>

record ledger =
  open_commitments :: "(string \<times> int) multiset"
  held_commitments :: "(string \<times> int) multiset"

definition committed :: "(string \<times> int) multiset \<Rightarrow> string \<Rightarrow> int" where
  "committed M asset = sum_mset (image_mset snd (filter_mset (\<lambda>c. fst c = asset) M))"

inductive ledger_step :: "ledger \<times> inflight \<Rightarrow> ledger \<times> inflight \<Rightarrow> bool" where
  opens: "0 \<le> n \<Longrightarrow>
    ledger_step (l, t) (l\<lparr>open_commitments := add_mset (a, n) (open_commitments l)\<rparr>, reserve a n t)"
| releases: "(a, n) \<in># open_commitments l \<Longrightarrow>
    ledger_step (l, t) (l\<lparr>open_commitments := open_commitments l - {#(a, n)#}\<rparr>, release a n t)"
| holds: "(a, n) \<in># open_commitments l \<Longrightarrow>
    ledger_step (l, t)
      (l\<lparr>open_commitments := open_commitments l - {#(a, n)#},
         held_commitments := add_mset (a, n) (held_commitments l)\<rparr>, holdForRefresh a n t)"
| flushes: "ledger_step (l, t) (l\<lparr>held_commitments := {#}\<rparr>, snd (flushHeld t))"

definition empty_ledger :: ledger where
  "empty_ledger = \<lparr>open_commitments = {#}, held_commitments = {#}\<rparr>"

definition tracks :: "ledger \<times> inflight \<Rightarrow> bool" where
  "tracks s \<longleftrightarrow> (\<forall>a. activeReservedFor (snd s) a = committed (open_commitments (fst s)) a)
     \<and> (\<forall>a. amount_of (held (snd s)) a = committed (held_commitments (fst s)) a)
     \<and> (\<forall>c \<in># open_commitments (fst s). 0 \<le> snd c)"

lemma amount_of_set: "amount_of (assoc_set a n m) b = (if b = a then n else amount_of m b)"
  by (simp add: amount_of_def assoc_get_set)

lemma amount_of_del: "amount_of (assoc_del a m) b = (if b = a then 0 else amount_of m b)"
  by (simp add: amount_of_def assoc_get_del)

lemma committed_add: "committed (add_mset (a, n) M) b = (if b = a then n else 0) + committed M b"
  by (simp add: committed_def)

lemma committed_remove:
  "(a, n) \<in># M \<Longrightarrow> committed (M - {#(a, n)#}) b = committed M b - (if b = a then n else 0)"
  using committed_add [of a n "M - {#(a, n)#}" b] by simp

lemma committed_nonneg: "\<forall>c \<in># M. 0 \<le> snd c \<Longrightarrow> 0 \<le> committed M b"
proof (induction M)
  case (add c M)
  then show ?case using committed_add [of "fst c" "snd c" M b] by simp
qed (simp add: committed_def)

lemma reserved_release:
  assumes "n \<le> activeReservedFor t a"
  shows "activeReservedFor (release a n t) b = activeReservedFor t b - (if b = a then n else 0)"
    and "held (release a n t) = held t"
  using assms by (auto simp: release_def activeReservedFor_def Let_def amount_of_set amount_of_del)

lemma open_bound:
  assumes "tracks (l, t)" and "(a, n) \<in># open_commitments l"
  shows "n \<le> activeReservedFor t a"
proof -
  have "0 \<le> committed (open_commitments l - {#(a, n)#}) a"
    using assms(1) by (intro committed_nonneg) (auto simp: tracks_def dest: in_diffD)
  then show ?thesis using assms by (simp add: committed_remove tracks_def)
qed

lemma tracks_step: "ledger_step s s' \<Longrightarrow> tracks s \<Longrightarrow> tracks s'"
proof (induction rule: ledger_step.induct)
  case (opens n l t a)
  then show ?case
    by (auto simp: tracks_def activeReservedFor_def reserve_def amount_of_set committed_add)
next
  case (releases a n l t)
  note b = open_bound [OF releases(2,1)]
  show ?case
    using releases by (auto simp: tracks_def reserved_release [OF b] committed_remove dest: in_diffD)
next
  case (holds a n l t)
  note b = open_bound [OF holds(2,1)]
  have "activeReservedFor (holdForRefresh a n t) x = activeReservedFor (release a n t) x" for x
    by (simp add: holdForRefresh_def Let_def activeReservedFor_def)
  moreover have "amount_of (held (holdForRefresh a n t)) x = amount_of (held t) x + (if x = a then n else 0)" for x
    by (simp add: holdForRefresh_def Let_def amount_of_set reserved_release(2) [OF b])
  ultimately show ?case
    using holds by (auto simp: tracks_def reserved_release(1) [OF b] committed_remove committed_add dest: in_diffD)
next
  case (flushes l t)
  then show ?case
    by (auto simp: tracks_def flushHeld_def activeReservedFor_def amount_of_def committed_def)
qed

text \<open>
  C17. The tracker never forgets or invents a commitment: after any sequence of fills that each close
  what they opened, by release or by hold, and of flushes, the amount it reports for an asset is
  exactly the sum of the commitments still open plus those held since the last flush, although it
  stores only one clamped sum per asset.
\<close>

theorem inflight_refines_ledger:
  assumes "ledger_step\<^sup>*\<^sup>* (empty_ledger, new_inflight) (l, t)"
  shows "reservedFor t a = committed (open_commitments l) a + committed (held_commitments l) a
    \<and> activeReservedFor t a = committed (open_commitments l) a"
proof -
  have "tracks (l, t)"
    using assms
  proof (induction rule: rtranclp_induct)
    case base
    show ?case by (simp add: tracks_def empty_ledger_def new_inflight_def activeReservedFor_def
        amount_of_def committed_def)
  qed (rule tracks_step)
  then show ?thesis by (simp add: tracks_def reservedFor_def activeReservedFor_def)
qed

theorem inflight_refines_ledger_witness:
  "\<exists>l t. ledger_step\<^sup>*\<^sup>* (empty_ledger, new_inflight) (l, t)
     \<and> reservedFor t ''native'' = 8 \<and> activeReservedFor t ''native'' = 3"
proof -
  let ?l1 = "empty_ledger\<lparr>open_commitments := add_mset (''native'', 5) (open_commitments empty_ledger)\<rparr>"
  let ?l2 = "?l1\<lparr>open_commitments := add_mset (''native'', 3) (open_commitments ?l1)\<rparr>"
  let ?l3 = "?l2\<lparr>open_commitments := open_commitments ?l2 - {#(''native'', 5)#},
         held_commitments := add_mset (''native'', 5) (held_commitments ?l2)\<rparr>"
  let ?t1 = "reserve ''native'' 5 new_inflight" let ?t2 = "reserve ''native'' 3 ?t1"
  let ?t3 = "holdForRefresh ''native'' 5 ?t2"
  have "ledger_step (empty_ledger, new_inflight) (?l1, ?t1)" by (rule opens) simp
  moreover have "ledger_step (?l1, ?t1) (?l2, ?t2)" by (rule opens) simp
  moreover have "ledger_step (?l2, ?t2) (?l3, ?t3)" by (rule holds) simp
  ultimately have r: "ledger_step\<^sup>*\<^sup>* (empty_ledger, new_inflight) (?l3, ?t3)"
    by (meson rtranclp.rtrancl_into_rtrancl rtranclp.rtrancl_refl)
  have "committed (open_commitments ?l3) ''native'' = 3" "committed (held_commitments ?l3) ''native'' = 5"
    by (simp_all add: empty_ledger_def committed_def)
  with r inflight_refines_ledger [OF r, of "''native''"] have "reservedFor ?t3 ''native'' = 8 \<and> activeReservedFor ?t3 ''native'' = 3" by simp
  with r show ?thesis by blast
qed

end
