(* ===== verification/Solver_Quote.thy ===== *)
theory Solver_Quote
  imports Solver_Config Solver_Inventory "HOL-Library.Signed_Division"
begin

text \<open>
  \<^verbatim>\<open>solver/src/quote.ts\<close>: whether filling an intent pays. The oracles and balance readers the solver is
  built with, which may throw, are functions to results; bigints are integers and their division
  truncates toward zero (\<open>sdiv\<close>). The address helpers of viem are parameters, \<open>isAddressEqual\<close> one
  that may throw. The clock is one value in seconds for one evaluation. The \<open>reason\<close> texts, which are
  only logged, are left out; the codes are kept.
\<close>

section \<open>The code\<close>

text \<open>The exceptions the solver tells apart.\<close>

datatype failure =
  FatalError | LockOwnedByOtherError address | DefiniteFailureError | Failure thrown

definition js_exception :: "string \<Rightarrow> failure" where
  "js_exception nm = Failure (ThrownError nm '''')"

record quote_deps =
  decimalsLookup :: "(string \<Rightarrow> (failure, jsnum) result) option"
  priceOracle :: "(string \<Rightarrow> string \<Rightarrow> (failure, int) result) option"
  feeEstimator :: "(intent \<Rightarrow> (failure, int) result) option"
  availableBalance :: "(string \<Rightarrow> (failure, int) result) option"
  nativeBalanceSource :: "(failure, int) result option"
  nativeBalanceDest :: "(failure, int) result option"
  sourceNativeCost :: "(intent \<Rightarrow> (failure, int) result) option"
  destNativeCost :: "(intent \<Rightarrow> (failure, int) result) option"

definition RATE_SCALE :: int where "RATE_SCALE = 10 ^ 18"

definition defaultDecimalsLookup :: "string \<Rightarrow> (failure, jsnum) result" where
  "defaultDecimalsLookup assetId =
     (if assetId = ''native'' then Inr (Num 7)
      else if CHR '':'' \<in> set assetId then Inr (Num 7)
      else Inl (js_exception ''Error''))"

definition defaultPriceOracle :: "string \<Rightarrow> string \<Rightarrow> (failure, int) result" where
  "defaultPriceOracle src dst = Inr RATE_SCALE"

definition defaultFeeEstimator :: "intent \<Rightarrow> (failure, int) result" where
  "defaultFeeEstimator i = Inr 0"

text \<open>\<open>BigInt\<close> of a number and of a string.\<close>

definition bigint_of_number :: "jsnum \<Rightarrow> (failure, int) result" where
  "bigint_of_number x = (if is_integer x then Inr (int_of_num x) else Inl (js_exception ''RangeError''))"

definition bigint_of_string :: "string \<Rightarrow> (failure, int) result" where
  "bigint_of_string s = (case js_bigint s of None \<Rightarrow> Inl (js_exception ''SyntaxError'') | Some n \<Rightarrow> Inr n)"

definition rescale :: "int \<Rightarrow> int \<Rightarrow> int \<Rightarrow> int \<Rightarrow> int" where
  "rescale srcAmount rate srcDecimals dstDecimals =
     (let scaleDiff = dstDecimals - srcDecimals; numerator = srcAmount * rate
      in if 0 \<le> scaleDiff then (numerator * 10 ^ nat scaleDiff) sdiv RATE_SCALE
         else numerator sdiv (RATE_SCALE * 10 ^ nat (- scaleDiff)))"

definition computeProceeds :: "intent \<Rightarrow> quote_deps \<Rightarrow> (failure, int) result" where
  "computeProceeds i deps =
     (let decimals = option_default (decimalsLookup deps) defaultDecimalsLookup;
          oracle = option_default (priceOracle deps) defaultPriceOracle
      in bind_result (decimals (sourceAsset i)) (\<lambda>srcDecimals.
         bind_result (decimals (destAsset i)) (\<lambda>dstDecimals.
         bind_result (oracle (sourceAsset i) (destAsset i)) (\<lambda>rate.
           if rate \<le> 0 then Inl (js_exception ''Error'')
           else
             bind_result (bigint_of_string (sourceAmount i)) (\<lambda>srcAmount.
             bind_result (bigint_of_number dstDecimals) (\<lambda>dst.
             bind_result (bigint_of_number srcDecimals) (\<lambda>src.
               Inr (rescale srcAmount rate src dst))))))))"

datatype skip_code = Wrong_chain | Expired_intent | Unsupported_asset | Reserved_intent | Pricing_error
  | Below_margin | Implausible_profit | Insufficient_inventory | Insufficient_native_balance

record fill_decision =
  fd_fill :: bool
  fd_code :: "skip_code option"
  fd_terminal :: bool
  fd_profitBps :: "int option"
  fd_profit :: "int option"
  fd_fees :: "int option"
  fd_nativeShortfall :: bool
  fd_implausible :: bool

definition skip_with :: "skip_code \<Rightarrow> bool \<Rightarrow> fill_decision" where
  "skip_with code durable =
     \<lparr>fd_fill = False, fd_code = Some code, fd_terminal = durable, fd_profitBps = None, fd_profit = None,
      fd_fees = None, fd_nativeShortfall = False, fd_implausible = False\<rparr>"

definition escrowSourceNativeCost ::
  "(intent \<Rightarrow> (failure, int) result) \<Rightarrow> int \<Rightarrow> intent \<Rightarrow> (failure, int) result" where
  "escrowSourceNativeCost quoteFee lockGasBufferWei i =
     bind_result (quoteFee i) (\<lambda>fee. Inr (fee + lockGasBufferWei))"

record viem_address =
  va_isAddress :: "string \<Rightarrow> bool"
  va_isAddressEqual :: "address \<Rightarrow> address \<Rightarrow> (failure, bool) result"

definition isSolverEligible :: "viem_address \<Rightarrow> string \<Rightarrow> address \<Rightarrow> (failure, bool) result" where
  "isSolverEligible va preferred me =
     (if \<not> va_isAddress va preferred then Inr False
      else bind_result (va_isAddressEqual va preferred zeroAddress) (\<lambda>isOpen.
             if isOpen then Inr True else va_isAddressEqual va preferred me))"

section \<open>evaluate\<close>

text \<open>
  The body of \<open>evaluate\<close> in its five stretches, each either returning a skip or going on.
\<close>

definition terminal_gate ::
  "viem_address \<Rightarrow> intent \<Rightarrow> solver_config \<Rightarrow> int \<Rightarrow> (failure, fill_decision option) result" where
  "terminal_gate va i cfg now =
     (if sourceChainId i \<noteq> sc_sourceChainId cfg then Inr (Some (skip_with Wrong_chain True))
      else if isExpired i now 0 then Inr (Some (skip_with Expired_intent True))
      else if isExpired i now (- MIN_FILL_HEADROOM_SECS) then Inr (Some (skip_with Expired_intent True))
      else if destAsset i \<notin> set (supportedDestAssets cfg) then Inr (Some (skip_with Unsupported_asset True))
      else bind_result (isSolverEligible va (preferredSolver i) (solverAddress cfg)) (\<lambda>eligible.
             Inr (if eligible then None else Some (skip_with Reserved_intent True))))"

definition price :: "intent \<Rightarrow> quote_deps \<Rightarrow> (failure, int \<times> int) result" where
  "price i deps =
     bind_result (computeProceeds i deps) (\<lambda>proceeds.
     bind_result (option_default (feeEstimator deps) defaultFeeEstimator i) (\<lambda>fees.
       Inr (proceeds, fees)))"

text \<open>The margin test returns the profit in basis points when it passes.\<close>

definition margin_gate ::
  "solver_config \<Rightarrow> int \<Rightarrow> int \<Rightarrow> int \<Rightarrow> (failure, fill_decision + int) result" where
  "margin_gate cfg proceeds minOut fees =
     (if proceeds < minOut then Inr (Inl (skip_with Below_margin False))
      else
        let profit = proceeds - minOut - fees
        in if profit \<le> 0 then Inr (Inl (skip_with Below_margin False))
           else if proceeds = 0 then Inl (js_exception ''RangeError'')
           else
             let profitBpsScaled = (profit * 1000000) sdiv proceeds;
                 profitBps = profitBpsScaled sdiv 100
             in if profitBpsScaled < minMarginBps cfg * 100
                then Inr (Inl ((skip_with Below_margin False)\<lparr>fd_profitBps := Some profitBps\<rparr>))
                else if option_default (maxPlausibleProfitBps cfg) 1000 < profitBps
                then Inr (Inl ((skip_with Implausible_profit False)
                                 \<lparr>fd_profitBps := Some profitBps, fd_implausible := True\<rparr>))
                else Inr (Inr profitBps))"

definition inventory_gate ::
  "intent \<Rightarrow> quote_deps \<Rightarrow> inflight option \<Rightarrow> int \<Rightarrow> (failure, fill_decision option) result" where
  "inventory_gate i deps inFlight required =
     bind_result (option_default (availableBalance deps) (\<lambda>a. Inr (unlimitedBalance a)) (destAsset i)) (\<lambda>available.
       let reserved = (case inFlight of None \<Rightarrow> 0 | Some t \<Rightarrow> reservedFor t (destAsset i))
       in Inr (if available - reserved < required then Some (skip_with Insufficient_inventory False) else None))"

definition native_gate ::
  "intent \<Rightarrow> (failure, int) result option \<Rightarrow> (intent \<Rightarrow> (failure, int) result) option \<Rightarrow> int
     \<Rightarrow> (failure, fill_decision option) result" where
  "native_gate i balance cost minimum =
     (case balance of
        None \<Rightarrow> Inr None
      | Some b \<Rightarrow>
          bind_result b (\<lambda>have_amount.
          bind_result (case cost of Some f \<Rightarrow> f i | None \<Rightarrow> Inr minimum) (\<lambda>need.
            Inr (if have_amount < need
                 then Some ((skip_with Insufficient_native_balance False)\<lparr>fd_nativeShortfall := True\<rparr>)
                 else None))))"

definition or_else :: "(failure, fill_decision option) result \<Rightarrow> (failure, fill_decision) result
    \<Rightarrow> (failure, fill_decision) result" where
  "or_else gate rest = bind_result gate (\<lambda>s. case s of Some d \<Rightarrow> Inr d | None \<Rightarrow> rest)"

definition evaluate ::
  "viem_address \<Rightarrow> intent \<Rightarrow> solver_config \<Rightarrow> quote_deps \<Rightarrow> inflight option \<Rightarrow> int
     \<Rightarrow> (failure, fill_decision) result" where
  "evaluate va i cfg deps inFlight now =
     or_else (terminal_gate va i cfg now)
       (case price i deps of
          Inl _ \<Rightarrow> Inr (skip_with Pricing_error False)
        | Inr (proceeds, fees) \<Rightarrow>
            bind_result (bigint_of_string (minDestAmount i)) (\<lambda>minOut.
            bind_result (margin_gate cfg proceeds minOut fees) (\<lambda>m.
              case m of
                Inl d \<Rightarrow> Inr d
              | Inr profitBps \<Rightarrow>
                  or_else (inventory_gate i deps inFlight minOut)
                    (or_else (native_gate i (nativeBalanceSource deps) (sourceNativeCost deps) (sourceNativeFeeFloor cfg))
                      (or_else (native_gate i (nativeBalanceDest deps) (destNativeCost deps) (stellarNativeFeeFloor cfg))
                        (Inr \<lparr>fd_fill = True, fd_code = None, fd_terminal = False, fd_profitBps = Some profitBps,
                              fd_profit = Some (proceeds - minOut - fees), fd_fees = Some fees,
                              fd_nativeShortfall = False, fd_implausible = False\<rparr>))))))"

section \<open>Facts about the code\<close>

lemma sdiv_pos: "0 \<le> a \<Longrightarrow> 0 < b \<Longrightarrow> a sdiv b = a div b" for a b :: int
  by (cases "a = 0") (simp_all add: signed_divide_int_def)

lemma le_div_pos: "0 < b \<Longrightarrow> k \<le> a div b \<longleftrightarrow> k * b \<le> a" for a b k :: int
proof
  assume b: "0 < b" and "k \<le> a div b"
  then have "k * b \<le> a div b * b" by (intro mult_right_mono) simp_all
  also have "\<dots> \<le> a" using b minus_mod_eq_div_mult [of a b] pos_mod_sign [of b a] by linarith
  finally show "k * b \<le> a" .
next
  assume b: "0 < b" and "k * b \<le> a"
  then show "k \<le> a div b" using zdiv_mono1 [of "k * b" a b] by simp
qed

lemma rescale_floor:
  assumes "0 \<le> amount" and "0 \<le> rate"
  shows "rescale amount rate src dst =
    \<lfloor>rat_of_int (amount * rate) / 10 ^ 18 * (10 powi (dst - src))\<rfloor>"
proof (cases "src \<le> dst")
  case True
  then have "rescale amount rate src dst = (amount * rate * 10 ^ nat (dst - src)) div 10 ^ 18"
    using assms by (simp only: rescale_def Let_def RATE_SCALE_def sdiv_pos mult_nonneg_nonneg zero_le_power zero_less_power zero_less_numeral zero_le_numeral mult_pos_pos diff_ge_0_iff_ge minus_diff_eq if_True if_False)
  also have "\<dots> = \<lfloor>rat_of_int (amount * rate * 10 ^ nat (dst - src)) / rat_of_int (10 ^ 18)\<rfloor>"
    by (rule floor_divide_of_int_eq [symmetric])
  also have "rat_of_int (amount * rate * 10 ^ nat (dst - src)) / rat_of_int (10 ^ 18)
      = rat_of_int (amount * rate) / 10 ^ 18 * 10 ^ nat (dst - src)"
    by (simp only: of_int_mult of_int_power of_int_numeral times_divide_eq_left)
  also have "10 ^ nat (dst - src) = (10 :: rat) powi (dst - src)"
    using True by (simp only: power_int_def if_True diff_ge_0_iff_ge)
  finally show ?thesis .
next
  case False
  then have "rescale amount rate src dst = (amount * rate) div (10 ^ 18 * 10 ^ nat (src - dst))"
    using assms by (simp only: rescale_def Let_def RATE_SCALE_def sdiv_pos mult_nonneg_nonneg zero_le_power zero_less_power zero_less_numeral zero_le_numeral mult_pos_pos diff_ge_0_iff_ge minus_diff_eq if_True if_False)
  also have "\<dots> = \<lfloor>rat_of_int (amount * rate) / rat_of_int (10 ^ 18 * 10 ^ nat (src - dst))\<rfloor>"
    by (rule floor_divide_of_int_eq [symmetric])
  also have "rat_of_int (amount * rate) / rat_of_int (10 ^ 18 * 10 ^ nat (src - dst))
      = rat_of_int (amount * rate) / 10 ^ 18 * inverse (10 ^ nat (src - dst))"
    by (simp only: of_int_mult of_int_power of_int_numeral divide_inverse inverse_mult_distrib mult.assoc)
  also have "inverse (10 ^ nat (src - dst)) = (10 :: rat) powi (dst - src)"
    using False by (simp only: power_int_def power_inverse if_False diff_ge_0_iff_ge minus_diff_eq)
  finally show ?thesis .
qed


lemma fills_or_else:
  assumes "\<And>d. g = Inr (Some d) \<Longrightarrow> \<not> fd_fill d"
  shows "(\<exists>d. or_else g r = Inr d \<and> fd_fill d \<and> P d) \<longleftrightarrow> g = Inr None \<and> (\<exists>d. r = Inr d \<and> fd_fill d \<and> P d)"
  using assms by (cases g) (auto simp: or_else_def split: option.splits)

definition native_covered :: "intent \<Rightarrow> (failure, int) result option
    \<Rightarrow> (intent \<Rightarrow> (failure, int) result) option \<Rightarrow> int \<Rightarrow> bool" where
  "native_covered i balance cost minimum \<longleftrightarrow>
     (case balance of
        None \<Rightarrow> True
      | Some b \<Rightarrow>
          (case (b, case cost of Some f \<Rightarrow> f i | None \<Rightarrow> Inr minimum) of
             (Inr have_amount, Inr need) \<Rightarrow> need \<le> have_amount
           | _ \<Rightarrow> False))"

definition inventory_covered :: "intent \<Rightarrow> quote_deps \<Rightarrow> inflight option \<Rightarrow> int \<Rightarrow> bool" where
  "inventory_covered i deps t required \<longleftrightarrow>
     (case option_default (availableBalance deps) (\<lambda>a. Inr (unlimitedBalance a)) (destAsset i) of
        Inl _ \<Rightarrow> False
      | Inr available \<Rightarrow>
          required + (case t of None \<Rightarrow> 0 | Some t \<Rightarrow> reservedFor t (destAsset i)) \<le> available)"

definition admissible :: "viem_address \<Rightarrow> intent \<Rightarrow> solver_config \<Rightarrow> int \<Rightarrow> bool" where
  "admissible va i cfg now \<longleftrightarrow>
     sourceChainId i = sc_sourceChainId cfg \<and> now + 1920 < deadline i
     \<and> destAsset i \<in> set (supportedDestAssets cfg)
     \<and> isSolverEligible va (preferredSolver i) (solverAddress cfg) = Inr True"

text \<open>The margin between the two bounds, as exact inequalities of integers.\<close>

definition profitable :: "solver_config \<Rightarrow> int \<Rightarrow> int \<Rightarrow> bool" where
  "profitable cfg proceeds profit \<longleftrightarrow>
     0 < profit \<and> minMarginBps cfg * proceeds \<le> 10000 * profit
     \<and> 10000 * profit < (option_default (maxPlausibleProfitBps cfg) 1000 + 1) * proceeds"

lemma terminal_gate_None: "terminal_gate va i cfg now = Inr None \<longleftrightarrow> admissible va i cfg now"
  by (cases "isSolverEligible va (preferredSolver i) (solverAddress cfg)")
     (auto simp: terminal_gate_def admissible_def isExpired_def MIN_FILL_HEADROOM_SECS_def)

lemma terminal_gate_Some:
  "terminal_gate va i cfg now = Inr (Some d) \<Longrightarrow> \<not> fd_fill d \<and> fd_terminal d"
  by (cases "isSolverEligible va (preferredSolver i) (solverAddress cfg)")
     (auto simp: terminal_gate_def skip_with_def split: if_splits)

lemma inventory_gate_None: "inventory_gate i deps t required = Inr None \<longleftrightarrow> inventory_covered i deps t required"
  by (cases "option_default (availableBalance deps) (\<lambda>a. Inr (unlimitedBalance a)) (destAsset i)")
     (auto simp: inventory_gate_def inventory_covered_def Let_def)

lemma inventory_gate_Some:
  "inventory_gate i deps t required = Inr (Some d) \<Longrightarrow> \<not> fd_fill d \<and> \<not> fd_terminal d"
  by (auto simp: inventory_gate_def skip_with_def Let_def bind_result_Inr_iff split: if_splits)

lemma native_gate_None: "native_gate i b c m = Inr None \<longleftrightarrow> native_covered i b c m"
proof (cases b)
  case (Some r)
  then show ?thesis
    by (cases r; cases "case c of Some f \<Rightarrow> f i | None \<Rightarrow> Inr m")
       (simp_all add: native_gate_def native_covered_def)
qed (simp add: native_gate_def native_covered_def)

lemma native_gate_Some: "native_gate i b c m = Inr (Some d) \<Longrightarrow> \<not> fd_fill d \<and> \<not> fd_terminal d"
  by (auto simp: native_gate_def skip_with_def bind_result_Inr_iff split: option.splits if_splits)

lemma margin_gate_Inl: "margin_gate cfg p m f = Inr (Inl d) \<Longrightarrow> \<not> fd_fill d \<and> \<not> fd_terminal d"
  by (auto simp: margin_gate_def skip_with_def Let_def split: if_splits)

lemma margin_gate_Inr:
  assumes "0 < minOut" and "0 \<le> fees"
  shows "(\<exists>b. margin_gate cfg proceeds minOut fees = Inr (Inr b)) \<longleftrightarrow>
    profitable cfg proceeds (proceeds - minOut - fees)"
proof (cases "proceeds - minOut - fees \<le> 0")
  case False
  define profit where "profit = proceeds - minOut - fees"
  define scaled where "scaled = profit * 1000000 div proceeds"
  have p: "0 < proceeds" "\<not> proceeds < minOut" "0 < profit"
    using assms False unfolding profit_def by linarith+
  then have s: "(profit * 1000000) sdiv proceeds = scaled" unfolding scaled_def by (intro sdiv_pos) simp_all
  have "0 \<le> scaled" using p unfolding scaled_def by (intro pos_imp_zdiv_nonneg_iff [THEN iffD2]) simp_all
  then have bps: "scaled sdiv 100 = scaled div 100" by (intro sdiv_pos) simp_all
  have "(\<exists>b. margin_gate cfg proceeds minOut fees = Inr (Inr b)) \<longleftrightarrow>
      minMarginBps cfg * 100 \<le> scaled \<and> \<not> option_default (maxPlausibleProfitBps cfg) 1000 + 1 \<le> scaled div 100"
    unfolding margin_gate_def Let_def profit_def [symmetric] s bps using p by auto
  also have "\<dots> \<longleftrightarrow> profitable cfg proceeds profit"
    using p by (auto simp: profitable_def le_div_pos scaled_def algebra_simps)
  finally show ?thesis unfolding profit_def .
qed (auto simp: margin_gate_def profitable_def Let_def)

definition fill_condition :: "viem_address \<Rightarrow> intent \<Rightarrow> solver_config \<Rightarrow> quote_deps \<Rightarrow> inflight option
    \<Rightarrow> int \<Rightarrow> int \<Rightarrow> int \<Rightarrow> int \<Rightarrow> bool" where
  "fill_condition va i cfg deps t now proceeds fees minOut \<longleftrightarrow>
     admissible va i cfg now \<and> profitable cfg proceeds (proceeds - minOut - fees)
     \<and> inventory_covered i deps t minOut
     \<and> native_covered i (nativeBalanceSource deps) (sourceNativeCost deps) (sourceNativeFeeFloor cfg)
     \<and> native_covered i (nativeBalanceDest deps) (destNativeCost deps) (stellarNativeFeeFloor cfg)"

lemma evaluate_fill:
  assumes "bigint_of_string (minDestAmount i) = Inr minOut" and "0 < minOut"
    and "price i deps = Inr (proceeds, fees)" and "0 \<le> fees"
  shows "(\<exists>d. evaluate va i cfg deps t now = Inr d \<and> fd_fill d \<and> True)
    \<longleftrightarrow> fill_condition va i cfg deps t now proceeds fees minOut"
proof -
  let ?last = "\<lambda>b. Inr \<lparr>fd_fill = True, fd_code = None, fd_terminal = False, fd_profitBps = Some b,
       fd_profit = Some (proceeds - minOut - fees), fd_fees = Some fees,
       fd_nativeShortfall = False, fd_implausible = False\<rparr> :: (failure, fill_decision) result"
  let ?rest = "\<lambda>b. or_else (inventory_gate i deps t minOut)
     (or_else (native_gate i (nativeBalanceSource deps) (sourceNativeCost deps) (sourceNativeFeeFloor cfg))
       (or_else (native_gate i (nativeBalanceDest deps) (destNativeCost deps) (stellarNativeFeeFloor cfg)) (?last b)))"
  have rest: "(\<exists>d. ?rest b = Inr d \<and> fd_fill d \<and> True) \<longleftrightarrow>
      inventory_covered i deps t minOut
     \<and> native_covered i (nativeBalanceSource deps) (sourceNativeCost deps) (sourceNativeFeeFloor cfg)
     \<and> native_covered i (nativeBalanceDest deps) (destNativeCost deps) (stellarNativeFeeFloor cfg)" for b
    using inventory_gate_Some native_gate_Some
    by (subst fills_or_else, blast)+ (simp add: inventory_gate_None native_gate_None)
  have tail: "(\<exists>d. bind_result (margin_gate cfg proceeds minOut fees)
       (\<lambda>m. case m of Inl d \<Rightarrow> Inr d | Inr b \<Rightarrow> ?rest b) = Inr d \<and> fd_fill d \<and> True) \<longleftrightarrow>
     (\<exists>b. margin_gate cfg proceeds minOut fees = Inr (Inr b) \<and> (\<exists>d. ?rest b = Inr d \<and> fd_fill d \<and> True))"
  proof (cases "margin_gate cfg proceeds minOut fees")
    case (Inr m)
    then show ?thesis using margin_gate_Inl [of cfg proceeds minOut fees] by (cases m) auto
  qed simp
  show ?thesis
    unfolding evaluate_def fill_condition_def assms(1,3) prod.case sum.case bind_result_simps
    using terminal_gate_Some tail rest margin_gate_Inr [OF assms(2,4), of cfg proceeds]
    by (subst fills_or_else, blast) (auto simp: terminal_gate_None)
qed

lemma or_else_cases:
  assumes "or_else g r = Inr d"
  obtains "g = Inr (Some d)" | "g = Inr None" "r = Inr d"
  using assms by (cases g) (auto simp: or_else_def split: option.splits)

lemma evaluate_terminal:
  assumes "evaluate va i cfg deps t now = Inr d"
  shows "terminal_gate va i cfg now = Inr (Some d) \<or> \<not> fd_terminal d"
  using assms unfolding evaluate_def
proof (rule or_else_cases)
  assume r: "(case price i deps of Inl x \<Rightarrow> Inr (skip_with Pricing_error False)
     | Inr (p, f) \<Rightarrow> bind_result (bigint_of_string (minDestAmount i)) (\<lambda>mo.
         bind_result (margin_gate cfg p mo f) (\<lambda>m. case m of Inl d \<Rightarrow> Inr d | Inr b \<Rightarrow>
           or_else (inventory_gate i deps t mo)
             (or_else (native_gate i (nativeBalanceSource deps) (sourceNativeCost deps) (sourceNativeFeeFloor cfg))
               (or_else (native_gate i (nativeBalanceDest deps) (destNativeCost deps) (stellarNativeFeeFloor cfg))
                 (Inr \<lparr>fd_fill = True, fd_code = None, fd_terminal = False, fd_profitBps = Some b,
                    fd_profit = Some (p - mo - f), fd_fees = Some f,
                    fd_nativeShortfall = False, fd_implausible = False\<rparr>)))))) = Inr d"
  have "\<not> fd_terminal d"
  proof (cases "price i deps")
    case (Inl e)
    then show ?thesis using r by (auto simp: skip_with_def)
  next
    case (Inr pf)
    obtain p f where pf: "pf = (p, f)" by (cases pf)
    obtain mo m where m: "margin_gate cfg p mo f = Inr m" and d: "(case m of Inl d \<Rightarrow> Inr d | Inr b \<Rightarrow>
           or_else (inventory_gate i deps t mo)
             (or_else (native_gate i (nativeBalanceSource deps) (sourceNativeCost deps) (sourceNativeFeeFloor cfg))
               (or_else (native_gate i (nativeBalanceDest deps) (destNativeCost deps) (stellarNativeFeeFloor cfg))
                 (Inr \<lparr>fd_fill = True, fd_code = None, fd_terminal = False, fd_profitBps = Some b,
                    fd_profit = Some (p - mo - f), fd_fees = Some f,
                    fd_nativeShortfall = False, fd_implausible = False\<rparr>)))) = Inr d"
      using r unfolding Inr pf sum.case prod.case bind_result_Inr_iff by blast
    show ?thesis
    proof (cases m)
      case (Inl d')
      then show ?thesis using d m margin_gate_Inl by simp
    next
      case (Inr b)
      from d show ?thesis unfolding Inr sum.case
        by (elim or_else_cases) (use inventory_gate_Some native_gate_Some in auto)
    qed
  qed
  then show ?thesis by simp
qed simp

section \<open>Properties\<close>

text \<open>
  C2. The solver fills exactly the intents it can fill at a profit: \<open>evaluate\<close> decides to fill if and only
  if the intent is on the solver's chain, leaves more than 1920 seconds to its deadline, pays in a
  served asset and is open to this solver; the profit after fees is positive, at least the configured
  margin of the proceeds and below the sanity bound, both exactly and without rounding; the balance
  covers the payout on top of what is already committed; and both native balances cover their fees.
\<close>

theorem fills_exactly_when_covered:
  assumes "bigint_of_string (minDestAmount i) = Inr minOut" and "0 < minOut"
    and "\<forall>p f. price i deps = Inr (p, f) \<longrightarrow> 0 \<le> f"
  shows "(\<exists>d. evaluate va i cfg deps t now = Inr d \<and> fd_fill d)
    \<longleftrightarrow> (\<exists>proceeds fees. price i deps = Inr (proceeds, fees)
          \<and> fill_condition va i cfg deps t now proceeds fees minOut)"
proof (cases "price i deps")
  case (Inl e)
  have "\<not> fd_fill d" if "evaluate va i cfg deps t now = Inr d" for d
    using that terminal_gate_Some [of va i cfg now]
    by (auto simp: evaluate_def or_else_def Inl bind_result_Inr_iff skip_with_def split: option.splits)
  then show ?thesis using Inl by auto
next
  case (Inr pf)
  then obtain p f where pf: "price i deps = Inr (p, f)" by (cases pf) auto
  then show ?thesis using evaluate_fill [OF assms(1,2) pf, of va cfg t now] assms(3) by auto
qed

text \<open>
  Retiring a skipped intent for good loses nothing: a decision marked terminal is never a fill, and
  whatever prices, balances and commitments the solver sees later, the same intent is skipped with a
  terminal decision at every later time.
\<close>

theorem terminal_is_durable:
  assumes "evaluate va i cfg deps t now = Inr d" and "fd_terminal d" and "now \<le> later"
  shows "\<not> fd_fill d \<and> (\<exists>d'. evaluate va i cfg deps' t' later = Inr d' \<and> \<not> fd_fill d' \<and> fd_terminal d')"
proof -
  have "terminal_gate va i cfg now = Inr (Some d)"
    using evaluate_terminal [OF assms(1)] assms(2) by simp
  moreover from this have "\<exists>d'. terminal_gate va i cfg later = Inr (Some d')"
    using assms(3) by (cases "isSolverEligible va (preferredSolver i) (solverAddress cfg)")
      (auto simp: terminal_gate_def isExpired_def split: if_splits)
  ultimately show ?thesis
    using terminal_gate_Some by (fastforce simp: evaluate_def or_else_def)
qed

text \<open>
  The expected proceeds are the exact price rounded down: with a positive rate and integer decimals
  they are the floor of source amount times rate over 10^18, rescaled by the difference of the
  decimals, and a rate that is not positive is refused, so proceeds are never overestimated.
\<close>

theorem proceeds_are_floored:
  assumes "bigint_of_string (sourceAmount i) = Inr amount" and "0 \<le> amount"
    and "option_default (decimalsLookup deps) defaultDecimalsLookup (sourceAsset i) = Inr (num_of_int src)"
    and "option_default (decimalsLookup deps) defaultDecimalsLookup (destAsset i) = Inr (num_of_int dst)"
    and "option_default (priceOracle deps) defaultPriceOracle (sourceAsset i) (destAsset i) = Inr rate"
  shows "computeProceeds i deps =
    (if 0 < rate then Inr \<lfloor>rat_of_int (amount * rate) / 10 ^ 18 * (10 powi (dst - src))\<rfloor>
     else Inl (js_exception ''Error''))"
  using assms rescale_floor [of amount rate src dst]
  by (auto simp: computeProceeds_def Let_def bigint_of_number_def is_integer_num_of_int int_of_num_def)

section \<open>Concrete inputs\<close>

definition sample_viem :: viem_address where
  "sample_viem = \<lparr>va_isAddress = hex_string 40, va_isAddressEqual = \<lambda>a b. Inr (to_lower a = to_lower b)\<rparr>"

definition sample_solver_config :: solver_config where
  "sample_solver_config =
     \<lparr>sc_mempoolUrl = ''http://localhost:3000'', solverAddress = sample_solver_address,
      sc_sourceChainId = 8453, settlementContractId = None, sorobanRpcUrl = None,
      escrowAddress = ''0x3333333333333333333333333333333333333333'', minMarginBps = 15,
      maxPlausibleProfitBps = Some 1000, maxImplausibleProfitTriggers = Some 5,
      sourceNativeFeeFloor = 0, stellarNativeFeeFloor = 0, pollIntervalMs = 2000,
      supportedDestAssets = [''native''], verificationCacheSize = Some 10000, fillConcurrency = Some 4,
      seenCacheSize = Some 50000, retryCacheSize = Some 10000, mempoolStatusToken = None\<rparr>"

definition sample_deps :: quote_deps where
  "sample_deps =
     \<lparr>decimalsLookup = Some (\<lambda>a. Inr (num_of_int (if a = ''native'' then 7 else 6))), priceOracle = None,
      feeEstimator = None, availableBalance = Some (\<lambda>a. Inr 9900000), nativeBalanceSource = Some (Inr 1),
      nativeBalanceDest = None, sourceNativeCost = None, destNativeCost = None\<rparr>"

definition quoted_intent :: intent where
  "quoted_intent = sample_intent\<lparr>deadline := 5000\<rparr>"

lemma sample_amounts:
  "js_bigint ''1000000'' = Some 1000000" "js_bigint ''9900000'' = Some 9900000"
proof -
  have d: "digit_string ''1000000''" "digit_string ''9900000''"
    by (simp_all add: digit_string_def is_digit_def char_code_def)
  have n: "nat_of_digits ''1000000'' = 1000000" "nat_of_digits ''9900000'' = 9900000"
    by (simp_all add: nat_of_digits_def digit_val_def char_code_def)
  show "js_bigint ''1000000'' = Some 1000000" "js_bigint ''9900000'' = Some 9900000"
    unfolding js_bigint_digits [OF d(1)] js_bigint_digits [OF d(2)] n by simp_all
qed

lemma sample_strings:
  "bigint_of_string (sourceAmount quoted_intent) = Inr 1000000"
  "bigint_of_string (minDestAmount quoted_intent) = Inr 9900000"
  by (simp_all add: bigint_of_string_def quoted_intent_def sample_intent_def sample_amounts)

lemma sample_proceeds: "computeProceeds quoted_intent sample_deps = Inr 10000000"
proof -
  have "rescale 1000000 RATE_SCALE 6 7 = 10000000"
    by (simp add: rescale_def RATE_SCALE_def sdiv_pos)
  then show ?thesis
    using sample_strings by (simp add: computeProceeds_def sample_deps_def option_default_def Let_def
        defaultPriceOracle_def RATE_SCALE_def bigint_of_number_def quoted_intent_def sample_intent_def)
qed

lemma sample_price: "price quoted_intent sample_deps = Inr (10000000, 0)"
  by (simp add: price_def sample_proceeds) (simp add: sample_deps_def option_default_def defaultFeeEstimator_def)

lemma zeroAddress_hex: "hex_string 40 zeroAddress"
  by (simp add: zeroAddress_def hex_string_def is_hex_def is_hex_lower_def is_digit_def char_code_def)

lemma sample_admissible: "admissible sample_viem quoted_intent sample_solver_config 1000"
  by (simp add: admissible_def quoted_intent_def sample_intent_def sample_solver_config_def
      isSolverEligible_def sample_viem_def zeroAddress_hex)

lemma sample_fill_condition:
  "fill_condition sample_viem quoted_intent sample_solver_config sample_deps (Some new_inflight) 1000
     10000000 0 9900000"
  using sample_admissible
  by (simp add: fill_condition_def profitable_def inventory_covered_def native_covered_def
      sample_solver_config_def sample_deps_def option_default_def new_inflight_def reservedFor_def amount_of_def)

theorem fills_exactly_when_covered_witness:
  "\<exists>d. evaluate sample_viem quoted_intent sample_solver_config sample_deps (Some new_inflight) 1000 = Inr d \<and> fd_fill d"
  using sample_strings sample_price sample_fill_condition
    fills_exactly_when_covered [of quoted_intent 9900000 sample_deps sample_viem sample_solver_config
      "Some new_inflight" 1000] by auto

lemma sample_expired:
  "evaluate sample_viem quoted_intent sample_solver_config sample_deps None 3080 = Inr (skip_with Expired_intent True)"
  by (simp add: evaluate_def or_else_def terminal_gate_def isExpired_def MIN_FILL_HEADROOM_SECS_def
      quoted_intent_def sample_intent_def sample_solver_config_def)

theorem terminal_is_durable_witness:
  "\<exists>d'. evaluate sample_viem quoted_intent sample_solver_config sample_deps None 3081 = Inr d'
     \<and> \<not> fd_fill d' \<and> fd_terminal d'"
proof -
  have "fd_terminal (skip_with Expired_intent True)" by (simp add: skip_with_def)
  then show ?thesis
    using terminal_is_durable [OF sample_expired, of 3081 sample_deps None] by simp
qed

theorem proceeds_are_floored_witness:
  "computeProceeds quoted_intent sample_deps = Inr \<lfloor>rat_of_int (1000000 * 10 ^ 18) / 10 ^ 18 * (10 powi (7 - 6))\<rfloor>"
  by (subst proceeds_are_floored [where amount = 1000000 and src = 6 and dst = 7 and rate = "10 ^ 18"])
     (simp_all only: sample_strings, simp_all add: sample_deps_def option_default_def defaultPriceOracle_def
        RATE_SCALE_def quoted_intent_def sample_intent_def)

end
