(* ===== verification/Lru.thy ===== *)
theory Lru
  imports Prelude
begin

text \<open>
  The contract the solver's three caches share: an insertion-ordered map, bounded by a limit, where a
  successful lookup moves its entry to the end, a lookup of a stale entry removes it, and an insertion
  of a new key at the limit drops the first entry. The locale \<open>lru_cache\<close> states the laws on the
  entries; its lemmas are the bound and the survival of an entry until too many other keys came in.
  \<open>swept_cache\<close> adds the sweep of stale entries. \<open>Solver_Caches\<close> interprets both.
\<close>

definition drop_oldest :: "int \<Rightarrow> ('k, 'v) assoc \<Rightarrow> ('k, 'v) assoc" where
  "drop_oldest limit es = (if limit \<le> int (length es) then tl es else es)"

definition in_limit :: "int \<Rightarrow> ('k, 'v) assoc \<Rightarrow> bool" where
  "in_limit limit es \<longleftrightarrow> int (length es) \<le> max 1 limit"

text \<open>The keys behind a key, which are those used more recently.\<close>

definition behind :: "'k \<Rightarrow> ('k, 'v) assoc \<Rightarrow> 'k set" where
  "behind k es = fst ` set (tl (dropWhile (\<lambda>e. fst e \<noteq> k) es))"

lemma behind_Cons: "behind k (e # es) = (if fst e = k then fst ` set es else behind k es)"
  by (simp add: behind_def)

lemma behind_Nil [simp]: "behind k [] = {}"
  by (simp add: behind_def)

lemma behind_append:
  "k \<in> fst ` set es \<Longrightarrow> behind k (es @ fs) = behind k es \<union> fst ` set fs"
  by (induction es) (auto simp: behind_Cons)

lemma behind_filter: "behind k (filter P es) \<subseteq> fst ` set es"
  by (induction es) (auto simp: behind_Cons)

lemma behind_del: "x \<noteq> k \<Longrightarrow> behind k (assoc_del x es) \<subseteq> behind k es"
  by (induction es) (auto simp: behind_Cons assoc_del_def)

lemma behind_set: "behind k (assoc_set x v es) \<subseteq> behind k es \<union> {x}"
proof (induction es)
  case (Cons e es)
  have "fst ` set (assoc_set x v es) = insert x (fst ` set es)"
    using keys_assoc_set [of x v es] by (metis image_set insert_absorb set_append list.simps(15) empty_set insert_is_Un sup_commute)
  with Cons show ?case by (cases e) (auto simp: behind_Cons)
qed (simp add: behind_Cons)

lemma tl_behind: "behind k (tl es) \<subseteq> behind k es"
proof (cases es)
  case (Cons e fs)
  have "behind k fs \<subseteq> fst ` set fs" by (induction fs) (auto simp: behind_Cons)
  with Cons show ?thesis by (auto simp: behind_Cons)
qed simp

lemma assoc_ok_snoc: "assoc_ok es \<Longrightarrow> k \<notin> fst ` set es \<Longrightarrow> assoc_ok (es @ [(k, v)])"
  by (simp add: assoc_ok_def)

lemma assoc_ok_tl: "assoc_ok es \<Longrightarrow> assoc_ok (tl es)"
  by (cases es) (simp_all add: assoc_ok_def)

lemma assoc_get_snoc: "k \<notin> fst ` set es \<Longrightarrow> assoc_get (es @ [(k, v)]) = (assoc_get es)(k \<mapsto> v)"
  using assoc_get_None_iff [of es k]
  by (auto simp: assoc_get_def fun_eq_iff map_add_def split: option.split)

lemma keys_del: "fst ` set (assoc_del k es) = fst ` set es - {k}"
  by (auto simp: assoc_del_def)

lemma not_in_del [simp]: "(k, v) \<notin> set (assoc_del k es)"
  by (simp add: assoc_del_def)

lemma assoc_get_tl: "es \<noteq> [] \<Longrightarrow> fst (hd es) \<noteq> k \<Longrightarrow> assoc_get (tl es) k = assoc_get es k"
  by (cases es) (auto simp: assoc_get_def)

lemma keys_drop_oldest: "fst ` set (drop_oldest n es) \<subseteq> fst ` set es"
  by (cases es) (auto simp: drop_oldest_def)

lemma option_ext: "(\<And>v. x = Some v \<longleftrightarrow> y = Some v) \<Longrightarrow> x = y"
  by (cases x; cases y) auto

lemma drop_oldest_fresh: "k \<notin> fst ` set es \<Longrightarrow> k \<notin> fst ` set (drop_oldest n es)"
  by (meson keys_drop_oldest subsetD)

datatype ('k, 'v) cache_op = Touch int 'k | Put 'k 'v

locale lru_cache =
  fixes entries :: "'c \<Rightarrow> ('k, 'v) assoc"
    and limit :: "'c \<Rightarrow> int"
    and live :: "int \<Rightarrow> 'v \<Rightarrow> bool"
    and touch :: "int \<Rightarrow> 'k \<Rightarrow> 'c \<Rightarrow> 'v option \<times> 'c"
    and put :: "'k \<Rightarrow> 'v \<Rightarrow> 'c \<Rightarrow> 'c"
  assumes limit_touch: "limit (snd (touch now k c)) = limit c"
    and limit_put: "limit (put k v c) = limit c"
    and touch_absent: "assoc_get (entries c) k = None \<Longrightarrow>
      fst (touch now k c) = None \<and> entries (snd (touch now k c)) = entries c"
    and touch_stale: "assoc_get (entries c) k = Some v \<Longrightarrow> \<not> live now v \<Longrightarrow>
      fst (touch now k c) = None \<and> entries (snd (touch now k c)) = assoc_del k (entries c)"
    and touch_live: "assoc_get (entries c) k = Some v \<Longrightarrow> live now v \<Longrightarrow>
      fst (touch now k c) = Some v \<and> entries (snd (touch now k c)) = assoc_del k (entries c) @ [(k, v)]"
    and put_fresh: "assoc_ok (entries c) \<Longrightarrow> assoc_get (entries c) k = None \<Longrightarrow>
      entries (put k v c) = drop_oldest (limit c) (entries c) @ [(k, v)]"
    and put_present: "assoc_ok (entries c) \<Longrightarrow> in_limit (limit c) (entries c) \<Longrightarrow>
      assoc_get (entries c) k = Some u \<Longrightarrow>
      entries (put k v c) \<in> {assoc_set k v (entries c), assoc_del k (entries c) @ [(k, v)]}"
begin

definition cache_ok :: "'c \<Rightarrow> bool" where
  "cache_ok c \<longleftrightarrow> assoc_ok (entries c) \<and> in_limit (limit c) (entries c)"

fun apply_op :: "('k, 'v) cache_op \<Rightarrow> 'c \<Rightarrow> 'c" where
  "apply_op (Touch now k) c = snd (touch now k c)"
| "apply_op (Put k v) c = put k v c"

fun op_key :: "('k, 'v) cache_op \<Rightarrow> 'k" where
  "op_key (Touch now k) = k"
| "op_key (Put k v) = k"

lemma key_iff: "k \<in> fst ` set es \<longleftrightarrow> assoc_get es k \<noteq> None"
  using assoc_get_None_iff [of es k] by auto

lemma touch_cases:
  obtains (absent) "assoc_get (entries c) k = None" "fst (touch now k c) = None"
      "entries (snd (touch now k c)) = entries c"
  | (stale) v where "assoc_get (entries c) k = Some v" "\<not> live now v" "fst (touch now k c) = None"
      "entries (snd (touch now k c)) = assoc_del k (entries c)"
  | (live) v where "assoc_get (entries c) k = Some v" "live now v" "fst (touch now k c) = Some v"
      "entries (snd (touch now k c)) = assoc_del k (entries c) @ [(k, v)]"
proof (cases "assoc_get (entries c) k")
  case None
  show ?thesis by (rule absent) (simp_all add: None touch_absent)
next
  case (Some v)
  show ?thesis
  proof (cases "live now v")
    case True
    show ?thesis by (rule live [of v]) (simp_all add: Some True touch_live)
  next
    case False
    show ?thesis by (rule stale [of v]) (simp_all add: Some False touch_stale)
  qed
qed

lemma cache_ok_op: "cache_ok c \<Longrightarrow> cache_ok (apply_op opn c)"
proof (cases opn)
  case (Touch now k)
  assume c: "cache_ok c"
  show ?thesis
  proof (cases rule: touch_cases [of c k now])
    case (live v)
    have "length (assoc_del k (entries c)) = length (entries c) - 1"
      using live(1) c by (simp add: length_assoc_del cache_ok_def)
    moreover have "entries c \<noteq> []" using live(1) by auto
    ultimately show ?thesis
      using c live Touch by (auto simp: cache_ok_def in_limit_def limit_touch keys_del
          intro!: assoc_ok_snoc assoc_del_ok)
  next
    case (stale v)
    then show ?thesis
      using c Touch length_assoc_del_le [of k "entries c"]
      by (auto simp: cache_ok_def in_limit_def limit_touch intro: assoc_del_ok)
  qed (use c Touch in \<open>simp add: cache_ok_def limit_touch\<close>)
next
  case (Put k v)
  assume c: "cache_ok c"
  show ?thesis
  proof (cases "assoc_get (entries c) k")
    case None
    have "k \<notin> fst ` set (drop_oldest (limit c) (entries c))"
      using None by (intro drop_oldest_fresh) (simp only: key_iff simp_thms)
    moreover have "assoc_ok (drop_oldest (limit c) (entries c))"
      using c by (simp add: drop_oldest_def cache_ok_def assoc_ok_tl)
    moreover have "in_limit (limit c) (drop_oldest (limit c) (entries c) @ [(k, v)])"
      using c by (auto simp: in_limit_def drop_oldest_def cache_ok_def)
    ultimately show ?thesis
      using Put None c by (simp add: cache_ok_def put_fresh limit_put assoc_ok_snoc)
  next
    case (Some u)
    have "length (assoc_del k (entries c)) = length (entries c) - 1"
      using Some c by (simp add: length_assoc_del cache_ok_def)
    moreover have "entries c \<noteq> []" using Some by auto
    moreover have "length (assoc_set k v (entries c)) = length (entries c)"
      using keys_assoc_set [of k v "entries c"] Some
      by (metis assoc_get_None_iff length_map option.distinct(1))
    moreover have "entries (put k v c) \<in> {assoc_set k v (entries c), assoc_del k (entries c) @ [(k, v)]}"
      using put_present Some c by (simp add: cache_ok_def)
    ultimately show ?thesis
      using c Put by (auto simp: cache_ok_def in_limit_def limit_put keys_del assoc_set_ok
          intro!: assoc_ok_snoc assoc_del_ok)
  qed
qed

lemma limit_op: "limit (apply_op opn c) = limit c"
  by (cases opn) (simp_all add: limit_touch limit_put)

text \<open>
  Survival: an entry stays readable while fewer than \<open>limit\<close> other keys are used, as long as it is
  live whenever it is looked up and nobody overwrites it.
\<close>

definition recent :: "'k \<Rightarrow> 'v \<Rightarrow> 'k set \<Rightarrow> 'c \<Rightarrow> bool" where
  "recent k v S c \<longleftrightarrow> cache_ok c \<and> assoc_get (entries c) k = Some v \<and> behind k (entries c) \<subseteq> S"

lemma recent_put: "cache_ok c \<Longrightarrow> 1 \<le> limit c \<Longrightarrow> \<exists>S. finite S \<and> k \<notin> S \<and> recent k v S (put k v c)"
proof -
  assume c: "cache_ok c" and l: "1 \<le> limit c"
  have ok: "cache_ok (put k v c)" using cache_ok_op [OF c, of "Put k v"] by simp
  have get: "assoc_get (entries (put k v c)) k = Some v"
  proof (cases "assoc_get (entries c) k")
    case None
    then have "k \<notin> fst ` set (drop_oldest (limit c) (entries c))"
      by (intro drop_oldest_fresh) (simp only: key_iff simp_thms)
    with None c show ?thesis by (simp add: put_fresh assoc_get_snoc cache_ok_def)
  next
    case (Some u)
    then have "entries (put k v c) \<in> {assoc_set k v (entries c), assoc_del k (entries c) @ [(k, v)]}"
      using put_present c by (simp add: cache_ok_def)
    moreover have "k \<notin> fst ` set (assoc_del k (entries c))" by (simp add: keys_del)
    ultimately show ?thesis by (auto simp: assoc_get_set assoc_get_snoc simp del: not_in_del)
  qed
  have "k \<notin> behind k es" if "assoc_ok es" for es :: "('k, 'v) assoc"
    using that by (induction es) (auto simp: behind_Cons assoc_ok_def)
  then have "k \<notin> behind k (entries (put k v c))" using ok by (simp add: cache_ok_def)
  moreover have "finite (behind k (entries (put k v c)))" by (simp add: behind_def)
  ultimately show ?thesis using ok get unfolding recent_def by blast
qed

lemma first_behind:
  assumes "assoc_ok es" and "es \<noteq> []" and "fst (hd es) = k"
  shows "card (behind k es) = length es - 1"
proof -
  obtain e fs where es: "es = e # fs" using assms(2) by (cases es) auto
  then have "behind k es = set (map fst fs)" using assms(3) by (simp add: behind_Cons)
  moreover have "distinct (map fst fs)" using assms(1) es by (simp add: assoc_ok_def)
  ultimately have "card (behind k es) = length (map fst fs)" by (simp only: distinct_card)
  with es show ?thesis by simp
qed

lemma recent_op:
  assumes r: "recent k v S c" and S: "finite S" "int (card (S \<union> {op_key opn} - {k})) < limit c" "k \<notin> S"
    and live: "\<And>now. opn = Touch now k \<Longrightarrow> live now v" and np: "\<And>u. opn \<noteq> Put k u"
  shows "recent k v (S \<union> {op_key opn} - {k}) (apply_op opn c)"
proof -
  have ok: "cache_ok c" "assoc_ok (entries c)" and get: "assoc_get (entries c) k = Some v"
    and bh: "behind k (entries c) \<subseteq> S"
    using r by (auto simp: recent_def cache_ok_def)
  have ok': "cache_ok (apply_op opn c)" using ok(1) by (rule cache_ok_op)
  have kin: "k \<in> fst ` set (entries c)" by (simp only: key_iff get) simp
  show ?thesis
  proof (cases opn)
    case (Touch now x)
    show ?thesis
    proof (cases "x = k")
      case True
      have "behind k (assoc_del k (entries c) @ [(k, v)]) = {}"
      proof -
        have "behind k (es @ [(k, v)]) = {}" if "k \<notin> fst ` set es" for es :: "('k, 'v) assoc"
          using that by (induction es) (auto simp: behind_Cons)
        then show ?thesis by (simp add: keys_del)
      qed
      moreover have "k \<notin> fst ` set (assoc_del k (entries c))" by (simp add: keys_del)
      ultimately show ?thesis
        using Touch True ok' touch_live [OF get live] by (auto simp: recent_def assoc_get_snoc simp del: not_in_del)
    next
      case False
      have del: "assoc_get (assoc_del x (entries c)) k = Some v"
        "behind k (assoc_del x (entries c)) \<subseteq> S" "k \<in> fst ` set (assoc_del x (entries c))"
        using False get bh behind_del [of x k "entries c"] kin by (auto simp: assoc_get_del keys_del)
      show ?thesis
      proof (cases rule: touch_cases [of c x now])
        case absent
        then show ?thesis using Touch ok' get bh S(3) by (auto simp: recent_def)
      next
        case (stale u)
        then show ?thesis using Touch ok' del S(3) by (auto simp: recent_def)
      next
        case (live u)
        have "x \<notin> fst ` set (assoc_del x (entries c))" by (simp add: keys_del)
        then have "assoc_get (assoc_del x (entries c) @ [(x, u)]) k = Some v"
          using get False assoc_get_snoc [of x "assoc_del x (entries c)" u]
          by (simp add: keys_del assoc_get_del)
        moreover have "behind k (assoc_del x (entries c) @ [(x, u)]) \<subseteq> S \<union> {x}"
          using del(2,3) by (auto simp: behind_append simp del: not_in_del)
        ultimately show ?thesis using Touch ok' live(4) False S(3) by (auto simp: recent_def)
      qed
    qed
  next
    case (Put x u)
    then have False: "x \<noteq> k" using np by blast
    show ?thesis
    proof (cases "assoc_get (entries c) x")
      case None
      then have xout: "x \<notin> fst ` set (entries c)" by (simp only: key_iff simp_thms)
      have keep: "\<not> (limit c \<le> int (length (entries c)) \<and> fst (hd (entries c)) = k)"
      proof
        assume a: "limit c \<le> int (length (entries c)) \<and> fst (hd (entries c)) = k"
        have ne: "entries c \<noteq> []" using kin by auto
        have "card (behind k (entries c)) = length (entries c) - 1"
          using first_behind [OF ok(2) ne] a by simp
        moreover have "behind k (entries c) \<subseteq> fst ` set (entries c)"
          using behind_filter [of k "\<lambda>_. True" "entries c"] by simp
        then have "x \<notin> behind k (entries c)" using xout by blast
        moreover have "behind k (entries c) \<union> {x} \<subseteq> S \<union> {op_key opn} - {k}"
          using bh Put False S(3) by auto
        then have "card (behind k (entries c) \<union> {x}) \<le> card (S \<union> {op_key opn} - {k})"
          using S(1) by (intro card_mono) auto
        moreover have "finite (behind k (entries c))" by (simp add: behind_def)
        ultimately have "length (entries c) \<le> card (S \<union> {op_key opn} - {k})" using ne by (cases "entries c") auto
        with a S(2) show False by linarith
      qed
      let ?d = "drop_oldest (limit c) (entries c)"
      have "entries c \<noteq> []" using get by auto
      then have tl: "fst (hd (entries c)) \<noteq> k \<Longrightarrow> assoc_get (tl (entries c)) k = Some v"
        using get by (simp add: assoc_get_tl)
      have d: "assoc_get ?d k = Some v" "behind k ?d \<subseteq> S"
        using keep get bh tl_behind [of k "entries c"] tl
        by (auto simp: drop_oldest_def)
      then have "k \<in> fst ` set ?d" by (simp only: key_iff) simp
      moreover have "x \<notin> fst ` set ?d" using xout by (rule drop_oldest_fresh)
      ultimately have "assoc_get (?d @ [(x, u)]) k = Some v" "behind k (?d @ [(x, u)]) \<subseteq> S \<union> {x}"
        using d False by (auto simp: assoc_get_snoc behind_append)
      then show ?thesis using Put ok' None False S(3) by (auto simp: recent_def put_fresh [OF ok(2)])
    next
      case (Some w)
      have "behind k (assoc_set x u (entries c)) \<subseteq> S \<union> {x}"
        using behind_set [of k x u "entries c"] bh by blast
      moreover have "behind k (assoc_del x (entries c) @ [(x, u)]) \<subseteq> S \<union> {x}"
        using behind_append [of k "assoc_del x (entries c)" "[(x, u)]"] behind_del [of x k "entries c"] bh False kin
        by (auto simp: keys_del)
      moreover have "assoc_get (assoc_del x (entries c) @ [(x, u)]) k = Some v"
        using False get assoc_get_snoc [of x "assoc_del x (entries c)" u] by (simp add: keys_del assoc_get_del)
      moreover have "assoc_get (assoc_set x u (entries c)) k = Some v"
        using False get by (simp add: assoc_get_set)
      moreover have "entries (put x u c) \<in> {assoc_set x u (entries c), assoc_del x (entries c) @ [(x, u)]}"
        using put_present Some ok by (simp add: cache_ok_def)
      ultimately show ?thesis using Put ok' False S(3) by (auto simp: recent_def)
    qed
  qed
qed

text \<open>Any sequence of uses of other keys, and of live lookups of this one.\<close>

lemma survives:
  assumes "recent k v S c" and "finite S" and "k \<notin> S"
    and "\<forall>opn \<in> set ops. (\<forall>now. opn = Touch now k \<longrightarrow> live now v) \<and> (\<forall>u. opn \<noteq> Put k u)"
    and "int (card (S \<union> op_key ` set ops - {k})) < limit c"
  shows "assoc_get (entries (fold apply_op ops c)) k = Some v"
  using assms
proof (induction ops arbitrary: S c)
  case Nil
  then show ?case by (simp add: recent_def)
next
  case (Cons opn ops)
  let ?S = "S \<union> {op_key opn} - {k}"
  have eq: "?S \<union> op_key ` set ops - {k} = S \<union> op_key ` set (opn # ops) - {k}" by auto
  have "card ?S \<le> card (S \<union> op_key ` set (opn # ops) - {k})"
    using Cons.prems(2) by (intro card_mono) auto
  then have "int (card ?S) < limit c" using Cons.prems(5) by linarith
  then have r: "recent k v ?S (apply_op opn c)"
    using Cons.prems by (intro recent_op) auto
  have "int (card (?S \<union> op_key ` set ops - {k})) < limit (apply_op opn c)"
    unfolding eq limit_op by (rule Cons.prems(5))
  with r have "assoc_get (entries (fold apply_op ops (apply_op opn c))) k = Some v"
    using Cons.prems(2,4) by (intro Cons.IH [of ?S]) auto
  then show ?case by simp
qed

end

locale swept_cache = lru_cache entries limit live touch put
  for entries :: "'c \<Rightarrow> ('k, 'v) assoc"
    and limit :: "'c \<Rightarrow> int"
    and live :: "int \<Rightarrow> 'v \<Rightarrow> bool"
    and touch :: "int \<Rightarrow> 'k \<Rightarrow> 'c \<Rightarrow> 'v option \<times> 'c"
    and put :: "'k \<Rightarrow> 'v \<Rightarrow> 'c \<Rightarrow> 'c" +
  fixes sweep :: "int \<Rightarrow> 'c \<Rightarrow> nat \<times> 'c"
  assumes limit_sweep: "limit (snd (sweep now c)) = limit c"
    and sweep_entries: "assoc_ok (entries c) \<Longrightarrow>
      entries (snd (sweep now c)) = filter (\<lambda>e. live now (snd e)) (entries c)"
    and sweep_count: "assoc_ok (entries c) \<Longrightarrow>
      fst (sweep now c) + length (entries (snd (sweep now c))) = length (entries c)"
begin

lemma cache_ok_sweep: "cache_ok c \<Longrightarrow> cache_ok (snd (sweep now c))"
proof -
  assume c: "cache_ok c"
  then have e: "entries (snd (sweep now c)) = filter (\<lambda>e. live now (snd e)) (entries c)"
    by (simp add: cache_ok_def sweep_entries)
  have "int (length (filter (\<lambda>e. live now (snd e)) (entries c))) \<le> int (length (entries c))"
    by (simp only: of_nat_le_iff length_filter_le)
  then have "in_limit (limit c) (filter (\<lambda>e. live now (snd e)) (entries c))"
    using c unfolding cache_ok_def in_limit_def by linarith
  moreover have "assoc_ok (filter (\<lambda>e. live now (snd e)) (entries c))"
    using c by (simp add: cache_ok_def assoc_ok_def distinct_map_filter)
  ultimately show ?thesis by (simp add: cache_ok_def e limit_sweep)
qed

lemma sweep_get: "cache_ok c \<Longrightarrow>
    assoc_get (entries (snd (sweep now c))) k =
      (case assoc_get (entries c) k of None \<Rightarrow> None | Some v \<Rightarrow> if live now v then Some v else None)"
proof -
  assume c: "cache_ok c"
  then have ok: "assoc_ok (entries c)" by (simp add: cache_ok_def)
  let ?f = "filter (\<lambda>e. live now (snd e)) (entries c)"
  have okf: "assoc_ok ?f" using ok by (simp add: assoc_ok_def distinct_map_filter)
  have iff: "assoc_get ?f k = Some v \<longleftrightarrow> assoc_get (entries c) k = Some v \<and> live now v" for v
    by (simp add: assoc_get_Some_iff [OF okf] assoc_get_Some_iff [OF ok])
  have "assoc_get ?f k = (case assoc_get (entries c) k of None \<Rightarrow> None
      | Some v \<Rightarrow> if live now v then Some v else None)"
    by (rule option_ext) (auto simp: iff split: option.split)
  then show ?thesis by (simp add: sweep_entries [OF ok])
qed

end

text \<open>The loop of a sweep: the entries are visited in order, stale ones deleted and counted.\<close>

lemma lru_sweep_fold:
  assumes "distinct (map fst es)"
  shows "foldl (\<lambda>(n, m) (k, v). if P v then (n + 1, assoc_del k m) else (n, m)) (n, m) es
    = (n + length (filter (\<lambda>e. P (snd e)) es),
       filter (\<lambda>e. \<not> (\<exists>v. (fst e, v) \<in> set es \<and> P v)) m)"
  using assms
proof (induction es arbitrary: n m)
  case (Cons e es)
  obtain k v where e: "e = (k, v)" by force
  have "k \<notin> fst ` set es" using Cons.prems e by simp
  then have "(\<exists>u. (k, u) \<in> set (e # es) \<and> P u) = P v" by (auto simp: e) (metis fst_conv image_eqI)
  then have *: "(\<exists>u. (x, u) \<in> set (e # es) \<and> P u) = (if x = k then P v else \<exists>u. (x, u) \<in> set es \<and> P u)" for x
    by (auto simp: e)
  have "\<not> (\<exists>u. (k, u) \<in> set es \<and> P u)" using \<open>k \<notin> fst ` set es\<close> by (auto simp: image_iff)
  then have "filter (\<lambda>e'. \<not> (\<exists>u. (fst e', u) \<in> set (e # es) \<and> P u)) m
      = filter (\<lambda>e'. \<not> (\<exists>u. (fst e', u) \<in> set es \<and> P u)) (if P v then assoc_del k m else m)"
    unfolding * by (auto simp: assoc_del_def intro!: filter_cong)
  moreover have "foldl (\<lambda>(n, m) (k, v). if P v then (n + 1, assoc_del k m) else (n, m)) (n, m) (e # es)
      = foldl (\<lambda>(n, m) (k, v). if P v then (n + 1, assoc_del k m) else (n, m))
          (if P v then (n + 1, assoc_del k m) else (n, m)) es" by (simp add: e)
  ultimately show ?case
    using Cons.IH [of "n + 1" "assoc_del k m"] Cons.IH [of n m] Cons.prems by (simp add: e split: if_splits)
qed simp

lemma sweep_own:
  assumes "assoc_ok m"
  shows "foldl (\<lambda>(n, m) (k, v). if P v then (n + 1, assoc_del k m) else (n, m)) (0, m) m
    = (length (filter (\<lambda>e. P (snd e)) m), filter (\<lambda>e. \<not> P (snd e)) m)"
proof -
  have "(\<exists>v. (fst e, v) \<in> set m \<and> P v) \<longleftrightarrow> P (snd e)" if "e \<in> set m" for e
  proof -
    have "(fst e, v) \<in> set m \<longleftrightarrow> v = snd e" for v
      using that assms eq_key_imp_eq_value [of m "fst e" v "snd e"] by (auto simp: assoc_ok_def)
    then show ?thesis by simp
  qed
  then show ?thesis
    using lru_sweep_fold [of m P 0 m] assms by (simp add: assoc_ok_def cong: filter_cong)
qed

end
