(* ===== verification/Solver_Caches.thy ===== *)
theory Solver_Caches
  imports Lru Sdk_Intent
begin

text \<open>
  \<^verbatim>\<open>solver/src/seen-lru.ts\<close>, and \<open>VerificationCache\<close> and \<open>RetryStateLRU\<close> of \<^verbatim>\<open>solver/src/solver.ts\<close>:
  the solver's three bounded caches, each written as the code writes it, with the clock passed in.
  All three are instances of the cache contract of \<open>Lru\<close>.
\<close>

section \<open>The seen set\<close>

record seen_entry =
  insertedAt :: int
  se_deadlineMs :: int

record seen_lru =
  seen_cache :: "(string, seen_entry) assoc"
  seen_maxSize :: int

definition new_seen :: "int option \<Rightarrow> seen_lru" where
  "new_seen mx = \<lparr>seen_cache = [], seen_maxSize = option_default mx 50000\<rparr>"

definition seen_lookup :: "int \<Rightarrow> string \<Rightarrow> seen_lru \<Rightarrow> seen_entry option \<times> seen_lru" where
  "seen_lookup now h c =
     (case assoc_get (seen_cache c) h of
        None \<Rightarrow> (None, c)
      | Some e \<Rightarrow>
          if se_deadlineMs e < now then (None, c\<lparr>seen_cache := assoc_del h (seen_cache c)\<rparr>)
          else (Some e, c\<lparr>seen_cache := assoc_set h e (assoc_del h (seen_cache c))\<rparr>))"

definition seen_has :: "int \<Rightarrow> string \<Rightarrow> seen_lru \<Rightarrow> bool \<times> seen_lru" where
  "seen_has now h c = (let (e, c') = seen_lookup now h c in (e \<noteq> None, c'))"

definition seen_put :: "string \<Rightarrow> seen_entry \<Rightarrow> seen_lru \<Rightarrow> seen_lru" where
  "seen_put h e c =
     (let m = assoc_del h (seen_cache c);
          m' = (if seen_maxSize c \<le> int (length m)
                then (case assoc_keys m of [] \<Rightarrow> m | oldest # _ \<Rightarrow> assoc_del oldest m) else m)
      in c\<lparr>seen_cache := assoc_set h e m'\<rparr>)"

definition seen_add :: "int \<Rightarrow> string \<Rightarrow> int \<Rightarrow> seen_lru \<Rightarrow> seen_lru" where
  "seen_add now h deadlineMs c = seen_put h \<lparr>insertedAt = now, se_deadlineMs = deadlineMs\<rparr> c"

definition seen_evictExpired :: "int \<Rightarrow> seen_lru \<Rightarrow> nat \<times> seen_lru" where
  "seen_evictExpired now c =
     (let (n, m) = foldl (\<lambda>(n, m) (h, e). if se_deadlineMs e < now then (n + 1, assoc_del h m) else (n, m))
                     (0, seen_cache c) (seen_cache c)
      in (n, c\<lparr>seen_cache := m\<rparr>))"

definition seen_size :: "seen_lru \<Rightarrow> nat" where
  "seen_size c = length (seen_cache c)"

section \<open>Verification results\<close>

record verification_entry =
  ve_valid :: bool
  ve_expiresAt :: "int option"

record verification_cache =
  vc_cache :: "(string, verification_entry) assoc"
  vc_maxSize :: int

definition NEGATIVE_VERIFICATION_TTL_MS :: int where "NEGATIVE_VERIFICATION_TTL_MS = 60000"

definition new_verification_cache :: "int option \<Rightarrow> verification_cache" where
  "new_verification_cache mx = \<lparr>vc_cache = [], vc_maxSize = option_default mx 10000\<rparr>"

definition vc_lookup ::
  "int \<Rightarrow> string \<Rightarrow> verification_cache \<Rightarrow> verification_entry option \<times> verification_cache" where
  "vc_lookup now k c =
     (case assoc_get (vc_cache c) k of
        None \<Rightarrow> (None, c)
      | Some e \<Rightarrow>
          if (case ve_expiresAt e of None \<Rightarrow> False | Some t \<Rightarrow> t < now)
          then (None, c\<lparr>vc_cache := assoc_del k (vc_cache c)\<rparr>)
          else (Some e, c\<lparr>vc_cache := assoc_set k e (assoc_del k (vc_cache c))\<rparr>))"

definition vc_get :: "int \<Rightarrow> string \<Rightarrow> verification_cache \<Rightarrow> bool option \<times> verification_cache" where
  "vc_get now k c = (let (e, c') = vc_lookup now k c in (map_option ve_valid e, c'))"

definition vc_put :: "string \<Rightarrow> verification_entry \<Rightarrow> verification_cache \<Rightarrow> verification_cache" where
  "vc_put k e c =
     (let m = (if assoc_get (vc_cache c) k = None \<and> vc_maxSize c \<le> int (length (vc_cache c))
               then (case assoc_keys (vc_cache c) of
                       [] \<Rightarrow> vc_cache c | oldest # _ \<Rightarrow> assoc_del oldest (vc_cache c))
               else vc_cache c)
      in c\<lparr>vc_cache := assoc_set k e m\<rparr>)"

definition vc_set :: "int \<Rightarrow> string \<Rightarrow> bool \<Rightarrow> verification_cache \<Rightarrow> verification_cache" where
  "vc_set now k valid c =
     vc_put k \<lparr>ve_valid = valid,
               ve_expiresAt = (if valid then None else Some (now + NEGATIVE_VERIFICATION_TTL_MS))\<rparr> c"

text \<open>\<open>`${domain.chainId}:${domain.verifyingContract}:${hash}:${signature}`\<close>\<close>

definition verificationCacheKey :: "int \<Rightarrow> address \<Rightarrow> hex \<Rightarrow> hex \<Rightarrow> string" where
  "verificationCacheKey chainId contract h sig =
     digits_of_nat (nat chainId) @ '':'' @ contract @ '':'' @ h @ '':'' @ sig"

section \<open>Retry state\<close>

record retry_state =
  attempts :: nat
  nextRetryAt :: int

record retry_entry = retry_state +
  re_deadlineMs :: int

record retry_lru =
  retry_cache :: "(string, retry_entry) assoc"
  retry_maxSize :: int

definition new_retry_lru :: "int option \<Rightarrow> retry_lru" where
  "new_retry_lru mx = \<lparr>retry_cache = [], retry_maxSize = option_default mx 10000\<rparr>"

definition retry_lookup :: "int \<Rightarrow> string \<Rightarrow> retry_lru \<Rightarrow> retry_entry option \<times> retry_lru" where
  "retry_lookup now h c =
     (case assoc_get (retry_cache c) h of
        None \<Rightarrow> (None, c)
      | Some e \<Rightarrow>
          if re_deadlineMs e < now then (None, c\<lparr>retry_cache := assoc_del h (retry_cache c)\<rparr>)
          else (Some e, c\<lparr>retry_cache := assoc_set h e (assoc_del h (retry_cache c))\<rparr>))"

definition retry_get :: "int \<Rightarrow> string \<Rightarrow> retry_lru \<Rightarrow> retry_state option \<times> retry_lru" where
  "retry_get now h c =
     (let (e, c') = retry_lookup now h c
      in (map_option (\<lambda>e. \<lparr>attempts = attempts e, nextRetryAt = nextRetryAt e\<rparr>) e, c'))"

definition retry_put :: "string \<Rightarrow> retry_entry \<Rightarrow> retry_lru \<Rightarrow> retry_lru" where
  "retry_put h e c =
     (let m = assoc_del h (retry_cache c);
          m' = (if retry_maxSize c \<le> int (length m)
                then (case assoc_keys m of [] \<Rightarrow> m | oldest # _ \<Rightarrow> assoc_del oldest m) else m)
      in c\<lparr>retry_cache := assoc_set h e m'\<rparr>)"

definition retry_set :: "string \<Rightarrow> retry_state \<Rightarrow> int \<Rightarrow> retry_lru \<Rightarrow> retry_lru" where
  "retry_set h s deadlineMs c =
     retry_put h \<lparr>attempts = attempts s, nextRetryAt = nextRetryAt s, re_deadlineMs = deadlineMs\<rparr> c"

definition retry_delete :: "string \<Rightarrow> retry_lru \<Rightarrow> retry_lru" where
  "retry_delete h c = c\<lparr>retry_cache := assoc_del h (retry_cache c)\<rparr>"

definition retry_evictExpired :: "int \<Rightarrow> retry_lru \<Rightarrow> nat \<times> retry_lru" where
  "retry_evictExpired now c =
     (let (n, m) = foldl (\<lambda>(n, m) (h, e). if re_deadlineMs e < now then (n + 1, assoc_del h m) else (n, m))
                     (0, retry_cache c) (retry_cache c)
      in (n, c\<lparr>retry_cache := m\<rparr>))"

section \<open>All three keep the contract\<close>

lemma evict_first:
  "assoc_ok m \<Longrightarrow> (case assoc_keys m of [] \<Rightarrow> m | oldest # _ \<Rightarrow> assoc_del oldest m) = tl m"
  by (cases m) (auto simp: assoc_keys_def assoc_ok_def assoc_del_def image_iff intro!: filter_True)

lemma refresh: "assoc_set k v (assoc_del k m) = assoc_del k m @ [(k, v)]"
  by (rule assoc_set_fresh) (auto simp: assoc_del_def)

lemma put_after_del:
  assumes "assoc_ok m"
  shows "assoc_set k v (if mx \<le> int (length (assoc_del k m))
       then (case assoc_keys (assoc_del k m) of [] \<Rightarrow> assoc_del k m | oldest # _ \<Rightarrow> assoc_del oldest (assoc_del k m))
       else assoc_del k m)
     = drop_oldest mx (assoc_del k m) @ [(k, v)]"
proof -
  have "k \<notin> set (map fst (drop_oldest mx (assoc_del k m)))"
    using drop_oldest_fresh [of k "assoc_del k m" mx] by (simp add: keys_del)
  then have "assoc_set k v (drop_oldest mx (assoc_del k m)) = drop_oldest mx (assoc_del k m) @ [(k, v)]"
    by (rule assoc_set_fresh)
  then show ?thesis
    using evict_first [OF assoc_del_ok [OF assms]] by (simp only: drop_oldest_def)
qed

lemma del_no_evict:
  assumes "assoc_ok m" and "in_limit mx m" and "assoc_get m k = Some u"
  shows "drop_oldest mx (assoc_del k m) = assoc_del k m"
proof -
  have "length (assoc_del k m) = length m - 1" using assms by (simp add: length_assoc_del)
  moreover have "m \<noteq> []" using assms(3) by auto
  ultimately show ?thesis
    using assms(2) by (cases "assoc_del k m") (auto simp: drop_oldest_def in_limit_def)
qed

lemma del_absent: "assoc_get m k = None \<Longrightarrow> assoc_del k m = m"
  by (simp add: assoc_del_absent assoc_get_None_iff)

text \<open>The insertion the seen set and the retry state share, in the two cases of the contract.\<close>

lemma put_after_del_fresh:
  assumes "assoc_ok m" and "assoc_get m k = None"
  shows "(let d = assoc_del k m
          in assoc_set k v (if mx \<le> int (length d)
               then (case assoc_keys d of [] \<Rightarrow> d | oldest # _ \<Rightarrow> assoc_del oldest d) else d))
     = drop_oldest mx m @ [(k, v)]"
  using put_after_del [OF assms(1), of k v mx] unfolding Let_def del_absent [OF assms(2)] .

lemma put_after_del_present:
  assumes "assoc_ok m" and "in_limit mx m" and "assoc_get m k = Some u"
  shows "(let d = assoc_del k m
          in assoc_set k v (if mx \<le> int (length d)
               then (case assoc_keys d of [] \<Rightarrow> d | oldest # _ \<Rightarrow> assoc_del oldest d) else d))
     = assoc_del k m @ [(k, v)]"
  using put_after_del [OF assms(1), of k v mx] unfolding Let_def del_no_evict [OF assms] .

lemma seen_put_cache:
  "seen_cache (seen_put h e c) =
     (let d = assoc_del h (seen_cache c)
      in assoc_set h e (if seen_maxSize c \<le> int (length d)
           then (case assoc_keys d of [] \<Rightarrow> d | oldest # _ \<Rightarrow> assoc_del oldest d) else d))"
  by (simp add: seen_put_def Let_def)

lemma retry_put_cache:
  "retry_cache (retry_put h e c) =
     (let d = assoc_del h (retry_cache c)
      in assoc_set h e (if retry_maxSize c \<le> int (length d)
           then (case assoc_keys d of [] \<Rightarrow> d | oldest # _ \<Rightarrow> assoc_del oldest d) else d))"
  by (simp add: retry_put_def Let_def)

lemma vc_put_cache:
  "assoc_ok (vc_cache c) \<Longrightarrow> vc_cache (vc_put k e c) =
     (if assoc_get (vc_cache c) k = None then drop_oldest (vc_maxSize c) (vc_cache c) @ [(k, e)]
      else assoc_set k e (vc_cache c))"
proof -
  assume ok: "assoc_ok (vc_cache c)"
  have "assoc_set k e (drop_oldest (vc_maxSize c) (vc_cache c)) = drop_oldest (vc_maxSize c) (vc_cache c) @ [(k, e)]"
    if "assoc_get (vc_cache c) k = None"
    using that drop_oldest_fresh [of k "vc_cache c" "vc_maxSize c"]
    by (intro assoc_set_fresh) (simp add: assoc_get_None_iff)
  then show ?thesis
    using evict_first [OF ok] by (auto simp: vc_put_def Let_def drop_oldest_def split: if_splits)
qed

lemma puts_fields [simp]:
  "seen_maxSize (seen_put h e c) = seen_maxSize c"
  "retry_maxSize (retry_put h e' d) = retry_maxSize d"
  "vc_maxSize (vc_put k e'' f) = vc_maxSize f"
  by (simp_all add: seen_put_def retry_put_def vc_put_def Let_def)

interpretation seen: swept_cache seen_cache seen_maxSize "\<lambda>now e. now \<le> se_deadlineMs e"
  seen_lookup seen_put seen_evictExpired
proof (unfold_locales, goal_cases)
  case (9 c now)
  then show ?case by (simp add: seen_evictExpired_def sweep_own not_less cong: filter_cong)
next
  case (10 c now)
  then show ?case
    using sum_length_filter_compl [of "\<lambda>e. se_deadlineMs (snd e) < now" "seen_cache c"]
    by (simp add: seen_evictExpired_def sweep_own)
qed (auto simp: seen_lookup_def seen_evictExpired_def Let_def refresh case_prod_beta
    seen_put_cache [unfolded Let_def] put_after_del_fresh [unfolded Let_def]
    put_after_del_present [unfolded Let_def] split: option.splits)

interpretation retry: swept_cache retry_cache retry_maxSize "\<lambda>now e. now \<le> re_deadlineMs e"
  retry_lookup retry_put retry_evictExpired
proof (unfold_locales, goal_cases)
  case (9 c now)
  then show ?case by (simp add: retry_evictExpired_def sweep_own not_less cong: filter_cong)
next
  case (10 c now)
  then show ?case
    using sum_length_filter_compl [of "\<lambda>e. re_deadlineMs (snd e) < now" "retry_cache c"]
    by (simp add: retry_evictExpired_def sweep_own)
qed (auto simp: retry_lookup_def retry_evictExpired_def Let_def refresh case_prod_beta
    retry_put_cache [unfolded Let_def] put_after_del_fresh [unfolded Let_def]
    put_after_del_present [unfolded Let_def] split: option.splits)

interpretation verification: lru_cache vc_cache vc_maxSize
  "\<lambda>now e. case ve_expiresAt e of None \<Rightarrow> True | Some t \<Rightarrow> now \<le> t" vc_lookup vc_put
  by unfold_locales
     (auto simp: vc_lookup_def vc_put_cache refresh split: option.splits if_splits)

section \<open>Properties\<close>

datatype seen_op = SeenHas int string | SeenAdd int string int

fun seen_apply :: "seen_op \<Rightarrow> seen_lru \<Rightarrow> seen_lru" where
  "seen_apply (SeenHas now h) c = snd (seen_has now h c)"
| "seen_apply (SeenAdd now h dl) c = seen_add now h dl c"

fun seen_op_hash :: "seen_op \<Rightarrow> string" where
  "seen_op_hash (SeenHas now h) = h"
| "seen_op_hash (SeenAdd now h dl) = h"

fun seen_cache_op :: "seen_op \<Rightarrow> (string, seen_entry) cache_op" where
  "seen_cache_op (SeenHas now h) = Touch now h"
| "seen_cache_op (SeenAdd now h dl) = Put h \<lparr>insertedAt = now, se_deadlineMs = dl\<rparr>"

definition seen_ok :: "seen_lru \<Rightarrow> bool" where
  "seen_ok c \<longleftrightarrow> assoc_ok (seen_cache c) \<and> int (seen_size c) \<le> max 1 (seen_maxSize c)"

lemma seen_ok_cache: "seen.cache_ok c = seen_ok c"
  by (simp add: seen.cache_ok_def seen_ok_def in_limit_def seen_size_def)

lemma snd_seen_has: "snd (seen_has now h c) = snd (seen_lookup now h c)"
  by (simp add: seen_has_def case_prod_beta Let_def)

lemma seen_apply_op: "seen_apply op c = seen.apply_op (seen_cache_op op) c"
  by (cases op) (simp_all add: snd_seen_has seen_add_def)

lemma seen_apply_fold: "fold seen_apply ops c = fold seen.apply_op (map seen_cache_op ops) c"
  by (induction ops arbitrary: c) (simp_all add: seen_apply_op)

lemma behind_last: "k \<notin> fst ` set xs \<Longrightarrow> behind k (xs @ [(k, v)]) = {}"
  by (induction xs) (auto simp: behind_Cons)

lemma seen_put_recent:
  assumes "seen_ok c" shows "seen.recent h e {} (seen_put h e c)"
proof -
  have ok: "assoc_ok (seen_cache c)" using assms by (simp add: seen_ok_def)
  have "\<exists>xs. seen_cache (seen_put h e c) = xs @ [(h, e)] \<and> h \<notin> fst ` set xs"
    using put_after_del [OF ok, of h e "seen_maxSize c"] drop_oldest_fresh [of h "assoc_del h (seen_cache c)" "seen_maxSize c"]
    by (auto simp: seen_put_cache Let_def keys_del simp del: not_in_del)
  then show ?thesis
    using assms seen.cache_ok_op [of c "Put h e"]
    by (auto simp: seen.recent_def seen_ok_cache assoc_get_snoc behind_last)
qed

text \<open>
  What the solver retires stays retired for as long as promised: a hash added to the seen set is
  reported as seen until its deadline, whatever other hashes are looked up or added meanwhile, as
  long as there are fewer distinct ones than the capacity; and no sequence of operations takes the
  set beyond its capacity.
\<close>

theorem seen_entry_survives:
  assumes "seen_ok c" and "\<forall>op \<in> set ops. seen_op_hash op \<noteq> h"
    and "int (card (seen_op_hash ` set ops)) < seen_maxSize c" and "t \<le> dl"
  shows "fst (seen_has t h (fold seen_apply ops (seen_add now h dl c)))
    \<and> seen_ok (fold seen_apply ops (seen_add now h dl c))"
proof -
  let ?e = "\<lparr>insertedAt = now, se_deadlineMs = dl\<rparr>" and ?c = "seen_add now h dl c"
  have key: "seen.op_key (seen_cache_op op) = seen_op_hash op" for op by (cases op) simp_all
  have r: "seen.recent h ?e {} ?c" using seen_put_recent [OF assms(1)] by (simp add: seen_add_def)
  have noput: "seen_cache_op op \<noteq> Put h u \<and> seen_cache_op op \<noteq> Touch m h" if "op \<in> set ops" for op u m
    using that assms(2) key [of op] by auto
  have "int (card ({} \<union> seen.op_key ` set (map seen_cache_op ops) - {h})) < seen_maxSize ?c"
  proof -
    have "seen.op_key ` set (map seen_cache_op ops) = seen_op_hash ` set ops" by (simp add: image_image key)
    moreover have "card (seen_op_hash ` set ops - {h}) \<le> card (seen_op_hash ` set ops)"
      by (intro card_mono) auto
    ultimately show ?thesis using assms(3) by (simp add: seen_add_def)
  qed
  then have "assoc_get (seen_cache (fold seen.apply_op (map seen_cache_op ops) ?c)) h = Some ?e"
    using noput by (intro seen.survives [OF r]) auto
  then have "fst (seen_has t h (fold seen_apply ops ?c))"
    using assms(4) by (simp add: seen_apply_fold seen_has_def seen_lookup_def)
  moreover have "seen.cache_ok (fold seen.apply_op os d)" if "seen.cache_ok d" for os d
    using that by (induction os arbitrary: d) (simp_all add: seen.cache_ok_op)
  moreover have "seen.cache_ok ?c" using r by (simp add: seen.recent_def)
  ultimately show ?thesis by (simp add: seen_apply_fold seen_ok_cache)
qed

theorem seen_entry_survives_witness:
  "fst (seen_has 50 ''a'' (fold seen_apply [SeenAdd 1 ''b'' 9, SeenHas 20 ''b'', SeenAdd 21 ''b'' 99]
     (seen_add 0 ''a'' 100 (new_seen (Some 2)))))"
proof -
  have "seen_ok (new_seen (Some 2))"
    by (simp add: seen_ok_def new_seen_def seen_size_def option_default_def)
  moreover have "seen_maxSize (new_seen (Some 2)) = 2" by (simp add: new_seen_def option_default_def)
  ultimately show ?thesis
    using seen_entry_survives [of "new_seen (Some 2)"
      "[SeenAdd 1 ''b'' 9, SeenHas 20 ''b'', SeenAdd 21 ''b'' 99]" "''a''" 50 100 0]
    by simp
qed

lemma vc_put_get:
  "assoc_ok (vc_cache c) \<Longrightarrow> assoc_get (vc_cache (vc_put k e c)) k = Some e"
  "assoc_ok (vc_cache c) \<Longrightarrow> x \<noteq> k \<Longrightarrow>
     assoc_get (vc_cache (vc_put k e c)) x \<in> {None, assoc_get (vc_cache c) x}"
proof -
  assume ok: "assoc_ok (vc_cache c)"
  have fresh: "k \<notin> fst ` set (drop_oldest (vc_maxSize c) (vc_cache c))" if "assoc_get (vc_cache c) k = None"
    using that assoc_get_None_iff [of "vc_cache c" k] by (intro drop_oldest_fresh) simp
  show "assoc_get (vc_cache (vc_put k e c)) k = Some e"
    using fresh by (auto simp: vc_put_cache [OF ok] assoc_get_snoc assoc_get_set)
  assume "x \<noteq> k"
  have "assoc_get (drop_oldest (vc_maxSize c) (vc_cache c)) x \<in> {None, assoc_get (vc_cache c) x}"
    using ok by (cases "vc_cache c") (auto simp: drop_oldest_def assoc_get_def assoc_ok_def map_of_eq_None_iff)
  with \<open>x \<noteq> k\<close> fresh show "assoc_get (vc_cache (vc_put k e c)) x \<in> {None, assoc_get (vc_cache c) x}"
    by (auto simp: vc_put_cache [OF ok] assoc_get_snoc assoc_get_set)
qed

lemma vc_get_fst:
  "fst (vc_get t k c) =
     (case assoc_get (vc_cache c) k of
        None \<Rightarrow> None
      | Some e \<Rightarrow> if (case ve_expiresAt e of None \<Rightarrow> False | Some x \<Rightarrow> x < t) then None else Some (ve_valid e))"
  by (auto simp: vc_get_def vc_lookup_def case_prod_beta Let_def split: option.split)

lemma cache_key_inject:
  assumes "hex_string 64 h" and "hex_string 64 h'"
    and "verificationCacheKey chain contract h sig = verificationCacheKey chain contract h' sig'"
  shows "h = h' \<and> sig = sig'"
  using assms by (auto simp: verificationCacheKey_def hex_string_def append_eq_append_conv)

text \<open>
  A verification verdict is remembered exactly: a positive one for as long as its entry stays, a
  negative one for sixty seconds and not longer, so a corrected resubmission is checked again; and
  storing a verdict never changes what is known of another hash or signature in the same domain.
\<close>

theorem verdicts_remembered_exactly:
  assumes "assoc_ok (vc_cache c)" and "hex_string 64 h"
  shows "fst (vc_get t (verificationCacheKey chain contract h sig)
        (vc_set now (verificationCacheKey chain contract h sig) valid c))
      = (if valid \<or> t \<le> now + 60000 then Some valid else None)
    \<and> (\<forall>h' sig'. hex_string 64 h' \<and> (h', sig') \<noteq> (h, sig) \<longrightarrow>
        fst (vc_get t (verificationCacheKey chain contract h' sig')
          (vc_set now (verificationCacheKey chain contract h sig) valid c))
        \<in> {None, fst (vc_get t (verificationCacheKey chain contract h' sig') c)})"
proof (intro conjI allI impI)
  let ?k = "verificationCacheKey chain contract"
  let ?e = "\<lparr>ve_valid = valid, ve_expiresAt = (if valid then None else Some (now + NEGATIVE_VERIFICATION_TTL_MS))\<rparr>"
  show "fst (vc_get t (?k h sig) (vc_set now (?k h sig) valid c))
      = (if valid \<or> t \<le> now + 60000 then Some valid else None)"
    using vc_put_get(1) [OF assms(1), of "?k h sig" ?e]
    by (simp add: vc_get_fst vc_set_def NEGATIVE_VERIFICATION_TTL_MS_def)
  fix h' sig' assume a: "hex_string 64 h' \<and> (h', sig') \<noteq> (h, sig)"
  then have "?k h' sig' \<noteq> ?k h sig" using cache_key_inject assms(2) by blast
  from vc_put_get(2) [OF assms(1) this, of ?e]
  show "fst (vc_get t (?k h' sig') (vc_set now (?k h sig) valid c)) \<in> {None, fst (vc_get t (?k h' sig') c)}"
    by (auto simp: vc_get_fst vc_set_def)
qed

theorem verdicts_remembered_exactly_witness:
  "fst (vc_get 60001 (verificationCacheKey 1 zeroAddress (''0x'' @ replicate 64 (CHR ''0'')) ''0x'')
     (vc_set 0 (verificationCacheKey 1 zeroAddress (''0x'' @ replicate 64 (CHR ''0'')) ''0x'') False
       (new_verification_cache None))) = None"
proof -
  have "hex_string 64 (''0x'' @ replicate 64 (CHR ''0''))"
    by (simp add: hex_string_def is_hex_def is_hex_lower_def list_all_iff)
  then show ?thesis
    using verdicts_remembered_exactly [of "new_verification_cache None" "''0x'' @ replicate 64 (CHR ''0'')"
      60001 1 zeroAddress "''0x''" 0 False]
    by (simp add: new_verification_cache_def)
qed

end
