(* ===== verification/Solver_Loop.thy ===== *)
theory Solver_Loop
  imports Solver_Quote Solver_Caches Backoff
begin

text \<open>
  \<^verbatim>\<open>solver/src/solver.ts\<close>: the poll, evaluate and fill loop. The outside is a state \<open>'w\<close> that the calls
  thread through: the clock in milliseconds, the mempool behind \<open>fetch\<close>, the executor, the verifier and
  the pricing and balance readers are functions of it. What the solver tells its logger and metrics is
  kept as a list of events.
\<close>

section \<open>State\<close>

datatype solver_event =
    TruncatedBacklog pagination_reason
  | HashMismatch hex
  | InvalidSignature hex
  | ImplausibleProfit hex nat
  | NativeShortfall hex
  | Skipping hex skip_code
  | Filling hex nat
  | FillWon hex string
  | FillLost hex failure
  | RetriesExhausted hex
  | RetryScheduled hex nat
  | ReportedFilled hex
  | ReportFailed hex
  | DomainMisconfigured
  | TickFailed nat
  | Halted

record readiness =
  lastTickOk :: bool
  lastTickAt :: int
  rd_consecutiveFailures :: nat
  seenCount :: nat
  retryStateCount :: nat

record solver_state =
  st_seen :: seen_lru
  verificationCache :: verification_cache
  retryState :: retry_lru
  inFlight :: inflight
  implausibleTriggers :: nat
  unrecoverableFailures :: nat
  st_backoff :: backoff_state
  st_readiness :: readiness
  events :: "solver_event list"

record 'w solver_env =
  ev_clock :: "'w \<Rightarrow> int"
  ev_fetch :: "'w fetch"
  ev_fill :: "intent_record \<Rightarrow> 'w \<Rightarrow> (failure, string) result \<times> 'w"
  ev_verifier :: "intent \<Rightarrow> hex \<Rightarrow> domain \<Rightarrow> 'w \<Rightarrow> (failure, bool) result \<times> 'w"
  ev_deps :: "'w \<Rightarrow> quote_deps"
  ev_hashTypedData :: "domain \<Rightarrow> message \<Rightarrow> hex"
  ev_viem :: viem_address
  ev_client :: client
  ev_config :: solver_config

definition MAX_FILL_RETRIES :: nat where "MAX_FILL_RETRIES = 3"
definition MIN_SEEN_TTL_MS :: int where "MIN_SEEN_TTL_MS = 600000"
definition MAX_UNRECOVERABLE_FAILURES :: nat where "MAX_UNRECOVERABLE_FAILURES = 3"

definition new_solver :: "solver_config \<Rightarrow> solver_state" where
  "new_solver cfg =
     \<lparr>st_seen = new_seen (Some (option_default (seenCacheSize cfg) 50000)),
      verificationCache = new_verification_cache (Some (option_default (verificationCacheSize cfg) 10000)),
      retryState = new_retry_lru (Some (option_default (retryCacheSize cfg) 10000)),
      inFlight = new_inflight, implausibleTriggers = 0, unrecoverableFailures = 0,
      st_backoff = new_backoff \<lparr>bc_pollIntervalMs = pollIntervalMs cfg, bc_maxJitterMs = None,
                                bc_backoffMultiplier = None, bc_maxBackoffMs = None\<rparr>,
      st_readiness = \<lparr>lastTickOk = False, lastTickAt = 0, rd_consecutiveFailures = 0, seenCount = 0,
                      retryStateCount = 0\<rparr>,
      events = []\<rparr>"

definition emit :: "solver_event \<Rightarrow> solver_state \<Rightarrow> solver_state" where
  "emit e s = s\<lparr>events := events s @ [e]\<rparr>"

definition seenTtlMs :: "int \<Rightarrow> int \<Rightarrow> int" where
  "seenTtlMs now dl = max (dl * 1000) (now + MIN_SEEN_TTL_MS)"

definition retryBackoff :: "nat \<Rightarrow> int" where
  "retryBackoff attempt = 1000 * 2 ^ attempt"

definition unrecoverable_names :: "string list" where
  "unrecoverable_names = [''TypeError'', ''RangeError'', ''SyntaxError'', ''URIError'']"

fun isUnrecoverableError :: "failure \<Rightarrow> bool" where
  "isUnrecoverableError (Failure (ThrownError nm msg)) \<longleftrightarrow>
     nm \<in> set unrecoverable_names \<or> nm = ''PerihelionValidationError'' \<or> nm = ''ValidationError''"
| "isUnrecoverableError (Failure (ThrownSdk (PlainError nm))) \<longleftrightarrow> nm \<in> set unrecoverable_names"
| "isUnrecoverableError (Failure (ThrownSdk (PerihelionValidationError f))) \<longleftrightarrow> True"
| "isUnrecoverableError _ \<longleftrightarrow> False"

section \<open>One record\<close>

text \<open>\<open>this.seen.add(hash, deadlineMs); this.retryState.delete(hash)\<close>\<close>

definition retire :: "int \<Rightarrow> hex \<Rightarrow> int \<Rightarrow> solver_state \<Rightarrow> solver_state" where
  "retire now h dl s =
     s\<lparr>st_seen := seen_add now h dl (st_seen s), retryState := retry_delete h (retryState s)\<rparr>"

definition scheduleRetry :: "int \<Rightarrow> hex \<Rightarrow> int \<Rightarrow> solver_state \<Rightarrow> solver_state" where
  "scheduleRetry now h dl s =
     (let (prev, rl) = retry_get now h (retryState s);
          n = (case prev of None \<Rightarrow> 0 | Some st \<Rightarrow> attempts st) + 1;
          s' = s\<lparr>retryState := rl\<rparr>
      in if MAX_FILL_RETRIES < n then emit (RetriesExhausted h) (retire now h dl s')
         else emit (RetryScheduled h n)
                (s'\<lparr>retryState := retry_set h \<lparr>attempts = n, nextRetryAt = now + retryBackoff (n - 1)\<rparr> dl rl\<rparr>))"

definition reportFilled :: "'w solver_env \<Rightarrow> hex \<Rightarrow> solver_state \<Rightarrow> 'w \<Rightarrow> solver_state \<times> 'w" where
  "reportFilled env h s w =
     (case mempoolStatusToken (ev_config env) of
        None \<Rightarrow> (s, w)
      | Some token \<Rightarrow>
          if token = '''' then (s, w)
          else (case reportStatus (ev_client env) (ev_fetch env) h Filled token w of
                  (Inr _, w') \<Rightarrow> (emit (ReportedFilled h) s, w')
                | (Inl _, w') \<Rightarrow> (emit (ReportFailed h) s, w')))"

definition cached_verify ::
  "'w solver_env \<Rightarrow> intent_record \<Rightarrow> solver_state \<Rightarrow> 'w \<Rightarrow> (failure, bool) result \<times> solver_state \<times> 'w" where
  "cached_verify env r s w =
     (let cfg = ev_config env;
          key = verificationCacheKey (sc_sourceChainId cfg) (escrowAddress cfg) (hash r) (signature r);
          (hit, vc) = vc_get (ev_clock env w) key (verificationCache s);
          s' = s\<lparr>verificationCache := vc\<rparr>
      in case hit of
           Some valid \<Rightarrow> (Inr valid, s', w)
         | None \<Rightarrow>
             (case ev_verifier env (intent_of r) (signature r)
                     (perihelionDomain (sc_sourceChainId cfg) (escrowAddress cfg)) w of
                (Inl e, w') \<Rightarrow> (Inl e, s', w')
              | (Inr valid, w') \<Rightarrow>
                  (Inr valid, s'\<lparr>verificationCache := vc_set (ev_clock env w') key valid vc\<rparr>, w')))"

definition skip_intent ::
  "'w solver_env \<Rightarrow> hex \<Rightarrow> fill_decision \<Rightarrow> int \<Rightarrow> solver_state \<Rightarrow> 'w
     \<Rightarrow> (failure, bool) result \<times> solver_state \<times> 'w" where
  "skip_intent env h d dl s w =
     (let s1 = (if fd_implausible d
                then (let n = implausibleTriggers s + 1
                      in emit (ImplausibleProfit h n) (s\<lparr>implausibleTriggers := n\<rparr>))
                else if fd_nativeShortfall d then emit (NativeShortfall h) s else s)
      in if fd_implausible d
            \<and> option_default (maxImplausibleProfitTriggers (ev_config env)) 5 \<le> int (implausibleTriggers s1)
         then (Inl FatalError, s1, w)
         else
           let s2 = (case fd_code d of Some c \<Rightarrow> emit (Skipping h c) s1 | None \<Rightarrow> s1)
           in (Inr False, if fd_terminal d then retire (ev_clock env w) h dl s2 else s2, w))"

definition settle_reservation :: "(failure, string) result \<Rightarrow> intent \<Rightarrow> int \<Rightarrow> solver_state \<Rightarrow> solver_state" where
  "settle_reservation outcome i amount s =
     s\<lparr>inFlight :=
        (if outcome = Inl DefiniteFailureError then release (destAsset i) amount (inFlight s)
         else holdForRefresh (destAsset i) amount (inFlight s))\<rparr>"

definition attempt_fill ::
  "'w solver_env \<Rightarrow> intent_record \<Rightarrow> int \<Rightarrow> int \<Rightarrow> solver_state \<Rightarrow> 'w
     \<Rightarrow> (failure, bool) result \<times> solver_state \<times> 'w" where
  "attempt_fill env r amount dl s w =
     (let h = hash r; i = intent_of r;
          (retry, rl) = retry_get (ev_clock env w) h (retryState s);
          n = (case retry of None \<Rightarrow> 0 | Some st \<Rightarrow> attempts st) + 1;
          s1 = emit (Filling h n)
                 (s\<lparr>implausibleTriggers := 0, retryState := rl,
                    inFlight := reserve (destAsset i) amount (inFlight s)\<rparr>);
          (outcome, w1) = ev_fill env r w;
          now = ev_clock env w1
      in case outcome of
           Inr tx \<Rightarrow>
             (let (s2, w2) = reportFilled env h (retire now h dl (emit (FillWon h tx) s1)) w1
              in (Inr False, settle_reservation outcome i amount s2, w2))
         | Inl e \<Rightarrow>
             (case e of
                FatalError \<Rightarrow> (Inl FatalError, settle_reservation outcome i amount s1, w1)
              | LockOwnedByOtherError owner \<Rightarrow>
                  (Inr False, settle_reservation outcome i amount (retire now h dl (emit (FillLost h e) s1)), w1)
              | _ \<Rightarrow>
                  (Inr False,
                   settle_reservation outcome i amount (scheduleRetry now h dl (emit (FillLost h e) s1)), w1)))"

definition consider_record ::
  "'w solver_env \<Rightarrow> intent_record \<Rightarrow> solver_state \<Rightarrow> 'w \<Rightarrow> (failure, bool) result \<times> solver_state \<times> 'w" where
  "consider_record env r s w =
     (let i = intent_of r; h = hash r; cfg = ev_config env;
          dl = seenTtlMs (ev_clock env w) (deadline i);
          dmn = perihelionDomain (sc_sourceChainId cfg) (escrowAddress cfg)
      in case hashIntent (ev_hashTypedData env) i dmn of
           Inl e \<Rightarrow> (Inl (Failure (ThrownSdk e)), s, w)
         | Inr recomputed \<Rightarrow>
             if to_lower recomputed \<noteq> to_lower h
             then (Inr True, retire (ev_clock env w) h dl (emit (HashMismatch h) s), w)
             else
               (case cached_verify env r s w of
                  (Inl e, s1, w1) \<Rightarrow> (Inl e, s1, w1)
                | (Inr False, s1, w1) \<Rightarrow>
                    (Inr False, emit (InvalidSignature h) (s1\<lparr>retryState := retry_delete h (retryState s1)\<rparr>), w1)
                | (Inr True, s1, w1) \<Rightarrow>
                    (case evaluate (ev_viem env) i cfg (ev_deps env w1) (Some (inFlight s1))
                            (ev_clock env w1 div 1000) of
                       Inl e \<Rightarrow> (Inl e, s1, w1)
                     | Inr d \<Rightarrow>
                         if \<not> fd_fill d then skip_intent env h d dl s1 w1
                         else
                           (case bigint_of_string (minDestAmount i) of
                              Inl e \<Rightarrow> (Inl e, s1\<lparr>implausibleTriggers := 0\<rparr>, w1)
                            | Inr amount \<Rightarrow> attempt_fill env r amount dl s1 w1))))"

section \<open>One tick\<close>

text \<open>The walk over the pending records: how many were considered and how many mismatched.\<close>

fun consider_all ::
  "'w solver_env \<Rightarrow> int \<Rightarrow> intent_record list \<Rightarrow> nat \<Rightarrow> nat \<Rightarrow> solver_state \<Rightarrow> 'w
     \<Rightarrow> (failure, nat \<times> nat) result \<times> solver_state \<times> 'w" where
  "consider_all env now [] considered mismatches s w = (Inr (considered, mismatches), s, w)"
| "consider_all env now (r # rs) considered mismatches s w =
     (let h = hash r;
          (known, sn) = seen_has (ev_clock env w) h (st_seen s);
          s1 = s\<lparr>st_seen := sn\<rparr>
      in if known then consider_all env now rs considered mismatches s1 w
         else
           let (retry, rl) = retry_get (ev_clock env w) h (retryState s1);
               s2 = s1\<lparr>retryState := rl\<rparr>
           in if (case retry of None \<Rightarrow> False | Some st \<Rightarrow> now < nextRetryAt st)
              then consider_all env now rs considered mismatches s2 w
              else
                (case consider_record env r s2 w of
                   (Inl e, s3, w1) \<Rightarrow> (Inl e, s3, w1)
                 | (Inr wasMismatch, s3, w1) \<Rightarrow>
                     consider_all env now rs (considered + 1)
                       (if wasMismatch then mismatches + 1 else mismatches) s3 w1))"

definition DEFAULT_MAX_PAGES :: int where "DEFAULT_MAX_PAGES = 100"

definition evict_and_flush :: "int \<Rightarrow> solver_state \<Rightarrow> solver_state" where
  "evict_and_flush now s =
     s\<lparr>st_seen := snd (seen_evictExpired now (st_seen s)),
       retryState := snd (retry_evictExpired now (retryState s)),
       inFlight := snd (flushHeld (inFlight s))\<rparr>"

definition work_pending ::
  "'w solver_env \<Rightarrow> intent_record list \<Rightarrow> solver_state \<Rightarrow> 'w \<Rightarrow> (failure, unit) result \<times> solver_state \<times> 'w" where
  "work_pending env pending s w =
     (case consider_all env (ev_clock env w) pending 0 0 s w of
        (Inl e, s', w') \<Rightarrow> (Inl e, s', w')
      | (Inr (considered, mismatches), s', w') \<Rightarrow>
          (Inr (), if 0 < considered \<and> mismatches = considered then emit DomainMisconfigured s' else s', w'))"

definition tick ::
  "'w solver_env \<Rightarrow> solver_state \<Rightarrow> 'w \<Rightarrow> (failure, unit) result \<times> solver_state \<times> 'w" where
  "tick env s w =
     (let s1 = evict_and_flush (ev_clock env w) s;
          (listed, w1) = listPending (va_isAddress (ev_viem env)) (ev_client env) (ev_fetch env) Pending
                           DEFAULT_MAX_PAGES DEFAULT_CLIENT_LIST_LIMIT w
      in case listed of
           Inr pending \<Rightarrow> work_pending env pending s1 w1
         | Inl (PerihelionPaginationError reason recs c p) \<Rightarrow>
             work_pending env recs (emit (TruncatedBacklog reason) s1) w1
         | Inl e \<Rightarrow> (Inl (Failure (ThrownSdk e)), s1, w1))"

section \<open>The loop\<close>

text \<open>What follows a tick: the failure handling of \<open>start\<close>, which rethrows some failures.\<close>

definition note_failure :: "solver_state \<Rightarrow> solver_state" where
  "note_failure s =
     s\<lparr>st_readiness := (st_readiness s)
        \<lparr>lastTickOk := False,
         rd_consecutiveFailures := consecutiveFailures (st_backoff s) + 1,
         seenCount := seen_size (st_seen s),
         retryStateCount := length (retry_cache (retryState s))\<rparr>\<rparr>"

definition after_tick :: "(failure, unit) result \<Rightarrow> solver_state \<Rightarrow> (failure, unit) result \<times> solver_state" where
  "after_tick outcome s =
     (case outcome of
        Inr _ \<Rightarrow> (Inr (), s\<lparr>st_backoff := recordSuccess (st_backoff s), unrecoverableFailures := 0\<rparr>)
      | Inl e \<Rightarrow>
          let s1 = note_failure s
          in if e = FatalError then (Inl FatalError, emit Halted s1)
             else
               let n = (if isUnrecoverableError e then unrecoverableFailures s1 + 1 else 0);
                   s2 = s1\<lparr>unrecoverableFailures := n\<rparr>
               in if isUnrecoverableError e \<and> MAX_UNRECOVERABLE_FAILURES \<le> n
                  then (Inl FatalError, emit Halted s2)
                  else let b = recordFailure (st_backoff s2)
                       in (Inr (), emit (TickFailed (consecutiveFailures b)) (s2\<lparr>st_backoff := b\<rparr>)))"

text \<open>
  The loop of \<open>start\<close>, with fuel: \<open>running\<close> tells whether \<open>stop\<close> has not been called in a world, \<open>sleep\<close>
  waits the given delay, \<open>rng\<close> is \<open>Math.random\<close>. \<open>None\<close> is fuel exhausted, which is the loop still running.
\<close>

fun solver_run ::
  "nat \<Rightarrow> 'w solver_env \<Rightarrow> ('w \<Rightarrow> bool) \<Rightarrow> ('w \<Rightarrow> rat) \<Rightarrow> (rat \<Rightarrow> 'w \<Rightarrow> 'w) \<Rightarrow> solver_state \<Rightarrow> 'w
     \<Rightarrow> (failure, unit) result option \<times> solver_state \<times> 'w" where
  "solver_run 0 env running rng sleep s w = (None, s, w)"
| "solver_run (Suc n) env running rng sleep s w =
     (if \<not> running w then (Some (Inr ()), s, w)
      else
        let (outcome, s1, w1) = tick env s w
        in case after_tick outcome s1 of
             (Inl e, s2) \<Rightarrow> (Some (Inl e), s2, w1)
           | (Inr _, s2) \<Rightarrow>
               solver_run n env running rng sleep s2
                 (if running w1 then sleep (nextDelay (st_backoff s2) (rng w1)) w1 else w1))"

text \<open>\<open>/readyz\<close> of \<^verbatim>\<open>solver/src/cli.ts\<close>: the status code, from the readiness snapshot.\<close>

definition solver_readyz :: "int \<Rightarrow> int \<Rightarrow> int \<Rightarrow> readiness \<Rightarrow> int" where
  "solver_readyz stalenessThresholdMs maxConsecutive now rd =
     (if \<not> lastTickOk rd \<or> lastTickAt rd = 0 then 503
      else if stalenessThresholdMs < now - lastTickAt rd then 503
      else if maxConsecutive < int (rd_consecutiveFailures rd) then 503
      else 200)"

section \<open>Facts about the code\<close>

lemma emit_simps [simp]:
  "st_seen (emit e s) = st_seen s" "verificationCache (emit e s) = verificationCache s"
  "retryState (emit e s) = retryState s" "inFlight (emit e s) = inFlight s"
  "st_readiness (emit e s) = st_readiness s" "events (emit e s) = events s @ [e]"
  "st_backoff (emit e s) = st_backoff s" "implausibleTriggers (emit e s) = implausibleTriggers s"
  by (simp_all add: emit_def)

lemma retire_simps [simp]:
  "verificationCache (retire now h dl s) = verificationCache s" "inFlight (retire now h dl s) = inFlight s"
  "st_readiness (retire now h dl s) = st_readiness s" "events (retire now h dl s) = events s"
  by (simp_all add: retire_def)

lemma scheduleRetry_simps [simp]:
  "verificationCache (scheduleRetry now h dl s) = verificationCache s"
  "inFlight (scheduleRetry now h dl s) = inFlight s"
  "st_readiness (scheduleRetry now h dl s) = st_readiness s"
  by (simp_all add: scheduleRetry_def Let_def split: prod.split)

lemma reportFilled_simps [simp]:
  "verificationCache (fst (reportFilled env h s w)) = verificationCache s"
  "inFlight (fst (reportFilled env h s w)) = inFlight s"
  "st_readiness (fst (reportFilled env h s w)) = st_readiness s"
  by (auto simp: reportFilled_def split: option.split prod.split sum.split)

lemma settle_reservation_simps [simp]:
  "verificationCache (settle_reservation out i n s) = verificationCache s"
  "st_readiness (settle_reservation out i n s) = st_readiness s"
  by (simp_all add: settle_reservation_def)

subsection \<open>What a cached verdict vouches for\<close>

definition vouches :: "'w solver_env \<Rightarrow> hex \<Rightarrow> hex \<Rightarrow> bool" where
  "vouches env h sig \<longleftrightarrow>
     (let dmn = perihelionDomain (sc_sourceChainId (ev_config env)) (escrowAddress (ev_config env))
      in \<exists>j d w w'. hashIntent (ev_hashTypedData env) j dmn = Inr d \<and> to_lower d = to_lower h
           \<and> ev_verifier env j sig dmn w = (Inr True, w'))"

definition cache_sound :: "'w solver_env \<Rightarrow> verification_cache \<Rightarrow> bool" where
  "cache_sound env c \<longleftrightarrow>
     (\<forall>(k, e) \<in> set (vc_cache c). ve_valid e \<longrightarrow>
        (\<exists>h sig. k = verificationCacheKey (sc_sourceChainId (ev_config env)) (escrowAddress (ev_config env)) h sig
           \<and> length h = 66 \<and> vouches env h sig))"

lemma set_assoc_set: "set (assoc_set k v m) \<subseteq> insert (k, v) (set m)"
  by (induction k v m rule: assoc_set.induct) auto

lemma set_assoc_del: "set (assoc_del k m) \<subseteq> set m"
  by (auto simp: assoc_del_def)

lemma vc_get_entries: "set (vc_cache (snd (vc_get t k c))) \<subseteq> set (vc_cache c)"
proof (cases "assoc_get (vc_cache c) k")
  case None
  then show ?thesis by (simp add: vc_get_def vc_lookup_def)
next
  case (Some e)
  have "set (assoc_set k e (assoc_del k (vc_cache c))) \<subseteq> set (vc_cache c)"
    using set_assoc_set [of k e "assoc_del k (vc_cache c)"] set_assoc_del [of k "vc_cache c"]
      assoc_get_SomeD [OF Some] by blast
  then show ?thesis
    using Some set_assoc_del [of k "vc_cache c"] by (simp add: vc_get_def vc_lookup_def Let_def)
qed

lemma vc_get_hit: "fst (vc_get t k c) = Some v \<Longrightarrow> \<exists>e. (k, e) \<in> set (vc_cache c) \<and> ve_valid e = v"
  using assoc_get_SomeD [of "vc_cache c" k] by (fastforce simp: vc_get_fst split: option.splits if_splits)

lemma vc_set_entries:
  "set (vc_cache (vc_set t k v c)) \<subseteq>
     insert (k, \<lparr>ve_valid = v, ve_expiresAt = (if v then None else Some (t + NEGATIVE_VERIFICATION_TTL_MS))\<rparr>)
       (set (vc_cache c))"
proof -
  let ?e = "\<lparr>ve_valid = v, ve_expiresAt = (if v then None else Some (t + NEGATIVE_VERIFICATION_TTL_MS))\<rparr>"
  let ?m = "if assoc_get (vc_cache c) k = None \<and> vc_maxSize c \<le> int (length (vc_cache c))
            then (case assoc_keys (vc_cache c) of [] \<Rightarrow> vc_cache c | oldest # _ \<Rightarrow> assoc_del oldest (vc_cache c))
            else vc_cache c"
  have "set ?m \<subseteq> set (vc_cache c)"
    by (cases "assoc_keys (vc_cache c)") (simp_all add: set_assoc_del)
  then have "set (assoc_set k ?e ?m) \<subseteq> insert (k, ?e) (set (vc_cache c))"
    using set_assoc_set [of k ?e ?m] by blast
  moreover have "vc_cache (vc_set t k v c) = assoc_set k ?e ?m"
    by (simp add: vc_set_def vc_put_def Let_def)
  ultimately show ?thesis by simp
qed

lemma cache_sound_subset: "cache_sound env c \<Longrightarrow> set (vc_cache c') \<subseteq> set (vc_cache c) \<Longrightarrow> cache_sound env c'"
  unfolding cache_sound_def by blast

lemma cache_key_split:
  "length h = 66 \<Longrightarrow> length h' = 66 \<Longrightarrow>
     verificationCacheKey c a h sig = verificationCacheKey c a h' sig' \<Longrightarrow> h = h' \<and> sig = sig'"
  by (auto simp: verificationCacheKey_def append_eq_append_conv)

lemma cache_sound_set:
  assumes "cache_sound env c" and "length h = 66" and "v \<Longrightarrow> vouches env h sig"
  shows "cache_sound env
    (vc_set t (verificationCacheKey (sc_sourceChainId (ev_config env)) (escrowAddress (ev_config env)) h sig) v c)"
    (is "cache_sound env (vc_set t ?key v c)")
  unfolding cache_sound_def
proof (rule ballI, clarify)
  fix k e assume "(k, e) \<in> set (vc_cache (vc_set t ?key v c))" and ok: "ve_valid e"
  then consider "k = ?key" "v" | "(k, e) \<in> set (vc_cache c)"
    using vc_set_entries [of t ?key v c] by fastforce
  then show "\<exists>h sig. k = verificationCacheKey (sc_sourceChainId (ev_config env)) (escrowAddress (ev_config env)) h sig
      \<and> length h = 66 \<and> vouches env h sig"
  proof cases
    case 1
    then show ?thesis using assms(2,3) by blast
  next
    case 2
    then show ?thesis using assms(1) ok unfolding cache_sound_def by blast
  qed
qed

lemma cached_verify_sound:
  assumes "cache_sound env (verificationCache s)" and "length (hash r) = 66"
    and "hashIntent (ev_hashTypedData env) (intent_of r)
           (perihelionDomain (sc_sourceChainId (ev_config env)) (escrowAddress (ev_config env))) = Inr d"
    and "to_lower d = to_lower (hash r)"
    and "cached_verify env r s w = (res, s', w')"
  shows "cache_sound env (verificationCache s')" and "res = Inr True \<Longrightarrow> vouches env (hash r) (signature r)"
    and "inFlight s' = inFlight s" and "st_readiness s' = st_readiness s" and "events s' = events s"
    and "st_seen s' = st_seen s" and "retryState s' = retryState s"
proof -
  let ?cfg = "ev_config env"
  let ?key = "verificationCacheKey (sc_sourceChainId ?cfg) (escrowAddress ?cfg) (hash r) (signature r)"
  obtain hit vc where g: "vc_get (ev_clock env w) ?key (verificationCache s) = (hit, vc)" by fastforce
  have vc: "cache_sound env vc"
    using cache_sound_subset [OF assms(1), of vc] vc_get_entries [of "ev_clock env w" ?key "verificationCache s"]
    by (simp add: g)
  have fresh: "vouches env (hash r) (signature r)" if "ev_verifier env (intent_of r) (signature r)
      (perihelionDomain (sc_sourceChainId ?cfg) (escrowAddress ?cfg)) w = (Inr True, w1)" for w1
    using that assms(3,4) unfolding vouches_def Let_def by blast
  have hit: "vouches env (hash r) (signature r)" if hitT: "hit = Some True"
  proof -
    obtain e where "(?key, e) \<in> set (vc_cache (verificationCache s))" "ve_valid e"
      using vc_get_hit [of "ev_clock env w" ?key "verificationCache s" True] hitT unfolding g fst_conv by blast
    with assms(1) obtain h sig where "?key = verificationCacheKey (sc_sourceChainId ?cfg) (escrowAddress ?cfg) h sig"
      "length h = 66" "vouches env h sig" unfolding cache_sound_def by blast
    with cache_key_split [OF assms(2)] show ?thesis by metis
  qed
  have set_sound: "cache_sound env (vc_set t ?key v vc)" if "v \<Longrightarrow> vouches env (hash r) (signature r)" for t v
    using cache_sound_set [OF vc assms(2) that] .
  have cv: "cached_verify env r s w =
     (case hit of Some valid \<Rightarrow> (Inr valid, s\<lparr>verificationCache := vc\<rparr>, w)
      | None \<Rightarrow> (case ev_verifier env (intent_of r) (signature r)
               (perihelionDomain (sc_sourceChainId ?cfg) (escrowAddress ?cfg)) w of
            (Inl e, w') \<Rightarrow> (Inl e, s\<lparr>verificationCache := vc\<rparr>, w')
          | (Inr valid, w') \<Rightarrow> (Inr valid, s\<lparr>verificationCache := vc, verificationCache := vc_set (ev_clock env w') ?key valid vc\<rparr>, w')))"
    unfolding cached_verify_def Let_def g prod.case by (rule refl)
  have "cache_sound env (verificationCache s') \<and> (res = Inr True \<longrightarrow> vouches env (hash r) (signature r))
    \<and> (\<exists>c. s' = s\<lparr>verificationCache := c\<rparr>)"
  proof (cases hit)
    case (Some v)
    then show ?thesis using assms(5) vc hit unfolding cv by auto
  next
    case None
    obtain out w1 where v: "ev_verifier env (intent_of r) (signature r)
               (perihelionDomain (sc_sourceChainId ?cfg) (escrowAddress ?cfg)) w = (out, w1)" by fastforce
    show ?thesis
    proof (cases out)
      case (Inl e)
      then show ?thesis using assms(5) vc None unfolding cv v by auto
    next
      case (Inr valid)
      have "res = Inr valid" "s' = s\<lparr>verificationCache := vc_set (ev_clock env w1) ?key valid vc\<rparr>"
        using assms(5) None Inr unfolding cv v by auto
      then show ?thesis
        using v Inr fresh [of w1] set_sound [of valid "ev_clock env w1"] by auto
    qed
  qed
  then show "cache_sound env (verificationCache s')" "res = Inr True \<Longrightarrow> vouches env (hash r) (signature r)"
    "inFlight s' = inFlight s" "st_readiness s' = st_readiness s" "events s' = events s"
    "st_seen s' = st_seen s" "retryState s' = retryState s"
    by auto
qed

subsection \<open>What a tick preserves\<close>

definition tracker_idle :: "inflight \<Rightarrow> bool" where
  "tracker_idle t \<longleftrightarrow> (\<forall>a. activeReservedFor t a = 0)"

definition solver_inv :: "'w solver_env \<Rightarrow> solver_state \<Rightarrow> bool" where
  "solver_inv env s \<longleftrightarrow>
     cache_sound env (verificationCache s) \<and> tracker_idle (inFlight s) \<and> \<not> lastTickOk (st_readiness s)"

definition digests :: "'w solver_env \<Rightarrow> bool" where
  "digests env \<longleftrightarrow> (\<forall>d m. length (ev_hashTypedData env d m) = 66)"

text \<open>The records the executor may be asked to fill.\<close>

definition fillable :: "'w solver_env \<Rightarrow> intent_record \<Rightarrow> bool" where
  "fillable env r \<longleftrightarrow>
     (let cfg = ev_config env; dmn = perihelionDomain (sc_sourceChainId cfg) (escrowAddress cfg)
      in (\<exists>d. hashIntent (ev_hashTypedData env) (intent_of r) dmn = Inr d \<and> to_lower d = to_lower (hash r))
         \<and> vouches env (hash r) (signature r)
         \<and> (\<exists>w t d. evaluate (ev_viem env) (intent_of r) cfg (ev_deps env w) (Some t) (ev_clock env w div 1000) = Inr d
               \<and> fd_fill d \<and> tracker_idle t))"

lemma idle_release: "tracker_idle t \<Longrightarrow> tracker_idle (release a n (reserve a n t))"
  by (auto simp: tracker_idle_def release_def reserve_def activeReservedFor_def Let_def amount_of_set amount_of_del)

lemma idle_hold: "tracker_idle t \<Longrightarrow> tracker_idle (holdForRefresh a n (reserve a n t))"
  using idle_release [of t a n] by (simp add: tracker_idle_def holdForRefresh_def Let_def activeReservedFor_def)

lemma idle_settle:
  "tracker_idle t \<Longrightarrow> inFlight s = reserve (destAsset i) n t \<Longrightarrow> tracker_idle (inFlight (settle_reservation out i n s))"
  by (simp add: settle_reservation_def idle_release idle_hold)

lemma attempt_fill_inv:
  assumes "solver_inv env s" and "attempt_fill env r n dl s w = (res, s', w')"
  shows "solver_inv env s'"
proof -
  let ?i = "intent_of r"
  obtain retry rl where g: "retry_get (ev_clock env w) (hash r) (retryState s) = (retry, rl)" by fastforce
  obtain out w1 where f: "ev_fill env r w = (out, w1)" by fastforce
  note d = assms(2) [unfolded attempt_fill_def Let_def g f prod.case]
  have "\<exists>s0. s' = settle_reservation out ?i n s0 \<and> inFlight s0 = reserve (destAsset ?i) n (inFlight s)
      \<and> verificationCache s0 = verificationCache s \<and> st_readiness s0 = st_readiness s"
  proof (cases out)
    case (Inl e)
    with d show ?thesis by (cases e) auto
  next
    case (Inr tx)
    with d show ?thesis by (auto simp: case_prod_beta)
  qed
  then show ?thesis using assms(1) idle_settle by (auto simp: solver_inv_def)
qed

lemma env_fields:
  "ev_clock (env\<lparr>ev_fill := f\<rparr>) = ev_clock env" "ev_fetch (env\<lparr>ev_fill := f\<rparr>) = ev_fetch env"
  "ev_verifier (env\<lparr>ev_fill := f\<rparr>) = ev_verifier env" "ev_deps (env\<lparr>ev_fill := f\<rparr>) = ev_deps env"
  "ev_hashTypedData (env\<lparr>ev_fill := f\<rparr>) = ev_hashTypedData env" "ev_viem (env\<lparr>ev_fill := f\<rparr>) = ev_viem env"
  "ev_client (env\<lparr>ev_fill := f\<rparr>) = ev_client env" "ev_config (env\<lparr>ev_fill := f\<rparr>) = ev_config env"
  "ev_fill (env\<lparr>ev_fill := f\<rparr>) = f"
  by simp_all

lemma reportFilled_env: "reportFilled (env\<lparr>ev_fill := f\<rparr>) h s w = reportFilled env h s w"
  unfolding reportFilled_def env_fields by (rule refl)

lemma attempt_fill_env:
  assumes "f r = ev_fill env r"
  shows "attempt_fill (env\<lparr>ev_fill := f\<rparr>) r n dl s w = attempt_fill env r n dl s w"
  unfolding attempt_fill_def env_fields reportFilled_env assms by (rule refl)

lemma skip_intent_inv:
  "solver_inv env s \<Longrightarrow> skip_intent env h d dl s w = (res, s', w') \<Longrightarrow> solver_inv env s'"
  by (auto simp: skip_intent_def Let_def solver_inv_def split: if_splits option.splits)

lemma cached_verify_env: "cached_verify (env\<lparr>ev_fill := f\<rparr>) r s w = cached_verify env r s w"
  unfolding cached_verify_def env_fields by (rule refl)

lemma skip_intent_env: "skip_intent (env\<lparr>ev_fill := f\<rparr>) h d dl s w = skip_intent env h d dl s w"
  unfolding skip_intent_def env_fields by (rule refl)

lemma hashIntent_length: "digests env \<Longrightarrow> hashIntent (ev_hashTypedData env) i dmn = Inr d \<Longrightarrow> length d = 66"
  by (auto simp: hashIntent_def digests_def bind_result_Inr_iff)

lemma consider_record_inv:
  assumes "digests env" and "solver_inv env s" and "consider_record env r s w = (res, s', w')"
  shows "solver_inv env s'"
    and "(fillable env r \<Longrightarrow> f r = ev_fill env r) \<Longrightarrow>
      consider_record (env\<lparr>ev_fill := f\<rparr>) r s w = (res, s', w')"
proof -
  let ?i = "intent_of r" let ?cfg = "ev_config env"
  let ?dmn = "perihelionDomain (sc_sourceChainId ?cfg) (escrowAddress ?cfg)"
  have "solver_inv env s' \<and> ((fillable env r \<longrightarrow> f r = ev_fill env r) \<longrightarrow>
      consider_record (env\<lparr>ev_fill := f\<rparr>) r s w = (res, s', w'))"
  proof (cases "hashIntent (ev_hashTypedData env) ?i ?dmn")
    case (Inl e)
    then show ?thesis using assms(2,3) by (simp add: consider_record_def Let_def)
  next
    case (Inr d)
    show ?thesis
    proof (cases "to_lower d = to_lower (hash r)")
      case False
      then show ?thesis using assms(2,3) Inr by (auto simp: consider_record_def Let_def solver_inv_def)
    next
      case True
      then have "length (hash r) = 66" using hashIntent_length [OF assms(1) Inr] length_to_lower by metis
      moreover obtain v s1 w1 where v: "cached_verify env r s w = (v, s1, w1)" by (metis prod_cases3)
      moreover have "cache_sound env (verificationCache s)" using assms(2) by (simp add: solver_inv_def)
      ultimately have cv: "cache_sound env (verificationCache s1)" "v = Inr True \<Longrightarrow> vouches env (hash r) (signature r)"
        "inFlight s1 = inFlight s" "st_readiness s1 = st_readiness s"
        using cached_verify_sound [OF _ _ Inr True v] by blast+
      then have inv1: "solver_inv env s1" using assms(2) by (simp add: solver_inv_def)
      note c = assms(3) [unfolded consider_record_def Let_def Inr sum.case v prod.case]
      show ?thesis
      proof (cases "v = Inr True")
        case False
        then show ?thesis using c True inv1 Inr v
          by (auto simp: consider_record_def Let_def solver_inv_def cached_verify_env split: sum.splits bool.splits)
      next
        case vt: True
        show ?thesis
        proof (cases "evaluate (ev_viem env) ?i ?cfg (ev_deps env w1) (Some (inFlight s1)) (ev_clock env w1 div 1000)")
          case (Inl e)
          then show ?thesis using c True inv1 vt \<open>hashIntent _ _ _ = Inr d\<close> v
            by (auto simp: consider_record_def Let_def cached_verify_env)
        next
          case ev: (Inr dec)
          show ?thesis
          proof (cases "fd_fill dec")
            case False
            then show ?thesis
              using c True vt ev skip_intent_inv [OF inv1] \<open>hashIntent _ _ _ = Inr d\<close> v
              by (auto simp: consider_record_def Let_def cached_verify_env skip_intent_env)
          next
            case fill: True
            have "tracker_idle (inFlight s1)" using inv1 by (simp add: solver_inv_def)
            then have ok: "fillable env r"
              using \<open>hashIntent _ _ _ = Inr d\<close> True cv(2) vt ev fill unfolding fillable_def Let_def by blast
            have "solver_inv env (s1\<lparr>implausibleTriggers := 0\<rparr>)" using inv1 by (simp add: solver_inv_def)
            then show ?thesis
              using c True vt ev fill ok attempt_fill_inv [OF inv1] attempt_fill_env [of f r env]
                \<open>hashIntent _ _ _ = Inr d\<close> v
              by (cases "bigint_of_string (minDestAmount ?i)")
                 (auto simp: consider_record_def Let_def cached_verify_env)
          qed
        qed
      qed
    qed
  qed
  then show "solver_inv env s'"
    and "(fillable env r \<Longrightarrow> f r = ev_fill env r) \<Longrightarrow> consider_record (env\<lparr>ev_fill := f\<rparr>) r s w = (res, s', w')"
    by blast+
qed

lemma solver_inv_fields:
  "solver_inv env (s\<lparr>st_seen := a\<rparr>) = solver_inv env s" "solver_inv env (s\<lparr>retryState := b\<rparr>) = solver_inv env s"
  "solver_inv env (emit e s) = solver_inv env s" "solver_inv env (s\<lparr>st_backoff := c\<rparr>) = solver_inv env s"
  "solver_inv env (s\<lparr>unrecoverableFailures := n\<rparr>) = solver_inv env s"
  by (simp_all add: solver_inv_def)

lemma solver_inv_note: "solver_inv env s \<Longrightarrow> solver_inv env (note_failure s)"
  by (simp add: solver_inv_def note_failure_def)

lemma consider_all_inv:
  assumes "digests env" and "\<And>r. fillable env r \<Longrightarrow> f r = ev_fill env r"
  shows "solver_inv env s \<Longrightarrow>
    (case consider_all env now rs c m s w of (res, s', w') \<Rightarrow> solver_inv env s')
    \<and> consider_all (env\<lparr>ev_fill := f\<rparr>) now rs c m s w = consider_all env now rs c m s w"
proof (induction rs arbitrary: c m s w)
  case (Cons r rs)
  obtain known sn where h: "seen_has (ev_clock env w) (hash r) (st_seen s) = (known, sn)" by fastforce
  obtain retry rl where g: "retry_get (ev_clock env w) (hash r) (retryState s) = (retry, rl)" by fastforce
  let ?s2 = "s\<lparr>st_seen := sn, retryState := rl\<rparr>"
  obtain v s3 w3 where v: "consider_record env r ?s2 w = (v, s3, w3)" by (metis prod_cases3)
  have s2: "solver_inv env ?s2" using Cons.prems by (simp add: solver_inv_fields)
  have inv: "solver_inv env s3" "consider_record (env\<lparr>ev_fill := f\<rparr>) r ?s2 w = (v, s3, w3)"
    using consider_record_inv(1) [OF assms(1) s2 v] consider_record_inv(2) [OF assms(1) s2 v, of f] assms(2)
    by blast+
  have "solver_inv env (s\<lparr>st_seen := sn\<rparr>)" using Cons.prems by (simp add: solver_inv_fields)
  then show ?case
    using Cons.IH inv s2 by (cases v) (simp_all add: h g v env_fields Let_def)
qed simp

lemma work_pending_inv:
  assumes "digests env" and "solver_inv env s" and "\<And>r. fillable env r \<Longrightarrow> f r = ev_fill env r"
  shows "(case work_pending env rs s w of (res, s', w') \<Rightarrow> solver_inv env s')
    \<and> work_pending (env\<lparr>ev_fill := f\<rparr>) rs s w = work_pending env rs s w"
  using consider_all_inv [OF assms(1,3,2), of "ev_clock env w" rs 0 0 w]
  by (auto simp: work_pending_def env_fields solver_inv_fields split: sum.splits prod.splits)

lemma evict_and_flush_inv: "solver_inv env s \<Longrightarrow> solver_inv env (evict_and_flush now s)"
  by (simp add: solver_inv_def evict_and_flush_def tracker_idle_def activeReservedFor_def flushHeld_def)

lemma tick_inv:
  assumes "digests env" and "solver_inv env s" and "\<And>r. fillable env r \<Longrightarrow> f r = ev_fill env r"
  shows "(case tick env s w of (res, s', w') \<Rightarrow> solver_inv env s')
    \<and> tick (env\<lparr>ev_fill := f\<rparr>) s w = tick env s w"
proof -
  let ?s1 = "evict_and_flush (ev_clock env w) s"
  obtain l w1 where l: "listPending (va_isAddress (ev_viem env)) (ev_client env) (ev_fetch env) Pending
      DEFAULT_MAX_PAGES DEFAULT_CLIENT_LIST_LIMIT w = (l, w1)" by fastforce
  have i: "solver_inv env ?s1" "\<And>e. solver_inv env (emit e ?s1)"
    using evict_and_flush_inv [OF assms(2)] by (simp_all add: solver_inv_fields)
  show ?thesis
  proof (cases l)
    case (Inl e)
    then show ?thesis
      using work_pending_inv [OF assms(1) i(2) assms(3)] i(1)
      unfolding tick_def env_fields l prod.case Let_def by (cases e) simp_all
  next
    case (Inr rs)
    then show ?thesis
      using work_pending_inv [OF assms(1) i(1) assms(3)]
      unfolding tick_def env_fields l prod.case Let_def by simp
  qed
qed

lemma after_tick_inv: "solver_inv env s \<Longrightarrow> after_tick out s = (res, s') \<Longrightarrow> solver_inv env s'"
  using solver_inv_note [of env s]
  by (auto simp: after_tick_def Let_def solver_inv_fields split: sum.splits if_splits)

lemma solver_run_inv:
  assumes "digests env" and "\<And>r. fillable env r \<Longrightarrow> f r = ev_fill env r"
  shows "solver_inv env s \<Longrightarrow>
    (case solver_run n env running rng sleep s w of (res, s', w') \<Rightarrow> solver_inv env s')
    \<and> solver_run n (env\<lparr>ev_fill := f\<rparr>) running rng sleep s w = solver_run n env running rng sleep s w"
proof (induction n arbitrary: s w)
  case (Suc n)
  obtain out s1 w1 where t: "tick env s w = (out, s1, w1)" by (metis prod_cases3)
  obtain r s2 where a: "after_tick out s1 = (r, s2)" by fastforce
  have i: "solver_inv env s1" "tick (env\<lparr>ev_fill := f\<rparr>) s w = (out, s1, w1)"
    using tick_inv [OF assms(1) Suc.prems assms(2), of w] by (simp_all add: t)
  note s2 = after_tick_inv [OF i(1) a]
  show ?case using Suc.IH [OF s2] Suc.prems s2 by (cases r) (simp_all add: t a i(2))
qed simp

lemma new_solver_inv: "solver_inv env (new_solver cfg)"
  by (simp add: solver_inv_def new_solver_def cache_sound_def new_verification_cache_def tracker_idle_def
      new_inflight_def activeReservedFor_def amount_of_def)

section \<open>A concrete solver\<close>

definition sample_digest :: hex where
  "sample_digest = ''0x'' @ replicate 64 (CHR ''a'')"

definition pending_record :: intent_record where
  "pending_record = (sample_intent_record Pending)\<lparr>intent_of := quoted_intent\<rparr>"

definition sample_page_fetch :: "int fetch" where
  "sample_page_fetch req w =
     (Responded \<lparr>hr_status = 200,
        hr_json = Some (JObj [(''records'', JArr [record_json pending_record]), (''nextCursor'', JNull)]),
        hr_text = ''''\<rparr>, w)"

definition sample_solver_env :: "(failure, bool) result \<Rightarrow> int solver_env" where
  "sample_solver_env verdict =
     \<lparr>ev_clock = id, ev_fetch = sample_page_fetch, ev_fill = \<lambda>r w. (Inr ''tx'', w),
      ev_verifier = \<lambda>i sig d w. (verdict, w), ev_deps = \<lambda>w. sample_deps,
      ev_hashTypedData = \<lambda>d m. sample_digest, ev_viem = sample_viem, ev_client = sample_client,
      ev_config = sample_solver_config\<rparr>"

lemma sample_digests: "digests (sample_solver_env v)"
  by (simp add: digests_def sample_solver_env_def sample_digest_def)

lemma pending_record_wire: "wire_record (hex_string 40) pending_record"
  using sample_record_wire [of Pending]
  by (simp add: wire_record_def wire_signed_def pending_record_def sample_intent_record_def
      wire_intent_def quoted_intent_def sample_intent_def)

lemma pending_record_parses:
  "parseIntentRecord (hex_string 40) (record_json pending_record) = Inr pending_record"
  using parseIntentRecord_json [OF pending_record_wire]
  by (simp add: pending_record_def sample_intent_record_def MEMPOOL_STATUSES_def)

lemma sample_listing:
  "listPending (hex_string 40) sample_client sample_page_fetch Pending DEFAULT_MAX_PAGES
     DEFAULT_CLIENT_LIST_LIMIT w = (Inr [pending_record], w)"
proof -
  have "listPendingPage (hex_string 40) sample_client sample_page_fetch Pending (Some 100) None w
      = (Inr ([pending_record], None), w)"
    by (simp add: listPendingPage_def fetchWithRetry_def fetch_loop.simps sample_page_fetch_def res_ok_def
        read_json_def parse_page_def js_member_def obj_get_def parseIntentRecordArray_def
        DEFAULT_MAX_INTENT_RECORDS_def pending_record_parses)
  then show ?thesis
    by (simp add: listPending_def DEFAULT_CLIENT_LIST_LIMIT_def list_pages_unfold)
qed

lemma sample_hash: "hash pending_record = sample_digest" "intent_of pending_record = quoted_intent"
  by (simp_all add: pending_record_def sample_intent_record_def sample_digest_def)

lemma sample_hashes_intent:
  "hashIntent (\<lambda>d m. sample_digest) quoted_intent dmn = Inr sample_digest"
proof -
  obtain m where "toMessage sample_intent = Inr m" using sample_message by blast
  then have "\<exists>m'. toMessage quoted_intent = Inr m'"
    using sample_numerals
    by (simp add: toMessage_def quoted_intent_def sample_intent_def js_bigint_pos js_bigint_nonneg)
  then show ?thesis by (auto simp: hashIntent_def)
qed

lemma sample_decides:
  "\<exists>d. evaluate sample_viem quoted_intent sample_solver_config sample_deps (Some new_inflight) 1000 = Inr d \<and> fd_fill d"
  using evaluate_fill [OF sample_strings(2) _ sample_price, of sample_viem sample_solver_config "Some new_inflight" 1000]
    sample_fill_condition by simp

lemma idle_evict: "evict_and_flush now (new_solver cfg) = new_solver cfg"
  by (simp add: evict_and_flush_def new_solver_def seen_evictExpired_def retry_evictExpired_def flushHeld_def
      new_seen_def new_retry_lru_def new_inflight_def)

lemma sample_tick:
  "\<exists>s. tick (sample_solver_env (Inr True)) (new_solver sample_solver_config) 1000000 = (Inr (), s, 1000000)
     \<and> events s = [Filling sample_digest 1, FillWon sample_digest ''tx'']"
proof -
  obtain d where d: "evaluate sample_viem quoted_intent sample_solver_config sample_deps (Some new_inflight) 1000 = Inr d"
    and fill: "fd_fill d" using sample_decides by blast
  let ?env = "sample_solver_env (Inr True)" and ?s = "new_solver sample_solver_config"
  have fresh: "seen_has t h (st_seen ?s) = (False, st_seen ?s)" "retry_get t h (retryState ?s) = (None, retryState ?s)"
    "vc_get t k (verificationCache ?s) = (None, verificationCache ?s)" for t h k
    by (simp_all add: new_solver_def new_seen_def new_retry_lru_def new_verification_cache_def seen_has_def
        seen_lookup_def retry_get_def retry_lookup_def vc_get_def vc_lookup_def)
  have state: "?s\<lparr>st_seen := st_seen ?s\<rparr> = ?s" "?s\<lparr>retryState := retryState ?s\<rparr> = ?s"
    "?s\<lparr>verificationCache := verificationCache ?s\<rparr> = ?s" by simp_all
  have token: "mempoolStatusToken sample_solver_config = None" by (simp add: sample_solver_config_def)
  have idle: "inFlight ?s = new_inflight" "events ?s = []" by (simp_all add: new_solver_def)
  have "\<exists>s. consider_record ?env pending_record ?s 1000000 = (Inr False, s, 1000000)
      \<and> events s = [Filling sample_digest 1, FillWon sample_digest ''tx'']"
    using d fill sample_strings(2) token
    by (simp add: consider_record_def Let_def sample_solver_env_def sample_hash sample_hashes_intent
        cached_verify_def fresh state idle attempt_fill_def reportFilled_def emit_def retire_def
        settle_reservation_def sample_viem_def)
  then obtain s where c: "consider_record ?env pending_record ?s 1000000 = (Inr False, s, 1000000)"
    and e: "events s = [Filling sample_digest 1, FillWon sample_digest ''tx'']" by blast
  have listed: "listPending (va_isAddress (ev_viem ?env)) (ev_client ?env) (ev_fetch ?env) Pending
      DEFAULT_MAX_PAGES DEFAULT_CLIENT_LIST_LIMIT 1000000 = (Inr [pending_record], 1000000)"
    using sample_listing by (simp add: sample_solver_env_def sample_viem_def)
  show ?thesis
    using c e by (simp add: tick_def listed idle_evict work_pending_def fresh state)
qed

section \<open>Properties\<close>

text \<open>
  C5. The solver never commits capital to an intent it has not verified: however long it runs, whatever
  the mempool returns and however verdicts are cached, the run is the same for any two executors that
  agree on the records whose hash is the hash of their intent under the solver's own domain, whose
  signature the verifier accepted for an intent of that hash, and which \<open>evaluate\<close> decided to fill; so
  the executor is never called on any other record.
\<close>

theorem fills_only_vouched_intents:
  assumes "digests env" and "\<forall>r. fillable env r \<longrightarrow> f r = ev_fill env r"
  shows "solver_run n (env\<lparr>ev_fill := f\<rparr>) running rng sleep (new_solver (ev_config env)) w
    = solver_run n env running rng sleep (new_solver (ev_config env)) w"
  using solver_run_inv [OF assms(1) _ new_solver_inv, of f] assms(2) by blast

theorem fills_only_vouched_intents_witness:
  "\<exists>s. solver_run 1 ((sample_solver_env (Inr True))\<lparr>ev_fill := \<lambda>r w.
        if to_lower (hash r) = sample_digest then (Inr ''tx'', w) else (Inl FatalError, w)\<rparr>)
      (\<lambda>_. True) (\<lambda>_. 0) (\<lambda>_ w. w) (new_solver sample_solver_config) 1000000 = (None, s, 1000000)
    \<and> events s = [Filling sample_digest 1, FillWon sample_digest ''tx'']"
proof -
  let ?env = "sample_solver_env (Inr True)"
  let ?f = "\<lambda>r w. if to_lower (hash r) = sample_digest then (Inr ''tx'', w) else (Inl FatalError, w :: int)"
  have low: "to_lower sample_digest = sample_digest"
    by (simp add: sample_digest_def to_lower_def lower_char_def is_upper_def char_code_def Let_def)
  have agree: "\<forall>r. fillable ?env r \<longrightarrow> ?f r = ev_fill ?env r"
    using low by (auto simp: fillable_def Let_def sample_solver_env_def hashIntent_def bind_result_Inr_iff)
  have cfg: "ev_config ?env = sample_solver_config" by (simp add: sample_solver_env_def)
  obtain s where "tick ?env (new_solver sample_solver_config) 1000000 = (Inr (), s, 1000000)"
    and "events s = [Filling sample_digest 1, FillWon sample_digest ''tx'']"
    using sample_tick by blast
  then have "\<exists>s. solver_run 1 ?env (\<lambda>_. True) (\<lambda>_. 0) (\<lambda>_ w. w) (new_solver sample_solver_config) 1000000
      = (None, s, 1000000) \<and> events s = [Filling sample_digest 1, FillWon sample_digest ''tx'']"
    by (simp add: after_tick_def)
  then show ?thesis
    using fills_only_vouched_intents [OF sample_digests agree, of 1 "\<lambda>_. True" "\<lambda>_. 0" "\<lambda>_ w. w" 1000000]
    unfolding cfg by simp
qed



text \<open>
  The readiness probe never turns green: no step of the loop sets \<open>lastTickOk\<close>, so after any number
  of ticks, successful ones included, \<open>/readyz\<close> answers 503.
\<close>

theorem solver_never_ready:
  assumes "digests env"
    and "solver_run n env running rng sleep (new_solver (ev_config env)) w = (res, s, w')"
  shows "solver_readyz staleness maxFailures now (st_readiness s) = 503"
proof -
  have "solver_inv env s"
    using solver_run_inv [OF assms(1) _ new_solver_inv, of "ev_fill env" n running rng sleep "ev_config env" w] assms(2)
    by simp
  then show ?thesis by (simp add: solver_inv_def solver_readyz_def)
qed

theorem solver_never_ready_witness:
  "\<exists>s. solver_run 1 (sample_solver_env (Inr True)) (\<lambda>_. True) (\<lambda>_. 0) (\<lambda>_ w. w)
       (new_solver sample_solver_config) 1000000 = (None, s, 1000000)
     \<and> FillWon sample_digest ''tx'' \<in> set (events s)
     \<and> solver_readyz 6000 5 1000000 (st_readiness s) = 503"
proof -
  let ?env = "sample_solver_env (Inr True)"
  obtain s0 where "tick ?env (new_solver sample_solver_config) 1000000 = (Inr (), s0, 1000000)"
    and "events s0 = [Filling sample_digest 1, FillWon sample_digest ''tx'']"
    using sample_tick by blast
  then obtain s where r: "solver_run 1 ?env (\<lambda>_. True) (\<lambda>_. 0) (\<lambda>_ w. w) (new_solver sample_solver_config) 1000000
      = (None, s, 1000000)" and e: "FillWon sample_digest ''tx'' \<in> set (events s)"
    by (simp add: after_tick_def)
  have cfg: "ev_config ?env = sample_solver_config" by (simp add: sample_solver_env_def)
  have "solver_readyz 6000 5 1000000 (st_readiness s) = 503"
    by (rule solver_never_ready [OF sample_digests r [folded cfg]])
  with r e show ?thesis by blast
qed

definition unknown_record :: "'w solver_env \<Rightarrow> intent_record \<Rightarrow> solver_state \<Rightarrow> bool" where
  "unknown_record env r s \<longleftrightarrow>
     seen_ok (st_seen s) \<and> assoc_get (seen_cache (st_seen s)) (hash r) = None
     \<and> assoc_ok (retry_cache (retryState s)) \<and> assoc_get (retry_cache (retryState s)) (hash r) = None
     \<and> assoc_get (vc_cache (verificationCache s))
         (verificationCacheKey (sc_sourceChainId (ev_config env)) (escrowAddress (ev_config env)) (hash r) (signature r))
       = None"

lemma assoc_ok_filter: "assoc_ok m \<Longrightarrow> assoc_ok (filter P m)"
  by (simp add: assoc_ok_def distinct_map_filter)

lemma assoc_get_filter_None: "assoc_get m k = None \<Longrightarrow> assoc_get (filter P m) k = None"
  by (auto simp: assoc_get_None_iff)

lemma unknown_record_evict: "unknown_record env r s \<Longrightarrow> unknown_record env r (evict_and_flush now s)"
proof -
  assume u: "unknown_record env r s"
  have ok: "assoc_ok (seen_cache (st_seen s))" using u by (simp add: unknown_record_def seen_ok_def)
  show ?thesis
    using u seen.sweep_entries [OF ok, of now] retry.sweep_entries [of "retryState s" now]
      seen.cache_ok_sweep [of "st_seen s" now]
    by (simp add: unknown_record_def evict_and_flush_def seen_ok_cache assoc_ok_filter assoc_get_filter_None)
qed

text \<open>
  One record can starve all that follow: if verifying the first pending record throws, as the
  recovery of a malformed signature does, the tick ends there with that exception, whatever records
  come after it; nothing is remembered of the record, so the next tick begins with it again.
\<close>

theorem throwing_record_starves:
  assumes "unknown_record env r s"
    and "hashIntent (ev_hashTypedData env) (intent_of r)
           (perihelionDomain (sc_sourceChainId (ev_config env)) (escrowAddress (ev_config env))) = Inr d"
    and "to_lower d = to_lower (hash r)"
    and "listPending (va_isAddress (ev_viem env)) (ev_client env) (ev_fetch env) Pending
           DEFAULT_MAX_PAGES DEFAULT_CLIENT_LIST_LIMIT w = (Inr (r # rs), w1)"
    and "ev_verifier env (intent_of r) (signature r)
           (perihelionDomain (sc_sourceChainId (ev_config env)) (escrowAddress (ev_config env))) w1 = (Inl e, w2)"
  shows "\<exists>s'. tick env s w = (Inl e, s', w2) \<and> events s' = events s \<and> unknown_record env r s'"
proof -
  let ?s = "evict_and_flush (ev_clock env w) s"
  have u: "unknown_record env r ?s" using assms(1) by (rule unknown_record_evict)
  then have "seen_has t (hash r) (st_seen ?s) = (False, st_seen ?s)"
    "retry_get t (hash r) (retryState ?s) = (None, retryState ?s)"
    "vc_get t (verificationCacheKey (sc_sourceChainId (ev_config env)) (escrowAddress (ev_config env)) (hash r) (signature r))
       (verificationCache ?s) = (None, verificationCache ?s)" for t
    by (simp_all add: unknown_record_def seen_has_def seen_lookup_def retry_get_def retry_lookup_def vc_get_def
        vc_lookup_def)
  then have "tick env s w = (Inl e, ?s, w2)"
    using assms(2-5) by (simp add: tick_def work_pending_def consider_record_def cached_verify_def)
  then show ?thesis using u by (simp add: evict_and_flush_def)
qed

theorem throwing_record_starves_witness:
  "\<exists>s'. tick (sample_solver_env (Inl (js_exception ''Error''))) (new_solver sample_solver_config) 1000000
      = (Inl (js_exception ''Error''), s', 1000000)
    \<and> events s' = [] \<and> unknown_record (sample_solver_env (Inl (js_exception ''Error''))) pending_record s'"
proof -
  let ?env = "sample_solver_env (Inl (js_exception ''Error''))"
  have u: "unknown_record ?env pending_record (new_solver sample_solver_config)"
    by (simp add: unknown_record_def new_solver_def new_seen_def new_retry_lru_def new_verification_cache_def
        seen_ok_def seen_size_def)
  have h: "hashIntent (ev_hashTypedData ?env) (intent_of pending_record)
      (perihelionDomain (sc_sourceChainId (ev_config ?env)) (escrowAddress (ev_config ?env))) = Inr sample_digest"
    by (simp add: sample_solver_env_def sample_hash sample_hashes_intent)
  have l: "listPending (va_isAddress (ev_viem ?env)) (ev_client ?env) (ev_fetch ?env) Pending
      DEFAULT_MAX_PAGES DEFAULT_CLIENT_LIST_LIMIT 1000000 = (Inr [pending_record], 1000000)"
    using sample_listing by (simp add: sample_solver_env_def sample_viem_def)
  have v: "ev_verifier ?env (intent_of pending_record) (signature pending_record)
      (perihelionDomain (sc_sourceChainId (ev_config ?env)) (escrowAddress (ev_config ?env))) 1000000
      = (Inl (js_exception ''Error''), 1000000)"
    by (simp add: sample_solver_env_def)
  have "events (new_solver sample_solver_config) = []" by (simp add: new_solver_def)
  then show ?thesis
    using throwing_record_starves [OF u h _ l v] by (simp add: sample_hash)
qed

definition retry_stands :: "hex \<Rightarrow> int \<Rightarrow> nat \<Rightarrow> int \<Rightarrow> solver_state \<Rightarrow> bool" where
  "retry_stands h dl n t s \<longleftrightarrow>
     assoc_get (retry_cache (retryState s)) h =
       (if n = 0 then None else Some \<lparr>attempts = n, nextRetryAt = t + 1000 * 2 ^ (n - 1), re_deadlineMs = dl\<rparr>)"

lemma retry_set_get:
  "assoc_get (retry_cache (retry_set h st dl c)) h = Some \<lparr>attempts = attempts st, nextRetryAt = nextRetryAt st, re_deadlineMs = dl\<rparr>"
  by (simp add: retry_set_def retry_put_def Let_def assoc_get_set)

lemma schedule_step:
  assumes "retry_stands h dl n t0 s" and "t \<le> dl"
  shows "n < 3 \<Longrightarrow> retry_stands h dl (Suc n) t (scheduleRetry t h dl s) \<and> st_seen (scheduleRetry t h dl s) = st_seen s"
    and "n = 3 \<Longrightarrow> retry_stands h dl 0 t (scheduleRetry t h dl s)
      \<and> assoc_get (seen_cache (st_seen (scheduleRetry t h dl s))) h = Some \<lparr>insertedAt = t, se_deadlineMs = dl\<rparr>"
proof -
  have g: "fst (retry_get t h (retryState s)) =
      (if n = 0 then None else Some \<lparr>attempts = n, nextRetryAt = t0 + 1000 * 2 ^ (n - 1)\<rparr>)"
    using assms by (simp add: retry_stands_def retry_get_def retry_lookup_def Let_def)
  obtain rl where rl: "retry_get t h (retryState s) =
      ((if n = 0 then None else Some \<lparr>attempts = n, nextRetryAt = t0 + 1000 * 2 ^ (n - 1)\<rparr>), rl)"
    using g by (cases "retry_get t h (retryState s)") simp
  show "retry_stands h dl (Suc n) t (scheduleRetry t h dl s) \<and> st_seen (scheduleRetry t h dl s) = st_seen s" if "n < 3"
    using that by (simp add: scheduleRetry_def rl MAX_FILL_RETRIES_def emit_def retry_stands_def retry_set_get retryBackoff_def)
  show "retry_stands h dl 0 t (scheduleRetry t h dl s)
      \<and> assoc_get (seen_cache (st_seen (scheduleRetry t h dl s))) h = Some \<lparr>insertedAt = t, se_deadlineMs = dl\<rparr>" if "n = 3"
    using that by (simp add: scheduleRetry_def rl MAX_FILL_RETRIES_def emit_def retire_def retry_stands_def
        retry_delete_def assoc_get_del seen_add_def seen_put_def Let_def assoc_get_set)
qed

lemma schedule_run:
  assumes "retry_stands h dl 0 t0 s" and "\<forall>t \<in> set ts. t \<le> dl" and "length ts \<le> 3"
  shows "\<exists>t. (ts \<noteq> [] \<longrightarrow> t = last ts) \<and> retry_stands h dl (length ts) t (foldl (\<lambda>s t. scheduleRetry t h dl s) s ts)
    \<and> st_seen (foldl (\<lambda>s t. scheduleRetry t h dl s) s ts) = st_seen s"
  using assms
proof (induction ts rule: rev_induct)
  case (snoc t ts)
  then obtain t1 where "retry_stands h dl (length ts) t1 (foldl (\<lambda>s t. scheduleRetry t h dl s) s ts)"
    and "st_seen (foldl (\<lambda>s t. scheduleRetry t h dl s) s ts) = st_seen s" by auto
  with schedule_step(1) [OF this(1), of t] snoc.prems show ?case by auto
qed auto

text \<open>
  C29. A failing fill is retried three times, then given up: the first three failures schedule retries one,
  two and four seconds later, the intent being skipped until then, and the fourth drops the retry state
  and retires the hash for the rest of its deadline.
\<close>

theorem retry_budget:
  assumes "assoc_get (retry_cache (retryState s)) h = None" and "t1 \<le> dl" "t2 \<le> dl" "t3 \<le> dl" "t4 \<le> dl"
  shows "(\<forall>ts \<in> {[t1], [t1, t2], [t1, t2, t3]}. \<forall>t \<le> dl.
      fst (retry_get t h (retryState (foldl (\<lambda>s t. scheduleRetry t h dl s) s ts)))
        = Some \<lparr>attempts = length ts, nextRetryAt = last ts + 1000 * 2 ^ (length ts - 1)\<rparr>)
    \<and> (\<forall>t \<le> dl. fst (seen_has t h (st_seen (foldl (\<lambda>s t. scheduleRetry t h dl s) s [t1, t2, t3, t4])))
        \<and> fst (retry_get t h (retryState (foldl (\<lambda>s t. scheduleRetry t h dl s) s [t1, t2, t3, t4]))) = None)"
proof -
  have start: "retry_stands h dl 0 t1 s" using assms(1) by (simp add: retry_stands_def)
  have get: "fst (retry_get t h (retryState s')) = Some \<lparr>attempts = n, nextRetryAt = u + 1000 * 2 ^ (n - 1)\<rparr>"
    if "retry_stands h dl n u s'" "0 < n" "t \<le> dl" for s' n u t
    using that by (simp add: retry_stands_def retry_get_def retry_lookup_def Let_def)
  have "fst (retry_get t h (retryState (foldl (\<lambda>s t. scheduleRetry t h dl s) s ts)))
        = Some \<lparr>attempts = length ts, nextRetryAt = last ts + 1000 * 2 ^ (length ts - 1)\<rparr>"
    if "ts \<in> {[t1], [t1, t2], [t1, t2, t3]}" "t \<le> dl" for ts t
    using that schedule_run [OF start, of ts] assms get [of "length ts" "last ts"] by fastforce
  moreover obtain u where "retry_stands h dl 3 u (foldl (\<lambda>s t. scheduleRetry t h dl s) s [t1, t2, t3])"
    using schedule_run [OF start, of "[t1, t2, t3]"] assms by (auto simp: numeral_3_eq_3)
  note last_step = schedule_step(2) [OF this \<open>t4 \<le> dl\<close> refl]
  have "fst (seen_has t h (st_seen (foldl (\<lambda>s t. scheduleRetry t h dl s) s [t1, t2, t3, t4])))
        \<and> fst (retry_get t h (retryState (foldl (\<lambda>s t. scheduleRetry t h dl s) s [t1, t2, t3, t4]))) = None"
    if "t \<le> dl" for t
    using that last_step
    by (simp add: retry_stands_def retry_get_def retry_lookup_def seen_has_def seen_lookup_def Let_def)
  ultimately show ?thesis by blast
qed

theorem retry_budget_witness:
  "fst (retry_get 5000 ''0xa'' (retryState (foldl (\<lambda>s t. scheduleRetry t ''0xa'' 600000 s)
      (new_solver sample_solver_config) [0, 1000, 3000]))) = Some \<lparr>attempts = 3, nextRetryAt = 7000\<rparr>
   \<and> fst (seen_has 9000 ''0xa'' (st_seen (foldl (\<lambda>s t. scheduleRetry t ''0xa'' 600000 s)
      (new_solver sample_solver_config) [0, 1000, 3000, 7000])))"
proof -
  have "assoc_get (retry_cache (retryState (new_solver sample_solver_config))) ''0xa'' = None"
    by (simp add: new_solver_def new_retry_lru_def)
  from retry_budget [OF this, of 0 600000 1000 3000 7000] show ?thesis by simp
qed

end
