(* ===== verification/Sdk_Escrow_Client.thy ===== *)
theory Sdk_Escrow_Client
  imports Sdk_Intent
begin

text \<open>
  \<^verbatim>\<open>sdk/src/escrow-client.ts\<close>: the client of the escrow contract. The chain is a record of what the
  viem clients answer at a block; a call that fails is \<open>Inl\<close> and propagates. The refund verdict is
  checked against the guards of \<open>cancelExpired\<close> in \<^verbatim>\<open>contracts/evm/src/PerihelionEscrow.sol\<close>, which
  are transcribed here at their machine widths.
\<close>

section \<open>Chain access\<close>

record lock =
  lk_solver :: address
  lk_user :: address
  lk_asset :: address
  lk_amount :: nat
  lk_minDestAmount :: nat
  lk_deadline :: nat
  lk_released :: bool
  lk_refunded :: bool

record chain_client =
  getBlock :: "(string, nat \<times> nat) result"
  readLocks :: "hex \<Rightarrow> nat option \<Rightarrow> (string, lock) result"
  readGrace :: "nat option \<Rightarrow> (string, nat) result"
  readQuoteFee :: "message \<Rightarrow> address \<Rightarrow> (string, int) result"
  writeLock :: "address \<Rightarrow> message \<Rightarrow> hex \<Rightarrow> int \<Rightarrow> (string, hex) result"
  writeCancelExpired :: "address \<Rightarrow> hex \<Rightarrow> (string, hex) result"
  walletAccount :: "address option"

text \<open>\<open>_intentToContract\<close> converts exactly the fields \<open>toMessage\<close> does; \<open>BigInt\<close> may throw.\<close>

definition intentToContract :: "intent \<Rightarrow> (string, message) result" where
  "intentToContract i = (case toMessage i of Inl _ \<Rightarrow> Inl ''SyntaxError'' | Inr m \<Rightarrow> Inr m)"

definition fee_payer :: "chain_client \<Rightarrow> intent \<Rightarrow> address option \<Rightarrow> address" where
  "fee_payer ch i payer =
     (case payer of
        Some p \<Rightarrow> p
      | None \<Rightarrow>
          (case walletAccount ch of
             Some a \<Rightarrow> a
           | None \<Rightarrow> if preferredSolver i \<noteq> zeroAddress then preferredSolver i else user i))"

definition quoteFee :: "chain_client \<Rightarrow> intent \<Rightarrow> address option \<Rightarrow> (string, int) result" where
  "quoteFee ch i payer =
     bind_result (intentToContract i) (\<lambda>m. readQuoteFee ch m (fee_payer ch i payer))"

definition lock_intent :: "chain_client \<Rightarrow> intent \<Rightarrow> hex \<Rightarrow> int \<Rightarrow> (string, hex) result" where
  "lock_intent ch i sig value =
     (case walletAccount ch of
        None \<Rightarrow> Inl ''wallet client has no account''
      | Some acc \<Rightarrow> bind_result (intentToContract i) (\<lambda>m. writeLock ch acc m sig value))"

definition cancelExpired :: "chain_client \<Rightarrow> hex \<Rightarrow> (string, hex) result" where
  "cancelExpired ch h =
     (case walletAccount ch of
        None \<Rightarrow> Inl ''wallet client has no account''
      | Some acc \<Rightarrow> writeCancelExpired ch acc h)"

definition readLock :: "chain_client \<Rightarrow> hex \<Rightarrow> nat option \<Rightarrow> (string, lock option) result" where
  "readLock ch h block =
     bind_result (readLocks ch h block) (\<lambda>l. Inr (if lk_user l = zeroAddress then None else Some l))"

definition getLock :: "chain_client \<Rightarrow> hex \<Rightarrow> (string, lock option) result" where
  "getLock ch h = readLock ch h None"

definition confirmationGrace :: "chain_client \<Rightarrow> (string, nat) result" where
  "confirmationGrace ch = readGrace ch None"

datatype refund_blocker = NotLocked | AlreadyFinalized | DeadlineNotPassed

record refund_status =
  rs_refundable :: bool
  rs_reason :: "refund_blocker option"
  rs_lock :: "lock option"
  rs_refundableAt :: "nat option"
  rs_blockNumber :: nat
  rs_blockTimestamp :: nat

text \<open>\<open>Promise.all\<close> of the two reads: it fails if either does.\<close>

definition refundStatus :: "chain_client \<Rightarrow> hex \<Rightarrow> (string, refund_status) result" where
  "refundStatus ch h =
     bind_result (getBlock ch) (\<lambda>(number, timestamp).
     bind_result (readLock ch h (Some number)) (\<lambda>lck.
     bind_result (readGrace ch (Some number)) (\<lambda>grace.
       Inr (case lck of
              None \<Rightarrow>
                \<lparr>rs_refundable = False, rs_reason = Some NotLocked, rs_lock = None, rs_refundableAt = None,
                 rs_blockNumber = number, rs_blockTimestamp = timestamp\<rparr>
            | Some l \<Rightarrow>
                (let refundableAt = lk_deadline l + grace;
                     verdict = (\<lambda>ok reason.
                       \<lparr>rs_refundable = ok, rs_reason = reason, rs_lock = Some l,
                        rs_refundableAt = Some refundableAt, rs_blockNumber = number,
                        rs_blockTimestamp = timestamp\<rparr>)
                 in if lk_released l \<or> lk_refunded l then verdict False (Some AlreadyFinalized)
                    else if timestamp < refundableAt then verdict False (Some DeadlineNotPassed)
                    else verdict True None)))))"

definition escrow_isRefundable :: "chain_client \<Rightarrow> hex \<Rightarrow> (string, bool) result" where
  "escrow_isRefundable ch h = bind_result (refundStatus ch h) (\<lambda>s. Inr (rs_refundable s))"

section \<open>The contract's guards\<close>

text \<open>
  \<open>cancelExpired\<close> up to its first write, on a lock with a 64-bit deadline: the sum is taken at 256
  bits, and checked arithmetic reverts on overflow.
\<close>

definition MAX_CONFIRMATION_GRACE :: "256 word" where
  "MAX_CONFIRMATION_GRACE = 604800"

record contract_lock =
  cl_user :: address
  cl_deadline :: "64 word"
  cl_released :: bool
  cl_refunded :: bool

datatype revert = Revert refund_blocker | Panic

definition cancel_guards :: "contract_lock \<Rightarrow> 256 word \<Rightarrow> 256 word \<Rightarrow> revert option" where
  "cancel_guards l grace timestamp =
     (if cl_user l = zeroAddress then Some (Revert NotLocked)
      else if cl_released l \<or> cl_refunded l then Some (Revert AlreadyFinalized)
      else if ucast (cl_deadline l) + grace < grace then Some Panic
      else if timestamp < ucast (cl_deadline l) + grace then Some (Revert DeadlineNotPassed)
      else None)"

text \<open>A client reads a contract state when its answers at a block are those of the contract.\<close>

definition reads_contract ::
  "chain_client \<Rightarrow> hex \<Rightarrow> contract_lock \<Rightarrow> 256 word \<Rightarrow> nat \<Rightarrow> 256 word \<Rightarrow> bool" where
  "reads_contract ch h l grace number timestamp \<longleftrightarrow>
     getBlock ch = Inr (number, unat timestamp)
     \<and> readGrace ch (Some number) = Inr (unat grace)
     \<and> (\<exists>r. readLocks ch h (Some number) = Inr r \<and> lk_user r = cl_user l
          \<and> lk_deadline r = unat (cl_deadline l) \<and> lk_released r = cl_released l
          \<and> lk_refunded r = cl_refunded l)"

lemma deadline_sum:
  fixes d :: "64 word" and g :: "256 word"
  assumes "g \<le> MAX_CONFIRMATION_GRACE"
  shows "unat (ucast d + g :: 256 word) = unat d + unat g" and "\<not> (ucast d + g :: 256 word) < g"
proof -
  have d: "unat (ucast d :: 256 word) = unat d"
  proof -
    have "unat d < 2 ^ 64" using unsigned_less [of d, where ?'a = nat] by simp
    then have "unat d < 2 ^ 256" by (rule less_trans) simp
    then show ?thesis by (simp add: unsigned_ucast_eq take_bit_nat_eq_self)
  qed
  have "unat d < 2 ^ 64" using unsigned_less [of d, where ?'a = nat] by simp
  moreover have "unat g \<le> 604800"
    using assms by (simp add: MAX_CONFIRMATION_GRACE_def word_le_nat_alt)
  ultimately have "unat (ucast d :: 256 word) + unat g < 2 ^ LENGTH(256)"
    using d by simp
  then show s: "unat (ucast d + g :: 256 word) = unat d + unat g"
    using d by (simp only: unat_add_lem [THEN iffD1])
  show "\<not> (ucast d + g :: 256 word) < g" by (simp add: word_less_nat_alt s)
qed

text \<open>
  C31. The refund verdict is the contract's: for any grace period the contract allows, \<open>refundStatus\<close>
  says refundable exactly when \<open>cancelExpired\<close> passes all of its guards at the block it read, and
  otherwise names the very error \<open>cancelExpired\<close> reverts with.
\<close>

theorem refund_status_matches_contract:
  assumes "reads_contract ch h l grace number timestamp" and "grace \<le> MAX_CONFIRMATION_GRACE"
  shows "\<exists>s. refundStatus ch h = Inr s
    \<and> (rs_refundable s \<longleftrightarrow> cancel_guards l grace timestamp = None)
    \<and> map_option Revert (rs_reason s) = cancel_guards l grace timestamp
    \<and> escrow_isRefundable ch h = Inr (rs_refundable s)"
proof -
  obtain r where r: "readLocks ch h (Some number) = Inr r" "lk_user r = cl_user l"
    "lk_deadline r = unat (cl_deadline l)" "lk_released r = cl_released l" "lk_refunded r = cl_refunded l"
    using assms(1) by (auto simp: reads_contract_def)
  have "getBlock ch = Inr (number, unat timestamp)" "readGrace ch (Some number) = Inr (unat grace)"
    using assms(1) by (simp_all add: reads_contract_def)
  with r deadline_sum [OF assms(2), of "cl_deadline l"] show ?thesis
    by (auto simp: refundStatus_def escrow_isRefundable_def readLock_def cancel_guards_def Let_def
        word_less_nat_alt)
qed

definition sample_contract_lock :: contract_lock where
  "sample_contract_lock = \<lparr>cl_user = ''0x1111111111111111111111111111111111111111'',
     cl_deadline = 1000, cl_released = False, cl_refunded = False\<rparr>"

definition sample_chain :: chain_client where
  "sample_chain =
     \<lparr>getBlock = Inr (7, 8200),
      readLocks = \<lambda>_ _. Inr \<lparr>lk_solver = zeroAddress,
        lk_user = ''0x1111111111111111111111111111111111111111'', lk_asset = zeroAddress, lk_amount = 5,
        lk_minDestAmount = 4, lk_deadline = 1000, lk_released = False, lk_refunded = False\<rparr>,
      readGrace = \<lambda>_. Inr 7200, readQuoteFee = \<lambda>_ _. Inr 1, writeLock = \<lambda>_ _ _ _. Inr ''0x'',
      writeCancelExpired = \<lambda>_ _. Inr ''0x'', walletAccount = None\<rparr>"

theorem refund_status_matches_contract_witness:
  "cancel_guards sample_contract_lock 7200 8200 = None
   \<and> (\<exists>s. refundStatus sample_chain ''0x'' = Inr s \<and> rs_refundable s)"
proof -
  have r: "reads_contract sample_chain ''0x'' sample_contract_lock 7200 7 8200"
    by (simp add: reads_contract_def sample_chain_def sample_contract_lock_def)
  have g: "cancel_guards sample_contract_lock 7200 8200 = None"
    by (simp add: cancel_guards_def sample_contract_lock_def zeroAddress_def)
  have "(7200 :: 256 word) \<le> MAX_CONFIRMATION_GRACE" by (simp add: MAX_CONFIRMATION_GRACE_def)
  from refund_status_matches_contract [OF r this] g show ?thesis by auto
qed

end
