(* ===== verification/Solver_Executor.thy ===== *)
theory Solver_Executor
  imports Solver_Loop Sdk_Escrow_Client
begin

text \<open>
  The executor of the solver (\<^verbatim>\<open>solver/src/executor.ts\<close>): the stages of a fill, from the lock on the EVM
  chain over the wait for its registration on Stellar to \<open>fill_intent\<close>. The RPC clients and the wallet are
  parameters. The file uses names that it neither declares nor imports (\<open>sleep\<close>, \<open>evmAddressToBytes32\<close>,
  \<open>scValToNative\<close>) or that the SDK does not export (\<open>IntentStatus\<close>, \<open>submitAndWait\<close>): the calls of the
  functions are parameters that may throw, and \<open>IntentStatus\<close> is read as the SDK's \<open>OnChainIntentStatus\<close>.
\<close>

section \<open>Chain access\<close>

text \<open>The outputs of \<open>locks\<close> in the order of the ABI, which is how viem returns several outputs.\<close>

datatype abi_value = AbiAddress address | AbiUint nat | AbiBool bool

definition locks_outputs :: "lock \<Rightarrow> abi_value list" where
  "locks_outputs l =
     [AbiAddress (lk_solver l), AbiAddress (lk_user l), AbiAddress (lk_asset l), AbiUint (lk_amount l),
      AbiUint (lk_minDestAmount l), AbiUint (lk_deadline l), AbiBool (lk_released l), AbiBool (lk_refunded l)]"

fun abi_truthy :: "abi_value \<Rightarrow> bool" where
  "abi_truthy (AbiAddress a) = (a \<noteq> [])"
| "abi_truthy (AbiUint n) = (n \<noteq> 0)"
| "abi_truthy (AbiBool b) = b"

datatype lock_failure = Reverted | LockThrown thrown

datatype fill_simulation = FillRejected | FillPrepared

record 'w executor_env =
  xe_address :: address
  xe_now :: "'w \<Rightarrow> int"
  xe_readLocks :: "hex \<Rightarrow> 'w \<Rightarrow> (thrown, lock) result \<times> 'w"
  xe_simulateStatus :: "8 word list \<Rightarrow> 'w \<Rightarrow> (thrown, jval option) result \<times> 'w"
  xe_quoteFee :: "message \<Rightarrow> address \<Rightarrow> 'w \<Rightarrow> (thrown, int) result \<times> 'w"
  xe_writeLock :: "message \<Rightarrow> hex \<Rightarrow> int \<Rightarrow> 'w \<Rightarrow> (lock_failure, hex) result \<times> 'w"
  xe_waitReceipt :: "hex \<Rightarrow> int option \<Rightarrow> 'w \<Rightarrow> (thrown, nat option \<times> nat option) result \<times> 'w"
  xe_sleep :: "int \<Rightarrow> 'w \<Rightarrow> (thrown, unit) result \<times> 'w"
  xe_addressWord :: "address \<Rightarrow> (failure, 8 word list) result"
  xe_getAccount :: "'w \<Rightarrow> (thrown, int) result \<times> 'w"
  xe_simulateQuote :: "int \<Rightarrow> 'w \<Rightarrow> (thrown, jval option) result \<times> 'w"
  xe_bigintOf :: "jval \<Rightarrow> (failure, int) result"
  xe_simulateFill :: "8 word list \<Rightarrow> 8 word list \<Rightarrow> int \<Rightarrow> int \<Rightarrow> 'w \<Rightarrow> (thrown, fill_simulation) result \<times> 'w"
  xe_submitFill :: "8 word list \<Rightarrow> 8 word list \<Rightarrow> int \<Rightarrow> int \<Rightarrow> 'w \<Rightarrow> (thrown, hex) result \<times> 'w"

datatype fill_stage = StageLock | StageWait | StageFill | StageDone | StageLost

text \<open>
  The optional settings, in the configuration and in the executor: the constructor copies none of them, so
  that the executor's own are \<open>undefined\<close>.
\<close>

record 'w executor =
  lzFeeBufferStroops :: "int option"
  sourceConfirmations :: "int option"
  persistStage :: "(hex \<Rightarrow> fill_stage \<Rightarrow> 'w \<Rightarrow> (thrown, unit) result \<times> 'w) option"
  loadStage :: "(hex \<Rightarrow> 'w \<Rightarrow> (thrown, fill_stage option) result \<times> 'w) option"

definition new_executor :: "'w executor \<Rightarrow> 'w executor" where
  "new_executor config =
     \<lparr>lzFeeBufferStroops = None, sourceConfirmations = None, persistStage = None, loadStage = None\<rparr>"

text \<open>The outcome of an outside call: what it throws is none of the classes that the solver tells apart.\<close>

definition outside :: "(thrown, 'a) result \<times> 'w \<Rightarrow> (failure, 'a) result \<times> 'w" where
  "outside r = (case r of (Inl e, w) \<Rightarrow> (Inl (Failure e), w) | (Inr a, w) \<Rightarrow> (Inr a, w))"

text \<open>The file's own \<open>MIN_FILL_HEADROOM_SECS\<close>, which the SDK has with another value.\<close>

definition FILL_HEADROOM_SECS :: int where "FILL_HEADROOM_SECS = 60"
definition REGISTRATION_POLL_INTERVAL_MS :: int where "REGISTRATION_POLL_INTERVAL_MS = 2000"

text \<open>\<open>hexToBytes\<close>, for the hexadecimal digits that an intent hash consists of.\<close>

definition hexToBytes :: "hex \<Rightarrow> (failure, 8 word list) result" where
  "hexToBytes h =
     (let clean = (if take 2 h = ''0x'' then drop 2 h else h)
      in if odd (length clean) then Inl (js_exception ''Error'') else Inr (hex_bytes clean))"

section \<open>Reading the contracts\<close>

record escrow_lock =
  el_user :: abi_value
  el_solver :: abi_value
  el_released :: abi_value
  el_refunded :: abi_value

text \<open>The array pattern takes the first four outputs.\<close>

definition executor_getLock :: "'w executor_env \<Rightarrow> hex \<Rightarrow> 'w \<Rightarrow> (failure, escrow_lock) result \<times> 'w" where
  "executor_getLock env h w =
     (case outside (xe_readLocks env h w) of
        (Inl e, w1) \<Rightarrow> (Inl e, w1)
      | (Inr l, w1) \<Rightarrow>
          (let out = locks_outputs l
           in (Inr \<lparr>el_user = out ! 0, el_solver = out ! 1, el_released = out ! 2, el_refunded = out ! 3\<rparr>, w1)))"

text \<open>\<open>readStatus\<close> is declared to give a text, and gives a boolean or \<open>null\<close>.\<close>

definition executor_readStatus :: "'w executor_env \<Rightarrow> hex \<Rightarrow> 'w \<Rightarrow> (failure, jval) result \<times> 'w" where
  "executor_readStatus env h w =
     (case outside (xe_getAccount env w) of
        (Inl e, w1) \<Rightarrow> (Inl e, w1)
      | (Inr _, w1) \<Rightarrow>
          (case hexToBytes h of
             Inl e \<Rightarrow> (Inl e, w1)
           | Inr bytes \<Rightarrow>
               (case outside (xe_simulateStatus env bytes w1) of
                  (Inl e, w2) \<Rightarrow> (Inl e, w2)
                | (Inr None, w2) \<Rightarrow> (Inr JNull, w2)
                | (Inr (Some retval), w2) \<Rightarrow>
                    (case decodeIntentStatus retval of
                       Inl _ \<Rightarrow> (Inl (js_exception ''Error''), w2)
                     | Inr st \<Rightarrow> (Inr (JBool (st = Some OnFilled \<or> st = Some OnConfirmationSent)), w2)))))"

definition isSettled :: "'w executor_env \<Rightarrow> hex \<Rightarrow> 'w \<Rightarrow> (failure, bool) result \<times> 'w" where
  "isSettled env h w =
     (case executor_readStatus env h w of
        (Inl e, w1) \<Rightarrow> (Inl e, w1)
      | (Inr v, w1) \<Rightarrow> (Inr (v = JStr ''Settled''), w1))"

text \<open>A failed query is not fatal. The hash stands in for the settlement transaction.\<close>

definition checkFillStatus :: "'w executor_env \<Rightarrow> hex \<Rightarrow> 'w \<Rightarrow> hex option \<times> 'w" where
  "checkFillStatus env h w =
     (case isSettled env h w of
        (Inr True, w1) \<Rightarrow> (Some h, w1)
      | (_, w1) \<Rightarrow> (None, w1))"

section \<open>The stages\<close>

definition setStage :: "'w executor \<Rightarrow> hex \<Rightarrow> fill_stage \<Rightarrow> 'w \<Rightarrow> (failure, unit) result \<times> 'w" where
  "setStage x h stage w = (case persistStage x of None \<Rightarrow> (Inr (), w) | Some persist \<Rightarrow> outside (persist h stage w))"

record fill_fees =
  sourceGasWei :: nat
  lzFeeWei :: int
  stellarFeeStroops :: int

definition lockOnEvm ::
  "'w executor_env \<Rightarrow> 'a signed_intent_scheme \<Rightarrow> 'w \<Rightarrow> (failure, hex \<times> nat \<times> int) result \<times> 'w" where
  "lockOnEvm env si w =
     (case toMessage (intent_of si) of
        Inl _ \<Rightarrow> (Inl (js_exception ''SyntaxError''), w)
      | Inr contractIntent \<Rightarrow>
          (case outside (xe_quoteFee env contractIntent (xe_address env) w) of
             (Inl e, w1) \<Rightarrow> (Inl e, w1)
           | (Inr nativeFee, w1) \<Rightarrow>
               (case xe_writeLock env contractIntent (signature si) nativeFee w1 of
                  (Inl Reverted, w2) \<Rightarrow> (Inl DefiniteFailureError, w2)
                | (Inl (LockThrown e), w2) \<Rightarrow> (Inl (Failure e), w2)
                | (Inr txHash, w2) \<Rightarrow>
                    (case outside (xe_waitReceipt env txHash None w2) of
                       (Inl e, w3) \<Rightarrow> (Inl e, w3)
                     | (Inr (gasUsed, gasPrice), w3) \<Rightarrow>
                         (Inr (txHash, option_default gasUsed 0 * option_default gasPrice 0, nativeFee), w3)))))"

text \<open>
  The lock stage gives the hash of the lock transaction when it sent one, with its fees. A live lock is
  taken for another solver's when its \<open>solver\<close> differs.
\<close>

definition lock_stage ::
  "'w executor \<Rightarrow> 'w executor_env \<Rightarrow> 'a signed_intent_scheme \<Rightarrow> 'w
     \<Rightarrow> (failure, hex option \<times> nat \<times> int) result \<times> 'w" where
  "lock_stage x env si w =
     (let h = hash si;
          to_wait = (\<lambda>out w. case setStage x h StageWait w of (Inl e, w') \<Rightarrow> (Inl e, w') | (Inr _, w') \<Rightarrow> (Inr out, w'))
      in case executor_getLock env h w of
           (Inl e, w1) \<Rightarrow> (Inl e, w1)
         | (Inr existing, w1) \<Rightarrow>
             if el_user existing \<noteq> AbiAddress zeroAddress then
               (case el_solver existing of
                  AbiAddress owner \<Rightarrow>
                    if to_lower owner \<noteq> to_lower (xe_address env) then
                      (case setStage x h StageLost w1 of
                         (Inl e, w2) \<Rightarrow> (Inl e, w2)
                       | (Inr _, w2) \<Rightarrow> (Inl DefiniteFailureError, w2))
                    else if abi_truthy (el_released existing) \<or> abi_truthy (el_refunded existing)
                    then (Inl DefiniteFailureError, w1)
                    else to_wait (None, 0, 0) w1
                | _ \<Rightarrow> (Inl (js_exception ''TypeError''), w1))
             else
               (case lockOnEvm env si w1 of
                  (Inl e, w2) \<Rightarrow> (Inl e, w2)
                | (Inr (txHash, gas, fee), w2) \<Rightarrow> to_wait (Some txHash, gas, fee) w2))"

text \<open>\<open>undefined <= 0\<close> is false: without the setting the default confirmations are waited for.\<close>

definition waitForSourceConfirmations :: "'w executor \<Rightarrow> 'w executor_env \<Rightarrow> hex \<Rightarrow> 'w \<Rightarrow> (failure, unit) result \<times> 'w" where
  "waitForSourceConfirmations x env txHash w =
     (if (case sourceConfirmations x of None \<Rightarrow> False | Some n \<Rightarrow> n \<le> 0) then (Inr (), w)
      else case outside (xe_waitReceipt env txHash (sourceConfirmations x) w) of
             (Inl e, w1) \<Rightarrow> (Inl e, w1)
           | (Inr _, w1) \<Rightarrow> (Inr (), w1))"

fun waitForRegistration ::
  "nat \<Rightarrow> 'w executor_env \<Rightarrow> 'a signed_intent_scheme \<Rightarrow> 'w \<Rightarrow> ((failure, unit) result \<times> 'w) option" where
  "waitForRegistration 0 env si w = None"
| "waitForRegistration (Suc k) env si w =
     (case executor_readStatus env (hash si) w of
        (Inl e, w1) \<Rightarrow> Some (Inl e, w1)
      | (Inr variant, w1) \<Rightarrow>
          if variant = JStr ''Locked'' \<or> variant = JStr ''Settled'' then Some (Inr (), w1)
          else if variant = JStr ''Cancelled'' \<or> variant = JStr ''Refunded'' then Some (Inl DefiniteFailureError, w1)
          else if deadline (intent_of si) - FILL_HEADROOM_SECS \<le> xe_now env w1
          then Some (Inl (js_exception ''Error''), w1)
          else case outside (xe_sleep env REGISTRATION_POLL_INTERVAL_MS w1) of
                 (Inl e, w2) \<Rightarrow> Some (Inl e, w2)
               | (Inr _, w2) \<Rightarrow> waitForRegistration k env si w2)"

definition wait_stage ::
  "nat \<Rightarrow> 'w executor \<Rightarrow> 'w executor_env \<Rightarrow> 'a signed_intent_scheme \<Rightarrow> hex option \<Rightarrow> 'w
     \<Rightarrow> ((failure, unit) result \<times> 'w) option" where
  "wait_stage fuel x env si lockTx w =
     (case (case lockTx of None \<Rightarrow> (Inr (), w) | Some tx \<Rightarrow> waitForSourceConfirmations x env tx w) of
        (Inl e, w1) \<Rightarrow> Some (Inl e, w1)
      | (Inr _, w1) \<Rightarrow>
          (case waitForRegistration fuel env si w1 of
             None \<Rightarrow> None
           | Some (Inl e, w2) \<Rightarrow> Some (Inl e, w2)
           | Some (Inr _, w2) \<Rightarrow> Some (setStage x (hash si) StageFill w2)))"

definition quoteFillConfirmedFee :: "'w executor_env \<Rightarrow> int \<Rightarrow> 'w \<Rightarrow> (failure, int) result \<times> 'w" where
  "quoteFillConfirmedFee env srcEid w =
     (case outside (xe_getAccount env w) of
        (Inl e, w1) \<Rightarrow> (Inl e, w1)
      | (Inr _, w1) \<Rightarrow>
          (case outside (xe_simulateQuote env srcEid w1) of
             (Inl e, w2) \<Rightarrow> (Inl e, w2)
           | (Inr None, w2) \<Rightarrow> (Inl (js_exception ''Error''), w2)
           | (Inr (Some retval), w2) \<Rightarrow> (xe_bigintOf env retval, w2)))"

text \<open>A bigint and \<open>undefined\<close> do not add up: \<open>TypeError\<close>.\<close>

definition fillOnSoroban :: "'w executor \<Rightarrow> 'w executor_env \<Rightarrow> 'a signed_intent_scheme \<Rightarrow> 'w \<Rightarrow> (failure, hex) result \<times> 'w" where
  "fillOnSoroban x env si w =
     (case outside (xe_getAccount env w) of
        (Inl e, w1) \<Rightarrow> (Inl e, w1)
      | (Inr _, w1) \<Rightarrow>
          (case (hexToBytes (hash si), xe_addressWord env (xe_address env), bigint_of_string (minDestAmount (intent_of si))) of
             (Inl e, _, _) \<Rightarrow> (Inl e, w1)
           | (Inr _, Inl e, _) \<Rightarrow> (Inl e, w1)
           | (Inr _, Inr _, Inl e) \<Rightarrow> (Inl e, w1)
           | (Inr hashBytes, Inr solverWord, Inr amount) \<Rightarrow>
               (case quoteFillConfirmedFee env (sourceChainId (intent_of si)) w1 of
                  (Inl e, w2) \<Rightarrow> (Inl e, w2)
                | (Inr quotedFee, w2) \<Rightarrow>
                    (case lzFeeBufferStroops x of
                       None \<Rightarrow> (Inl (js_exception ''TypeError''), w2)
                     | Some buffer \<Rightarrow>
                         (case outside (xe_simulateFill env solverWord hashBytes amount (quotedFee + buffer) w2) of
                            (Inl e, w3) \<Rightarrow> (Inl e, w3)
                          | (Inr FillRejected, w3) \<Rightarrow> (Inl DefiniteFailureError, w3)
                          | (Inr FillPrepared, w3) \<Rightarrow>
                              outside (xe_submitFill env solverWord hashBytes amount (quotedFee + buffer) w3))))))"

section \<open>A fill\<close>

text \<open>
  \<open>None\<close> is fuel that ran out in the wait. Of the settlement's fee nothing is known: the submission gives
  a text.
\<close>

definition fill_from ::
  "nat \<Rightarrow> 'w executor \<Rightarrow> 'w executor_env \<Rightarrow> 'a signed_intent_scheme \<Rightarrow> fill_stage \<Rightarrow> 'w
     \<Rightarrow> ((failure, hex \<times> fill_fees) result \<times> 'w) option" where
  "fill_from fuel x env si stage w =
     (let finish = (\<lambda>gas fee w. case fillOnSoroban x env si w of
              (Inl e, w1) \<Rightarrow> (Inl e, w1)
            | (Inr tx, w1) \<Rightarrow>
                (case setStage x (hash si) StageDone w1 of
                   (Inl e, w2) \<Rightarrow> (Inl e, w2)
                 | (Inr _, w2) \<Rightarrow> (Inr (tx, \<lparr>sourceGasWei = gas, lzFeeWei = fee, stellarFeeStroops = 0\<rparr>), w2)));
          waiting = (\<lambda>lockTx gas fee w. case wait_stage fuel x env si lockTx w of
              None \<Rightarrow> None
            | Some (Inl e, w1) \<Rightarrow> Some (Inl e, w1)
            | Some (Inr _, w1) \<Rightarrow> Some (finish gas fee w1))
      in case stage of
           StageLock \<Rightarrow>
             (case lock_stage x env si w of
                (Inl e, w1) \<Rightarrow> Some (Inl e, w1)
              | (Inr (lockTx, gas, fee), w1) \<Rightarrow> waiting lockTx gas fee w1)
         | StageWait \<Rightarrow> waiting None 0 0 w
         | StageFill \<Rightarrow> Some (finish 0 0 w)
         | _ \<Rightarrow> Some (Inl (js_exception ''Error''), w))"

definition fill ::
  "nat \<Rightarrow> 'w executor \<Rightarrow> 'w executor_env \<Rightarrow> 'a signed_intent_scheme \<Rightarrow> 'w
     \<Rightarrow> ((failure, hex \<times> fill_fees option) result \<times> 'w) option" where
  "fill fuel x env si w =
     (case checkFillStatus env (hash si) w of
        (settlement, w1) \<Rightarrow>
          if settlement \<noteq> None \<and> the settlement \<noteq> [] then
            (case setStage x (hash si) StageDone w1 of
               (Inl e, w2) \<Rightarrow> Some (Inl e, w2)
             | (Inr _, w2) \<Rightarrow> Some (Inr (the settlement, None), w2))
          else
            (case (case loadStage x of None \<Rightarrow> (Inr None, w1) | Some load \<Rightarrow> outside (load (hash si) w1)) of
               (Inl e, w2) \<Rightarrow> Some (Inl e, w2)
             | (Inr st, w2) \<Rightarrow>
                 (case fill_from fuel x env si (option_default st StageLock) w2 of
                    None \<Rightarrow> None
                  | Some (Inl e, w3) \<Rightarrow> Some (Inl e, w3)
                  | Some (Inr (tx, fees), w3) \<Rightarrow> Some (Inr (tx, Some fees), w3))))"

section \<open>What the stages can give\<close>

lemma outside_cases: "outside r = (Inl e, w') \<Longrightarrow> \<exists>t. e = Failure t" "outside r = (Inr a, w') \<longleftrightarrow> r = (Inr a, w')"
  by (cases r; cases "fst r"; auto simp: outside_def)+

lemma js_exception_plain [simp]: "js_exception t \<noteq> DefiniteFailureError" "DefiniteFailureError \<noteq> js_exception t"
  by (simp_all add: js_exception_def)

lemma hexToBytes_plain: "hexToBytes h = Inl e \<Longrightarrow> e \<noteq> DefiniteFailureError"
  by (auto simp: hexToBytes_def Let_def split: if_splits)

lemma readStatus_gives:
  "executor_readStatus env h w = (Inr v, w') \<Longrightarrow> \<forall>t. v \<noteq> JStr t"
  "executor_readStatus env h w = (Inl e, w') \<Longrightarrow> e \<noteq> DefiniteFailureError"
  by (auto simp: executor_readStatus_def dest: hexToBytes_plain outside_cases(1)
      split: prod.splits sum.splits option.splits)

lemma checkFillStatus_none: "fst (checkFillStatus env h w) = None"
  by (auto simp: checkFillStatus_def isSettled_def dest: readStatus_gives(1)
      split: prod.splits sum.splits bool.splits)

lemma waitForRegistration_fails:
  "waitForRegistration k env si w = Some (r, w') \<Longrightarrow> \<exists>e. r = Inl e \<and> e \<noteq> DefiniteFailureError"
proof (induction k arbitrary: w)
  case (Suc k)
  obtain v w1 where st: "executor_readStatus env (hash si) w = (v, w1)" by fastforce
  show ?case
  proof (cases v)
    case (Inl e)
    then show ?thesis using Suc.prems st readStatus_gives(2) [of env "hash si" w e w1] by auto
  next
    case (Inr variant)
    then have "\<forall>t. variant \<noteq> JStr t" using readStatus_gives(1) st by metis
    then show ?thesis using Suc st Inr
      by (auto dest: outside_cases(1) split: prod.splits sum.splits if_splits)
  qed
qed simp

lemma setStage_plain: "setStage x h st w = (Inl e, w') \<Longrightarrow> e \<noteq> DefiniteFailureError"
  by (auto simp: setStage_def dest: outside_cases(1) split: option.splits)

lemma wait_stage_fails:
  "wait_stage k x env si lockTx w = Some (r, w') \<Longrightarrow> \<exists>e. r = Inl e \<and> e \<noteq> DefiniteFailureError"
  by (auto simp: wait_stage_def waitForSourceConfirmations_def dest: waitForRegistration_fails outside_cases(1)
      split: prod.splits sum.splits option.splits if_splits)

lemma fill_from_lock:
  "fill_from k x env si StageLock w =
     (case lock_stage x env si w of
        (Inl e, w1) \<Rightarrow> Some (Inl e, w1)
      | (Inr (lockTx, gas, fee), w1) \<Rightarrow>
          (case wait_stage k x env si lockTx w1 of
             None \<Rightarrow> None
           | Some (r, w2) \<Rightarrow> Some (Inl (projl r), w2)))"
  by (auto simp: fill_from_def Let_def dest: wait_stage_fails split: prod.splits sum.splits option.splits)

lemma fresh_fill:
  "loadStage x = None \<Longrightarrow> fill k x env si w =
     (case checkFillStatus env (hash si) w of
        (_, w1) \<Rightarrow>
          (case lock_stage x env si w1 of
             (Inl e, w2) \<Rightarrow> Some (Inl e, w2)
           | (Inr (lockTx, _, _), w2) \<Rightarrow>
               (case wait_stage k x env si lockTx w2 of
                  None \<Rightarrow> None
                | Some (r, w3) \<Rightarrow> Some (Inl (projl r), w3))))"
  using checkFillStatus_none [of env "hash si" w]
  by (auto simp: fill_def fill_from_lock option_default_def split: prod.splits sum.splits option.splits)


section \<open>Locks sent\<close>

text \<open>A count of the locks the escrow has accepted: only an accepted lock transaction changes it.\<close>

definition counts_locks :: "'w executor \<Rightarrow> 'w executor_env \<Rightarrow> ('w \<Rightarrow> nat) \<Rightarrow> bool" where
  "counts_locks x env n \<longleftrightarrow>
     (\<forall>h w. n (snd (xe_readLocks env h w)) = n w) \<and> (\<forall>b w. n (snd (xe_simulateStatus env b w)) = n w)
     \<and> (\<forall>m a w. n (snd (xe_quoteFee env m a w)) = n w) \<and> (\<forall>h c w. n (snd (xe_waitReceipt env h c w)) = n w)
     \<and> (\<forall>ms w. n (snd (xe_sleep env ms w)) = n w) \<and> (\<forall>w. n (snd (xe_getAccount env w)) = n w)
     \<and> (\<forall>persist h st w. persistStage x = Some persist \<longrightarrow> n (snd (persist h st w)) = n w)
     \<and> (\<forall>m s v w. n (snd (xe_writeLock env m s v w)) = (case fst (xe_writeLock env m s v w) of Inl _ \<Rightarrow> n w | Inr _ \<Rightarrow> Suc (n w)))"

lemma outside_world: "outside c = (r, w') \<Longrightarrow> w' = snd c"
  by (auto simp: outside_def split: prod.splits sum.splits)

lemma counts_calls:
  assumes "counts_locks x env n"
  shows "outside (xe_readLocks env h w) = (r1, w1) \<Longrightarrow> n w1 = n w"
    and "outside (xe_simulateStatus env b w) = (r2, w1) \<Longrightarrow> n w1 = n w"
    and "outside (xe_quoteFee env m a w) = (r3, w1) \<Longrightarrow> n w1 = n w"
    and "outside (xe_waitReceipt env h c w) = (r4, w1) \<Longrightarrow> n w1 = n w"
    and "outside (xe_sleep env ms w) = (r5, w1) \<Longrightarrow> n w1 = n w"
    and "outside (xe_getAccount env w) = (r6, w1) \<Longrightarrow> n w1 = n w"
  using assms by (auto simp: counts_locks_def dest: outside_world)

lemma counts_stage: "counts_locks x env n \<Longrightarrow> setStage x h st w = (r, w1) \<Longrightarrow> n w1 = n w"
  by (auto simp: setStage_def counts_locks_def dest!: outside_world split: option.splits)

lemma counts_write:
  "counts_locks x env n \<Longrightarrow> xe_writeLock env m sig v w = (r, w1) \<Longrightarrow> n w1 = (case r of Inl _ \<Rightarrow> n w | Inr _ \<Rightarrow> Suc (n w))"
  unfolding counts_locks_def by (metis fst_conv snd_conv)

lemma readStatus_count:
  assumes "counts_locks x env n" and "executor_readStatus env h w = (r, w')"
  shows "n w' = n w"
  using assms(2)
  by (auto simp: executor_readStatus_def dest!: counts_calls(2,6) [OF assms(1)] split: prod.splits sum.splits option.splits)

lemma waitForRegistration_count:
  assumes "counts_locks x env n"
  shows "waitForRegistration k env si w = Some (r, w') \<Longrightarrow> n w' = n w"
proof (induction k arbitrary: w)
  case (Suc k)
  obtain v w1 where st: "executor_readStatus env (hash si) w = (v, w1)" by fastforce
  obtain z w2 where sl: "outside (xe_sleep env REGISTRATION_POLL_INTERVAL_MS w1) = (z, w2)" by fastforce
  have n: "n w1 = n w" "n w2 = n w1" using readStatus_count [OF assms st] counts_calls(5) [OF assms sl] .
  show ?case using Suc st sl n by (cases v; cases z) (auto split: if_splits)
qed simp

lemma wait_stage_count:
  assumes "counts_locks x env n" and "wait_stage k x env si lockTx w = Some (r, w')"
  shows "n w' = n w"
  using assms(2)
  by (auto simp: wait_stage_def waitForSourceConfirmations_def
      dest!: waitForRegistration_count [OF assms(1)] counts_calls(4) [OF assms(1)] counts_stage [OF assms(1)]
      split: prod.splits sum.splits option.splits if_splits)

lemma lockOnEvm_definite:
  "lockOnEvm env si w = (Inl DefiniteFailureError, w') \<Longrightarrow>
     \<exists>m sig fee w1. outside (xe_quoteFee env m (xe_address env) w) = (Inr fee, w1)
       \<and> xe_writeLock env m sig fee w1 = (Inl Reverted, w')"
  by (auto simp: lockOnEvm_def dest: outside_cases(1) split: prod.splits sum.splits lock_failure.splits)

lemma lockOnEvm_count:
  assumes "counts_locks x env n" and "lockOnEvm env si w = (r, w')"
  shows "n w \<le> n w' \<and> n w' \<le> Suc (n w) \<and> (r = Inl DefiniteFailureError \<longrightarrow> n w' = n w)"
proof (intro conjI impI)
  show "n w \<le> n w'" "n w' \<le> Suc (n w)"
    using assms(2)
    by (auto simp: lockOnEvm_def dest!: counts_calls(3,4) [OF assms(1)] counts_write [OF assms(1)]
        split: prod.splits sum.splits lock_failure.splits)
next
  assume "r = Inl DefiniteFailureError"
  then show "n w' = n w"
    using lockOnEvm_definite [of env si w w'] assms(2)
    by (auto dest!: counts_calls(3) [OF assms(1)] counts_write [OF assms(1)])
qed

lemma lock_stage_count:
  assumes "counts_locks x env n" and "lock_stage x env si w = (r, w')"
  shows "n w \<le> n w' \<and> n w' \<le> Suc (n w) \<and> (r = Inl DefiniteFailureError \<longrightarrow> n w' = n w)
    \<and> (\<forall>l w1. xe_readLocks env (hash si) w = (Inr l, w1) \<and> lk_solver l \<noteq> zeroAddress \<longrightarrow> n w' = n w)"
proof -
  obtain g w1 where g: "executor_getLock env (hash si) w = (g, w1)" by fastforce
  have n1: "n w1 = n w"
    using g by (auto simp: executor_getLock_def Let_def dest!: counts_calls(1) [OF assms(1)] split: prod.splits sum.splits)
  have locked: "el_user x = AbiAddress (lk_solver l)" if "xe_readLocks env (hash si) w = (Inr l, v)" "g = Inr x" for x l v
    using g that by (auto simp: executor_getLock_def locks_outputs_def Let_def outside_def)
  obtain r2 w2 where l: "lockOnEvm env si w1 = (r2, w2)" by fastforce
  note n2 = lockOnEvm_count [OF assms(1) l]
  have plain: "setStage x (hash si) st v = (Inl DefiniteFailureError, v') \<Longrightarrow> False" for st v v'
    using setStage_plain by metis
  show ?thesis
  proof (cases g)
    case (Inl e)
    then have "e \<noteq> DefiniteFailureError"
      using g by (auto simp: executor_getLock_def Let_def dest: outside_cases(1) split: prod.splits sum.splits)
    then show ?thesis using assms(2) g Inl n1 by (auto simp: lock_stage_def Let_def)
  next
    case (Inr lck)
    show ?thesis
    proof (cases "el_user lck = AbiAddress zeroAddress")
      case True
      then have free: "\<forall>l w1. xe_readLocks env (hash si) w = (Inr l, w1) \<longrightarrow> lk_solver l = zeroAddress"
        using locked Inr by auto
      show ?thesis
      proof (cases r2)
        case (Inl e)
        then show ?thesis using assms(2) g Inr True l n1 n2 free by (auto simp: lock_stage_def Let_def)
      next
        case ok: (Inr out)
        obtain z w3 where z: "setStage x (hash si) StageWait w2 = (z, w3)" by fastforce
        have "n w3 = n w2" using counts_stage [OF assms(1) z] .
        moreover have "w' = w3" "r = Inl DefiniteFailureError \<Longrightarrow> False"
          using assms(2) g Inr True l ok z plain by (auto simp: lock_stage_def Let_def split: prod.splits sum.splits)
        ultimately show ?thesis using n1 n2 free by auto
      qed
    next
      case False
      then have "n w' = n w1" using assms(2) g Inr
        by (auto simp: lock_stage_def Let_def dest!: counts_stage [OF assms(1)]
            split: abi_value.splits if_splits prod.splits sum.splits)
      then show ?thesis using n1 by simp
    qed
  qed
qed

section \<open>The wait ends\<close>

text \<open>The clock does not run back over a call, and a sleep takes time.\<close>

definition clock_runs :: "'w executor_env \<Rightarrow> bool" where
  "clock_runs env \<longleftrightarrow>
     (\<forall>w. xe_now env w \<le> xe_now env (snd (xe_getAccount env w)))
     \<and> (\<forall>b w. xe_now env w \<le> xe_now env (snd (xe_simulateStatus env b w)))
     \<and> (\<forall>ms w. xe_now env w < xe_now env (snd (xe_sleep env ms w)))"

lemma clock_calls:
  assumes "clock_runs env"
  shows "outside (xe_getAccount env w) = (r1, w1) \<Longrightarrow> xe_now env w \<le> xe_now env w1"
    and "outside (xe_simulateStatus env b w) = (r2, w1) \<Longrightarrow> xe_now env w \<le> xe_now env w1"
    and "outside (xe_sleep env ms w) = (r3, w1) \<Longrightarrow> xe_now env w < xe_now env w1"
  using assms by (auto simp: clock_runs_def dest: outside_world)

lemma readStatus_clock:
  assumes "clock_runs env" and "executor_readStatus env h w = (r, w')"
  shows "xe_now env w \<le> xe_now env w'"
  using assms(2)
  by (auto simp: executor_readStatus_def dest!: clock_calls(1,2) [OF assms(1)] split: prod.splits sum.splits option.splits)

lemma waitForRegistration_returns:
  assumes "clock_runs env"
  shows "nat (deadline (intent_of si) - FILL_HEADROOM_SECS - xe_now env w) < k \<Longrightarrow>
    \<exists>r. waitForRegistration k env si w = Some r"
proof (induction k arbitrary: w)
  case (Suc k)
  obtain v w1 where st: "executor_readStatus env (hash si) w = (v, w1)" by fastforce
  obtain z w2 where sl: "outside (xe_sleep env REGISTRATION_POLL_INTERVAL_MS w1) = (z, w2)" by fastforce
  have t: "xe_now env w \<le> xe_now env w1" "xe_now env w1 < xe_now env w2"
    using readStatus_clock [OF assms st] clock_calls(3) [OF assms sl] .
  show ?case
  proof (cases "deadline (intent_of si) - FILL_HEADROOM_SECS \<le> xe_now env w1")
    case True
    then show ?thesis using st by (cases v) auto
  next
    case False
    then have "nat (deadline (intent_of si) - FILL_HEADROOM_SECS - xe_now env w2) < k" using Suc.prems t by linarith
    then show ?thesis using Suc.IH False st sl by (cases v; cases z) auto
  qed
qed simp

lemma wait_stage_returns: "clock_runs env \<Longrightarrow> \<exists>k r. wait_stage k x env si lockTx w = Some r"
proof -
  assume c: "clock_runs env"
  obtain z w1 where z: "(case lockTx of None \<Rightarrow> (Inr (), w) | Some tx \<Rightarrow> waitForSourceConfirmations x env tx w) = (z, w1)"
    by (meson surj_pair)
  obtain k r where "waitForRegistration k env si w1 = Some r" using waitForRegistration_returns [OF c] by blast
  then show ?thesis unfolding wait_stage_def z by (intro exI [of _ k]) (auto split: sum.split prod.split)
qed

section \<open>The solver with this executor\<close>

text \<open>A fill that is still waiting when the fuel ends counts as failed.\<close>

definition executing :: "nat \<Rightarrow> 'w executor \<Rightarrow> 'w executor_env \<Rightarrow> 'w solver_env \<Rightarrow> 'w solver_env" where
  "executing fuel x xe env =
     env\<lparr>ev_fill := \<lambda>r w.
       (case fill fuel x xe r w of
          None \<Rightarrow> (Inl (js_exception ''Error''), w)
        | Some (Inl e, w') \<Rightarrow> (Inl e, w')
        | Some (Inr (tx, _), w') \<Rightarrow> (Inr tx, w'))\<rparr>"

definition unwon :: "solver_state \<Rightarrow> bool" where
  "unwon s \<longleftrightarrow> (\<forall>h tx. FillWon h tx \<notin> set (events s))"

definition never_fills :: "'w solver_env \<Rightarrow> bool" where
  "never_fills env \<longleftrightarrow> (\<forall>r w. \<exists>e. fst (ev_fill env r w) = Inl e)"

lemma unwon_emit [simp]: "unwon (emit e s) \<longleftrightarrow> unwon s \<and> (\<forall>h tx. e \<noteq> FillWon h tx)"
  by (auto simp: unwon_def)

lemma unwon_fields [simp]:
  "unwon (s\<lparr>st_seen := a\<rparr>) = unwon s" "unwon (s\<lparr>verificationCache := b\<rparr>) = unwon s" "unwon (s\<lparr>retryState := c\<rparr>) = unwon s"
  "unwon (s\<lparr>inFlight := d\<rparr>) = unwon s" "unwon (s\<lparr>implausibleTriggers := e\<rparr>) = unwon s"
  "unwon (s\<lparr>unrecoverableFailures := e\<rparr>) = unwon s" "unwon (s\<lparr>st_backoff := f\<rparr>) = unwon s"
  "unwon (s\<lparr>st_readiness := g\<rparr>) = unwon s" "unwon (retire now h dl s) = unwon s"
  "unwon (settle_reservation out i m s) = unwon s"
  by (simp_all add: unwon_def settle_reservation_def)

lemma unwon_scheduleRetry [simp]: "unwon (scheduleRetry now h dl s) = unwon s"
  by (simp add: scheduleRetry_def Let_def split: prod.split)

lemma attempt_fill_unwon: "never_fills env \<Longrightarrow> unwon s \<Longrightarrow> attempt_fill env r m dl s w = (res, s', w') \<Longrightarrow> unwon s'"
proof -
  assume a: "never_fills env" "unwon s" "attempt_fill env r m dl s w = (res, s', w')"
  obtain e w1 where f: "ev_fill env r w = (Inl e, w1)" using a(1) unfolding never_fills_def by (metis prod.collapse)
  obtain retry rl where g: "retry_get (ev_clock env w) (hash r) (retryState s) = (retry, rl)" by fastforce
  show ?thesis using a(2,3) unfolding attempt_fill_def Let_def f g by (cases e) auto
qed

lemma skip_intent_unwon: "unwon s \<Longrightarrow> skip_intent env h d dl s w = (res, s', w') \<Longrightarrow> unwon s'"
  by (auto simp: skip_intent_def Let_def split: if_splits option.splits)

lemma cached_verify_unwon: "unwon s \<Longrightarrow> cached_verify env r s w = (res, s', w') \<Longrightarrow> unwon s'"
  by (auto simp: cached_verify_def Let_def split: prod.splits option.splits sum.splits)

lemma consider_record_unwon:
  assumes "never_fills env" and "unwon s" and "consider_record env r s w = (res, s', w')"
  shows "unwon s'"
  using assms(2,3)
  by (auto simp: consider_record_def Let_def
      dest: cached_verify_unwon [OF assms(2)] skip_intent_unwon attempt_fill_unwon [OF assms(1)]
      split: sum.splits prod.splits bool.splits if_splits)

lemma consider_all_unwon:
  assumes "never_fills env"
  shows "unwon s \<Longrightarrow> consider_all env now rs c m s w = (res, s', w') \<Longrightarrow> unwon s'"
proof (induction rs arbitrary: c m s w)
  case (Cons r rs)
  obtain known sn where h: "seen_has (ev_clock env w) (hash r) (st_seen s) = (known, sn)" by fastforce
  obtain retry rl where g: "retry_get (ev_clock env w) (hash r) (retryState s) = (retry, rl)" by fastforce
  obtain v s3 w3 where v: "consider_record env r (s\<lparr>st_seen := sn, retryState := rl\<rparr>) w = (v, s3, w3)" by (metis prod_cases3)
  have "unwon s3" using consider_record_unwon [OF assms _ v] Cons.prems(1) by simp
  then show ?case
    using Cons.prems Cons.IH [of "s\<lparr>st_seen := sn\<rparr>" c m w] Cons.IH [of "s\<lparr>st_seen := sn, retryState := rl\<rparr>" c m w] Cons.IH [of s3]
    by (cases v) (auto simp: h g v Let_def split: if_splits)
qed simp

lemma tick_unwon: "never_fills env \<Longrightarrow> unwon s \<Longrightarrow> tick env s w = (res, s', w') \<Longrightarrow> unwon s'"
proof -
  assume a: "never_fills env" "unwon s" "tick env s w = (res, s', w')"
  have work: "unwon s2" if "work_pending env rs s1 w1 = (r, s2, w2)" "unwon s1" for rs s1 w1 r s2 w2
    using that by (auto simp: work_pending_def dest: consider_all_unwon [OF a(1)] split: prod.splits sum.splits if_splits)
  obtain l w1 where l: "listPending (va_isAddress (ev_viem env)) (ev_client env) (ev_fetch env) Pending
      DEFAULT_MAX_PAGES DEFAULT_CLIENT_LIST_LIMIT w = (l, w1)" by fastforce
  have "unwon (evict_and_flush (ev_clock env w) s)" using a(2) by (simp add: evict_and_flush_def)
  then show ?thesis using a(3) work unfolding tick_def l Let_def
    by (cases l) (auto split: sdk_error.splits)
qed

lemma solver_run_unwon:
  assumes "never_fills env"
  shows "unwon s \<Longrightarrow> solver_run n env running rng sleep s w = (res, s', w') \<Longrightarrow> unwon s'"
proof (induction n arbitrary: s w)
  case (Suc n)
  obtain out s1 w1 where t: "tick env s w = (out, s1, w1)" by (metis prod_cases3)
  obtain r s2 where a: "after_tick out s1 = (r, s2)" by fastforce
  have "unwon s1" using tick_unwon [OF assms Suc.prems(1) t] .
  then have "unwon s2" using a by (auto simp: after_tick_def note_failure_def Let_def split: sum.splits if_splits)
  then show ?case using Suc t a by (cases r) (auto split: if_splits)
qed simp

lemma fill_returns:
  assumes "loadStage x = None" and "clock_runs env"
  shows "\<exists>k r w'. fill k x env si w = Some (r, w')"
proof -
  obtain c w1 where c: "checkFillStatus env (hash si) w = (c, w1)" by fastforce
  obtain l w2 where l: "lock_stage x env si w1 = (l, w2)" by fastforce
  show ?thesis
  proof (cases l)
    case (Inl e)
    then show ?thesis by (simp add: fresh_fill [OF assms(1)] c l)
  next
    case (Inr o1)
    obtain tx g f where o1: "o1 = (tx, g, f)" by (metis prod_cases3)
    obtain k r where "wait_stage k x env si tx w2 = Some r" using wait_stage_returns [OF assms(2)] by blast
    then show ?thesis using Inr o1 by (intro exI [of _ k]) (cases r, simp add: fresh_fill [OF assms(1)] c l)
  qed
qed

lemma new_executor_fresh [simp]: "loadStage (new_executor config) = None"
  by (simp add: new_executor_def)

section \<open>Properties\<close>

text \<open>
  C8. A fill ends, and it never ends well: with a clock that runs, every fill of the executor as it is
  constructed returns, after its wait at the latest, and no behaviour of the chains makes it return a
  settlement. The status it waits for is a text, and what it reads is a boolean.
\<close>

theorem fill_ends_in_failure:
  "(clock_runs env \<longrightarrow> (\<exists>k r w'. fill k (new_executor config) env si w = Some (r, w')))
   \<and> fill k (new_executor config) env si w \<noteq> Some (Inr out, w')"
proof (intro conjI impI)
  show "clock_runs env \<Longrightarrow> \<exists>k r w'. fill k (new_executor config) env si w = Some (r, w')"
    by (rule fill_returns) simp_all
  show "fill k (new_executor config) env si w \<noteq> Some (Inr out, w')"
    by (auto simp: fresh_fill split: prod.splits sum.splits option.splits)
qed


text \<open>
  A solver takes its own lock for a stranger's: when the escrow holds a lock by this solver for
  another user, the fill reads the user as the owner, marks the intent as lost to another solver and ends in
  a definite failure. A fill that failed after locking is thus never resumed.
\<close>

theorem own_lock_taken_for_foreign:
  assumes "\<forall>v. \<exists>v'. xe_readLocks env (hash si) v = (Inr l, v')" and "lk_solver l = xe_address env"
    and "xe_address env \<noteq> zeroAddress" and "to_lower (lk_user l) \<noteq> to_lower (xe_address env)"
  shows "\<exists>w'. fill k (new_executor config) env si w = Some (Inl DefiniteFailureError, w')"
proof -
  note fresh = new_executor_fresh [of config]
  obtain c w1 where c: "checkFillStatus env (hash si) w = (c, w1)" by fastforce
  obtain w2 where "xe_readLocks env (hash si) w1 = (Inr l, w2)" using assms(1) by blast
  then have "lock_stage (new_executor config) env si w1 = (Inl DefiniteFailureError, w2)"
    using assms(2-4)
    by (simp add: lock_stage_def executor_getLock_def outside_def locks_outputs_def setStage_def new_executor_def Let_def)
  then show ?thesis by (simp add: fresh_fill [OF fresh] c)
qed

text \<open>
  A solver with this executor never fills: whatever the mempool offers and however the chains answer,
  and however long it runs, no fill is ever recorded as won.
\<close>

theorem solver_never_fills:
  fixes xe :: "'w executor_env"
  assumes "solver_run m (executing k (new_executor config) xe env) running rng sleep (new_solver cfg) w = (res, s', w')"
  shows "FillWon h tx \<notin> set (events s')"
proof -
  have "never_fills (executing k (new_executor config) xe env)"
    unfolding never_fills_def
  proof (intro allI)
    fix r :: intent_record and w
    show "\<exists>e. fst (ev_fill (executing k (new_executor config) xe env) r w) = Inl e"
      using fresh_fill [of "new_executor config" k xe r w]
      by (auto simp: executing_def new_executor_def split: prod.splits sum.splits option.splits)
  qed
  moreover have "unwon (new_solver cfg)" by (simp add: unwon_def new_solver_def)
  ultimately have "unwon s'" using solver_run_unwon assms by metis
  then show ?thesis by (simp add: unwon_def)
qed

text \<open>
  A chain whose state is its clock and the number of locks it accepted; the escrow reports the given
  solver for every intent. The settings ask for a buffer and two confirmations.
\<close>

definition chain_executor :: "address \<Rightarrow> ('w \<Rightarrow> int) \<Rightarrow> ('w \<Rightarrow> 'w) \<Rightarrow> ('w \<Rightarrow> 'w) \<Rightarrow> 'w executor_env" where
  "chain_executor owner now later locked =
     \<lparr>xe_address = ''0xb0b'', xe_now = now,
      xe_readLocks = \<lambda>h w. (Inr \<lparr>lk_solver = owner, lk_user = ''0xa11ce'', lk_asset = ''0xc'', lk_amount = 5,
          lk_minDestAmount = 5, lk_deadline = 9, lk_released = False, lk_refunded = False\<rparr>, w),
      xe_simulateStatus = \<lambda>b w. (Inr (Some (scv_u32 0)), w), xe_quoteFee = \<lambda>m a w. (Inr 1, w),
      xe_writeLock = \<lambda>m s v w. (Inr ''0x77'', locked w), xe_waitReceipt = \<lambda>h c w. (Inr (None, None), w),
      xe_sleep = \<lambda>ms w. (Inr (), later w), xe_addressWord = \<lambda>a. Inr (replicate 32 0),
      xe_getAccount = \<lambda>w. (Inr 5, w), xe_simulateQuote = \<lambda>eid w. (Inr (Some (scv_u32 1)), w),
      xe_bigintOf = \<lambda>v. Inr 1,
      xe_simulateFill = \<lambda>a b c d w. (Inr FillPrepared, w), xe_submitFill = \<lambda>a b c d w. (Inr ''0x99'', w)\<rparr>"

definition sample_executor :: "address \<Rightarrow> (int \<times> nat) executor_env" where
  "sample_executor owner =
     chain_executor owner fst (\<lambda>w. (fst w + 1, snd w)) (\<lambda>w. (fst w, Suc (snd w)))"

definition sample_settings :: "(int \<times> nat) executor" where
  "sample_settings = \<lparr>lzFeeBufferStroops = Some 100, sourceConfirmations = Some 2, persistStage = None, loadStage = None\<rparr>"

definition plain_settings :: "int executor" where
  "plain_settings = \<lparr>lzFeeBufferStroops = Some 100, sourceConfirmations = Some 2, persistStage = None, loadStage = None\<rparr>"

lemma sample_executor_ok:
  "clock_runs (sample_executor owner)" "counts_locks (new_executor c) (sample_executor owner) snd"
  by (simp_all add: clock_runs_def counts_locks_def sample_executor_def chain_executor_def new_executor_def)

theorem fill_ends_in_failure_witness:
  "\<exists>k r w'. fill k (new_executor sample_settings) (sample_executor zeroAddress) pending_record (0, 0) = Some (r, w')"
  using fill_ends_in_failure [of "sample_executor zeroAddress" sample_settings pending_record "(0, 0)"] sample_executor_ok(1)
  by blast


theorem own_lock_taken_for_foreign_witness:
  "\<exists>w'. fill 3 (new_executor sample_settings) (sample_executor ''0xb0b'') pending_record (0, 0)
     = Some (Inl DefiniteFailureError, w')"
proof (rule own_lock_taken_for_foreign)
  show "\<forall>v. \<exists>v'. xe_readLocks (sample_executor ''0xb0b'') (hash pending_record) v =
      (Inr \<lparr>lk_solver = ''0xb0b'', lk_user = ''0xa11ce'', lk_asset = ''0xc'', lk_amount = 5, lk_minDestAmount = 5,
            lk_deadline = 9, lk_released = False, lk_refunded = False\<rparr>, v')"
    by (simp add: sample_executor_def chain_executor_def)
qed (simp_all add: sample_executor_def chain_executor_def zeroAddress_def to_lower_def lower_char_def is_upper_def char_code_def)

theorem solver_never_fills_witness:
  "\<exists>res s w. solver_run 3 (executing 9 (new_executor plain_settings)
        (chain_executor zeroAddress id (\<lambda>w. w + 1) id) (sample_solver_env (Inr True)))
        (\<lambda>_. True) (\<lambda>_. 0) (\<lambda>_ w. w + 1) (new_solver sample_solver_config) 1000000 = (res, s, w)
     \<and> FillWon sample_digest ''tx'' \<notin> set (events s)"
proof -
  obtain res s w where r: "solver_run 3 (executing 9 (new_executor plain_settings)
        (chain_executor zeroAddress id (\<lambda>w. w + 1) id) (sample_solver_env (Inr True)))
        (\<lambda>_. True) (\<lambda>_. 0) (\<lambda>_ w. w + 1) (new_solver sample_solver_config) 1000000 = (res, s, w)"
    by (metis prod_cases3)
  show ?thesis using solver_never_fills [OF r] r by blast
qed

end
