(* ===== verification/Relayer_Config.thy ===== *)
theory Relayer_Config
  imports Config_Values Sdk_Client
begin

text \<open>
  \<^verbatim>\<open>relayer/src/config.ts\<close> and the check before the start of \<^verbatim>\<open>relayer/src/cli.ts\<close>: the relayer's settings,
  read from the environment, and the two gates that keep the development relayer, which signs for the
  trusted endpoint, off the public network. URL parsing (\<open>new URL\<close>) is a parameter. Settings that the
  code does not require to be integers stay JavaScript numbers.
\<close>

section \<open>The code\<close>

datatype relayer_mode = DevMode | ExecutorMode

record relayer_config =
  rc_evmRpcUrl :: string
  rc_stellarRpcUrl :: string
  rc_escrowAddress :: address
  rc_settlementContractId :: string
  rc_confirmations :: int
  rc_pollIntervalMs :: jsnum
  rc_startBlock :: jsnum
  rc_sourceEid :: jsnum
  rc_stellarEid :: jsnum
  rc_stellarNetwork :: string
  rc_signerSecret :: string
  rc_mempoolUrl :: "string option"
  rc_mempoolStatusToken :: "string option"
  rc_txTimeoutSeconds :: int
  rc_checkpointFile :: string
  rc_deadLetterFile :: string
  rc_healthPort :: int
  rc_healthHost :: string
  rc_metricsToken :: "string option"
  rc_readinessStaleMs :: int
  rc_maxLagBlocks :: int
  rc_relayerMode :: relayer_mode
  rc_allowEndpointImpersonation :: bool

datatype relayer_config_error = Setting config_error | PubnetGate

definition PUBNET_PASSPHRASE :: string where
  "PUBNET_PASSPHRASE = ''Public Global Stellar Network ; September 2015''"

text \<open>\<open>SOROBAN_CONTRACT_RE\<close> and \<open>STELLAR_SECRET_RE\<close>: the first letter and 55 base-32 characters.\<close>

definition base32_char :: "char \<Rightarrow> bool" where
  "base32_char c \<longleftrightarrow> is_upper c \<or> c \<in> set ''234567''"

definition strkey_form :: "char \<Rightarrow> string \<Rightarrow> bool" where
  "strkey_form c s \<longleftrightarrow> (case s of [] \<Rightarrow> False | d # t \<Rightarrow> d = c \<and> length t = 55 \<and> list_all base32_char t)"

definition truthy_flag :: "string \<Rightarrow> bool" where
  "truthy_flag s \<longleftrightarrow> to_lower s \<in> {''1'', ''true'', ''yes'', ''on''}"

text \<open>\<open>env.NAME || fallback\<close>\<close>

definition env_or :: "env \<Rightarrow> string \<Rightarrow> string \<Rightarrow> string" where
  "env_or env nm fallback = (case env nm of None \<Rightarrow> fallback | Some s \<Rightarrow> if s = '''' then fallback else s)"

definition env_truthy :: "env \<Rightarrow> string \<Rightarrow> string option" where
  "env_truthy env nm = (case env nm of None \<Rightarrow> None | Some s \<Rightarrow> if s = '''' then None else Some s)"

text \<open>A required text: its problems and its value.\<close>

definition text_setting :: "(string \<Rightarrow> bool) \<Rightarrow> string \<Rightarrow> string \<Rightarrow> config_error list \<times> string" where
  "text_setting ok nm raw =
     ((if raw = '''' then [Required nm] else if \<not> ok raw then [Invalid nm raw] else []), raw)"

text \<open>
  The value under the new name or, when that is not set at all, under the old one; a warning when
  the old name is used. A new name that is set to the empty text hides the old one.
\<close>

definition renamed_setting :: "env \<Rightarrow> string \<Rightarrow> string \<Rightarrow> config_warning list \<times> string" where
  "renamed_setting env nm oldName =
     ((if env_truthy env nm = None \<and> env_truthy env oldName \<noteq> None then [Deprecated oldName nm] else []),
      option_default (env nm) (option_default (env oldName) ''''))"

definition eid_setting :: "env \<Rightarrow> string \<Rightarrow> config_error list \<times> jsnum" where
  "eid_setting env nm =
     (let x = js_number (option_default (env nm) '''')
      in ((if env_truthy env nm = None \<or> x = NaN \<or> js_le x (Num 0) then [Required nm] else []), x))"

text \<open>\<open>Number(env.NAME ?? deflt)\<close> with the check that it is a number the test accepts.\<close>

definition checked_number :: "(jsnum \<Rightarrow> bool) \<Rightarrow> env \<Rightarrow> string \<Rightarrow> jsnum \<Rightarrow> config_error list \<times> jsnum" where
  "checked_number ok env nm deflt =
     (let x = (case env nm of None \<Rightarrow> deflt | Some raw \<Rightarrow> js_number raw)
      in ((if \<not> ok x then [Invalid nm (option_default (env nm) ''undefined'')] else []), x))"

fun three_times :: "jsnum \<Rightarrow> jsnum" where
  "three_times (Num q) = Num (q * 3)"
| "three_times x = x"

definition int_from :: "int \<Rightarrow> jsnum \<Rightarrow> bool" where
  "int_from lo x \<longleftrightarrow> is_integer x \<and> \<not> js_lt x (num_of_int lo)"

definition mode_setting :: "env \<Rightarrow> config_error list \<times> relayer_mode" where
  "mode_setting env =
     (let raw = to_lower (trim (option_default (env ''PERIHELION_RELAYER_MODE'') ''dev''))
      in if raw = ''dev'' then ([], DevMode)
         else if raw = ''executor'' then ([], ExecutorMode)
         else ([Invalid ''PERIHELION_RELAYER_MODE'' (option_default (env ''PERIHELION_RELAYER_MODE'') '''')], DevMode))"

definition impersonation_allowed :: "env \<Rightarrow> bool" where
  "impersonation_allowed env = truthy_flag (trim (option_default (env ''PERIHELION_ALLOW_ENDPOINT_IMPERSONATION'') ''''))"

definition pubnet_gate :: "relayer_mode \<Rightarrow> string \<Rightarrow> bool \<Rightarrow> relayer_config_error list" where
  "pubnet_gate mode network allow =
     (if mode = DevMode \<and> network = PUBNET_PASSPHRASE \<and> \<not> allow then [PubnetGate] else [])"

definition loadRelayerConfig ::
  "(string \<Rightarrow> bool) \<Rightarrow> env \<Rightarrow> config_warning list \<times> (relayer_config_error list, relayer_config) result" where
  "loadRelayerConfig isUrl env =
     (let (e1, escrow) = text_setting (hex_string 40) ''PERIHELION_ESCROW_ADDRESS''
                           (option_default (env ''PERIHELION_ESCROW_ADDRESS'') '''');
          (w2, rawContract) = renamed_setting env ''PERIHELION_SETTLEMENT_CONTRACT_ID'' ''PERIHELION_SETTLEMENT_CONTRACT'';
          (e2, contract) = text_setting (strkey_form (CHR ''C'')) ''PERIHELION_SETTLEMENT_CONTRACT_ID'' rawContract;
          (e3, evm) = text_setting isUrl ''PERIHELION_EVM_RPC_URL'' (option_default (env ''PERIHELION_EVM_RPC_URL'') '''');
          (w4, rawRpc) = renamed_setting env ''PERIHELION_SOROBAN_RPC_URL'' ''PERIHELION_STELLAR_RPC_URL'';
          (e4, rpc) = text_setting isUrl ''PERIHELION_SOROBAN_RPC_URL'' rawRpc;
          (e5, srcEid) = eid_setting env ''PERIHELION_SOURCE_EID'';
          (e6, dstEid) = eid_setting env ''PERIHELION_STELLAR_EID'';
          (e7, network) = text_setting (\<lambda>_. True) ''STELLAR_NETWORK'' (option_default (env ''STELLAR_NETWORK'') '''');
          (e8, secret) = text_setting (strkey_form (CHR ''S'')) ''SIGNER_SECRET'' (option_default (env ''SIGNER_SECRET'') '''');
          (e9, confs) = checked_number (int_from 0) env ''PERIHELION_CONFIRMATIONS'' (Num 6);
          (e10, poll) = checked_number (\<lambda>x. x \<noteq> NaN \<and> \<not> js_le x (Num 0)) env ''PERIHELION_POLL_INTERVAL_MS'' (Num 5000);
          (e11, start) = checked_number (\<lambda>x. x \<noteq> NaN \<and> \<not> js_lt x (Num 0)) env ''PERIHELION_START_BLOCK'' (Num 0);
          (e12, timeout) = checked_number (int_from 1) env ''PERIHELION_TX_TIMEOUT_SECONDS'' (Num 30);
          (e13, port) = checked_number (\<lambda>x. int_from 1 x \<and> \<not> js_lt (Num 65535) x) env ''PERIHELION_HEALTH_PORT'' (Num 8080);
          (e14, stale) = checked_number (int_from 1) env ''PERIHELION_READINESS_STALE_MS'' (three_times poll);
          (e15, lag) = checked_number (int_from 0) env ''PERIHELION_MAX_LAG_BLOCKS'' (Num 500);
          (e16, mode) = mode_setting env;
          allow = impersonation_allowed env;
          gate = pubnet_gate mode network allow;
          errors = map Setting (e1 @ e2 @ e3 @ e4 @ e5 @ e6 @ e7 @ e8 @ e9 @ e10 @ e11 @ e12 @ e13 @ e14 @ e15 @ e16) @ gate
      in (w2 @ w4,
          if errors \<noteq> [] then Inl errors
          else Inr \<lparr>rc_evmRpcUrl = evm, rc_stellarRpcUrl = rpc, rc_escrowAddress = escrow,
                    rc_settlementContractId = contract, rc_confirmations = int_of_num confs,
                    rc_pollIntervalMs = poll, rc_startBlock = start, rc_sourceEid = srcEid, rc_stellarEid = dstEid,
                    rc_stellarNetwork = network, rc_signerSecret = secret,
                    rc_mempoolUrl = env_truthy env ''PERIHELION_MEMPOOL_URL'',
                    rc_mempoolStatusToken = env_truthy env ''PERIHELION_MEMPOOL_STATUS_TOKEN'',
                    rc_txTimeoutSeconds = int_of_num timeout,
                    rc_checkpointFile = env_or env ''PERIHELION_CHECKPOINT_FILE'' ''./.perihelion-relayer-checkpoint.json'',
                    rc_deadLetterFile = env_or env ''PERIHELION_DEAD_LETTER_FILE'' ''./.perihelion-relayer-dead-letter.json'',
                    rc_healthPort = int_of_num port,
                    rc_healthHost = env_or env ''PERIHELION_HEALTH_HOST'' ''127.0.0.1'',
                    rc_metricsToken = env_truthy env ''PERIHELION_METRICS_TOKEN'',
                    rc_readinessStaleMs = int_of_num stale, rc_maxLagBlocks = int_of_num lag,
                    rc_relayerMode = mode, rc_allowEndpointImpersonation = allow\<rparr>))"

text \<open>
  \<open>assertSafeRelayerMode\<close> of the command line reads the mode again, without trimming it and without
  the default, and its own override.
\<close>

definition assertSafeRelayerMode :: "env \<Rightarrow> relayer_config \<Rightarrow> (unit, unit) result" where
  "assertSafeRelayerMode env c =
     (let mode = to_lower (option_default (env ''PERIHELION_RELAYER_MODE'') '''');
          override = to_lower (option_default (env ''PERIHELION_ALLOW_PUBNET_DEV_RELAYER'') '''');
          network = to_lower (rc_stellarNetwork c);
          isPubnet = (str_includes network ''pubnet'' \<or> str_includes network ''public'')
      in if mode \<noteq> ''dev'' then Inr ()
         else if \<not> isPubnet then Inr ()
         else if override = ''1'' \<or> override = ''true'' \<or> override = ''yes'' then Inr ()
         else Inl ())"

text \<open>The start of \<open>main\<close>: the problems of the configuration, none of them when the second gate refuses.\<close>

definition relayer_main :: "(string \<Rightarrow> bool) \<Rightarrow> env \<Rightarrow> (relayer_config_error list, relayer_config) result" where
  "relayer_main isUrl env =
     (case snd (loadRelayerConfig isUrl env) of
        Inl errors \<Rightarrow> Inl errors
      | Inr c \<Rightarrow> (case assertSafeRelayerMode env c of Inl _ \<Rightarrow> Inl [] | Inr _ \<Rightarrow> Inr c))"

section \<open>Facts about the code\<close>

lemma text_setting_ok: "text_setting ok nm raw = ([], v) \<Longrightarrow> v \<noteq> '''' \<and> ok v"
  by (auto simp: text_setting_def split: if_splits)

lemma eid_setting_ok: "eid_setting env nm = ([], x) \<Longrightarrow> x \<noteq> NaN \<and> \<not> js_le x (Num 0)"
  by (auto simp: eid_setting_def Let_def split: if_splits)

lemma checked_number_ok: "checked_number ok env nm d = ([], x) \<Longrightarrow> ok x"
  by (auto simp: checked_number_def Let_def split: if_splits)

lemma int_from_le: "int_from lo x \<Longrightarrow> lo \<le> int_of_num x"
  by (cases x) (auto simp: int_from_def is_integer_def int_of_num_def elim!: Ints_cases)

lemma positive_not_le: "x \<noteq> NaN \<Longrightarrow> \<not> js_le x (Num 0) \<longleftrightarrow> js_lt (Num 0) x"
  by (cases x) auto

definition relayer_config_ok :: "(string \<Rightarrow> bool) \<Rightarrow> relayer_config \<Rightarrow> bool" where
  "relayer_config_ok isUrl c \<longleftrightarrow>
     hex_string 40 (rc_escrowAddress c) \<and> strkey_form (CHR ''C'') (rc_settlementContractId c)
     \<and> strkey_form (CHR ''S'') (rc_signerSecret c) \<and> isUrl (rc_evmRpcUrl c) \<and> isUrl (rc_stellarRpcUrl c)
     \<and> rc_stellarNetwork c \<noteq> '''' \<and> js_lt (Num 0) (rc_sourceEid c) \<and> js_lt (Num 0) (rc_stellarEid c)
     \<and> 0 \<le> rc_confirmations c \<and> js_lt (Num 0) (rc_pollIntervalMs c) \<and> js_le (Num 0) (rc_startBlock c)
     \<and> 1 \<le> rc_txTimeoutSeconds c \<and> 1 \<le> rc_healthPort c \<and> rc_healthPort c \<le> 65535
     \<and> 1 \<le> rc_readinessStaleMs c \<and> 0 \<le> rc_maxLagBlocks c
     \<and> rc_metricsToken c \<noteq> Some '''' \<and> rc_healthHost c \<noteq> ''''"

definition gate_open :: "env \<Rightarrow> relayer_config \<Rightarrow> bool" where
  "gate_open env c \<longleftrightarrow>
     (rc_relayerMode c = DevMode \<and> rc_stellarNetwork c = PUBNET_PASSPHRASE \<longrightarrow> impersonation_allowed env)"

lemma env_truthy_nonempty: "env_truthy env nm \<noteq> Some ''''"
  by (simp add: env_truthy_def split: option.split)

lemma env_or_nonempty: "d \<noteq> '''' \<Longrightarrow> env_or env nm d \<noteq> ''''"
  by (simp add: env_or_def split: option.split)

lemma no_errors: "(u, if errors \<noteq> [] then Inl errors else Inr x) = (ws, Inr c) \<Longrightarrow> errors = [] \<and> c = x"
  by (simp split: if_splits)

lemma loadRelayerConfig_ok:
  assumes "loadRelayerConfig isUrl env = (ws, Inr c)"
  shows "relayer_config_ok isUrl c \<and> gate_open env c"
proof -
  obtain e1 v1 where o1:
    "text_setting (hex_string 40) ''PERIHELION_ESCROW_ADDRESS'' (option_default (env ''PERIHELION_ESCROW_ADDRESS'') '''') = (e1, v1)" by fastforce
  obtain w2 r2 where o2:
    "renamed_setting env ''PERIHELION_SETTLEMENT_CONTRACT_ID'' ''PERIHELION_SETTLEMENT_CONTRACT'' = (w2, r2)" by fastforce
  obtain e2 v2 where o3: "text_setting (strkey_form (CHR ''C'')) ''PERIHELION_SETTLEMENT_CONTRACT_ID'' r2 = (e2, v2)" by fastforce
  obtain e3 v3 where o4:
    "text_setting isUrl ''PERIHELION_EVM_RPC_URL'' (option_default (env ''PERIHELION_EVM_RPC_URL'') '''') = (e3, v3)" by fastforce
  obtain w4 r4 where o5:
    "renamed_setting env ''PERIHELION_SOROBAN_RPC_URL'' ''PERIHELION_STELLAR_RPC_URL'' = (w4, r4)" by fastforce
  obtain e4 v4 where o6: "text_setting isUrl ''PERIHELION_SOROBAN_RPC_URL'' r4 = (e4, v4)" by fastforce
  obtain e5 v5 where o7: "eid_setting env ''PERIHELION_SOURCE_EID'' = (e5, v5)" by fastforce
  obtain e6 v6 where o8: "eid_setting env ''PERIHELION_STELLAR_EID'' = (e6, v6)" by fastforce
  obtain e7 v7 where o9:
    "text_setting (\<lambda>_. True) ''STELLAR_NETWORK'' (option_default (env ''STELLAR_NETWORK'') '''') = (e7, v7)" by fastforce
  obtain e8 v8 where o10:
    "text_setting (strkey_form (CHR ''S'')) ''SIGNER_SECRET'' (option_default (env ''SIGNER_SECRET'') '''') = (e8, v8)" by fastforce
  obtain e9 v9 where o11: "checked_number (int_from 0) env ''PERIHELION_CONFIRMATIONS'' (Num 6) = (e9, v9)" by fastforce
  obtain e10 v10 where o12:
    "checked_number (\<lambda>x. x \<noteq> NaN \<and> \<not> js_le x (Num 0)) env ''PERIHELION_POLL_INTERVAL_MS'' (Num 5000) = (e10, v10)" by fastforce
  obtain e11 v11 where o13:
    "checked_number (\<lambda>x. x \<noteq> NaN \<and> \<not> js_lt x (Num 0)) env ''PERIHELION_START_BLOCK'' (Num 0) = (e11, v11)" by fastforce
  obtain e12 v12 where o14: "checked_number (int_from 1) env ''PERIHELION_TX_TIMEOUT_SECONDS'' (Num 30) = (e12, v12)" by fastforce
  obtain e13 v13 where o15:
    "checked_number (\<lambda>x. int_from 1 x \<and> \<not> js_lt (Num 65535) x) env ''PERIHELION_HEALTH_PORT'' (Num 8080) = (e13, v13)" by fastforce
  obtain e15 v15 where o16: "checked_number (int_from 0) env ''PERIHELION_MAX_LAG_BLOCKS'' (Num 500) = (e15, v15)" by fastforce
  obtain e16 v16 where o17: "mode_setting env = (e16, v16)" by fastforce
  obtain e14 v14 where o18:
    "checked_number (int_from 1) env ''PERIHELION_READINESS_STALE_MS'' (three_times v10) = (e14, v14)" by fastforce
  note o = o1 o2 o3 o4 o5 o6 o7 o8 o9 o10 o11 o12 o13 o14 o15 o16 o17 o18
  let ?errors = "map Setting (e1 @ e2 @ e3 @ e4 @ e5 @ e6 @ e7 @ e8 @ e9 @ e10 @ e11 @ e12 @ e13 @ e14 @ e15 @ e16)
    @ pubnet_gate v16 v7 (impersonation_allowed env)"
  note l = assms [unfolded loadRelayerConfig_def Let_def o(1-17) prod.case o18]
  note checked = no_errors [OF l]
  then have none: "?errors = []" by blast
  then have e: "e1 = []" "e2 = []" "e3 = []" "e4 = []" "e5 = []" "e6 = []" "e7 = []" "e8 = []" "e9 = []"
    "e10 = []" "e11 = []" "e12 = []" "e13 = []" "e14 = []" "e15 = []" "e16 = []"
    and gate: "v16 = DevMode \<and> v7 = PUBNET_PASSPHRASE \<longrightarrow> impersonation_allowed env"
    by (simp_all add: pubnet_gate_def split: if_splits)
  note c = checked [THEN conjunct2]
  note o = o [unfolded e]
  have texts: "hex_string 40 v1" "strkey_form (CHR ''C'') v2" "isUrl v3" "isUrl v4" "v7 \<noteq> ''''" "strkey_form (CHR ''S'') v8"
    using text_setting_ok [OF o(1)] text_setting_ok [OF o(3)] text_setting_ok [OF o(4)] text_setting_ok [OF o(6)]
      text_setting_ok [OF o(9)] text_setting_ok [OF o(10)] by simp_all
  have port: "1 \<le> int_of_num v13" "int_of_num v13 \<le> 65535"
    using checked_number_ok [OF o(15)] int_from_le [of 1 v13] at_most_int [of v13 65535]
    by (simp_all add: int_from_def)
  have ints: "0 \<le> int_of_num v9" "1 \<le> int_of_num v12" "1 \<le> int_of_num v14" "0 \<le> int_of_num v15"
    using checked_number_ok [OF o(11)] checked_number_ok [OF o(14)] checked_number_ok [OF o(18)] checked_number_ok [OF o(16)]
    by (simp_all add: int_from_le)
  have nums: "js_lt (Num 0) v5" "js_lt (Num 0) v6" "js_lt (Num 0) v10"
    using eid_setting_ok [OF o(7)] eid_setting_ok [OF o(8)] checked_number_ok [OF o(12)] positive_not_le by blast+
  have "js_le (Num 0) v11" using checked_number_ok [OF o(13)] by (cases v11) auto
  with texts port ints nums gate show ?thesis
    unfolding relayer_config_ok_def gate_open_def c
    by (simp add: env_truthy_nonempty env_or_nonempty)
qed

section \<open>Properties\<close>

text \<open>
  C10. The relayer that signs for the trusted endpoint never starts against the public network by
  accident. When the relayer starts, its settings are usable (addresses and keys well formed, ports, delays
  and counts in range), and against the public network in the development mode its operator has set the
  override of the configuration; when the mode is asked for by name, the override of the command line as
  well, for every network that calls itself public.
\<close>

theorem pubnet_start_is_deliberate:
  assumes "relayer_main isUrl env = Inr c"
  shows "relayer_config_ok isUrl c
    \<and> (rc_relayerMode c = DevMode \<and> rc_stellarNetwork c = PUBNET_PASSPHRASE \<longrightarrow> impersonation_allowed env)
    \<and> (env ''PERIHELION_RELAYER_MODE'' = Some ''dev'' \<and> str_includes (to_lower (rc_stellarNetwork c)) ''public''
        \<longrightarrow> (\<exists>v. env ''PERIHELION_ALLOW_PUBNET_DEV_RELAYER'' = Some v \<and> to_lower v \<in> {''1'', ''true'', ''yes''}))"
proof (intro conjI)
  obtain ws where l: "loadRelayerConfig isUrl env = (ws, Inr c)"
    using assms by (cases "loadRelayerConfig isUrl env") (auto simp: relayer_main_def split: sum.splits)
  show "relayer_config_ok isUrl c"
    "rc_relayerMode c = DevMode \<and> rc_stellarNetwork c = PUBNET_PASSPHRASE \<longrightarrow> impersonation_allowed env"
    using loadRelayerConfig_ok [OF l] by (simp_all add: gate_open_def)
  have lower: "to_lower '''' = ''''" "to_lower ''dev'' = ''dev''"
    by (simp_all add: to_lower_def lower_char_def is_upper_def char_code_def)
  have gate: "assertSafeRelayerMode env c = Inr ()"
    using assms l by (auto simp: relayer_main_def split: sum.splits)
  show "env ''PERIHELION_RELAYER_MODE'' = Some ''dev'' \<and> str_includes (to_lower (rc_stellarNetwork c)) ''public''
        \<longrightarrow> (\<exists>v. env ''PERIHELION_ALLOW_PUBNET_DEV_RELAYER'' = Some v \<and> to_lower v \<in> {''1'', ''true'', ''yes''})"
    using gate lower by (cases "env ''PERIHELION_ALLOW_PUBNET_DEV_RELAYER''")
      (auto simp: assertSafeRelayerMode_def Let_def option_default_def split: if_splits)
qed

text \<open>Settings of a development relayer for the public network, with both overrides.\<close>

definition sample_relayer_env :: env where
  "sample_relayer_env = [''PERIHELION_ESCROW_ADDRESS'' \<mapsto> ''0x'' @ replicate 40 (CHR ''3''),
     ''PERIHELION_SETTLEMENT_CONTRACT_ID'' \<mapsto> CHR ''C'' # replicate 55 (CHR ''A''),
     ''PERIHELION_EVM_RPC_URL'' \<mapsto> ''https://evm.example'', ''PERIHELION_SOROBAN_RPC_URL'' \<mapsto> ''https://soroban.example'',
     ''PERIHELION_SOURCE_EID'' \<mapsto> ''101'', ''PERIHELION_STELLAR_EID'' \<mapsto> ''202'',
     ''STELLAR_NETWORK'' \<mapsto> PUBNET_PASSPHRASE, ''SIGNER_SECRET'' \<mapsto> CHR ''S'' # replicate 55 (CHR ''A''),
     ''PERIHELION_RELAYER_MODE'' \<mapsto> ''dev'', ''PERIHELION_ALLOW_ENDPOINT_IMPERSONATION'' \<mapsto> ''true'',
     ''PERIHELION_ALLOW_PUBNET_DEV_RELAYER'' \<mapsto> ''yes'']"

lemma sample_relayer_values:
  "sample_relayer_env ''PERIHELION_ESCROW_ADDRESS'' = Some (''0x'' @ replicate 40 (CHR ''3''))"
  "sample_relayer_env ''PERIHELION_SETTLEMENT_CONTRACT_ID'' = Some (CHR ''C'' # replicate 55 (CHR ''A''))"
  "sample_relayer_env ''PERIHELION_SETTLEMENT_CONTRACT'' = None"
  "sample_relayer_env ''PERIHELION_EVM_RPC_URL'' = Some ''https://evm.example''"
  "sample_relayer_env ''PERIHELION_SOROBAN_RPC_URL'' = Some ''https://soroban.example''"
  "sample_relayer_env ''PERIHELION_STELLAR_RPC_URL'' = None"
  "sample_relayer_env ''PERIHELION_SOURCE_EID'' = Some ''101''" "sample_relayer_env ''PERIHELION_STELLAR_EID'' = Some ''202''"
  "sample_relayer_env ''STELLAR_NETWORK'' = Some PUBNET_PASSPHRASE"
  "sample_relayer_env ''SIGNER_SECRET'' = Some (CHR ''S'' # replicate 55 (CHR ''A''))"
  "sample_relayer_env ''PERIHELION_RELAYER_MODE'' = Some ''dev''"
  "sample_relayer_env ''PERIHELION_ALLOW_ENDPOINT_IMPERSONATION'' = Some ''true''"
  "sample_relayer_env ''PERIHELION_ALLOW_PUBNET_DEV_RELAYER'' = Some ''yes''"
  by (simp_all add: sample_relayer_env_def)

lemma sample_relayer_unset:
  "sample_relayer_env ''PERIHELION_CONFIRMATIONS'' = None" "sample_relayer_env ''PERIHELION_POLL_INTERVAL_MS'' = None"
  "sample_relayer_env ''PERIHELION_START_BLOCK'' = None" "sample_relayer_env ''PERIHELION_TX_TIMEOUT_SECONDS'' = None"
  "sample_relayer_env ''PERIHELION_HEALTH_PORT'' = None" "sample_relayer_env ''PERIHELION_READINESS_STALE_MS'' = None"
  "sample_relayer_env ''PERIHELION_MAX_LAG_BLOCKS'' = None"
  by (simp_all add: sample_relayer_env_def)

lemma sample_eids: "js_number ''101'' = Num 101" "js_number ''202'' = Num 202"
proof -
  have d: "digit_string ''101''" "digit_string ''202''" by (simp_all add: digit_string_def is_digit_def char_code_def)
  have "nat_of_digits ''101'' = 101" "nat_of_digits ''202'' = 202" by (simp_all add: nat_of_digits_def digit_val_def char_code_def)
  then show "js_number ''101'' = Num 101" "js_number ''202'' = Num 202"
    using js_number_digits [OF d(1)] js_number_digits [OF d(2)] by simp_all
qed

lemma sample_checks:
  "int_from 0 (Num 6)" "int_from 1 (Num 30)" "int_from 1 (Num 8080)" "int_from 1 (Num 15000)" "int_from 0 (Num 500)"
  using is_integer_num_of_int [of 6] is_integer_num_of_int [of 30] is_integer_num_of_int [of 8080]
    is_integer_num_of_int [of 15000] is_integer_num_of_int [of 500]
  by (simp_all add: int_from_def)

lemma sample_relayer_starts: "\<exists>c. relayer_main (\<lambda>_. True) sample_relayer_env = Inr c"
proof -
  have hex: "hex_string 40 (''0x'' @ replicate 40 (CHR ''3''))"
    by (simp add: hex_string_def list_all_iff is_hex_def is_hex_lower_def is_digit_def char_code_def)
  have keys: "strkey_form c (c # replicate 55 (CHR ''A''))" for c
    by (simp add: strkey_form_def list_all_iff base32_char_def is_upper_def char_code_def)
  have dev: "trim ''dev'' = ''dev''" "to_lower ''dev'' = ''dev''" "trim ''true'' = ''true''" "to_lower ''true'' = ''true''"
    "to_lower ''yes'' = ''yes''"
    by (simp_all add: trim_id is_space_def char_code_def to_lower_def lower_char_def is_upper_def)
  obtain ws r where l: "loadRelayerConfig (\<lambda>_. True) sample_relayer_env = (ws, Inr r)"
    using hex keys
    by (simp add: loadRelayerConfig_def text_setting_def renamed_setting_def eid_setting_def checked_number_def
        mode_setting_def impersonation_allowed_def truthy_flag_def pubnet_gate_def env_truthy_def sample_relayer_values
        sample_relayer_unset sample_eids sample_checks dev option_default_def PUBNET_PASSPHRASE_def)
  moreover have "assertSafeRelayerMode sample_relayer_env r = Inr ()"
    by (simp add: assertSafeRelayerMode_def sample_relayer_values option_default_def dev Let_def)
  ultimately show ?thesis by (simp add: relayer_main_def)
qed

theorem pubnet_start_is_deliberate_witness:
  "\<exists>c. relayer_main (\<lambda>_. True) sample_relayer_env = Inr c \<and> relayer_config_ok (\<lambda>_. True) c"
  using sample_relayer_starts pubnet_start_is_deliberate [of "\<lambda>_. True" sample_relayer_env] by blast

end
