(* ===== verification/Relayer_Health.thy ===== *)
theory Relayer_Health
  imports Relayer_Safety Relayer_Wire Relayer_Config
begin

text \<open>
  The probes and metrics of the relayer (\<^verbatim>\<open>relayer/src/health-server.ts\<close>): what each path answers, from the
  readiness and the counters that the relay loop keeps. The HTTP server of node is not modelled: a request
  is its path and its \<open>authorization\<close> header.
\<close>

section \<open>The code\<close>

datatype probe_body = JsonBody jval | TextBody "string list"

record probe_response =
  pb_status :: int
  pb_body :: probe_body

text \<open>The options; \<open>None\<close> is an option that is not given.\<close>

record health_options =
  ho_stalenessThresholdMs :: "int option"
  ho_maxLagBlocks :: "int option"
  ho_host :: "string option"
  ho_metricsToken :: "string option"

record health_server =
  hs_listening :: bool
  hs_port :: int
  hs_stalenessThresholdMs :: int
  hs_maxLagBlocks :: int
  hs_host :: string
  hs_metricsToken :: "string option"

definition new_health_server :: "int \<Rightarrow> health_options \<Rightarrow> health_server" where
  "new_health_server port opts =
     \<lparr>hs_listening = False, hs_port = port,
      hs_stalenessThresholdMs = option_default (ho_stalenessThresholdMs opts) 15000,
      hs_maxLagBlocks = option_default (ho_maxLagBlocks opts) 500,
      hs_host = option_default (ho_host opts) ''127.0.0.1'', hs_metricsToken = ho_metricsToken opts\<rparr>"

text \<open>\<open>start\<close> tells whether it warned of an address other than the loopback.\<close>

definition health_start :: "health_server \<Rightarrow> bool \<times> health_server" where
  "health_start hs =
     (hs_host hs \<noteq> ''127.0.0.1'' \<and> hs_host hs \<noteq> ''localhost'', hs\<lparr>hs_listening := True\<rparr>)"

definition health_stop :: "health_server \<Rightarrow> health_server" where
  "health_stop hs = hs\<lparr>hs_listening := False\<rparr>"

text \<open>\<open>const [scheme, token] = header.split(" ")\<close>: further parts are ignored.\<close>

definition isAuthorized :: "health_server \<Rightarrow> string option \<Rightarrow> bool" where
  "isAuthorized hs authorization =
     (let parts = split_on (CHR '' '') (option_default authorization '''');
          scheme = parts ! 0;
          token = (if 1 < length parts then parts ! 1 else '''')
      in case hs_metricsToken hs of
           None \<Rightarrow> False
         | Some expected \<Rightarrow>
             if scheme \<noteq> ''Bearer'' \<or> token = '''' \<or> expected = '''' then False
             else length (utf8_bytes expected) = length (utf8_bytes token) \<and> utf8_bytes expected = utf8_bytes token)"

definition probe_json :: "int \<Rightarrow> jval \<Rightarrow> probe_response" where
  "probe_json st body = \<lparr>pb_status = st, pb_body = JsonBody body\<rparr>"

definition handleHealthz :: probe_response where
  "handleHealthz = probe_json 200 (JObj [(''status'', JStr ''ok'')])"

definition readiness_reasons :: "health_server \<Rightarrow> relay_readiness \<Rightarrow> int \<Rightarrow> string list" where
  "readiness_reasons hs rd now =
     (if \<not> rd_lastTickOk rd \<or> rd_lastTickAt rd = 0 then [''no successful tick yet'']
      else let age = now - rd_lastTickAt rd
           in if hs_stalenessThresholdMs hs < age
              then [''last tick was '' @ int_string age @ ''ms ago (threshold: ''
                      @ int_string (hs_stalenessThresholdMs hs) @ ''ms)'']
              else [])
     @ (if hs_maxLagBlocks hs < rd_lag rd
        then [''cursor lag '' @ int_string (rd_lag rd) @ '' blocks exceeds max '' @ int_string (hs_maxLagBlocks hs)]
        else [])"

definition handleReadyz :: "health_server \<Rightarrow> relay_readiness \<Rightarrow> int \<Rightarrow> probe_response" where
  "handleReadyz hs rd now =
     (let reasons = readiness_reasons hs rd now;
          figures = [(''cursor'', JNum (num_of_int (rd_cursor rd))), (''head'', JNum (num_of_int (rd_head rd))),
                     (''lag'', JNum (num_of_int (rd_lag rd))), (''lastTickAt'', JNum (num_of_int (rd_lastTickAt rd)))]
      in if reasons \<noteq> []
         then probe_json 503 (JObj ([(''status'', JStr ''not ready''), (''reasons'', JArr (map JStr reasons))] @ figures))
         else probe_json 200 (JObj ((''status'', JStr ''ready'') # figures)))"

text \<open>A metric: its name, its help text, its type and its value.\<close>

definition metric_lines :: "string \<Rightarrow> string \<Rightarrow> string \<Rightarrow> int \<Rightarrow> string list" where
  "metric_lines nm help ty v =
     [''# HELP '' @ nm @ '' '' @ help, ''# TYPE '' @ nm @ '' '' @ ty, nm @ '' '' @ int_string v, '''']"

definition handleMetrics :: "relay_metrics \<Rightarrow> relay_readiness \<Rightarrow> probe_response" where
  "handleMetrics m rd =
     \<lparr>pb_status = 200, pb_body = TextBody
        (metric_lines ''relayer_delivered_total'' ''Messages successfully delivered to Soroban'' ''counter'' (int (rm_delivered m))
         @ metric_lines ''relayer_already_delivered_total''
             ''Messages found already delivered on the destination (idempotency short-circuit)'' ''counter''
             (int (rm_alreadyDelivered m))
         @ metric_lines ''relayer_failed_total'' ''Delivery attempts that threw an error'' ''counter'' (int (rm_failed m))
         @ metric_lines ''relayer_dead_lettered_total'' ''Messages that exhausted the retry budget'' ''counter''
             (int (rm_deadLettered m))
         @ metric_lines ''relayer_max_retry_depth'' ''Maximum retry depth seen across all messages'' ''gauge''
             (int (rm_maxRetryDepth m))
         @ metric_lines ''relayer_cursor_lag_blocks'' ''Blocks between confirmed head and relayer cursor'' ''gauge'' (rd_lag rd)
         @ metric_lines ''relayer_cursor_block'' ''Current relay cursor (last confirmed block processed)'' ''gauge'' (rd_cursor rd)
         @ metric_lines ''relayer_confirmed_head_block'' ''Confirmed head (latest block with sufficient confirmations)''
             ''gauge'' (rd_confirmedHead rd)
         @ metric_lines ''relayer_head_block'' ''Latest chain head seen'' ''gauge'' (rd_head rd)
         @ metric_lines ''relayer_last_tick_timestamp_seconds'' ''Unix timestamp of last successful tick'' ''gauge''
             (if 0 < rd_lastTickAt rd then rd_lastTickAt rd div 1000 else 0))\<rparr>"

definition health_handle ::
  "health_server \<Rightarrow> relayer_state \<Rightarrow> int \<Rightarrow> string option \<Rightarrow> string option \<Rightarrow> probe_response" where
  "health_handle hs s now url authorization =
     (let path = option_default url ''/''
      in if path = ''/healthz'' then handleHealthz
         else if path = ''/readyz'' then handleReadyz hs (rl_readiness s) now
         else if path = ''/metrics'' then
           (if (case hs_metricsToken hs of None \<Rightarrow> False | Some t \<Rightarrow> t \<noteq> '''') \<and> \<not> isAuthorized hs authorization
            then probe_json 401 (JObj [(''error'', JStr ''unauthorized'')])
            else handleMetrics (rl_metrics s) (rl_readiness s))
         else probe_json 404 (JObj [(''error'', JStr ''not found'')]))"

text \<open>The server as \<^verbatim>\<open>cli.ts\<close> builds it from the configuration.\<close>

definition configured_health :: "relayer_config \<Rightarrow> health_server" where
  "configured_health c =
     new_health_server (rc_healthPort c)
       \<lparr>ho_stalenessThresholdMs = Some (rc_readinessStaleMs c), ho_maxLagBlocks = Some (rc_maxLagBlocks c),
        ho_host = Some (rc_healthHost c), ho_metricsToken = rc_metricsToken c\<rparr>"

section \<open>Tokens\<close>

lemma utf8_char_head: "utf8_char c @ s = utf8_char d @ t \<Longrightarrow> c = d \<and> s = t"
proof -
  assume eq: "utf8_char c @ s = utf8_char d @ t"
  have b: "char_code c < 256" "char_code d < 256" by (simp_all add: char_code_def)
  have u: "unat (of_nat n :: 8 word) = n" if "n < 256" for n :: nat
    using that by (simp add: unat_of_nat take_bit_nat_eq_self)
  have lead: "192 + char_code c div 64 < 256" "128 + char_code c mod 64 < 256"
    "192 + char_code d div 64 < 256" "128 + char_code d mod 64 < 256" using b by linarith+
  have code: "char_code c = char_code d \<Longrightarrow> c = d" by (simp add: char_code_def)
  have inj: "n = m" if "(of_nat n :: 8 word) = of_nat m" "n < 256" "m < 256" for n m
    using that u by metis
  show ?thesis
  proof (cases "char_code c < 128"; cases "char_code d < 128")
    assume "char_code c < 128" "char_code d < 128"
    then show ?thesis using eq inj b code by (auto simp: utf8_char_def Let_def)
  next
    assume c: "char_code c < 128" and d: "\<not> char_code d < 128"
    then have "char_code c = 192 + char_code d div 64" using eq inj b lead by (auto simp: utf8_char_def Let_def)
    then show ?thesis using c by simp
  next
    assume c: "\<not> char_code c < 128" and d: "char_code d < 128"
    then have "192 + char_code c div 64 = char_code d" using eq inj b lead by (auto simp: utf8_char_def Let_def)
    then show ?thesis using d by simp
  next
    assume "\<not> char_code c < 128" "\<not> char_code d < 128"
    then have "192 + char_code c div 64 = 192 + char_code d div 64" "128 + char_code c mod 64 = 128 + char_code d mod 64"
      and st: "s = t" using eq inj lead by (auto simp: utf8_char_def Let_def)
    then have "char_code c = char_code d" by (metis add_left_cancel div_mult_mod_eq)
    then show ?thesis using code st by simp
  qed
qed

lemma utf8_char_nonempty [simp]: "utf8_char c \<noteq> []"
  by (simp add: utf8_char_def Let_def)

lemma utf8_bytes_inject: "utf8_bytes s = utf8_bytes t \<longleftrightarrow> s = t"
proof (induction s arbitrary: t)
  case Nil
  then show ?case by (cases t) (simp_all add: utf8_bytes_def)
next
  case (Cons c s)
  show ?case
  proof (cases t)
    case (Cons d u)
    have "utf8_bytes (c # s) = utf8_bytes t \<longleftrightarrow> utf8_char c @ utf8_bytes s = utf8_char d @ utf8_bytes u"
      by (simp add: Cons utf8_bytes_def)
    also have "\<dots> \<longleftrightarrow> c = d \<and> s = u" using utf8_char_head Cons.IH by metis
    finally show ?thesis using Cons by simp
  qed (simp add: utf8_bytes_def)
qed

lemma split_on_head:
  "split_on sep s =
     takeWhile (\<lambda>c. c \<noteq> sep) s # (case dropWhile (\<lambda>c. c \<noteq> sep) s of [] \<Rightarrow> [] | _ # t \<Rightarrow> split_on sep t)"
  by (induction s) simp_all

text \<open>What the check accepts: the token, without a space in it, after \<open>Bearer\<close>, and whatever follows a space.\<close>

definition bears :: "string \<Rightarrow> string \<Rightarrow> bool" where
  "bears tok header \<longleftrightarrow>
     tok \<noteq> '''' \<and> CHR '' '' \<notin> set tok
     \<and> (\<exists>rest. header = ''Bearer '' @ tok @ rest \<and> (rest = [] \<or> hd rest = CHR '' ''))"

lemma second_part:
  assumes "hd (split_on sep s) = a" and "1 < length (split_on sep s)" and "split_on sep s ! 1 = b"
  shows "sep \<notin> set b \<and> (\<exists>rest. s = a @ sep # b @ rest \<and> (rest = [] \<or> hd rest = sep))"
proof -
  have a: "a = takeWhile (\<lambda>c. c \<noteq> sep) s" using assms(1) by (subst (asm) split_on_head) simp
  obtain d t where t: "dropWhile (\<lambda>c. c \<noteq> sep) s = d # t" using assms(2)
    by (subst (asm) split_on_head) (auto split: list.splits)
  then have d: "d = sep" using hd_dropWhile [of "\<lambda>c. c \<noteq> sep" s] by simp
  have "b = split_on sep t ! 0" using assms(3) t by (subst (asm) split_on_head) simp
  then have b: "b = takeWhile (\<lambda>c. c \<noteq> sep) t" by (subst (asm) split_on_head) simp
  let ?rest = "dropWhile (\<lambda>c. c \<noteq> sep) t"
  have "t = b @ ?rest" unfolding b by simp
  moreover have "s = a @ sep # t" using takeWhile_dropWhile_id [of "\<lambda>c. c \<noteq> sep" s] unfolding a t d by simp
  moreover have "?rest = [] \<or> hd ?rest = sep" using hd_dropWhile [of "\<lambda>c. c \<noteq> sep" t] by auto
  moreover have "sep \<notin> set b" unfolding b by (auto dest: set_takeWhileD)
  ultimately show ?thesis by (metis append_Cons)
qed

lemma isAuthorized_iff:
  "isAuthorized hs authorization \<longleftrightarrow> (\<exists>tok. hs_metricsToken hs = Some tok \<and> bears tok (option_default authorization ''''))"
proof
  let ?h = "option_default authorization ''''"
  assume auth: "isAuthorized hs authorization"
  then obtain tok where tok: "hs_metricsToken hs = Some tok" "tok \<noteq> ''''" "split_on (CHR '' '') ?h ! 0 = ''Bearer''"
    "1 < length (split_on (CHR '' '') ?h)" "utf8_bytes tok = utf8_bytes (split_on (CHR '' '') ?h ! 1)"
    by (auto simp: isAuthorized_def Let_def split: option.splits if_splits)
  then have second: "split_on (CHR '' '') ?h ! 1 = tok" by (simp add: utf8_bytes_inject)
  have "split_on (CHR '' '') ?h \<noteq> []" using tok(4) by auto
  then have "hd (split_on (CHR '' '') ?h) = ''Bearer''" using tok(3) by (simp add: hd_conv_nth)
  from second_part [OF this tok(4) second] have "bears tok ?h" using tok(2) unfolding bears_def by auto
  then show "\<exists>tok. hs_metricsToken hs = Some tok \<and> bears tok ?h" using tok(1) by blast
next
  let ?h = "option_default authorization ''''"
  assume "\<exists>tok. hs_metricsToken hs = Some tok \<and> bears tok ?h"
  then obtain tok rest where tok: "hs_metricsToken hs = Some tok" "tok \<noteq> ''''" "CHR '' '' \<notin> set tok"
    and h: "?h = ''Bearer '' @ tok @ rest" "rest = [] \<or> hd rest = CHR '' ''" unfolding bears_def by blast
  have "split_on (CHR '' '') ?h = ''Bearer'' # split_on (CHR '' '') (tok @ rest)"
    using split_on_one [of "CHR '' ''" "''Bearer''" "tok @ rest"] by (simp add: h(1))
  moreover have "\<exists>ps. split_on (CHR '' '') (tok @ rest) = tok # ps"
  proof (cases rest)
    case Nil
    then show ?thesis using split_on_none [OF tok(3)] by simp
  next
    case (Cons c t)
    then show ?thesis using split_on_one [OF tok(3), of t] h(2) by simp
  qed
  ultimately show "isAuthorized hs authorization"
    using tok(1,2) by (auto simp: isAuthorized_def Let_def)
qed

section \<open>Readiness of a running relayer\<close>

text \<open>The state a loop ends in follows a successful tick, or the last tick did not succeed.\<close>

definition ticked :: "'w relayer_env \<Rightarrow> relayer_state \<Rightarrow> bool" where
  "ticked env s \<longleftrightarrow> (\<exists>s0 w0 rs s1 w1. relay_tick env s0 w0 = (Inr rs, s1, w1) \<and> s = after_relay_tick env s1 w1)"

lemma relay_loop_ticked:
  "relay_loop n env s w = (Inr (), s', w') \<Longrightarrow> rd_lastTickOk (rl_readiness s) \<longrightarrow> ticked env s \<Longrightarrow>
     rd_lastTickOk (rl_readiness s') \<longrightarrow> ticked env s'"
proof (induction n arbitrary: s w)
  case (Suc n)
  obtain r s1 w1 where t: "relay_tick env s w = (r, s1, w1)" by (metis prod_cases3)
  show ?case
  proof (cases "re_running env w")
    case True
    show ?thesis
    proof (cases r)
      case (Inr rs)
      then have "ticked env (after_relay_tick env s1 w1)" using t unfolding ticked_def by blast
      then show ?thesis using Suc True t Inr by (simp add: Let_def)
    next
      case (Inl err)
      have "\<not> rd_lastTickOk (rl_readiness (after_failed_tick m s1))" for m
        by (simp add: after_failed_tick_def log_event_def Let_def)
      then show ?thesis using Suc True t Inl by (cases err) (auto simp: Let_def)
    qed
  qed (use Suc in auto)
qed simp

lemma readyz_ok_iff:
  "pb_status (handleReadyz hs rd now) = 200 \<longleftrightarrow>
     rd_lastTickOk rd \<and> rd_lastTickAt rd \<noteq> 0 \<and> now - rd_lastTickAt rd \<le> hs_stalenessThresholdMs hs
     \<and> rd_lag rd \<le> hs_maxLagBlocks hs"
  by (auto simp: handleReadyz_def readiness_reasons_def probe_json_def Let_def)

lemma probe_paths:
  "health_handle hs s now (Some ''/readyz'') authorization = handleReadyz hs (rl_readiness s) now"
  "health_handle hs s now (Some ''/metrics'') authorization =
     (if (case hs_metricsToken hs of None \<Rightarrow> False | Some t \<Rightarrow> t \<noteq> '''') \<and> \<not> isAuthorized hs authorization
      then probe_json 401 (JObj [(''error'', JStr ''unauthorized'')])
      else handleMetrics (rl_metrics s) (rl_readiness s))"
  by (simp_all add: health_handle_def option_default_def Let_def)

lemma after_relay_tick_readiness:
  "rl_readiness (after_relay_tick env s w) = (rl_readiness s)\<lparr>rd_lastTickOk := True, rd_lastTickAt := re_now env w\<rparr>"
  by (simp add: after_relay_tick_def)

section \<open>Properties\<close>

text \<open>
  C15. The readiness probe says what it promises. After any number of ticks of a relayer that has not
  stopped on a fatal error, the probe answers 200 exactly when the last tick went well, no longer ago
  than the threshold, and measured a lag within the bound. (The clock is not the epoch itself, which the
  code takes for no tick.)
\<close>

theorem ready_iff_recent_tick:
  assumes "relay_loop n env (new_relayer env dead) w = (Inr (), s, w')"
  shows "pb_status (health_handle hs s now (Some ''/readyz'') authorization) = 200 \<longleftrightarrow>
    (\<exists>s0 w0 rs s1 w1. relay_tick env s0 w0 = (Inr rs, s1, w1) \<and> s = after_relay_tick env s1 w1
       \<and> re_now env w1 \<noteq> 0 \<and> now - re_now env w1 \<le> hs_stalenessThresholdMs hs
       \<and> rd_lag (rl_readiness s1) \<le> hs_maxLagBlocks hs)"
proof -
  have t: "rd_lastTickOk (rl_readiness s) \<longrightarrow> ticked env s"
    using relay_loop_ticked [OF assms] by (simp add: new_relayer_def)
  show ?thesis unfolding probe_paths readyz_ok_iff
  proof
    assume ready: "rd_lastTickOk (rl_readiness s) \<and> rd_lastTickAt (rl_readiness s) \<noteq> 0
      \<and> now - rd_lastTickAt (rl_readiness s) \<le> hs_stalenessThresholdMs hs \<and> rd_lag (rl_readiness s) \<le> hs_maxLagBlocks hs"
    then obtain s0 w0 rs s1 w1 where tick: "relay_tick env s0 w0 = (Inr rs, s1, w1)" "s = after_relay_tick env s1 w1"
      using t unfolding ticked_def by blast
    with ready show "\<exists>s0 w0 rs s1 w1. relay_tick env s0 w0 = (Inr rs, s1, w1) \<and> s = after_relay_tick env s1 w1
       \<and> re_now env w1 \<noteq> 0 \<and> now - re_now env w1 \<le> hs_stalenessThresholdMs hs
       \<and> rd_lag (rl_readiness s1) \<le> hs_maxLagBlocks hs"
      by (intro exI [where x = s0] exI [where x = w0] exI [where x = rs] exI [where x = s1] exI [where x = w1])
        (simp add: after_relay_tick_readiness)
  qed (auto simp: after_relay_tick_readiness)
qed

text \<open>
  Metrics need the token: when the configuration sets one, \<open>/metrics\<close> answers 200 exactly to a header
  that bears it, and 401 to every other. A token that contains a space is refused to everyone.
\<close>

theorem metrics_need_token:
  assumes "rc_metricsToken c = Some tok" and "tok \<noteq> ''''"
  shows "pb_status (health_handle (configured_health c) s now (Some ''/metrics'') authorization) =
      (if bears tok (option_default authorization '''') then 200 else 401)
    \<and> (CHR '' '' \<in> set tok \<longrightarrow> \<not> bears tok (option_default authorization ''''))"
proof -
  have t: "hs_metricsToken (configured_health c) = Some tok"
    using assms(1) by (simp add: configured_health_def new_health_server_def)
  then show ?thesis
    using assms(2) isAuthorized_iff [of "configured_health c" authorization]
    by (auto simp: probe_paths probe_json_def handleMetrics_def bears_def)
qed

theorem ready_iff_recent_tick_witness:
  "\<exists>s w. relay_loop 1 sample_relayer (new_relayer sample_relayer []) 1000 = (Inr (), s, w)
     \<and> pb_status (health_handle (new_health_server 8080 \<lparr>ho_stalenessThresholdMs = None, ho_maxLagBlocks = None,
           ho_host = None, ho_metricsToken = None\<rparr>) s 1500 (Some ''/readyz'') None) = 200"
proof -
  let ?hs = "new_health_server 8080 \<lparr>ho_stalenessThresholdMs = None, ho_maxLagBlocks = None, ho_host = None, ho_metricsToken = None\<rparr>"
  let ?s = "new_relayer sample_relayer []"
  have "\<exists>rs s1. relay_tick sample_relayer ?s 1000 = (Inr rs, s1, 1000) \<and> rd_lag (rl_readiness s1) \<le> 500"
    by (simp add: sample_defs put_cursor_def assoc_get_def log_event_def)
  then obtain rs s1 where t: "relay_tick sample_relayer ?s 1000 = (Inr rs, s1, 1000)" "rd_lag (rl_readiness s1) \<le> 500" by blast
  have c: "re_running sample_relayer w" "re_now sample_relayer w = w" for w by (simp_all add: sample_relayer_def)
  let ?s2 = "after_relay_tick sample_relayer s1 1000"
  have l: "relay_loop 1 sample_relayer ?s 1000 = (Inr (), ?s2, relay_sleep sample_relayer ?s2 1000)"
    by (simp add: t c Let_def)
  have "pb_status (health_handle ?hs ?s2 1500 (Some ''/readyz'') None) = 200"
    by (subst ready_iff_recent_tick [OF l], intro exI conjI, rule t(1), rule refl)
      (use t(2) in \<open>simp_all add: c new_health_server_def option_default_def\<close>)
  with l show ?thesis by blast
qed

theorem metrics_need_token_witness:
  "\<exists>c. rc_metricsToken c = Some ''s3cret''
     \<and> pb_status (health_handle (configured_health c) (new_relayer sample_relayer []) 0 (Some ''/metrics'')
           (Some ''Bearer s3cret'')) = 200
     \<and> pb_status (health_handle (configured_health c) (new_relayer sample_relayer []) 0 (Some ''/metrics'')
           (Some ''Bearer guess'')) = 401"
proof -
  obtain c0 where "relayer_main (\<lambda>_. True) sample_relayer_env = Inr c0" using sample_relayer_starts by blast
  let ?c = "c0\<lparr>rc_metricsToken := Some ''s3cret''\<rparr>"
  have "bears ''s3cret'' ''Bearer s3cret''" "\<not> bears ''s3cret'' ''Bearer guess''" by (auto simp: bears_def)
  then show ?thesis
    using metrics_need_token [of ?c "''s3cret''" "new_relayer sample_relayer []" 0]
    by (intro exI [where x = ?c]) (simp add: option_default_def)
qed

end
