(* ===== verification/Relayer_Group.thy ===== *)
theory Relayer_Group
  imports Relayer_Safety
begin

text \<open>
  \<open>RelayerGroup\<close> of \<^verbatim>\<open>relayer/src/relayer.ts\<close>: several relayers that run at once, as a step relation in which
  their steps interleave in any order. A relayer is what \<open>start\<close> is waiting for, its flag \<open>running\<close> and the state
  of \<open>Relayer_Loop\<close>. The world that a resume or a tick sees is arbitrary: it holds whatever the other
  relayers and the outside do in the meantime.
\<close>

section \<open>The code\<close>

text \<open>\<open>Throwing\<close> is a rejected \<open>start\<close> whose \<open>catch\<close> handler has not run yet.\<close>

datatype leg_phase =
  Resuming | AtGuard | InTick | Asleep | Throwing relay_thrown | LegDone "relay_thrown option"

record leg =
  lg_phase :: leg_phase
  lg_running :: bool
  lg_relayer :: relayer_state

text \<open>The constructor refuses an empty group; \<open>start\<close> sets out on every loop.\<close>

definition new_group :: "relayer_state list \<Rightarrow> (string, leg list) result" where
  "new_group relayers =
     (if relayers = [] then Inl ''RelayerGroup requires at least one relayer''
      else Inr (map (\<lambda>s. \<lparr>lg_phase = Resuming, lg_running = False, lg_relayer = s\<rparr>) relayers))"

definition leg_resumed :: "'w relayer_env \<Rightarrow> 'w \<Rightarrow> leg \<Rightarrow> leg" where
  "leg_resumed env w l =
     (case relay_resume env (lg_relayer l) w of
        (Inl err, s, _) \<Rightarrow> l\<lparr>lg_phase := Throwing err, lg_relayer := s\<rparr>
      | (Inr _, s, _) \<Rightarrow> l\<lparr>lg_phase := AtGuard, lg_running := True, lg_relayer := s\<rparr>)"

text \<open>Only a relayer that is still running sleeps after its tick.\<close>

definition leg_ticked :: "'w relayer_env \<Rightarrow> 'w \<Rightarrow> leg \<Rightarrow> leg" where
  "leg_ticked env w l =
     (let rest = (if lg_running l then Asleep else AtGuard)
      in case relay_tick env (lg_relayer l) w of
           (Inr _, s, w1) \<Rightarrow> l\<lparr>lg_phase := rest, lg_relayer := after_relay_tick env s w1\<rparr>
         | (Inl (Thrown m), s, _) \<Rightarrow> l\<lparr>lg_phase := rest, lg_relayer := after_failed_tick m s\<rparr>
         | (Inl (Fatal m), s, _) \<Rightarrow> l\<lparr>lg_phase := Throwing (Fatal m), lg_relayer := log_event (LogFatal m) s\<rparr>)"

text \<open>One step of \<open>start\<close>. A sleep may be over at any time, since a stop interrupts it.\<close>

definition leg_step :: "'w relayer_env \<Rightarrow> 'w \<Rightarrow> leg \<Rightarrow> leg option" where
  "leg_step env w l =
     (case lg_phase l of
        Resuming \<Rightarrow> Some (leg_resumed env w l)
      | AtGuard \<Rightarrow> Some (l\<lparr>lg_phase := if lg_running l then InTick else LegDone None\<rparr>)
      | InTick \<Rightarrow> Some (leg_ticked env w l)
      | Asleep \<Rightarrow> Some (l\<lparr>lg_phase := AtGuard\<rparr>)
      | Throwing _ \<Rightarrow> None
      | LegDone _ \<Rightarrow> None)"

definition group_stop :: "leg list \<Rightarrow> leg list" where
  "group_stop ls = map (\<lambda>l. l\<lparr>lg_running := False\<rparr>) ls"

text \<open>The handler of a rejected loop stops the group and throws the error again.\<close>

definition leg_caught :: "nat \<Rightarrow> relay_thrown \<Rightarrow> leg list \<Rightarrow> leg list" where
  "leg_caught i err ls = group_stop (ls[i := (ls ! i)\<lparr>lg_phase := LegDone (Some err)\<rparr>])"

datatype group_event = LegMoves nat | Caught nat relay_thrown | StopCall

inductive group_step :: "'w relayer_env list \<Rightarrow> leg list \<Rightarrow> group_event \<Rightarrow> leg list \<Rightarrow> bool" for envs where
  Move: "i < length ls \<Longrightarrow> leg_step (envs ! i) w (ls ! i) = Some l \<Longrightarrow> group_step envs ls (LegMoves i) (ls[i := l])"
| Catch: "i < length ls \<Longrightarrow> lg_phase (ls ! i) = Throwing err \<Longrightarrow> group_step envs ls (Caught i err) (leg_caught i err ls)"
| Stop: "group_step envs ls StopCall (group_stop ls)"

inductive group_run :: "'w relayer_env list \<Rightarrow> leg list \<Rightarrow> group_event list \<Rightarrow> leg list \<Rightarrow> bool" for envs where
  Start: "group_run envs ls [] ls"
| Step: "group_run envs ls tr ls1 \<Longrightarrow> group_step envs ls1 e ls2 \<Longrightarrow> group_run envs ls (tr @ [e]) ls2"

inductive_cases move_stepE: "group_step envs ls (LegMoves i) ls'"
inductive_cases catch_stepE: "group_step envs ls (Caught i err) ls'"
inductive_simps stop_step [simp]: "group_step envs ls StopCall ls'"

text \<open>What \<open>start\<close> of the group gives once every loop has settled: the first rejection, in the order of the relayers.\<close>

fun leg_rejection :: "leg_phase \<Rightarrow> relay_thrown option" where
  "leg_rejection (LegDone e) = e"
| "leg_rejection _ = None"

fun leg_settled :: "leg_phase \<Rightarrow> bool" where
  "leg_settled (LegDone _) = True"
| "leg_settled _ = False"

definition group_result :: "leg list \<Rightarrow> (relay_thrown, unit) result option" where
  "group_result ls =
     (if \<not> list_all (\<lambda>l. leg_settled (lg_phase l)) ls then None
      else Some (case List.map_filter (\<lambda>l. leg_rejection (lg_phase l)) ls of [] \<Rightarrow> Inr () | err # _ \<Rightarrow> Inl err))"

section \<open>Facts about the code\<close>

lemma group_step_length: "group_step envs ls e ls' \<Longrightarrow> length ls' = length ls"
  by (erule group_step.cases) (simp_all add: leg_caught_def group_stop_def)

lemma group_run_length: "group_run envs ls tr ls' \<Longrightarrow> length ls' = length ls"
  by (induction rule: group_run.induct) (simp_all add: group_step_length)

lemma nth_group_stop [simp]: "i < length ls \<Longrightarrow> group_stop ls ! i = (ls ! i)\<lparr>lg_running := False\<rparr>"
  by (simp add: group_stop_def)

lemma length_group_stop [simp]: "length (group_stop ls) = length ls"
  by (simp add: group_stop_def)

lemma length_leg_caught [simp]: "length (leg_caught i err ls) = length ls"
  by (simp add: leg_caught_def)

lemma nth_leg_caught:
  "i < length ls \<Longrightarrow> j < length ls \<Longrightarrow>
     leg_caught i err ls ! j =
       (if j = i then (ls ! i)\<lparr>lg_phase := LegDone (Some err), lg_running := False\<rparr> else (ls ! j)\<lparr>lg_running := False\<rparr>)"
  by (simp add: leg_caught_def nth_list_update)

text \<open>The other relayers' states and phases are untouched by a step: no leg can stall another.\<close>

lemma others_untouched:
  assumes "group_step envs ls e ls'" and "j < length ls" and "e \<noteq> LegMoves j" and "\<forall>err. e \<noteq> Caught j err"
  shows "lg_phase (ls' ! j) = lg_phase (ls ! j) \<and> lg_relayer (ls' ! j) = lg_relayer (ls ! j)"
  using assms by (cases rule: group_step.cases) (auto simp: nth_leg_caught)

subsection \<open>Draining\<close>

fun leg_work :: "leg_phase \<Rightarrow> nat" where
  "leg_work Resuming = 0"
| "leg_work AtGuard = 1"
| "leg_work InTick = 2"
| "leg_work Asleep = 2"
| "leg_work (Throwing _) = 1"
| "leg_work (LegDone _) = 0"

definition group_work :: "leg list \<Rightarrow> nat" where
  "group_work ls = (\<Sum>l\<leftarrow>ls. leg_work (lg_phase l))"

definition draining :: "leg list \<Rightarrow> bool" where
  "draining ls \<longleftrightarrow> (\<forall>l \<in> set ls. \<not> lg_running l \<and> lg_phase l \<noteq> Resuming)"

lemma leg_step_draining:
  assumes "leg_step env w l = Some l'" and "\<not> lg_running l" and "lg_phase l \<noteq> Resuming"
  shows "\<not> lg_running l' \<and> lg_phase l' \<noteq> Resuming \<and> lg_phase l' \<noteq> InTick \<and> leg_work (lg_phase l') < leg_work (lg_phase l)"
  using assms
  by (auto simp: leg_step_def leg_ticked_def Let_def split: leg_phase.splits prod.splits sum.splits relay_thrown.splits)

lemma group_work_update:
  "i < length ls \<Longrightarrow> group_work (ls[i := l]) + leg_work (lg_phase (ls ! i)) = group_work ls + leg_work (lg_phase l)"
  by (induction ls arbitrary: i) (auto simp: group_work_def nth_Cons split: nat.splits)

lemma group_work_stop [simp]: "group_work (group_stop ls) = group_work ls"
  by (simp add: group_work_def group_stop_def comp_def)

lemma group_work_bound: "group_work ls \<le> 2 * length ls"
proof (induction ls)
  case (Cons l ls)
  have "leg_work (lg_phase l) \<le> 2" by (cases "lg_phase l") auto
  with Cons show ?case by (simp add: group_work_def)
qed (simp add: group_work_def)

lemma draining_update: "draining ls \<Longrightarrow> \<not> lg_running l \<Longrightarrow> lg_phase l \<noteq> Resuming \<Longrightarrow> draining (ls[i := l])"
  by (auto simp: draining_def dest!: set_update_subset_insert [THEN subsetD])

lemma draining_stop: "(\<forall>l \<in> set ls. lg_phase l \<noteq> Resuming) \<Longrightarrow> draining (group_stop ls)"
  by (auto simp: draining_def group_stop_def)

text \<open>Every step of a draining group but another stop uses up some of its work, and starts no tick.\<close>

lemma draining_step:
  assumes "group_step envs ls e ls'" and "draining ls"
  shows "draining ls' \<and> group_work ls' + (if e = StopCall then 0 else 1) \<le> group_work ls
    \<and> (\<forall>i < length ls. lg_phase (ls' ! i) = InTick \<longrightarrow> lg_phase (ls ! i) = InTick)"
  using assms(1)
proof (cases rule: group_step.cases)
  case (Move i w l)
  have "ls ! i \<in> set ls" using Move(3) by simp
  then have l: "\<not> lg_running l \<and> lg_phase l \<noteq> Resuming \<and> lg_phase l \<noteq> InTick \<and> leg_work (lg_phase l) < leg_work (lg_phase (ls ! i))"
    using leg_step_draining [OF Move(4)] assms(2) unfolding draining_def by blast
  then show ?thesis
    using group_work_update [OF Move(3), of l] draining_update [OF assms(2), of l i] Move(1-3) by (auto simp: nth_list_update)
next
  case (Catch i err)
  let ?l = "(ls ! i)\<lparr>lg_phase := LegDone (Some err)\<rparr>"
  have "\<not> lg_running ?l" using assms(2) Catch(3) by (simp add: draining_def)
  then have "draining (ls[i := ?l])" using draining_update [OF assms(2)] by simp
  then have "draining ls'" unfolding Catch(2) leg_caught_def by (intro draining_stop) (simp add: draining_def)
  moreover have "group_work ls' + 1 \<le> group_work ls"
    using group_work_update [OF Catch(3), of ?l] Catch(4) by (simp add: Catch(2) leg_caught_def)
  ultimately show ?thesis using Catch by (auto simp: nth_leg_caught)
next
  case Stop
  moreover have "draining (group_stop ls)" using assms(2) by (intro draining_stop) (simp add: draining_def)
  ultimately show ?thesis by simp
qed

lemma draining_run:
  assumes "group_run envs ls tr ls'"
  shows "draining ls \<Longrightarrow> draining ls' \<and> group_work ls' + length (filter (\<lambda>e. e \<noteq> StopCall) tr) \<le> group_work ls
    \<and> (\<forall>i < length ls. lg_phase (ls' ! i) = InTick \<longrightarrow> lg_phase (ls ! i) = InTick)"
  using assms
proof (induction rule: group_run.induct)
  case (Step ls tr ls1 e ls2)
  then have "draining ls1" by blast
  from draining_step [OF Step.hyps(2) this] show ?case using Step group_run_length [OF Step.hyps(1)] by auto
qed simp

lemma unsettled_moves:
  assumes "group_result ls = None"
  shows "\<exists>e ls'. e \<noteq> StopCall \<and> group_step envs ls e ls'"
proof -
  obtain i where i: "i < length ls" "\<not> leg_settled (lg_phase (ls ! i))"
    using assms by (auto simp: group_result_def list_all_length split: if_splits)
  show ?thesis
  proof (cases "leg_step (envs ! i) undefined (ls ! i)")
    case None
    then obtain err where "lg_phase (ls ! i) = Throwing err"
      using i(2) by (auto simp: leg_step_def split: leg_phase.splits)
    then have "group_step envs ls (Caught i err) (leg_caught i err ls)" by (rule group_step.Catch [OF i(1)])
    then show ?thesis by blast
  next
    case (Some l)
    then have "group_step envs ls (LegMoves i) (ls[i := l])" by (rule group_step.Move [OF i(1)])
    then show ?thesis by blast
  qed
qed

subsection \<open>Results\<close>

text \<open>What a run says about the group it leads to: who threw, and that nobody stops by itself.\<close>

definition accounts_for :: "group_event list \<Rightarrow> leg list \<Rightarrow> bool" where
  "accounts_for tr ls \<longleftrightarrow>
     (\<forall>i err. Caught i err \<in> set tr \<longleftrightarrow> i < length ls \<and> lg_phase (ls ! i) = LegDone (Some err))
     \<and> (StopCall \<notin> set tr \<and> (\<forall>i err. Caught i err \<notin> set tr) \<longrightarrow>
          (\<forall>l \<in> set ls. (lg_running l \<or> lg_phase l = Resuming \<or> (\<exists>err. lg_phase l = Throwing err))
             \<and> lg_phase l \<noteq> LegDone None))"

lemma leg_step_phases:
  assumes "leg_step env w l = Some l'"
  shows "lg_phase l \<noteq> LegDone x" "lg_phase l' \<noteq> LegDone (Some err)"
    and "lg_running l \<or> lg_phase l = Resuming \<Longrightarrow>
      (lg_running l' \<or> (\<exists>err. lg_phase l' = Throwing err)) \<and> lg_phase l' \<noteq> LegDone None"
  using assms
  by (auto simp: leg_step_def leg_ticked_def leg_resumed_def Let_def split: leg_phase.splits prod.splits sum.splits relay_thrown.splits if_splits)

lemma accounts_for_step:
  assumes "group_step envs ls e ls'" and "accounts_for tr ls"
  shows "accounts_for (tr @ [e]) ls'"
  using assms(1)
proof (cases rule: group_step.cases)
  case (Move i w l)
  have quiet: "lg_phase (ls ! i) \<noteq> Throwing err" "lg_phase (ls ! i) \<noteq> LegDone x" "lg_phase l \<noteq> LegDone (Some err)" for err x
    using Move(4) leg_step_phases [OF Move(4)] by (auto simp: leg_step_def)
  have "ls ! i \<in> set ls" using Move(3) by simp
  then have "(lg_running l \<or> (\<exists>err. lg_phase l = Throwing err)) \<and> lg_phase l \<noteq> LegDone None"
    if "StopCall \<notin> set tr" "\<forall>i err. Caught i err \<notin> set tr"
    using that assms(2) quiet(1) leg_step_phases(3) [OF Move(4)] unfolding accounts_for_def by blast
  then show ?thesis
    using assms(2) quiet Move(1-3)
    unfolding accounts_for_def by (auto simp: nth_list_update dest!: set_update_subset_insert [THEN subsetD])
next
  case (Catch i err)
  then show ?thesis using assms(2) unfolding accounts_for_def
    by (auto simp: nth_leg_caught split: if_splits)
next
  case Stop
  then show ?thesis using assms(2) by (auto simp: accounts_for_def)
qed

lemma accounts_for_run:
  assumes "group_run envs ls tr ls'" shows "accounts_for [] ls \<Longrightarrow> accounts_for tr ls'"
  using assms by (induction rule: group_run.induct) (simp_all add: accounts_for_step)

lemma new_group_accounts: "new_group relayers = Inr ls \<Longrightarrow> accounts_for [] ls"
  by (auto simp: new_group_def accounts_for_def split: if_splits)

lemma first_rejection:
  "List.map_filter f ls = err # es \<Longrightarrow> \<exists>i < length ls. f (ls ! i) = Some err \<and> (\<forall>j < i. f (ls ! j) = None)"
proof (induction ls)
  case (Cons l ls)
  show ?case
  proof (cases "f l")
    case None
    then obtain i where "i < length ls" "f (ls ! i) = Some err" "\<forall>j < i. f (ls ! j) = None"
      using Cons by (auto simp: List.map_filter_def)
    then show ?thesis using None by (intro exI [of _ "Suc i"]) (auto simp: nth_Cons split: nat.splits)
  qed (use Cons in \<open>auto simp: List.map_filter_def\<close>)
qed (simp add: List.map_filter_def)

lemma leg_rejection_Some [simp]: "leg_rejection p = Some err \<longleftrightarrow> p = LegDone (Some err)"
  by (cases p) auto

lemma no_rejection: "List.map_filter f ls = [] \<longleftrightarrow> (\<forall>l \<in> set ls. f l = None)"
  by (induction ls) (auto simp: List.map_filter_def)

subsection \<open>Losing a stop\<close>

lemma leg_step_running:
  "leg_step env w l = Some l' \<Longrightarrow> lg_running l \<Longrightarrow> lg_running l' \<and> \<not> leg_settled (lg_phase l')"
  by (auto simp: leg_step_def leg_ticked_def leg_resumed_def Let_def
      split: leg_phase.splits prod.splits sum.splits relay_thrown.splits if_splits)

lemma run_move:
  "group_run envs ls tr ls1 \<Longrightarrow> i < length ls1 \<Longrightarrow> leg_step (envs ! i) w (ls1 ! i) = Some l \<Longrightarrow>
     group_run envs ls (tr @ [LegMoves i]) (ls1[i := l])"
  by (rule group_run.Step) (auto intro: group_step.Move)

lemma run_catch:
  "group_run envs ls tr ls1 \<Longrightarrow> i < length ls1 \<Longrightarrow> lg_phase (ls1 ! i) = Throwing err \<Longrightarrow>
     group_run envs ls (tr @ [Caught i err]) (leg_caught i err ls1)"
  by (rule group_run.Step) (auto intro: group_step.Catch)

lemma run_stop: "group_run envs ls tr ls1 \<Longrightarrow> group_run envs ls (tr @ [StopCall]) (group_stop ls1)"
  by (rule group_run.Step) simp_all

text \<open>A leg that runs goes on running, and the group unsettled, as long as it does not throw and nobody calls \<open>stop\<close>.\<close>

definition goes_on :: "nat \<Rightarrow> leg list \<Rightarrow> bool" where
  "goes_on i ls \<longleftrightarrow> i < length ls \<and> lg_running (ls ! i) \<and> \<not> leg_settled (lg_phase (ls ! i))
     \<and> (\<forall>j < length ls. j \<noteq> i \<longrightarrow> leg_settled (lg_phase (ls ! j)))"

lemma goes_on_step:
  assumes "group_step envs ls e ls'" and "goes_on i ls" and "e \<noteq> StopCall" and "\<forall>err. e \<noteq> Caught i err"
  shows "goes_on i ls'"
  using assms(1)
proof (cases rule: group_step.cases)
  case (Move j w l)
  have "j = i" using assms(2) Move(3,4) by (cases "lg_phase (ls ! j)") (auto simp: goes_on_def leg_step_def)
  then show ?thesis using assms(2) Move leg_step_running [OF Move(4)] by (auto simp: goes_on_def)
next
  case (Catch j err)
  then have "j = i" using assms(2) by (auto simp: goes_on_def)
  then show ?thesis using assms(4) Catch(1) by blast
qed (use assms(3) in simp)

lemma goes_on_run:
  assumes "group_run envs ls tr ls'"
  shows "goes_on i ls \<Longrightarrow> StopCall \<notin> set tr \<Longrightarrow> \<forall>err. Caught i err \<notin> set tr \<Longrightarrow> goes_on i ls'"
  using assms
proof (induction rule: group_run.induct)
  case (Step ls tr ls1 e ls2)
  then show ?case using goes_on_step [OF Step.hyps(2), of i] by auto
qed simp

lemma goes_on_result: "goes_on i ls \<Longrightarrow> lg_running (ls ! i) \<and> group_result ls = None"
  by (auto simp: goes_on_def group_result_def list_all_length)

section \<open>Properties\<close>


text \<open>
  The result of a group that has settled: it resolves exactly when no relayer threw, and then only after
  \<open>stop\<close> was called; otherwise it rejects with the error of the first relayer, in the order of the
  constructor, that threw.
\<close>

theorem group_settles:
  assumes "new_group relayers = Inr ls" and "group_run envs ls tr ls'" and "group_result ls' = Some r"
  shows "(r = Inr () \<longleftrightarrow> (\<forall>i err. Caught i err \<notin> set tr)) \<and> (r = Inr () \<longrightarrow> StopCall \<in> set tr)
    \<and> (\<forall>err. r = Inl err \<longrightarrow> (\<exists>i. Caught i err \<in> set tr \<and> (\<forall>j err'. Caught j err' \<in> set tr \<longrightarrow> i \<le> j)))"
proof -
  have a: "accounts_for tr ls'" using accounts_for_run [OF assms(2) new_group_accounts [OF assms(1)]] .
  let ?rs = "List.map_filter (\<lambda>l. leg_rejection (lg_phase l)) ls'"
  have settled: "\<forall>l \<in> set ls'. leg_settled (lg_phase l)" and r: "r = (case ?rs of [] \<Rightarrow> Inr () | err # _ \<Rightarrow> Inl err)"
    using assms(3) by (auto simp: group_result_def list_all_iff split: if_splits)
  show ?thesis
  proof (cases ?rs)
    case Nil
    then have none: "\<forall>l \<in> set ls'. leg_rejection (lg_phase l) = None" by (simp add: no_rejection)
    then have "\<forall>i err. Caught i err \<notin> set tr" using a unfolding accounts_for_def by (metis leg_rejection.simps(1) nth_mem option.distinct(1))
    moreover have "StopCall \<in> set tr"
    proof (rule ccontr)
      assume "StopCall \<notin> set tr"
      obtain l where l: "l \<in> set ls'"
        using group_run_length [OF assms(2)] assms(1) by (cases ls') (auto simp: new_group_def split: if_splits)
      then have "lg_phase l = LegDone None" using none settled by (cases "lg_phase l") auto
      then show False using a l \<open>StopCall \<notin> set tr\<close> calculation unfolding accounts_for_def by blast
    qed
    ultimately show ?thesis using r Nil by simp
  next
    case (Cons err es)
    obtain i where i: "i < length ls'" "lg_phase (ls' ! i) = LegDone (Some err)" "\<forall>j < i. leg_rejection (lg_phase (ls' ! j)) = None"
      using first_rejection [OF Cons] by auto
    have "Caught i err \<in> set tr" using a i(1,2) unfolding accounts_for_def by blast
    moreover have "i \<le> j" if "Caught j err' \<in> set tr" for j err'
    proof (rule ccontr)
      assume "\<not> i \<le> j"
      then have "leg_rejection (lg_phase (ls' ! j)) = None" using i(3) by simp
      moreover have "lg_phase (ls' ! j) = LegDone (Some err')" using a that unfolding accounts_for_def by blast
      ultimately show False by simp
    qed
    ultimately show ?thesis using r Cons by auto
  qed
qed

text \<open>
  A stop is lost while a relayer resumes. When the checkpoint of one relayer cannot be loaded, its
  rejection stops the group; a relayer whose checkpoint is still being loaded then sets its flag again and runs
  on, for as long as it does not throw itself and nobody calls \<open>stop\<close> once more: the group never settles,
  though its contract is that an error in any direction stops it and rejects.
\<close>

theorem stop_during_resume_is_lost:
  assumes "new_group [s0, s1] = Inr ls"
    and "relay_resume (envs ! 0) s0 w0 = (Inl err, s0', w0')" and "relay_resume (envs ! 1) s1 w1 = (Inr (), s1', w1')"
  shows "\<exists>tr ls1. group_run envs ls tr ls1 \<and> Caught 0 err \<in> set tr
    \<and> (\<forall>tr' ls2. group_run envs ls1 tr' ls2 \<and> StopCall \<notin> set tr' \<and> (\<forall>e. Caught 1 e \<notin> set tr')
          \<longrightarrow> lg_running (ls2 ! 1) \<and> group_result ls2 = None)"
proof -
  let ?l = "\<lambda>p r s. \<lparr>lg_phase = p, lg_running = r, lg_relayer = s\<rparr>"
  have ls: "ls = [?l Resuming False s0, ?l Resuming False s1]" using assms(1) by (simp add: new_group_def)
  have "group_run envs ls ([] @ [LegMoves 0]) (ls[0 := ?l (Throwing err) False s0'])"
    by (rule run_move [OF group_run.Start, where w = w0]) (simp_all add: ls leg_step_def leg_resumed_def assms(2))
  then have "group_run envs ls ([LegMoves 0] @ [Caught 0 err]) [?l (LegDone (Some err)) False s0', ?l Resuming False s1]"
    using run_catch [of envs ls "[LegMoves 0]" "ls[0 := ?l (Throwing err) False s0']" 0 err]
    by (simp add: ls leg_caught_def group_stop_def)
  then have run: "group_run envs ls ([LegMoves 0, Caught 0 err] @ [LegMoves 1])
      [?l (LegDone (Some err)) False s0', ?l AtGuard True s1']"
    using run_move [where i = 1 and w = w1] assms(3) by (fastforce simp: leg_step_def leg_resumed_def)
  have "goes_on 1 [?l (LegDone (Some err)) False s0', ?l AtGuard True s1']"
    by (auto simp: goes_on_def less_Suc_eq)
  then have "lg_running (ls2 ! 1) \<and> group_result ls2 = None"
    if "group_run envs [?l (LegDone (Some err)) False s0', ?l AtGuard True s1'] tr' ls2 \<and> StopCall \<notin> set tr'
      \<and> (\<forall>e. Caught 1 e \<notin> set tr')" for tr' ls2
    using that goes_on_run goes_on_result by blast
  then show ?thesis using run by (intro exI conjI allI impI) auto
qed

text \<open>A sleeping relayer, a group of one that is stopped after it has resumed, and one whose checkpoint is unreadable.\<close>

definition sleeping_leg :: leg where
  "sleeping_leg = \<lparr>lg_phase = Asleep, lg_running = True, lg_relayer = new_relayer sample_relayer []\<rparr>"


theorem group_settles_witness:
  "\<exists>ls ls'. new_group [new_relayer sample_relayer []] = Inr ls
     \<and> group_run [sample_relayer] ls [LegMoves 0, StopCall, LegMoves 0] ls' \<and> group_result ls' = Some (Inr ())
     \<and> (\<forall>i err. Caught i err \<notin> set [LegMoves 0, StopCall, LegMoves 0])"
proof -
  let ?s = "new_relayer sample_relayer []"
  let ?l = "\<lambda>p r. \<lparr>lg_phase = p, lg_running = r, lg_relayer = put_cursor 90 ?s\<rparr>"
  let ?ls = "[\<lparr>lg_phase = Resuming, lg_running = False, lg_relayer = ?s\<rparr>]"
  have n: "new_group [?s] = Inr ?ls" by (simp add: new_group_def)
  have "group_run [sample_relayer] ?ls ([] @ [LegMoves 0]) [?l AtGuard True]"
    using run_move [OF group_run.Start, of 0 ?ls "[sample_relayer]"]
    by (simp add: leg_step_def leg_resumed_def relay_resume_def sample_relayer_def)
  then have "group_run [sample_relayer] ?ls ([LegMoves 0] @ [StopCall]) [?l AtGuard False]"
    using run_stop by (fastforce simp: group_stop_def)
  then have run: "group_run [sample_relayer] ?ls ([LegMoves 0, StopCall] @ [LegMoves 0]) [?l (LegDone None) False]"
    using run_move [of "[sample_relayer]" ?ls "[LegMoves 0, StopCall]" "[?l AtGuard False]" 0] by (simp add: leg_step_def)
  have res: "group_result [?l (LegDone None) False] = Some (Inr ())" by (simp add: group_result_def List.map_filter_def)
  from group_settles [OF n run res] show ?thesis using n run res by auto
qed

theorem stop_during_resume_is_lost_witness:
  "\<exists>ls tr ls1. new_group [new_relayer sample_relayer [], new_relayer sample_relayer []] = Inr ls
     \<and> group_run [sample_relayer\<lparr>re_loadCheckpoint := \<lambda>w. (Inl (Thrown ''EACCES''), w)\<rparr>, sample_relayer] ls tr ls1
     \<and> Caught 0 (Thrown ''EACCES'') \<in> set tr \<and> lg_running (ls1 ! 1)"
proof -
  let ?s = "new_relayer sample_relayer []"
  let ?bad = "sample_relayer\<lparr>re_loadCheckpoint := \<lambda>w. (Inl (Thrown ''EACCES''), w)\<rparr>"
  obtain ls where n: "new_group [?s, ?s] = Inr ls" by (simp add: new_group_def)
  have "relay_resume ([?bad, sample_relayer] ! 0) ?s 0 = (Inl (Thrown ''EACCES''), ?s, 0)"
    "relay_resume ([?bad, sample_relayer] ! 1) ?s 0 = (Inr (), put_cursor 90 ?s, 0)"
    by (simp_all add: relay_resume_def sample_relayer_def)
  from stop_during_resume_is_lost [OF n this] show ?thesis using n group_run.Start by fastforce
qed

end
