(* ===== verification/Evm_Delivery.thy ===== *)
theory Evm_Delivery
  imports Relayer_Safety Relayer_Wire Sdk_Units
begin

text \<open>
  The return leg's delivery (\<^verbatim>\<open>relayer/src/evm-delivery.ts\<close>): messages of the settlement contract, wrapped and
  sent to the escrow or to a mock endpoint. viem's clients are parameters. Of the contracts it has to agree
  with, the encoders of the settlement contract and the decoder of the escrow. A message is what the code
  reads of the object it is handed; a property the object does not have is \<open>None\<close>.
\<close>

section \<open>Messages\<close>

datatype evm_payload = PayloadText string | PayloadBytes "8 word list"

record evm_message =
  em_type :: "string option"
  em_payload :: "evm_payload option"
  em_guid :: "string option"
  em_nonce :: "int option"

datatype evm_call = MockDeliver int address hex | LzReceive int hex int hex hex address

record 'w evm_delivery_env =
  ed_mockEndpointAddress :: "address option"
  ed_escrowAddress :: address
  ed_account :: address
  ed_dstEid :: "int option"
  ed_srcEid :: "int option"
  ed_srcSender :: "hex option"
  ed_confirmations :: "int option"
  ed_readDelivered :: "int \<Rightarrow> address \<Rightarrow> hex \<Rightarrow> 'w \<Rightarrow> (relay_thrown, bool) result \<times> 'w"
  ed_readIsDelivered :: "hex \<Rightarrow> 'w \<Rightarrow> (relay_thrown, bool) result \<times> 'w"
  ed_simulate :: "evm_call \<Rightarrow> 'w \<Rightarrow> (relay_thrown, unit) result \<times> 'w"
  ed_writeContract :: "evm_call \<Rightarrow> 'w \<Rightarrow> (relay_thrown, hex) result \<times> 'w"
  ed_waitReceipt :: "hex \<Rightarrow> int \<Rightarrow> 'w \<Rightarrow> (relay_thrown, unit) result \<times> 'w"

definition ZERO_BYTES32 :: hex where "ZERO_BYTES32 = ''0x'' @ replicate 64 (CHR ''0'')"

text \<open>A payload that is missing or a byte array has no \<open>startsWith\<close>.\<close>

definition payload_text :: "evm_message \<Rightarrow> (relay_thrown, string) result" where
  "payload_text m =
     (case em_payload m of
        Some (PayloadText p) \<Rightarrow> Inr (if take 2 p = ''0x'' then drop 2 p else p)
      | _ \<Rightarrow> Inl (Thrown ''TypeError''))"

text \<open>\<open>payloadHash\<close> is the first 32 bytes of the payload.\<close>

definition payloadHash :: "evm_message \<Rightarrow> (relay_thrown, hex) result" where
  "payloadHash m = bind_result (payload_text m) (\<lambda>raw. Inr (''0x'' @ take 64 (pad_end 64 raw)))"

definition guidFor :: "evm_message \<Rightarrow> (relay_thrown, hex) result" where
  "guidFor m =
     (case em_guid m of
        Some g \<Rightarrow> if g \<noteq> [] \<and> take 2 g = ''0x'' \<and> length g = 66 then Inr g else payloadHash m
      | None \<Rightarrow> payloadHash m)"

definition typeCode :: "string \<Rightarrow> (relay_thrown, string) result" where
  "typeCode t =
     (if t = ''FillConfirmed'' then Inr ''01''
      else if t = ''CancelIntent'' then Inr ''02''
      else Inl (Thrown ''Unsupported outbound message type''))"

definition isOutboundType :: "string option \<Rightarrow> bool" where
  "isOutboundType t \<longleftrightarrow> t = Some ''FillConfirmed'' \<or> t = Some ''CancelIntent''"

definition encodePayload :: "evm_message \<Rightarrow> (relay_thrown, hex) result" where
  "encodePayload m =
     bind_result (guidFor m) (\<lambda>guid.
       bind_result (typeCode (option_default (em_type m) '''')) (\<lambda>code.
         bind_result (payload_text m) (\<lambda>body. Inr (''0x'' @ drop 2 guid @ code @ body))))"

section \<open>Delivery\<close>

text \<open>A failed query of the mock endpoint falls through to the escrow, a failed query of the escrow counts as not delivered.\<close>

definition evm_isDelivered :: "'w evm_delivery_env \<Rightarrow> evm_message \<Rightarrow> 'w \<Rightarrow> (relay_thrown, bool) result \<times> 'w" where
  "evm_isDelivered env m w =
     (case guidFor m of
        Inl e \<Rightarrow> (Inl e, w)
      | Inr guid \<Rightarrow>
          (let escrow_side = (\<lambda>w. case ed_readIsDelivered env guid w of
                 (Inr b, w1) \<Rightarrow> (Inr b, w1) | (Inl _, w1) \<Rightarrow> (Inr False, w1))
           in case ed_mockEndpointAddress env of
                None \<Rightarrow> escrow_side w
              | Some mock \<Rightarrow>
                  if mock = '''' then escrow_side w
                  else (case payloadHash m of
                          Inl _ \<Rightarrow> escrow_side w
                        | Inr h \<Rightarrow>
                            (case ed_readDelivered env (option_default (ed_dstEid env) 0) (ed_escrowAddress env) h w of
                               (Inr b, w1) \<Rightarrow> (Inr b, w1)
                             | (Inl _, w1) \<Rightarrow> escrow_side w1))))"

definition send_call :: "'w evm_delivery_env \<Rightarrow> evm_call \<Rightarrow> 'w \<Rightarrow> (relay_thrown, hex) result \<times> 'w" where
  "send_call env call w =
     (case ed_simulate env call w of
        (Inl e, w1) \<Rightarrow> (Inl e, w1)
      | (Inr _, w1) \<Rightarrow>
          (case ed_writeContract env call w1 of
             (Inl e, w2) \<Rightarrow> (Inl e, w2)
           | (Inr h, w2) \<Rightarrow>
               (case ed_waitReceipt env h (option_default (ed_confirmations env) 1) w2 of
                  (Inl e, w3) \<Rightarrow> (Inl e, w3)
                | (Inr _, w3) \<Rightarrow> (Inr h, w3))))"

definition deliverDirectly :: "'w evm_delivery_env \<Rightarrow> evm_message \<Rightarrow> hex \<Rightarrow> 'w \<Rightarrow> (relay_thrown, hex) result \<times> 'w" where
  "deliverDirectly env m payload w =
     (case guidFor m of
        Inl e \<Rightarrow> (Inl e, w)
      | Inr guid \<Rightarrow>
          send_call env
            (LzReceive (option_default (ed_srcEid env) 0) (option_default (ed_srcSender env) ZERO_BYTES32)
               (option_default (em_nonce m) 0) guid payload (ed_account env)) w)"

definition evm_deliver :: "'w evm_delivery_env \<Rightarrow> evm_message \<Rightarrow> 'w \<Rightarrow> (relay_thrown, hex) result \<times> 'w" where
  "evm_deliver env m w =
     (if \<not> isOutboundType (em_type m)
      then (Inl (Thrown (''EvmDestinationDelivery cannot deliver message type '' @ option_default (em_type m) ''undefined'')), w)
      else case encodePayload m of
             Inl e \<Rightarrow> (Inl e, w)
           | Inr payload \<Rightarrow>
               (case ed_mockEndpointAddress env of
                  None \<Rightarrow> deliverDirectly env m payload w
                | Some mock \<Rightarrow>
                    if mock = '''' then deliverDirectly env m payload w
                    else send_call env (MockDeliver (option_default (ed_dstEid env) 0) (ed_escrowAddress env) payload) w))"

text \<open>
  The relayer calls \<open>isDelivered\<close> with a message key and \<open>deliver\<close> with a pending message, which
  have none of the properties that this class reads.
\<close>

definition key_as_message :: "message_key \<Rightarrow> evm_message" where
  "key_as_message k = \<lparr>em_type = None, em_payload = None, em_guid = None, em_nonce = Some (mk_nonce k)\<rparr>"

definition pending_as_message :: "pending_message \<Rightarrow> evm_message" where
  "pending_as_message p = \<lparr>em_type = None, em_payload = None, em_guid = None, em_nonce = None\<rparr>"

text \<open>The leg from Stellar to the EVM chain, as \<^verbatim>\<open>cli.ts\<close> wires it.\<close>

definition evm_leg :: "'w evm_delivery_env \<Rightarrow> 'w relayer_env \<Rightarrow> 'w relayer_env" where
  "evm_leg ed env =
     env\<lparr>re_isDelivered := \<lambda>k. evm_isDelivered ed (key_as_message k), re_deliver := \<lambda>p. evm_deliver ed (pending_as_message p)\<rparr>"

section \<open>The contracts\<close>

text \<open>What the settlement contract sends (\<open>encode_fill_confirmed\<close>, \<open>encode_cancel_intent\<close>).\<close>

definition encode_fill_confirmed :: "8 word list \<Rightarrow> 8 word list \<Rightarrow> nat \<Rightarrow> nat \<Rightarrow> 8 word list" where
  "encode_fill_confirmed intent_hash solver_evm fill_amount fill_ledger =
     1 # 2 # intent_hash @ solver_evm @ be_bytes 16 fill_amount @ be_bytes 8 fill_ledger"

definition encode_cancel_intent :: "8 word list \<Rightarrow> 8 word \<Rightarrow> 8 word list" where
  "encode_cancel_intent intent_hash reason = 1 # 3 # intent_hash @ [reason]"

text \<open>What the escrow reads of a message in \<open>lzReceive\<close>, after the checks of endpoint, peer and nonce.\<close>

datatype escrow_message =
    ReleaseMessage "8 word list" "8 word list" nat nat
  | RefundMessage "8 word list" "8 word"

datatype escrow_revert = MalformedPayload | UnknownVersion | UnknownMessageType

definition decodeFillConfirmed :: "8 word list \<Rightarrow> (escrow_revert, escrow_message) result" where
  "decodeFillConfirmed m =
     (if length m \<noteq> FILL_CONFIRMED_LENGTH then Inl MalformedPayload
      else if take 12 (drop 34 m) \<noteq> replicate 12 0 then Inl MalformedPayload
      else Inr (ReleaseMessage (read_field 32 2 m) (read_field 20 46 m)
                  (be_nat (read_field 16 66 m)) (be_nat (read_field 8 82 m))))"

definition decodeCancelIntent :: "8 word list \<Rightarrow> (escrow_revert, escrow_message) result" where
  "decodeCancelIntent m =
     (if length m \<noteq> CANCEL_INTENT_LENGTH then Inl MalformedPayload
      else if m ! 34 \<notin> {0, 1, 2} then Inl MalformedPayload
      else Inr (RefundMessage (read_field 32 2 m) (m ! 34)))"

definition escrow_decode :: "8 word list \<Rightarrow> (escrow_revert, escrow_message) result" where
  "escrow_decode m =
     (if length m < 2 then Inl MalformedPayload
      else if m ! 0 \<noteq> 1 then Inl UnknownVersion
      else if m ! 1 = 2 then decodeFillConfirmed m
      else if m ! 1 = 3 then decodeCancelIntent m
      else Inl UnknownMessageType)"

section \<open>What the escrow makes of it\<close>

lemma guid_length: "guidFor m = Inr g \<Longrightarrow> length g = 66 \<and> take 2 g = ''0x''"
  by (auto simp: guidFor_def payloadHash_def bind_result_def pad_end_def split: option.splits sum.splits if_splits)

lemma typeCode_length: "typeCode t = Inr c \<Longrightarrow> length c = 2"
  by (auto simp: typeCode_def split: if_splits)

lemma wrapped_length:
  assumes "encodePayload m = Inr h" and "em_payload m = Some (PayloadText (''0x'' @ bytes_hex bs))"
  shows "length (hex_bytes (drop 2 h)) = 33 + length bs"
proof -
  obtain g c where gc: "guidFor m = Inr g" "typeCode (option_default (em_type m) '''') = Inr c"
    and h: "h = ''0x'' @ drop 2 g @ c @ bytes_hex bs"
    using assms by (auto simp: encodePayload_def payload_text_def bind_result_def split: sum.splits)
  have "length (drop 2 h) = 64 + 2 + 2 * length bs"
    using guid_length [OF gc(1)] typeCode_length [OF gc(2)] by (simp add: h length_bytes_hex)
  then show ?thesis by (simp add: length_hex_bytes)
qed

lemma escrow_decode_length:
  "escrow_decode m = Inr r \<Longrightarrow> length m = FILL_CONFIRMED_LENGTH \<or> length m = CANCEL_INTENT_LENGTH"
  by (auto simp: escrow_decode_def decodeFillConfirmed_def decodeCancelIntent_def split: if_splits)

lemma fill_confirmed_accepted:
  assumes "length h = 32" and "length a = 20" and "n < 2 ^ 128" and "l < 2 ^ 64"
  shows "escrow_decode (encode_fill_confirmed h (replicate 12 0 @ a) n l) = Inr (ReleaseMessage h a n l)"
proof -
  have n: "be_nat (be_bytes 16 n) = n" "be_nat (be_bytes 8 l) = l" using assms(3,4) by (intro be_nat_be_bytes; simp)+
  show ?thesis
    using assms(1,2) n
    by (simp add: escrow_decode_def decodeFillConfirmed_def encode_fill_confirmed_def FILL_CONFIRMED_LENGTH_def
        read_field_def take_Cons' drop_Cons' del: be_bytes.simps)
qed

lemma cancel_intent_accepted:
  assumes "length h = 32" and "reason \<in> {0, 1, 2}"
  shows "escrow_decode (encode_cancel_intent h reason) = Inr (RefundMessage h reason)"
  using assms
  by (auto simp: escrow_decode_def decodeCancelIntent_def encode_cancel_intent_def CANCEL_INTENT_LENGTH_def
      read_field_def nth_Cons' nth_append)

section \<open>A relayer on this leg\<close>

definition undelivered :: "relayer_state \<Rightarrow> bool" where
  "undelivered s \<longleftrightarrow> rm_delivered (rl_metrics s) = 0 \<and> rm_alreadyDelivered (rl_metrics s) = 0"

lemma evm_leg_calls [simp]:
  "re_isDelivered (evm_leg ed env) k w = (Inl (Thrown ''TypeError''), w)"
  "re_deliver (evm_leg ed env) p w = (Inl (Thrown ''EvmDestinationDelivery cannot deliver message type undefined''), w)"
  by (simp_all add: evm_leg_def evm_isDelivered_def guidFor_def payloadHash_def payload_text_def key_as_message_def
      bind_result_def evm_deliver_def pending_as_message_def isOutboundType_def option_default_def)

lemma undelivered_simps [simp]:
  "undelivered (log_event e s) = undelivered s" "undelivered (put_cursor c s) = undelivered s"
  "undelivered (record_poll env pr h p s) = undelivered s" "undelivered (drop_unobserved ms s) = undelivered s"
  "undelivered (s\<lparr>rl_readiness := rd\<rparr>) = undelivered s" "undelivered (after_relay_tick env s w) = undelivered s"
  "undelivered (after_failed_tick m s) = undelivered s"
  by (simp_all add: undelivered_def log_event_def put_cursor_def record_poll_def drop_unobserved_def
      after_relay_tick_def after_failed_tick_def Let_def)

lemma relayOne_undelivered:
  "relayOne (evm_leg ed env) p s w = (r, s', w') \<Longrightarrow> undelivered s \<Longrightarrow> undelivered s'"
  by (auto simp: relayOne_def attempt_relay_def relay_failed_def undelivered_def log_event_def Let_def
      split: option.splits if_splits)

lemma relay_confirmed_undelivered:
  "relay_confirmed (evm_leg ed env) head ms s w = (r, s', w') \<Longrightarrow> undelivered s \<Longrightarrow> undelivered s'"
proof (induction ms arbitrary: s w r s' w')
  case (Cons p ps)
  show ?case
  proof (cases "head < srcBlock p")
    case False
    obtain q s1 w1 where o: "relayOne (evm_leg ed env) p s w = (q, s1, w1)" by (metis prod_cases3)
    obtain q2 s2 w2 where c: "relay_confirmed (evm_leg ed env) head ps s1 w1 = (q2, s2, w2)" by (metis prod_cases3)
    have "undelivered s1" using relayOne_undelivered [OF o Cons.prems(2)] .
    moreover from this have "undelivered s2" by (rule Cons.IH [OF c])
    ultimately show ?thesis using Cons.prems(1) False o c by (auto split: sum.splits)
  qed (use Cons in auto)
qed simp

lemma tick_deliver_undelivered:
  assumes "tick_deliver (evm_leg ed env) pr s w = (r, s', w')" and "undelivered s"
  shows "undelivered s'"
proof -
  let ?c = "confirmed_head (evm_leg ed env) (pr_head pr)"
  let ?s1 = "drop_unobserved (pr_messages pr)
    (s\<lparr>rl_readiness := (rl_readiness s)\<lparr>rd_head := pr_head pr, rd_confirmedHead := ?c, rd_lag := max 0 (?c + 1 - rl_cursor s)\<rparr>\<rparr>)"
  obtain q s2 w2 where c: "relay_confirmed (evm_leg ed env) ?c (pr_messages pr) ?s1 w = (q, s2, w2)" by (metis prod_cases3)
  have u: "undelivered s2" using relay_confirmed_undelivered [OF c] assms(2) by simp
  have "undelivered (s2\<lparr>rl_metrics := (rl_metrics s2)\<lparr>rm_unresolvedMessages := k\<rparr>\<rparr>)" for k
    using u by (simp add: undelivered_def)
  then show ?thesis using assms(1) u c by (auto simp: tick_deliver_def Let_def split: sum.splits prod.splits)
qed

lemma relay_tick_undelivered:
  assumes "relay_tick (evm_leg ed env) s w = (r, s', w')" and "undelivered s"
  shows "undelivered s'"
  using assms
  by (auto simp: relay_tick_def Let_def split: sum.splits prod.splits option.splits if_splits dest: tick_deliver_undelivered)

lemma relay_loop_undelivered:
  "relay_loop n (evm_leg ed env) s w = (r, s', w') \<Longrightarrow> undelivered s \<Longrightarrow> undelivered s'"
proof (induction n arbitrary: s w)
  case (Suc n)
  obtain q s1 w1 where t: "relay_tick (evm_leg ed env) s w = (q, s1, w1)" by (metis prod_cases3)
  have u: "undelivered s1" using relay_tick_undelivered [OF t Suc.prems(2)] .
  show ?case
  proof (cases q)
    case (Inr rs)
    then show ?thesis using Suc t u by (auto simp: Let_def split: if_splits)
  next
    case (Inl e)
    then show ?thesis using Suc t u by (cases e) (auto simp: Let_def split: if_splits)
  qed
qed simp

section \<open>Properties\<close>

text \<open>
  C13. Delivery breaks messages that the escrow would accept. The escrow reads the settlement
  contract's own messages, field for field; of the same messages as the relayer wraps them, with the guid
  and a type byte in front, it accepts none.
\<close>

theorem wrapped_messages_rejected:
  assumes "length h = 32" and "length a = 20" and "n < 2 ^ 128" and "l < 2 ^ 64" and "reason \<in> {0, 1, 2}"
  defines "fill \<equiv> encode_fill_confirmed h (replicate 12 0 @ a) n l" and "cancel \<equiv> encode_cancel_intent h reason"
  shows "escrow_decode fill = Inr (ReleaseMessage h a n l) \<and> escrow_decode cancel = Inr (RefundMessage h reason)
    \<and> (\<forall>m out. em_payload m \<in> {Some (PayloadText (''0x'' @ bytes_hex fill)), Some (PayloadText (''0x'' @ bytes_hex cancel))}
         \<longrightarrow> encodePayload m = Inr out \<longrightarrow> (\<exists>e. escrow_decode (hex_bytes (drop 2 out)) = Inl e))"
proof -
  have len: "length fill = 90" "length cancel = 35"
    using assms(1,2) by (simp_all add: fill_def cancel_def encode_fill_confirmed_def encode_cancel_intent_def)
  have rejected: "\<exists>e. escrow_decode (hex_bytes (drop 2 out)) = Inl e"
    if "em_payload m = Some (PayloadText (''0x'' @ bytes_hex bs))" "encodePayload m = Inr out" "bs \<in> {fill, cancel}" for m out bs
    using wrapped_length [OF that(2,1)] escrow_decode_length [of "hex_bytes (drop 2 out)"] that(3) len
    by (cases "escrow_decode (hex_bytes (drop 2 out))") (auto simp: FILL_CONFIRMED_LENGTH_def CANCEL_INTENT_LENGTH_def)
  show ?thesis
    using fill_confirmed_accepted [OF assms(1-4)] cancel_intent_accepted [OF assms(1,5)] rejected
    unfolding fill_def cancel_def by blast
qed

text \<open>
  The return leg delivers nothing: however long a relayer runs with this delivery, and whatever the
  source reports, it delivers no message and finds none delivered, and the EVM chain plays no part, for the
  relayer hands over keys and pending messages that lack what the delivery reads.
\<close>

theorem return_leg_never_delivers:
  assumes "relay_loop k (evm_leg ed env) (new_relayer env dead) w = (res, s, w')"
  shows "rm_delivered (rl_metrics s) = 0 \<and> rm_alreadyDelivered (rl_metrics s) = 0
    \<and> (\<forall>other. relay_loop k (evm_leg other env) (new_relayer env dead) w = (res, s, w'))"
proof -
  have "undelivered (new_relayer env dead)" by (simp add: undelivered_def new_relayer_def)
  then have "undelivered s" by (rule relay_loop_undelivered [OF assms])
  moreover have "evm_leg ed env = evm_leg other env" for other
  proof -
    have "re_isDelivered (evm_leg ed env) = re_isDelivered (evm_leg other env)"
      "re_deliver (evm_leg ed env) = re_deliver (evm_leg other env)" by (simp_all add: fun_eq_iff)
    then show ?thesis by (simp add: evm_leg_def)
  qed
  ultimately show ?thesis using assms by (simp add: undelivered_def) metis
qed

text \<open>A message that confirms a fill of 25 units, with its guid left out.\<close>

definition sample_confirmation :: evm_message where
  "sample_confirmation =
     \<lparr>em_type = Some ''FillConfirmed'',
      em_payload = Some (PayloadText (''0x'' @ bytes_hex
        (encode_fill_confirmed (replicate 32 7) (replicate 12 0 @ replicate 20 9) 25 1000))),
      em_guid = None, em_nonce = Some 3\<rparr>"

theorem wrapped_messages_rejected_witness:
  "\<exists>out e. encodePayload sample_confirmation = Inr out \<and> escrow_decode (hex_bytes (drop 2 out)) = Inl e
     \<and> escrow_decode (encode_fill_confirmed (replicate 32 7) (replicate 12 0 @ replicate 20 9) 25 1000)
         = Inr (ReleaseMessage (replicate 32 7) (replicate 20 9) 25 1000)"
proof -
  obtain out where o: "encodePayload sample_confirmation = Inr out"
    by (auto simp: encodePayload_def guidFor_def payloadHash_def payload_text_def typeCode_def bind_result_def
        sample_confirmation_def option_default_def)
  have c: "length (replicate 32 (7 :: 8 word)) = 32" "length (replicate 20 (9 :: 8 word)) = 20"
    "(25 :: nat) < 2 ^ 128" "(1000 :: nat) < 2 ^ 64" "(0 :: 8 word) \<in> {0, 1, 2}" by simp_all
  note r = wrapped_messages_rejected [OF c]
  have "\<exists>e. escrow_decode (hex_bytes (drop 2 out)) = Inl e"
    using r [THEN conjunct2, THEN conjunct2, rule_format, of sample_confirmation out] o
    by (simp add: sample_confirmation_def)
  then show ?thesis using r o by blast
qed

definition sample_evm_delivery :: "int evm_delivery_env" where
  "sample_evm_delivery =
     \<lparr>ed_mockEndpointAddress = None, ed_escrowAddress = ''0xe5c'', ed_account = ''0xacc'', ed_dstEid = None, ed_srcEid = None,
      ed_srcSender = None, ed_confirmations = None, ed_readDelivered = \<lambda>e a h w. (Inr True, w),
      ed_readIsDelivered = \<lambda>g w. (Inr False, w), ed_simulate = \<lambda>c w. (Inr (), w),
      ed_writeContract = \<lambda>c w. (Inr ''0x77'', w), ed_waitReceipt = \<lambda>h n w. (Inr (), w)\<rparr>"

theorem return_leg_never_delivers_witness:
  "\<exists>res s w. relay_loop 9 (evm_leg sample_evm_delivery sample_relayer) (new_relayer sample_relayer []) 0 = (res, s, w)
     \<and> rm_delivered (rl_metrics s) = 0"
proof -
  obtain res s w where l: "relay_loop 9 (evm_leg sample_evm_delivery sample_relayer) (new_relayer sample_relayer []) 0 = (res, s, w)"
    by (metis prod_cases3)
  then show ?thesis using return_leg_never_delivers [OF l] by blast
qed

end
