(* ===== verification/Soroban_Watcher.thy ===== *)
theory Soroban_Watcher
  imports Evm_Delivery
begin

text \<open>
  The return leg's watcher (\<^verbatim>\<open>relayer/src/soroban-watcher.ts\<close>): windows of ledgers, the decoding of contract
  events and the messages made from them. The Soroban RPC server is a parameter. The file uses
  \<open>MessageType\<close> as an enumeration with a member \<open>Locked\<close>, but \<^verbatim>\<open>types.ts\<close> declares it as a type only:
  the values of its members are a parameter. \<open>simulateRead\<close> and \<open>stringArg\<close>, which only tests call, are left out.
\<close>

section \<open>Values and events\<close>

text \<open>
  What \<open>scValToNative\<close> gives, as far as the code tells it apart; \<open>ScAddress\<close> is an \<open>Address\<close> object
  with its text, \<open>ScOther\<close> any other value.
\<close>

datatype sc_value =
    ScUndefined
  | ScNull
  | ScString string
  | ScNumber jsnum string
  | ScBigint int
  | ScBytes "8 word list"
  | ScAddress string
  | ScObject "(string \<times> sc_value) list"
  | ScOther

datatype outbound_kind = OutLocked | OutFillConfirmed | OutCancelIntent

text \<open>A value of the event before conversion: absent, one that the conversion refuses, or one that converts.\<close>

datatype raw_value = Absent | Unconvertible | Converts sc_value

record chain_event =
  ce_topic :: "raw_value list option"
  ce_value :: raw_value
  ce_ledger :: int
  ce_txHash :: hex

record outbound_event =
  oe_messageType :: outbound_kind
  oe_intentId :: string
  oe_payload :: "8 word list"
  oe_ledger :: int
  oe_txHash :: hex

text \<open>Texts decoded from bytes are lists of code points.\<close>

record outbound_message =
  om_type :: outbound_kind
  om_intentId :: string
  om_payload :: "8 word list"
  om_sourceLedger :: int
  om_sourceTxHash :: hex
  om_cancellationReason :: "nat list option"

record 'w soroban_source =
  ss_startLedger :: "int option"
  ss_maxLedgersPerPoll :: "int option"
  ss_typeValue :: "outbound_kind \<Rightarrow> jsnum option"
  ss_latestLedger :: "'w \<Rightarrow> (string, int) result \<times> 'w"
  ss_getEvents :: "int \<Rightarrow> int \<Rightarrow> nat \<Rightarrow> 'w \<Rightarrow> (string, chain_event list option) result \<times> 'w"

section \<open>Decoding an event\<close>

fun safeScValToNative :: "raw_value \<Rightarrow> sc_value" where
  "safeScValToNative (Converts v) = v"
| "safeScValToNative _ = ScUndefined"

text \<open>The first case whose member has this value; \<open>NaN\<close> equals nothing.\<close>

definition messageTypeFromDiscriminant :: "'w soroban_source \<Rightarrow> jsnum \<Rightarrow> outbound_kind option" where
  "messageTypeFromDiscriminant src x =
     find (\<lambda>k. x \<noteq> NaN \<and> ss_typeValue src k = Some x) [OutLocked, OutFillConfirmed, OutCancelIntent]"

definition parseMessageType :: "'w soroban_source \<Rightarrow> sc_value \<Rightarrow> outbound_kind option" where
  "parseMessageType src raw =
     (case raw of
        ScNumber x t \<Rightarrow> messageTypeFromDiscriminant src x
      | ScString t \<Rightarrow>
          (let normalized = to_lower t
           in if normalized = ''fillconfirmed'' \<or> normalized = ''fill_confirmed'' then Some OutFillConfirmed
              else if normalized = ''cancelintent'' \<or> normalized = ''cancel_intent'' then Some OutCancelIntent
              else if normalized = ''locked'' then Some OutLocked
              else None)
      | _ \<Rightarrow> None)"

fun coerceIntentId :: "sc_value \<Rightarrow> string option" where
  "coerceIntentId (ScString s) = Some s"
| "coerceIntentId (ScBigint n) = Some (int_string n)"
| "coerceIntentId (ScNumber x t) = Some t"
| "coerceIntentId (ScBytes bs) = Some (bytes_hex bs)"
| "coerceIntentId (ScAddress s) = Some s"
| "coerceIntentId _ = None"

definition sc_field :: "(string \<times> sc_value) list \<Rightarrow> string \<Rightarrow> sc_value" where
  "sc_field fs k = (case map_of fs k of None \<Rightarrow> ScUndefined | Some v \<Rightarrow> v)"

definition first_some :: "'a option list \<Rightarrow> 'a option" where
  "first_some os = (case filter (\<lambda>x. x \<noteq> None) os of [] \<Rightarrow> None | x # _ \<Rightarrow> x)"

definition extractIntentId :: "sc_value \<Rightarrow> sc_value \<Rightarrow> string option" where
  "extractIntentId topicValue v =
     (case coerceIntentId topicValue of
        Some i \<Rightarrow> Some i
      | None \<Rightarrow>
          (case v of
             ScObject fs \<Rightarrow>
               first_some [coerceIntentId (sc_field fs ''intentId''), coerceIntentId (sc_field fs ''intent_id''),
                           coerceIntentId (sc_field fs ''id'')]
           | _ \<Rightarrow> None))"

definition sc_hexToBytes :: "string \<Rightarrow> 8 word list option" where
  "sc_hexToBytes s =
     (let normalized = (if take 2 s = ''0x'' then drop 2 s else s)
      in if normalized = [] \<or> odd (length normalized) then None
         else if \<not> list_all is_hex normalized then None
         else Some (hex_bytes normalized))"

text \<open>\<open>payload ?? data ?? message\<close>\<close>

definition nested_payload :: "(string \<times> sc_value) list \<Rightarrow> sc_value" where
  "nested_payload fs =
     (case filter (\<lambda>v. v \<noteq> ScUndefined \<and> v \<noteq> ScNull) [sc_field fs ''payload'', sc_field fs ''data''] of
        [] \<Rightarrow> sc_field fs ''message'' | v # _ \<Rightarrow> v)"

lemma sc_field_size: "size (sc_field fs k) < Suc (size_list (\<lambda>x. Suc (size (snd x))) fs)"
  by (induction fs) (auto simp: sc_field_def)

lemma nested_payload_size [termination_simp]:
  "size (nested_payload fs) < Suc (size_list (\<lambda>x. Suc (size (snd x))) fs)"
  using sc_field_size [of fs] by (auto simp: nested_payload_def split: list.split)

fun extractPayload :: "sc_value \<Rightarrow> 8 word list option" where
  "extractPayload (ScBytes bs) = Some bs"
| "extractPayload (ScString s) = sc_hexToBytes s"
| "extractPayload (ScObject fs) = extractPayload (nested_payload fs)"
| "extractPayload _ = None"

definition topic_at :: "sc_value list \<Rightarrow> nat \<Rightarrow> sc_value" where
  "topic_at topics k = (if k < length topics then topics ! k else ScUndefined)"

text \<open>The message type, the intent and the payload from a type topic, an intent topic and the value.\<close>

definition outbound_of ::
  "'w soroban_source \<Rightarrow> chain_event \<Rightarrow> sc_value \<Rightarrow> sc_value \<Rightarrow> sc_value \<Rightarrow> outbound_event option" where
  "outbound_of src e typeTopic intentTopic v =
     (case parseMessageType src typeTopic of
        None \<Rightarrow> None
      | Some k \<Rightarrow>
          (case (extractIntentId intentTopic v, extractPayload v) of
             (Some i, Some p) \<Rightarrow>
               Some \<lparr>oe_messageType = k, oe_intentId = i, oe_payload = p, oe_ledger = ce_ledger e, oe_txHash = ce_txHash e\<rparr>
           | _ \<Rightarrow> None))"

definition decodeEvent :: "'w soroban_source \<Rightarrow> chain_event \<Rightarrow> outbound_event option" where
  "decodeEvent src e =
     (let topics = map safeScValToNative (option_default (ce_topic e) []);
          v = safeScValToNative (ce_value e)
      in if topics = [] then None
         else if topics ! 0 = ScString ''packet_sent'' \<or> topics ! 0 = ScString ''PacketSent''
         then outbound_of src e (topic_at topics 1) (topic_at topics 2) v
         else outbound_of src e (topics ! 0) (topic_at topics 1) v)"

section \<open>Cancellation reasons\<close>

text \<open>
  \<open>Buffer.toString("utf8")\<close>: a sequence that is cut short or out of range is replaced by \<open>U+FFFD\<close>, and
  decoding goes on with the byte that did not fit.
\<close>

fun utf8_rest :: "nat \<Rightarrow> nat \<Rightarrow> nat \<Rightarrow> nat \<Rightarrow> nat list \<Rightarrow> nat option \<times> nat list" where
  "utf8_rest 0 lo hi acc bs = (Some acc, bs)"
| "utf8_rest (Suc k) lo hi acc [] = (None, [])"
| "utf8_rest (Suc k) lo hi acc (b # bs) =
     (if lo \<le> b \<and> b \<le> hi then utf8_rest k 128 191 (acc * 64 + b mod 64) bs else (None, b # bs))"

text \<open>How many bytes follow a first byte, the range of the next one, and the bits of the first one.\<close>

definition utf8_lead :: "nat \<Rightarrow> (nat \<times> nat \<times> nat \<times> nat) option" where
  "utf8_lead b =
     (if b < 128 then Some (0, 0, 0, b)
      else if 194 \<le> b \<and> b \<le> 223 then Some (1, 128, 191, b mod 32)
      else if b = 224 then Some (2, 160, 191, 0)
      else if b = 237 then Some (2, 128, 159, 13)
      else if 225 \<le> b \<and> b \<le> 239 then Some (2, 128, 191, b mod 16)
      else if b = 240 then Some (3, 144, 191, 0)
      else if 241 \<le> b \<and> b \<le> 243 then Some (3, 128, 191, b mod 8)
      else if b = 244 then Some (3, 128, 143, 4)
      else None)"

lemma utf8_rest_length: "utf8_rest k lo hi acc bs = (r, bs') \<Longrightarrow> length bs' \<le> length bs"
  by (induction k lo hi acc bs rule: utf8_rest.induct) (auto split: if_splits)

function utf8_decode :: "nat list \<Rightarrow> nat list" where
  "utf8_decode [] = []"
| "utf8_decode (b # bs) =
     (case utf8_lead b of
        None \<Rightarrow> 65533 # utf8_decode bs
      | Some (k, lo, hi, acc) \<Rightarrow>
          (case utf8_rest k lo hi acc bs of
             (None, bs') \<Rightarrow> 65533 # utf8_decode bs'
           | (Some c, bs') \<Rightarrow> c # utf8_decode bs'))"
  by pat_completeness auto
termination
  by (relation "measure length") (auto simp: less_Suc_eq_le dest: utf8_rest_length [OF sym])

definition control_code :: "nat \<Rightarrow> bool" where
  "control_code c \<longleftrightarrow> c \<le> 8 \<or> c = 11 \<or> c = 12 \<or> (14 \<le> c \<and> c \<le> 31)"

definition decodeCancellationReason :: "8 word list \<Rightarrow> nat list option" where
  "decodeCancellationReason payload =
     (if payload = [] then None
      else let decoded = utf8_decode (map unat payload)
           in if list_ex control_code decoded then None else Some decoded)"

definition toPendingMessage :: "outbound_event \<Rightarrow> outbound_message" where
  "toPendingMessage e =
     \<lparr>om_type = oe_messageType e, om_intentId = oe_intentId e, om_payload = oe_payload e,
      om_sourceLedger = oe_ledger e, om_sourceTxHash = oe_txHash e,
      om_cancellationReason = (if oe_messageType e = OutCancelIntent then decodeCancellationReason (oe_payload e) else None)\<rparr>"

section \<open>Polling\<close>

definition max_ledgers :: "'w soroban_source \<Rightarrow> int" where
  "max_ledgers src = option_default (ss_maxLedgersPerPoll src) 100"

definition EVENT_LIMIT :: nat where "EVENT_LIMIT = 200"

definition resolveStartLedger :: "'w soroban_source \<Rightarrow> int option \<Rightarrow> int \<Rightarrow> int" where
  "resolveStartLedger src fromLedger latestLedger =
     (case fromLedger of
        Some l \<Rightarrow> if 0 < l then l else option_default (ss_startLedger src) (max 1 (latestLedger - max_ledgers src + 1))
      | None \<Rightarrow> option_default (ss_startLedger src) (max 1 (latestLedger - max_ledgers src + 1)))"

definition fetchEvents :: "'w soroban_source \<Rightarrow> int \<Rightarrow> int \<Rightarrow> 'w \<Rightarrow> (string, chain_event list) result \<times> 'w" where
  "fetchEvents src startLedger endLedger w =
     (case ss_getEvents src startLedger endLedger EVENT_LIMIT w of
        (Inl e, w1) \<Rightarrow> (Inl e, w1)
      | (Inr es, w1) \<Rightarrow> (Inr (option_default es []), w1))"

definition messages_of :: "'w soroban_source \<Rightarrow> chain_event list \<Rightarrow> outbound_message list" where
  "messages_of src es = map toPendingMessage (List.map_filter (decodeEvent src) es)"

definition soroban_poll ::
  "'w soroban_source \<Rightarrow> int option \<Rightarrow> 'w \<Rightarrow> (string, outbound_message list \<times> int) result \<times> 'w" where
  "soroban_poll src fromLedger w =
     (case ss_latestLedger src w of
        (Inl e, w1) \<Rightarrow> (Inl e, w1)
      | (Inr latestLedger, w1) \<Rightarrow>
          (let startLedger = resolveStartLedger src fromLedger latestLedger;
               endLedger = min latestLedger (startLedger + max_ledgers src - 1)
           in if latestLedger < startLedger then (Inr ([], latestLedger + 1), w1)
              else case fetchEvents src startLedger endLedger w1 of
                     (Inl e, w2) \<Rightarrow> (Inl e, w2)
                   | (Inr es, w2) \<Rightarrow>
                       (Inr (messages_of src es, if endLedger < latestLedger then endLedger + 1 else latestLedger + 1), w2)))"

text \<open>Polls in a row, each from where the last one said to go on; a failed poll is repeated from the same place.\<close>

fun soroban_polls ::
  "nat \<Rightarrow> 'w soroban_source \<Rightarrow> int \<Rightarrow> 'w \<Rightarrow> outbound_message list \<times> int \<times> 'w" where
  "soroban_polls 0 src l w = ([], l, w)"
| "soroban_polls (Suc n) src l w =
     (case soroban_poll src (Some l) w of
        (Inl _, w1) \<Rightarrow> soroban_polls n src l w1
      | (Inr (ms, next), w1) \<Rightarrow>
          (case soroban_polls n src next w1 of (ms', l', w') \<Rightarrow> (ms @ ms', l', w')))"

section \<open>The settlement contract's events\<close>

text \<open>The first topic of every event that the settlement contract publishes.\<close>

definition settlement_topics :: "string list" where
  "settlement_topics =
     [''peer_set'', ''filled'', ''cancelled'', ''initialized'', ''endpoint_set'', ''endpoint_change_proposed'',
      ''endpoint_change_cancelled'', ''peer_change_proposed'', ''peer_change_cancelled'', ''peer_change_expired'',
      ''admin_transfer_started'', ''admin_transfer_completed'', ''paused_set'', ''paused_eid_set'', ''native_token_set'',
      ''keeper_reward_set'', ''keeper_reward_paid'', ''keeper_reward_skipped'', ''dispatch_keeper_reward_set'',
      ''dest_token_allowed_set'', ''max_intent_amount_set'', ''max_ttl_set'', ''rolling_window_cap_set'',
      ''rolling_window_cap_triggered'', ''rolling_window_cap_reset'', ''registered'', ''confirmation_sent'',
      ''cancelled_inbound'', ''cancelled_before_registration'', ''cancel_ignored'', ''nonce_words_pruned'']"

definition settlement_event :: "chain_event \<Rightarrow> bool" where
  "settlement_event e \<longleftrightarrow> (\<exists>t ts. ce_topic e = Some (Converts (ScString t) # ts) \<and> t \<in> set settlement_topics)"

lemma settlement_topic_unknown:
  assumes "t \<in> set settlement_topics"
  shows "parseMessageType src (ScString t) = None \<and> t \<noteq> ''packet_sent'' \<and> t \<noteq> ''PacketSent''"
proof -
  have "\<forall>t \<in> set settlement_topics. to_lower t = t
      \<and> t \<notin> {''fillconfirmed'', ''fill_confirmed'', ''cancelintent'', ''cancel_intent'', ''locked'', ''packet_sent'', ''PacketSent''}"
    by (simp add: settlement_topics_def to_lower_def lower_char_def is_upper_def char_code_def)
  then show ?thesis using assms by (auto simp: parseMessageType_def Let_def)
qed

lemma settlement_event_ignored:
  assumes "settlement_event e" shows "decodeEvent src e = None"
proof -
  obtain t ts where t: "ce_topic e = Some (Converts (ScString t) # ts)" "t \<in> set settlement_topics"
    using assms unfolding settlement_event_def by blast
  then show ?thesis
    using settlement_topic_unknown [OF t(2), of src] by (simp add: decodeEvent_def outbound_of_def option_default_def)
qed

lemma messages_of_simps [simp]:
  "messages_of src [] = []"
  "messages_of src (e # es) = (case decodeEvent src e of None \<Rightarrow> messages_of src es | Some d \<Rightarrow> toPendingMessage d # messages_of src es)"
  by (simp_all add: messages_of_def List.map_filter_def split: option.split)

lemma messages_of_member: "e \<in> set es \<Longrightarrow> decodeEvent src e = Some d \<Longrightarrow> toPendingMessage d \<in> set (messages_of src es)"
  by (induction es) (auto split: option.splits)

lemma messages_of_ignored: "(\<And>e. e \<in> set es \<Longrightarrow> settlement_event e) \<Longrightarrow> messages_of src es = []"
  by (induction es) (simp_all add: settlement_event_ignored)

text \<open>The version byte in front of a cancellation message is a control character: no reason is ever read from one.\<close>

lemma cancel_reason_never_read: "decodeCancellationReason (encode_cancel_intent h reason) = None"
  by (simp add: decodeCancellationReason_def encode_cancel_intent_def utf8_lead_def control_code_def Let_def)

section \<open>Windows\<close>

definition window :: "chain_event list \<Rightarrow> int \<Rightarrow> int \<Rightarrow> chain_event list" where
  "window evs a b = filter (\<lambda>e. a \<le> ce_ledger e \<and> ce_ledger e \<le> b) evs"

text \<open>A server that reports the events \<open>evs\<close>, as many of a window as the limit allows.\<close>

definition reports :: "'w soroban_source \<Rightarrow> chain_event list \<Rightarrow> bool" where
  "reports src evs \<longleftrightarrow>
     (\<forall>a b n w es w'. ss_getEvents src a b n w = (Inr es, w') \<longrightarrow> es = Some (take n (window evs a b)))"

definition quiet :: "'w soroban_source \<Rightarrow> chain_event list \<Rightarrow> bool" where
  "quiet src evs \<longleftrightarrow> (\<forall>a. length (window evs a (a + max_ledgers src - 1)) \<le> EVENT_LIMIT)"

lemma length_window_mono: "b \<le> c \<Longrightarrow> length (window evs a b) \<le> length (window evs a c)"
  by (induction evs) (auto simp: window_def)

lemma soroban_poll_window:
  assumes "soroban_poll src (Some l) w = (Inr (ms, next), w')" and "reports src evs" and "0 < l"
  shows "next \<le> l \<or> (next \<le> l + max_ledgers src \<and> ms = messages_of src (take EVENT_LIMIT (window evs l (next - 1))))"
proof -
  obtain r w1 where latest: "ss_latestLedger src w = (r, w1)" by fastforce
  then obtain L where L: "ss_latestLedger src w = (Inr L, w1)" using assms(1) by (cases r) (auto simp: soroban_poll_def)
  have start: "resolveStartLedger src (Some l) L = l" using assms(3) by (simp add: resolveStartLedger_def)
  show ?thesis
  proof (cases "L < l")
    case True
    then show ?thesis using assms(1) by (simp add: soroban_poll_def L start Let_def)
  next
    case False
    let ?last = "min L (l + max_ledgers src - 1)"
    obtain es w2 where g: "ss_getEvents src l ?last EVENT_LIMIT w1 = (es, w2)" by fastforce
    then obtain es' where es: "es = Inr es'" using assms(1) False
      by (cases es) (simp_all add: soroban_poll_def fetchEvents_def L start Let_def)
    then have "es' = Some (take EVENT_LIMIT (window evs l ?last))" using assms(2) g unfolding reports_def by blast
    then have "ms = messages_of src (take EVENT_LIMIT (window evs l ?last))" "next = ?last + 1"
      using assms(1) False g es by (auto simp: soroban_poll_def fetchEvents_def L start option_default_def Let_def split: if_splits)
    then show ?thesis by (simp add: min_def)
  qed
qed

lemma soroban_polls_cover:
  assumes "reports src evs" and "quiet src evs"
    and "e \<in> set evs" and "decodeEvent src e = Some d" and "0 < l"
    and latest: "\<And>w L w'. ss_latestLedger src w = (Inr L, w') \<Longrightarrow> 0 \<le> L"
    and pos: "0 < max_ledgers src"
  shows "soroban_polls n src l w = (ms, l', w') \<Longrightarrow> l \<le> ce_ledger e \<Longrightarrow> ce_ledger e < l' \<Longrightarrow> toPendingMessage d \<in> set ms"
  using assms(5)
proof (induction n arbitrary: l w ms)
  case (Suc n)
  obtain r w1 where p: "soroban_poll src (Some l) w = (r, w1)" by fastforce
  show ?case
  proof (cases r)
    case (Inl err)
    then show ?thesis using Suc p by simp
  next
    case (Inr out)
    obtain ms1 next_ledger where out: "out = (ms1, next_ledger)" by fastforce
    obtain ms2 l2 w2 where rest: "soroban_polls n src next_ledger w1 = (ms2, l2, w2)" by (metis prod_cases3)
    then have ms: "ms = ms1 @ ms2" "l' = l2" "w' = w2" using Suc.prems(1) p Inr out by auto
    note poll = p [unfolded Inr out]
    have positive: "0 < next_ledger"
    proof -
      obtain L w3 where "ss_latestLedger src w = (Inr L, w3)" using poll
        by (cases "ss_latestLedger src w"; cases "fst (ss_latestLedger src w)") (auto simp: soroban_poll_def)
      moreover from this have "0 \<le> L" by (rule latest)
      ultimately show ?thesis using poll Suc.prems(4) pos
        by (auto simp: soroban_poll_def fetchEvents_def resolveStartLedger_def Let_def split: if_splits prod.splits sum.splits)
    qed
    show ?thesis
    proof (cases "next_ledger \<le> ce_ledger e")
      case True
      then show ?thesis using Suc.IH [OF _ True _ positive] rest Suc.prems(3) ms by auto
    next
      case False
      then have w: "next_ledger \<le> l + max_ledgers src" "ms1 = messages_of src (take EVENT_LIMIT (window evs l (next_ledger - 1)))"
        using soroban_poll_window [OF poll assms(1) Suc.prems(4)] Suc.prems(2) by auto
      have "length (window evs l (next_ledger - 1)) \<le> length (window evs l (l + max_ledgers src - 1))"
        using w(1) by (intro length_window_mono) simp
      also have "\<dots> \<le> EVENT_LIMIT" using assms(2) unfolding quiet_def by blast
      finally have "ms1 = messages_of src (window evs l (next_ledger - 1))" using w(2) by simp
      moreover have "e \<in> set (window evs l (next_ledger - 1))" using assms(3) False Suc.prems(2) by (simp add: window_def)
      ultimately show ?thesis using messages_of_member [OF _ assms(4)] ms by simp
    qed
  qed
qed simp

section \<open>Properties\<close>


text \<open>
  The watcher recognises none of the settlement contract's events: their first topics are none of
  the names it looks for, so as long as a server reports events of that contract, which is what the watcher
  follows unless a mock endpoint is configured, no poll ever returns a message.
\<close>

theorem settlement_events_ignored:
  assumes "\<forall>a b k w es w'. ss_getEvents src a b k w = (Inr (Some es), w') \<longrightarrow> (\<forall>e \<in> set es. settlement_event e)"
  shows "fst (soroban_polls n src l w) = []"
proof -
  have "ms = []" if poll: "soroban_poll src (Some l) w = (Inr (ms, next), w')" for l w ms "next" w'
  proof -
    have fetched: "messages_of src es = []" if f: "fetchEvents src a b w = (Inr es, w')" for a b w es w'
    proof -
      have "settlement_event e" if "ss_getEvents src a b EVENT_LIMIT w = (Inr (Some es), w')" "e \<in> set es" for e
        using that assms by blast
      then show ?thesis using f messages_of_ignored [of es src]
        by (auto simp: fetchEvents_def option_default_def split: prod.splits sum.splits option.splits)
    qed
    show ?thesis using poll fetched by (auto simp: soroban_poll_def Let_def split: prod.splits sum.splits if_splits)
  qed
  then have step: "fst (soroban_polls (Suc n) src l w) = []"
    if "\<And>l w. fst (soroban_polls n src l w) = []" for n l w
    using that by (auto split: prod.split sum.split) (metis fst_conv)
  show ?thesis
  proof (induction n arbitrary: l w)
    case (Suc n)
    show ?case by (rule step) (rule Suc.IH)
  qed simp
qed

text \<open>A chain at ledger 150 with the given events, and an event of the mock endpoint that carries a confirmation.\<close>

definition sample_source :: "chain_event list \<Rightarrow> unit soroban_source" where
  "sample_source evs =
     \<lparr>ss_startLedger = None, ss_maxLedgersPerPoll = None, ss_typeValue = \<lambda>k. None, ss_latestLedger = \<lambda>w. (Inr 150, w),
      ss_getEvents = \<lambda>a b n w. (Inr (Some (take n (window evs a b))), w)\<rparr>"

definition packet_event :: chain_event where
  "packet_event =
     \<lparr>ce_topic = Some [Converts (ScString ''packet_sent''), Converts (ScString ''fill_confirmed''), Converts (ScBytes [7])],
      ce_value = Converts (ScBytes [1, 2]), ce_ledger = 120, ce_txHash = ''0x11''\<rparr>"

definition filled_event :: chain_event where
  "filled_event =
     \<lparr>ce_topic = Some [Converts (ScString ''filled''), Converts (ScBytes [7])], ce_value = Converts ScOther,
      ce_ledger = 120, ce_txHash = ''0x11''\<rparr>"

lemma sample_packet: "\<exists>d. decodeEvent src packet_event = Some d \<and> oe_messageType d = OutFillConfirmed"
proof -
  have "to_lower ''fill_confirmed'' = ''fill_confirmed''"
    by (simp add: to_lower_def lower_char_def is_upper_def char_code_def)
  then have "parseMessageType src (ScString ''fill_confirmed'') = Some OutFillConfirmed"
    by (simp add: parseMessageType_def)
  then show ?thesis
    by (simp add: decodeEvent_def outbound_of_def packet_event_def option_default_def topic_at_def extractIntentId_def)
qed


theorem settlement_events_ignored_witness:
  "fst (soroban_polls 9 (sample_source [filled_event]) 100 ()) = []"
proof (rule settlement_events_ignored)
  have "settlement_event filled_event" by (simp add: settlement_event_def filled_event_def settlement_topics_def)
  then show "\<forall>a b k w es w'. ss_getEvents (sample_source [filled_event]) a b k w = (Inr (Some es), w') \<longrightarrow>
      (\<forall>e \<in> set es. settlement_event e)"
    by (auto simp: sample_source_def window_def dest: in_set_takeD)
qed

end
