(* ===== verification/Js_Objects.thy ===== *)
theory Js_Objects
  imports Relayer_Wire Sdk_Intent
begin

text \<open>
  Plain JavaScript objects as the source uses them for output: the order of their keys, and \<open>JSON.stringify\<close>
  with a reader of the string literals it writes.
\<close>

section \<open>Keys\<close>

text \<open>Keys that are array indices come first, in their order; the others follow in insertion order.\<close>

definition index_key :: "string \<Rightarrow> bool" where
  "index_key k \<longleftrightarrow> digit_string k \<and> (k = ''0'' \<or> hd k \<noteq> CHR ''0'') \<and> nat_of_digits k < 2 ^ 32 - 1"

definition key_order :: "(string, 'a) assoc \<Rightarrow> (string, 'a) assoc" where
  "key_order m =
     sort_key (\<lambda>(k, _). nat_of_digits k) (filter (\<lambda>(k, _). index_key k) m) @ filter (\<lambda>(k, _). \<not> index_key k) m"

lemma set_key_order [simp]: "set (key_order m) = set m"
  by (auto simp: key_order_def)

lemma plain_key_order: "filter (\<lambda>(k, _). \<not> index_key k) (key_order m) = filter (\<lambda>(k, _). \<not> index_key k) m"
  by (auto simp: key_order_def filter_empty_conv)

section \<open>JSON.stringify\<close>

abbreviation QUOTE :: char where "QUOTE \<equiv> CHR 0x22"
abbreviation BACKSLASH :: char where "BACKSLASH \<equiv> CHR 0x5C"
abbreviation NEWLINE :: char where "NEWLINE \<equiv> CHR 0x0A"

definition json_escape :: "char \<Rightarrow> string" where
  "json_escape c =
     (if c = QUOTE then [BACKSLASH, QUOTE]
      else if c = BACKSLASH then [BACKSLASH, BACKSLASH]
      else if c = CHR 0x08 then [BACKSLASH, CHR ''b'']
      else if c = CHR 0x0C then [BACKSLASH, CHR ''f'']
      else if c = NEWLINE then [BACKSLASH, CHR ''n'']
      else if c = CHR 0x0D then [BACKSLASH, CHR ''r'']
      else if c = CHR 0x09 then [BACKSLASH, CHR ''t'']
      else if char_code c < 32
      then BACKSLASH # ''u00'' @ [hex_char (char_code c div 16), hex_char (char_code c mod 16)]
      else [c])"

definition json_quote :: "string \<Rightarrow> string" where
  "json_quote s = QUOTE # concat (map json_escape s) @ [QUOTE]"

fun comma_join :: "string list \<Rightarrow> string" where
  "comma_join [] = ''''"
| "comma_join [s] = s"
| "comma_join (s # t # ss) = s @ '','' @ comma_join (t # ss)"

text \<open>\<open>undefined\<close> has no text: it is left out of objects and is \<open>null\<close> in arrays. How a finite number prints is a parameter.\<close>

fun json_text :: "(jsnum \<Rightarrow> string) \<Rightarrow> jval \<Rightarrow> string option" where
  "json_text numText JUndef = None"
| "json_text numText JNull = Some ''null''"
| "json_text numText (JBool b) = Some (if b then ''true'' else ''false'')"
| "json_text numText (JNum x) = Some (if is_finite_num x then numText x else ''null'')"
| "json_text numText (JStr s) = Some (json_quote s)"
| "json_text numText (JArr vs) = Some (''['' @ comma_join (map (\<lambda>v. option_default (json_text numText v) ''null'') vs) @ '']'')"
| "json_text numText (JObj kvs) =
     Some (''{'' @ comma_join
       (List.map_filter (\<lambda>(k, t). map_option (\<lambda>t. json_quote k @ '':'' @ t) t)
          (key_order (map (\<lambda>(k, v). (k, json_text numText v)) kvs))) @ ''}'')"

section \<open>Reading a string literal\<close>

definition short_escape :: "char \<Rightarrow> char option" where
  "short_escape d =
     (if d = QUOTE \<or> d = BACKSLASH \<or> d = CHR ''/'' then Some d
      else if d = CHR ''b'' then Some (CHR 0x08) else if d = CHR ''f'' then Some (CHR 0x0C)
      else if d = CHR ''n'' then Some NEWLINE else if d = CHR ''r'' then Some (CHR 0x0D)
      else if d = CHR ''t'' then Some (CHR 0x09) else None)"

text \<open>The literal up to its closing quote, and what follows; code units above 255 are outside of the model's characters.\<close>

fun read_literal :: "string \<Rightarrow> (string \<times> string) option" where
  "read_literal [] = None"
| "read_literal (c # s) =
     (if c = QUOTE then Some ([], s)
      else if char_code c < 32 then None
      else if c \<noteq> BACKSLASH then map_option (\<lambda>(l, r). (c # l, r)) (read_literal s)
      else case s of
             [] \<Rightarrow> None
           | d # t \<Rightarrow>
               if d = CHR ''u'' then
                 (case t of
                    a # b # e # f # r \<Rightarrow>
                      (case (hex_digit a, hex_digit b, hex_digit e, hex_digit f) of
                         (Some 0, Some 0, Some h, Some l) \<Rightarrow>
                           map_option (\<lambda>(l', r). (char_of (16 * h + l) # l', r)) (read_literal r)
                       | _ \<Rightarrow> None)
                  | _ \<Rightarrow> None)
               else (case short_escape d of
                       None \<Rightarrow> None
                     | Some x \<Rightarrow> map_option (\<lambda>(l, r). (x # l, r)) (read_literal t)))"

lemma read_escape: "read_literal (json_escape c @ s) = map_option (\<lambda>(l, r). (c # l, r)) (read_literal s)"
proof -
  have zero: "hex_digit (CHR ''0'') = Some 0" by (simp add: hex_digit_def char_code_def)
  have "hex_digit (hex_char (char_code c mod 16)) = Some (char_code c mod 16)" by (rule hex_digit_hex_char) simp
  moreover have "hex_digit (hex_char (char_code c div 16)) = Some (char_code c div 16)" if "char_code c < 32"
    by (rule hex_digit_hex_char) (use that in simp)
  moreover have "char_of (16 * (char_code c div 16) + char_code c mod 16) = c"
    by (simp add: char_code_def)
  ultimately show ?thesis
    by (auto simp: json_escape_def short_escape_def zero char_code_def)
qed

lemma read_quoted: "read_literal (tl (json_quote s) @ rest) = Some (s, rest)"
  by (induction s) (simp_all add: json_quote_def read_escape)

section \<open>Line breaks\<close>

lemma hex_char_not_newline: "n < 16 \<Longrightarrow> hex_char n \<noteq> NEWLINE"
  using hex_char_no_space [of n] by (auto simp: is_space_def char_code_def)

lemma escape_no_newline: "NEWLINE \<notin> set (json_escape c)"
proof -
  have "char_code c mod 16 < 16" "char_code c < 32 \<Longrightarrow> char_code c div 16 < 16" by simp_all
  then show ?thesis
    using hex_char_not_newline [of "char_code c mod 16"] hex_char_not_newline [of "char_code c div 16"]
    by (auto simp: json_escape_def)
qed

lemma quote_no_newline: "NEWLINE \<notin> set (json_quote s)"
  by (auto simp: json_quote_def escape_no_newline)

lemma set_comma_join: "set (comma_join ss) \<subseteq> insert (CHR '','') (\<Union>s \<in> set ss. set s)"
  by (induction ss rule: comma_join.induct) auto

lemma comma_join_no_newline: "(\<And>s. s \<in> set ss \<Longrightarrow> NEWLINE \<notin> set s) \<Longrightarrow> NEWLINE \<notin> set (comma_join ss)"
  using set_comma_join [of ss] by auto

lemma json_text_no_newline:
  "(\<And>x. NEWLINE \<notin> set (numText x)) \<Longrightarrow> json_text numText v = Some t \<Longrightarrow> NEWLINE \<notin> set t"
proof (induction numText v arbitrary: t rule: json_text.induct)
  case (6 numText vs)
  then have "NEWLINE \<notin> set (option_default (json_text numText v) ''null'')" if "v \<in> set vs" for v
    using that by (cases "json_text numText v") (auto simp: option_default_def)
  then have "NEWLINE \<notin> set (comma_join (map (\<lambda>v. option_default (json_text numText v) ''null'') vs))"
    by (intro comma_join_no_newline) auto
  then show ?case using "6.prems"(2) by auto
next
  case (7 numText kvs)
  let ?ts = "List.map_filter (\<lambda>(k, t). map_option (\<lambda>t. json_quote k @ '':'' @ t) t)
    (key_order (map (\<lambda>(k, v). (k, json_text numText v)) kvs))"
  have "NEWLINE \<notin> set s" if member: "s \<in> set ?ts" for s
  proof -
    obtain k v t where "(k, v) \<in> set kvs" "json_text numText v = Some t" "s = json_quote k @ '':'' @ t"
      using member by (auto simp: List.map_filter_def)
    moreover from this have "NEWLINE \<notin> set t" using 7 by (metis prod.exhaust snd_conv)
    ultimately show ?thesis using quote_no_newline by auto
  qed
  then have "NEWLINE \<notin> set (comma_join ?ts)" by (rule comma_join_no_newline)
  then show ?case using "7.prems"(2) by auto
qed (use quote_no_newline in \<open>auto split: if_splits\<close>)

end
