(* ===== verification/Solver_Metrics.thy ===== *)
theory Solver_Metrics
  imports Js_Objects Sdk_Client "HOL-Library.Signed_Division"
begin

text \<open>
  The solver's counters (\<^verbatim>\<open>solver/src/metrics.ts\<close>): what each record call adds, the bounded histogram of skip
  reasons, and the text rendered for scraping. The maps are insertion-ordered.
\<close>

section \<open>The code\<close>

record corridor_stats =
  cs_fillsAttempted :: nat
  cs_fillsWon :: nat
  cs_fillsLost :: nat
  cs_estimatedProfit :: int

record solver_metrics =
  sm_corridors :: "(string, corridor_stats) assoc"
  sm_totalFeesWei :: int
  sm_sourceGasWei :: int
  sm_lzFeeWei :: int
  sm_stellarFeeStroops :: int
  sm_skipReasons :: "(string, nat) assoc"
  sm_fillStages :: "(string, nat) assoc"
  sm_implausibleProfitTriggers :: nat

definition new_metrics :: solver_metrics where
  "new_metrics =
     \<lparr>sm_corridors = [], sm_totalFeesWei = 0, sm_sourceGasWei = 0, sm_lzFeeWei = 0, sm_stellarFeeStroops = 0,
      sm_skipReasons = [], sm_fillStages = [], sm_implausibleProfitTriggers = 0\<rparr>"

definition new_corridor :: corridor_stats where
  "new_corridor = \<lparr>cs_fillsAttempted = 0, cs_fillsWon = 0, cs_fillsLost = 0, cs_estimatedProfit = 0\<rparr>"

text \<open>\<open>this.corridor(asset)\<close> and the update of the object it gives.\<close>

definition with_corridor :: "string \<Rightarrow> (corridor_stats \<Rightarrow> corridor_stats) \<Rightarrow> solver_metrics \<Rightarrow> solver_metrics" where
  "with_corridor asset f m =
     m\<lparr>sm_corridors := assoc_set asset (f (case assoc_get (sm_corridors m) asset of None \<Rightarrow> new_corridor | Some c \<Rightarrow> c))
                         (sm_corridors m)\<rparr>"

definition recordFillAttempt :: "string \<Rightarrow> solver_metrics \<Rightarrow> solver_metrics" where
  "recordFillAttempt asset = with_corridor asset (\<lambda>c. c\<lparr>cs_fillsAttempted := cs_fillsAttempted c + 1\<rparr>)"

definition recordFee :: "int \<Rightarrow> solver_metrics \<Rightarrow> solver_metrics" where
  "recordFee wei m = m\<lparr>sm_totalFeesWei := sm_totalFeesWei m + wei, sm_sourceGasWei := sm_sourceGasWei m + wei\<rparr>"

datatype bps_or_fee = MarginBps int | FeeUnits int | NoFee

text \<open>\<open>add_profit\<close> adds to the corridor's profit and counts the fill; a division of bigints truncates.\<close>

definition add_profit :: "string \<Rightarrow> int \<Rightarrow> solver_metrics \<Rightarrow> solver_metrics" where
  "add_profit asset n =
     with_corridor asset (\<lambda>c. c\<lparr>cs_fillsWon := cs_fillsWon c + 1, cs_estimatedProfit := cs_estimatedProfit c + n\<rparr>)"

definition recordFillWon :: "string \<Rightarrow> int \<Rightarrow> bps_or_fee \<Rightarrow> solver_metrics \<Rightarrow> solver_metrics" where
  "recordFillWon asset amountOrProfit x m =
     (case x of
        MarginBps bps \<Rightarrow> add_profit asset ((amountOrProfit * bps) sdiv 10000) m
      | FeeUnits fee \<Rightarrow>
          (let m1 = add_profit asset amountOrProfit m in if 0 < fee then recordFee fee m1 else m1)
      | NoFee \<Rightarrow> add_profit asset amountOrProfit m)"

definition recordFillLost :: "string \<Rightarrow> string \<Rightarrow> solver_metrics \<Rightarrow> solver_metrics" where
  "recordFillLost asset reason = with_corridor asset (\<lambda>c. c\<lparr>cs_fillsLost := cs_fillsLost c + 1\<rparr>)"

definition MAX_SKIP_REASONS :: nat where "MAX_SKIP_REASONS = 100"

definition count_up :: "string \<Rightarrow> (string, nat) assoc \<Rightarrow> (string, nat) assoc" where
  "count_up k m = assoc_set k ((case assoc_get m k of None \<Rightarrow> 0 | Some n \<Rightarrow> n) + 1) m"

definition recordSkip :: "string \<Rightarrow> solver_metrics \<Rightarrow> solver_metrics" where
  "recordSkip reason m =
     (if assoc_get (sm_skipReasons m) reason = None \<and> MAX_SKIP_REASONS \<le> length (sm_skipReasons m)
      then m\<lparr>sm_skipReasons := count_up ''other'' (sm_skipReasons m)\<rparr>
      else m\<lparr>sm_skipReasons := count_up reason (sm_skipReasons m)\<rparr>)"

definition recordImplausibleProfitTrigger :: "solver_metrics \<Rightarrow> solver_metrics" where
  "recordImplausibleProfitTrigger m = m\<lparr>sm_implausibleProfitTriggers := sm_implausibleProfitTriggers m + 1\<rparr>"

definition recordFillStage :: "string \<Rightarrow> solver_metrics \<Rightarrow> solver_metrics" where
  "recordFillStage stage m = m\<lparr>sm_fillStages := count_up stage (sm_fillStages m)\<rparr>"

text \<open>The fees of a fill; \<open>None\<close> and \<open>0n\<close> are both falsy.\<close>

record recorded_fees =
  rf_sourceGasWei :: "int option"
  rf_lzFeeWei :: "int option"
  rf_stellarFeeStroops :: "int option"

definition recordFees :: "recorded_fees \<Rightarrow> solver_metrics \<Rightarrow> solver_metrics" where
  "recordFees fees m =
     (let m1 = (case rf_sourceGasWei fees of
                  None \<Rightarrow> m
                | Some g \<Rightarrow> if g = 0 then m
                            else m\<lparr>sm_sourceGasWei := sm_sourceGasWei m + g, sm_totalFeesWei := sm_totalFeesWei m + g\<rparr>);
          m2 = (case rf_lzFeeWei fees of
                  None \<Rightarrow> m1
                | Some l \<Rightarrow> if l = 0 then m1
                            else m1\<lparr>sm_lzFeeWei := sm_lzFeeWei m1 + l, sm_totalFeesWei := sm_totalFeesWei m1 + l\<rparr>)
      in case rf_stellarFeeStroops fees of
           None \<Rightarrow> m2
         | Some f \<Rightarrow> if f = 0 then m2 else m2\<lparr>sm_stellarFeeStroops := sm_stellarFeeStroops m2 + f\<rparr>)"

text \<open>One record call.\<close>

datatype metric_call =
    FillAttempted string
  | FillWonCall string int bps_or_fee
  | FillLostCall string string
  | SkipRecorded string
  | ImplausibleRecorded
  | StageRecorded string
  | FeeRecorded int
  | FeesRecorded recorded_fees

fun record_call :: "metric_call \<Rightarrow> solver_metrics \<Rightarrow> solver_metrics" where
  "record_call (FillAttempted a) = recordFillAttempt a"
| "record_call (FillWonCall a n x) = recordFillWon a n x"
| "record_call (FillLostCall a r) = recordFillLost a r"
| "record_call (SkipRecorded r) = recordSkip r"
| "record_call ImplausibleRecorded = recordImplausibleProfitTrigger"
| "record_call (StageRecorded st) = recordFillStage st"
| "record_call (FeeRecorded n) = recordFee n"
| "record_call (FeesRecorded f) = recordFees f"

definition recorded :: "metric_call list \<Rightarrow> solver_metrics" where
  "recorded calls = foldl (\<lambda>m c. record_call c m) new_metrics calls"

section \<open>The text\<close>

definition replace_char :: "char \<Rightarrow> string \<Rightarrow> string \<Rightarrow> string" where
  "replace_char c t s = concat (map (\<lambda>x. if x = c then t else [x]) s)"

definition escapeLabelValue :: "string \<Rightarrow> string" where
  "escapeLabelValue val =
     replace_char NEWLINE [BACKSLASH, CHR ''n'']
       (replace_char QUOTE [BACKSLASH, QUOTE] (replace_char BACKSLASH [BACKSLASH, BACKSLASH] val))"

definition labelled :: "string \<Rightarrow> string \<Rightarrow> string \<Rightarrow> int \<Rightarrow> string" where
  "labelled nm label val n =
     nm @ ''{'' @ label @ ''='' @ QUOTE # escapeLabelValue val @ QUOTE # ''} '' @ int_string n"

definition help_type :: "string \<Rightarrow> string \<Rightarrow> string list" where
  "help_type nm help = [''# HELP '' @ nm @ '' '' @ help, ''# TYPE '' @ nm @ '' counter'']"

text \<open>
  \<open>Object.entries\<close> of the snapshot, whose maps are copied into plain objects: a key \<open>__proto__\<close>
  sets the prototype and is lost, and keys that are array indices come first, in their order.
\<close>

definition own_entries :: "(string, 'a) assoc \<Rightarrow> (string, 'a) assoc" where
  "own_entries m = key_order (filter (\<lambda>(k, _). k \<noteq> ''__proto__'') m)"

definition corridor_lines :: "solver_metrics \<Rightarrow> string \<Rightarrow> string \<Rightarrow> (corridor_stats \<Rightarrow> int) \<Rightarrow> string list" where
  "corridor_lines m nm help f = help_type nm help @ map (\<lambda>(asset, c). labelled nm ''asset'' asset (f c)) (own_entries (sm_corridors m))"

definition scalar_lines :: "string \<Rightarrow> string \<Rightarrow> int \<Rightarrow> string list" where
  "scalar_lines nm help n = help_type nm help @ [nm @ '' '' @ int_string n]"

definition toPrometheusText :: "solver_metrics \<Rightarrow> string list" where
  "toPrometheusText m =
     corridor_lines m ''solver_fills_attempted'' ''Total fills attempted per destination asset'' (int \<circ> cs_fillsAttempted)
     @ corridor_lines m ''solver_fills_won'' ''Fills successfully settled on-chain per destination asset'' (int \<circ> cs_fillsWon)
     @ corridor_lines m ''solver_fills_lost''
         ''Fills that failed on-chain or threw an executor error per destination asset'' (int \<circ> cs_fillsLost)
     @ corridor_lines m ''solver_estimated_profit_units''
         ''Estimated profit sum (net of fees) in destination asset smallest units'' cs_estimatedProfit
     @ corridor_lines m ''solver_realized_profit_units'' ''Deprecated alias for solver_estimated_profit_units'' cs_estimatedProfit
     @ scalar_lines ''solver_fees_total_wei'' ''Total fees paid in wei (deprecated: use leg-specific metrics)'' (sm_totalFeesWei m)
     @ scalar_lines ''solver_implausible_profit_triggers_total'' ''Quotes rejected by the implausible-profit sanity bound''
         (int (sm_implausibleProfitTriggers m))
     @ scalar_lines ''solver_source_gas_wei'' ''Total gas spent on source chain transactions in wei'' (sm_sourceGasWei m)
     @ scalar_lines ''solver_lz_fee_wei'' ''Total LayerZero messaging fees paid in native token wei'' (sm_lzFeeWei m)
     @ scalar_lines ''solver_stellar_fee_stroops'' ''Total transaction fees paid on Stellar in stroops'' (sm_stellarFeeStroops m)
     @ help_type ''solver_skips_total'' ''Total intents skipped grouped by reason or code''
     @ map (\<lambda>(reason, n). labelled ''solver_skips_total'' ''reason'' reason (int n)) (own_entries (sm_skipReasons m))
     @ help_type ''solver_fill_stage_total''
         ''Intents observed at each resumable executor stage (lock, wait-for-registration, fill)''
     @ map (\<lambda>(st, n). labelled ''solver_fill_stage_total'' ''stage'' st (int n)) (own_entries (sm_fillStages m))"

text \<open>A reader of the text format: a label value up to its closing quote, and what follows.\<close>

definition unescaped :: "char \<Rightarrow> char option" where
  "unescaped c =
     (if c = BACKSLASH then Some BACKSLASH else if c = QUOTE then Some QUOTE
      else if c = CHR ''n'' then Some NEWLINE else None)"

fun read_label :: "string \<Rightarrow> (string \<times> string) option" where
  "read_label [] = None"
| "read_label [c] = (if c = QUOTE then Some ([], []) else None)"
| "read_label (c # d # s) =
     (if c = QUOTE then Some ([], d # s)
      else if c = BACKSLASH then
        (case unescaped d of None \<Rightarrow> None | Some x \<Rightarrow> map_option (\<lambda>(l, r). (x # l, r)) (read_label s))
      else map_option (\<lambda>(l, r). (c # l, r)) (read_label (d # s)))"

section \<open>Facts about the code\<close>

lemma escape_Nil [simp]: "escapeLabelValue [] = []"
  by (simp add: escapeLabelValue_def replace_char_def)

lemma escape_Cons:
  "escapeLabelValue (c # s) =
     (if c = BACKSLASH then [BACKSLASH, BACKSLASH] else if c = QUOTE then [BACKSLASH, QUOTE]
      else if c = NEWLINE then [BACKSLASH, CHR ''n''] else [c]) @ escapeLabelValue s"
  by (simp add: escapeLabelValue_def replace_char_def)

lemma read_escaped: "read_label (escapeLabelValue s @ QUOTE # rest) = Some (s, rest)"
proof (induction s)
  case Nil
  then show ?case by (cases rest) simp_all
next
  case (Cons c s)
  have plain: "read_label (c # t) = map_option (\<lambda>(l, r). (c # l, r)) (read_label t)"
    if "t \<noteq> []" "c \<noteq> QUOTE" "c \<noteq> BACKSLASH" for t
    using that by (cases t) auto
  show ?case using Cons plain [of "escapeLabelValue s @ QUOTE # rest"]
    by (auto simp: escape_Cons unescaped_def)
qed

lemma label_no_newline: "NEWLINE \<notin> set (escapeLabelValue s)"
  by (induction s) (auto simp: escape_Cons)

definition skip_total :: "(string, nat) assoc \<Rightarrow> nat" where
  "skip_total m = sum_list (map snd m)"

lemma skip_total_count_up: "assoc_ok m \<Longrightarrow> skip_total (count_up k m) = skip_total m + 1"
proof -
  assume ok: "assoc_ok m"
  have set: "assoc_ok m \<Longrightarrow> sum_list (map snd (assoc_set k v m)) + (case assoc_get m k of None \<Rightarrow> 0 | Some n \<Rightarrow> n) = sum_list (map snd m) + v"
    for v :: nat and m
    by (induction k v m rule: assoc_set.induct) (auto simp: assoc_get_def assoc_ok_def map_of_eq_None_iff split: option.splits)
  show ?thesis using set [OF ok, of "(case assoc_get m k of None \<Rightarrow> 0 | Some n \<Rightarrow> n) + 1"]
    by (simp add: skip_total_def count_up_def)
qed

lemma length_count_up: "length (count_up k m) = length m + (if assoc_get m k = None then 1 else 0)"
proof -
  have "length (map fst (count_up k m)) = length (map fst m) + (if assoc_get m k = None then 1 else 0)"
    unfolding count_up_def keys_assoc_set by (simp add: assoc_get_None_iff)
  then show ?thesis by simp
qed

text \<open>The histogram has at most one reason more than the bound, and then that reason is \<open>other\<close>.\<close>

definition skips_ok :: "(string, nat) assoc \<Rightarrow> bool" where
  "skips_ok m \<longleftrightarrow> assoc_ok m \<and> length m \<le> Suc MAX_SKIP_REASONS
     \<and> (length m = Suc MAX_SKIP_REASONS \<longrightarrow> assoc_get m ''other'' \<noteq> None)"

definition metrics_ok :: "metric_call list \<Rightarrow> solver_metrics \<Rightarrow> bool" where
  "metrics_ok calls m \<longleftrightarrow>
     skips_ok (sm_skipReasons m)
     \<and> skip_total (sm_skipReasons m) = length (filter (\<lambda>c. \<exists>r. c = SkipRecorded r) calls)
     \<and> sm_totalFeesWei m = sm_sourceGasWei m + sm_lzFeeWei m"

lemma get_count_up: "assoc_get (count_up k m) k' = None \<longleftrightarrow> k' \<noteq> k \<and> assoc_get m k' = None"
  by (simp add: count_up_def assoc_get_set)

lemma skips_ok_recordSkip:
  assumes "skips_ok (sm_skipReasons m)" shows "skips_ok (sm_skipReasons (recordSkip r m))"
proof -
  let ?h = "sm_skipReasons m"
  have ok: "assoc_ok (count_up k ?h)" for k
    using assms by (simp add: skips_ok_def count_up_def assoc_set_ok)
  show ?thesis
  proof (cases "assoc_get ?h r = None \<and> MAX_SKIP_REASONS \<le> length ?h")
    case True
    then have "sm_skipReasons (recordSkip r m) = count_up ''other'' ?h" by (simp add: recordSkip_def)
    then show ?thesis using assms ok
      by (cases "assoc_get ?h ''other''") (auto simp: skips_ok_def length_count_up get_count_up)
  next
    case False
    then have "sm_skipReasons (recordSkip r m) = count_up r ?h" by (auto simp: recordSkip_def)
    then show ?thesis using assms ok False
      by (cases "assoc_get ?h r = None") (auto simp: skips_ok_def length_count_up get_count_up)
  qed
qed

lemma other_fields [simp]:
  "sm_skipReasons (with_corridor a f m) = sm_skipReasons m"
  "sm_totalFeesWei (with_corridor a f m) = sm_totalFeesWei m"
  "sm_sourceGasWei (with_corridor a f m) = sm_sourceGasWei m"
  "sm_lzFeeWei (with_corridor a f m) = sm_lzFeeWei m"
  by (simp_all add: with_corridor_def)

lemma metrics_ok_step:
  assumes "metrics_ok calls m" shows "metrics_ok (calls @ [c]) (record_call c m)"
proof (cases c)
  case (SkipRecorded r)
  have ok: "assoc_ok (sm_skipReasons m)" using assms by (simp add: metrics_ok_def skips_ok_def)
  have "skips_ok (sm_skipReasons (recordSkip r m))" using assms by (simp add: metrics_ok_def skips_ok_recordSkip)
  moreover have "skip_total (sm_skipReasons (recordSkip r m)) = skip_total (sm_skipReasons m) + 1"
    using skip_total_count_up [OF ok] by (simp add: recordSkip_def)
  moreover have "sm_totalFeesWei (recordSkip r m) = sm_totalFeesWei m" "sm_sourceGasWei (recordSkip r m) = sm_sourceGasWei m"
    "sm_lzFeeWei (recordSkip r m) = sm_lzFeeWei m" by (simp_all add: recordSkip_def)
  ultimately show ?thesis using assms SkipRecorded by (simp add: metrics_ok_def)
next
  case (FillWonCall a n x)
  then show ?thesis using assms
    by (cases x) (auto simp: metrics_ok_def recordFillWon_def add_profit_def recordFee_def Let_def)
next
  case (FeesRecorded f)
  then show ?thesis using assms
    by (auto simp: metrics_ok_def recordFees_def Let_def split: option.splits)
qed (use assms in \<open>auto simp: metrics_ok_def recordFillAttempt_def recordFillLost_def recordImplausibleProfitTrigger_def
    recordFillStage_def recordFee_def\<close>)

lemma recorded_ok: "metrics_ok calls (recorded calls)"
proof (induction calls rule: rev_induct)
  case Nil
  then show ?case by (simp add: recorded_def metrics_ok_def new_metrics_def skips_ok_def skip_total_def)
next
  case (snoc c calls)
  then show ?case using metrics_ok_step [of calls "recorded calls" c] by (simp add: recorded_def)
qed

lemma own_entries_member: "(k, v) \<in> set (own_entries m) \<longleftrightarrow> (k, v) \<in> set m \<and> k \<noteq> ''__proto__''"
  by (auto simp: own_entries_def)

section \<open>Properties\<close>

text \<open>
  The counters add up, whatever is recorded in whatever order: the histogram of skip reasons stays
  within 101 entries however many different reasons come in, and yet counts every skip, and the total of the
  fees is the sum of its two legs.
\<close>

theorem metrics_add_up:
  "length (sm_skipReasons (recorded calls)) \<le> 101
   \<and> sum_list (map snd (sm_skipReasons (recorded calls))) = length (filter (\<lambda>c. \<exists>r. c = SkipRecorded r) calls)
   \<and> sm_totalFeesWei (recorded calls) = sm_sourceGasWei (recorded calls) + sm_lzFeeWei (recorded calls)"
  using recorded_ok [of calls] by (simp add: metrics_ok_def skips_ok_def skip_total_def MAX_SKIP_REASONS_def)

text \<open>
  Labels cannot break the exposition: for every asset and every skip reason, even one with quotes,
  backslashes or line breaks, the text has a line that a reader of the format splits into exactly that label
  and its count. The one name that gets no line is \<open>__proto__\<close>.
\<close>

theorem labels_read_back:
  "(\<forall>(asset, c) \<in> set (sm_corridors m). asset \<noteq> ''__proto__'' \<longrightarrow>
      (\<exists>x. ''solver_fills_attempted{asset='' @ QUOTE # x \<in> set (toPrometheusText m)
        \<and> read_label x = Some (asset, ''} '' @ int_string (int (cs_fillsAttempted c)))))
   \<and> (\<forall>(reason, n) \<in> set (sm_skipReasons m). reason \<noteq> ''__proto__'' \<longrightarrow>
      (\<exists>x. ''solver_skips_total{reason='' @ QUOTE # x \<in> set (toPrometheusText m)
        \<and> read_label x = Some (reason, ''} '' @ int_string (int n))))"
proof (intro conjI ballI; clarify)
  fix asset c assume "(asset, c) \<in> set (sm_corridors m)" "asset \<noteq> ''__proto__''"
  then have "(asset, c) \<in> set (own_entries (sm_corridors m))" by (simp add: own_entries_member)
  then have "labelled ''solver_fills_attempted'' ''asset'' asset (int (cs_fillsAttempted c)) \<in> set (toPrometheusText m)"
    by (force simp: toPrometheusText_def corridor_lines_def)
  then show "\<exists>x. ''solver_fills_attempted{asset='' @ QUOTE # x \<in> set (toPrometheusText m)
      \<and> read_label x = Some (asset, ''} '' @ int_string (int (cs_fillsAttempted c)))"
    by (intro exI [where x = "escapeLabelValue asset @ QUOTE # ''} '' @ int_string (int (cs_fillsAttempted c))"])
      (simp add: labelled_def read_escaped)
next
  fix reason n assume "(reason, n) \<in> set (sm_skipReasons m)" "reason \<noteq> ''__proto__''"
  then have "(reason, n) \<in> set (own_entries (sm_skipReasons m))" by (simp add: own_entries_member)
  then have "labelled ''solver_skips_total'' ''reason'' reason (int n) \<in> set (toPrometheusText m)"
    by (force simp: toPrometheusText_def)
  then show "\<exists>x. ''solver_skips_total{reason='' @ QUOTE # x \<in> set (toPrometheusText m)
      \<and> read_label x = Some (reason, ''} '' @ int_string (int n))"
    by (intro exI [where x = "escapeLabelValue reason @ QUOTE # ''} '' @ int_string (int n)"])
      (simp add: labelled_def read_escaped)
qed

text \<open>One attempt on an asset whose name would end the label early, and a skip.\<close>

theorem labels_read_back_witness:
  "\<exists>x. ''solver_fills_attempted{asset='' @ QUOTE # x
       \<in> set (toPrometheusText (recorded [FillAttempted [CHR ''a'', QUOTE, NEWLINE], SkipRecorded ''expired'']))
     \<and> read_label x = Some ([CHR ''a'', QUOTE, NEWLINE], ''} '' @ int_string 1)"
proof -
  let ?m = "recorded [FillAttempted [CHR ''a'', QUOTE, NEWLINE], SkipRecorded ''expired'']"
  have "([CHR ''a'', QUOTE, NEWLINE], \<lparr>cs_fillsAttempted = 1, cs_fillsWon = 0, cs_fillsLost = 0, cs_estimatedProfit = 0\<rparr>)
      \<in> set (sm_corridors ?m)"
    by (simp add: recorded_def new_metrics_def recordFillAttempt_def with_corridor_def new_corridor_def recordSkip_def)
  then show ?thesis using labels_read_back [of ?m] by fastforce
qed

end
