(* ===== verification/Solver_Start.thy ===== *)
theory Solver_Start
  imports Solver_Config Solver_Loop Solver_Metrics Relayer_Health
begin

text \<open>
  The start of the solver (\<^verbatim>\<open>solver/src/cli.ts\<close>) with the executor's settings (\<^verbatim>\<open>solver/src/executor-config.ts\<close>),
  and its HTTP endpoints. viem's address helpers and the derivation of an address from a key are parameters.
\<close>

section \<open>Executor settings\<close>

definition EXECUTOR_ENV_KEYS :: "string list" where
  "EXECUTOR_ENV_KEYS =
     [''PERIHELION_EVM_RPC_URL'', ''PERIHELION_SOROBAN_RPC_URL'', ''PERIHELION_STELLAR_RPC_URL'',
      ''PERIHELION_EVM_PRIVATE_KEY'', ''PERIHELION_SOROBAN_SECRET_KEY'', ''PERIHELION_ESCROW_ADDRESS'',
      ''PERIHELION_SETTLEMENT_CONTRACT_ID'', ''PERIHELION_SETTLEMENT_CONTRACT'', ''PERIHELION_SOURCE_CHAIN_ID'']"

definition readWithLegacy :: "env \<Rightarrow> string \<Rightarrow> string \<Rightarrow> config_error list \<times> config_warning list \<times> string" where
  "readWithLegacy env primary legacy =
     (let primaryValue = trim (option_default (env primary) '''');
          legacyValue = trim (option_default (env legacy) '''')
      in if primaryValue \<noteq> '''' then
           (if legacyValue \<noteq> '''' \<and> legacyValue \<noteq> primaryValue then ([Conflicting primary legacy], [], primaryValue)
            else if legacyValue \<noteq> '''' then ([], [Deprecated legacy primary], primaryValue)
            else ([], [], primaryValue))
         else if legacyValue \<noteq> '''' then ([], [Deprecated legacy primary], legacyValue)
         else ([], [], ''''))"

definition hasExecutorConfig :: "env \<Rightarrow> bool" where
  "hasExecutorConfig env \<longleftrightarrow> list_ex (\<lambda>k. trim (option_default (env k) '''') \<noteq> '''') EXECUTOR_ENV_KEYS"

text \<open>\<open>key_account\<close> is \<open>privateKeyToAccount(key).address\<close>, which throws for a key that is none.\<close>

record account_lib =
  al_isAddress :: "string \<Rightarrow> bool"
  al_getAddress :: "string \<Rightarrow> address"
  al_key_account :: "string \<Rightarrow> address option"

datatype executor_problem = ExecutorSetting config_error | KeyPrefix | KeyInvalid | SolverAddressInvalid | SolverAddressMismatch

definition is_0x :: "string \<Rightarrow> bool" where
  "is_0x s \<longleftrightarrow> take 2 s = ''0x''"

definition solver_address_problems :: "account_lib \<Rightarrow> env \<Rightarrow> string \<Rightarrow> executor_problem list" where
  "solver_address_problems lib env key =
     (let configured = trim (option_default (env ''PERIHELION_SOLVER_ADDRESS'') '''')
      in if configured = '''' \<or> \<not> is_0x key then []
         else case al_key_account lib key of
                None \<Rightarrow> [KeyInvalid]
              | Some derived \<Rightarrow>
                  if derived = '''' then []
                  else if \<not> al_isAddress lib configured then [SolverAddressInvalid]
                  else if al_getAddress lib configured \<noteq> al_getAddress lib derived then [SolverAddressMismatch]
                  else [])"

text \<open>The problems that \<open>loadExecutorConfig\<close> collects.\<close>

definition executor_problems :: "account_lib \<Rightarrow> env \<Rightarrow> executor_problem list" where
  "executor_problems lib env =
     (let required = (\<lambda>nm. if option_default (env nm) '''' = '''' then [ExecutorSetting (Required nm)] else []);
          (e2, _, soroban) = readWithLegacy env ''PERIHELION_SOROBAN_RPC_URL'' ''PERIHELION_STELLAR_RPC_URL'';
          key = option_default (env ''PERIHELION_EVM_PRIVATE_KEY'') '''';
          escrow = option_default (env ''PERIHELION_ESCROW_ADDRESS'') '''';
          (e6, _, settlement) = readWithLegacy env ''PERIHELION_SETTLEMENT_CONTRACT_ID'' ''PERIHELION_SETTLEMENT_CONTRACT'';
          rawChain = trim (option_default (env ''PERIHELION_SOURCE_CHAIN_ID'') '''');
          chain = js_number rawChain
      in required ''PERIHELION_EVM_RPC_URL''
         @ map ExecutorSetting e2
         @ (if soroban = '''' then [ExecutorSetting (Required ''PERIHELION_SOROBAN_RPC_URL'')] else [])
         @ (if key = '''' then [ExecutorSetting (Required ''PERIHELION_EVM_PRIVATE_KEY'')]
            else if \<not> is_0x key then [KeyPrefix] else [])
         @ required ''PERIHELION_SOROBAN_SECRET_KEY''
         @ (if escrow = '''' then [ExecutorSetting (Required ''PERIHELION_ESCROW_ADDRESS'')]
            else if \<not> al_isAddress lib escrow then [ExecutorSetting (Invalid ''PERIHELION_ESCROW_ADDRESS'' escrow)] else [])
         @ map ExecutorSetting e6
         @ (if settlement = '''' then [ExecutorSetting (Required ''PERIHELION_SETTLEMENT_CONTRACT_ID'')] else [])
         @ required ''STELLAR_NETWORK''
         @ (if rawChain = '''' then [ExecutorSetting (Required ''PERIHELION_SOURCE_CHAIN_ID'')]
            else if \<not> is_integer chain \<or> js_le chain (Num 0)
            then [ExecutorSetting (Invalid ''PERIHELION_SOURCE_CHAIN_ID'' rawChain)] else [])
         @ solver_address_problems lib env key)"

record executor_config =
  xc_evmRpcUrl :: string
  xc_evmPrivateKey :: string
  xc_escrowAddress :: address

datatype start_failure =
    BadConfig "config_error list"
  | BadMode string
  | NoExecutorConfig
  | BadExecutorConfig "executor_problem list"
  | UndeclaredName string
  | AddressMismatch

text \<open>
  The object that \<open>loadExecutorConfig\<close> returns names \<open>lzFeeBufferBps\<close>, \<open>registrationPollIntervalMs\<close> and
  \<open>minFillHeadroomSecs\<close>, which are declared nowhere: reading the first of them throws.
\<close>

definition loadExecutorConfig :: "account_lib \<Rightarrow> env \<Rightarrow> (start_failure, executor_config) result" where
  "loadExecutorConfig lib env =
     (if executor_problems lib env \<noteq> [] then Inl (BadExecutorConfig (executor_problems lib env))
      else Inl (UndeclaredName ''lzFeeBufferBps''))"

section \<open>The start\<close>

text \<open>Gives the settings the solver runs with and the executor's settings, which are \<open>None\<close> when it only watches.\<close>

definition solver_main ::
  "account_lib \<Rightarrow> (string \<Rightarrow> url option) \<Rightarrow> env \<Rightarrow> (start_failure, solver_config \<times> executor_config option) result" where
  "solver_main lib parseUrl env =
     (case snd (loadSolverConfig (al_isAddress lib) parseUrl env) of
        Inl errors \<Rightarrow> Inl (BadConfig errors)
      | Inr config \<Rightarrow>
          (let mode = to_lower (trim (option_default (env ''PERIHELION_SOLVER_MODE'') ''''));
               watchOnly = (mode = ''watch'')
           in if mode \<noteq> '''' \<and> \<not> watchOnly then Inl (BadMode mode)
              else if watchOnly then Inr (config, None)
              else if \<not> hasExecutorConfig env then Inl NoExecutorConfig
              else bind_result (loadExecutorConfig lib env) (\<lambda>x.
                     case al_key_account lib (xc_evmPrivateKey x) of
                       None \<Rightarrow> Inl (BadExecutorConfig [KeyInvalid])
                     | Some derived \<Rightarrow>
                         if solverAddress config \<noteq> '''' \<and> to_lower (solverAddress config) \<noteq> to_lower derived
                         then Inl AddressMismatch
                         else Inr (config\<lparr>solverAddress := derived\<rparr>, Some x))))"

section \<open>Endpoints\<close>

text \<open>Without a token the metrics are open to everyone.\<close>

definition metrics_authorized :: "string option \<Rightarrow> string option \<Rightarrow> bool" where
  "metrics_authorized metricsToken authHeader =
     (case metricsToken of
        None \<Rightarrow> True
      | Some expected \<Rightarrow>
          (let parts = split_on (CHR '' '') (option_default authHeader '''');
               token = (if 1 < length parts then parts ! 1 else '''')
           in parts ! 0 = ''Bearer'' \<and> token \<noteq> '''' \<and> length (utf8_bytes expected) = length (utf8_bytes token)
              \<and> utf8_bytes expected = utf8_bytes token))"

definition solver_reasons :: "int \<Rightarrow> int \<Rightarrow> int \<Rightarrow> readiness \<Rightarrow> string list" where
  "solver_reasons stalenessThresholdMs maxConsecutive now rd =
     (if \<not> lastTickOk rd \<or> lastTickAt rd = 0 then [''no successful tick yet'']
      else if stalenessThresholdMs < now - lastTickAt rd
      then [''last tick was '' @ int_string (now - lastTickAt rd) @ ''ms ago (threshold: ''
              @ int_string stalenessThresholdMs @ ''ms)'']
      else [])
     @ (if maxConsecutive < int (rd_consecutiveFailures rd)
        then [''consecutive failures '' @ int_string (int (rd_consecutiveFailures rd)) @ '' exceeds threshold ''
                @ int_string maxConsecutive]
        else [])"

definition solver_http ::
  "string option \<Rightarrow> int \<Rightarrow> int \<Rightarrow> solver_state \<Rightarrow> solver_metrics \<Rightarrow> int \<Rightarrow> string option \<Rightarrow> string option \<Rightarrow> probe_response" where
  "solver_http metricsToken stalenessThresholdMs maxConsecutive s m now url authHeader =
     (if url = Some ''/healthz'' then probe_json 200 (JObj [(''status'', JStr ''ok'')])
      else if url = Some ''/readyz'' then
        (let rd = st_readiness s;
             reasons = solver_reasons stalenessThresholdMs maxConsecutive now rd;
             figures = [(''lastTickAt'', JNum (num_of_int (lastTickAt rd))),
                        (''consecutiveFailures'', JNum (num_of_int (int (rd_consecutiveFailures rd)))),
                        (''seenCount'', JNum (num_of_int (int (seenCount rd)))),
                        (''retryStateCount'', JNum (num_of_int (int (retryStateCount rd))))]
         in if reasons \<noteq> []
            then probe_json 503 (JObj ([(''status'', JStr ''not ready''), (''reasons'', JArr (map JStr reasons))] @ figures))
            else probe_json 200 (JObj ((''status'', JStr ''ready'') # figures)))
      else if url = Some ''/metrics'' then
        (if \<not> metrics_authorized metricsToken authHeader
         then probe_json 401 (JObj [(''error'', JStr ''unauthorized'')])
         else \<lparr>pb_status = 200, pb_body = TextBody (toPrometheusText m)\<rparr>)
      else probe_json 404 (JObj [(''error'', JStr ''not found'')]))"

section \<open>Facts about the code\<close>

lemma metrics_authorized_iff:
  "metrics_authorized tok h \<longleftrightarrow> tok = None \<or> isAuthorized \<lparr>hs_listening = True, hs_port = 0, hs_stalenessThresholdMs = 0,
     hs_maxLagBlocks = 0, hs_host = '''', hs_metricsToken = tok\<rparr> h"
  by (auto simp: metrics_authorized_def isAuthorized_def Let_def utf8_bytes_inject split: option.splits)

lemma solver_reasons_status: "solver_reasons th mx now rd = [] \<longleftrightarrow> solver_readyz th mx now rd = 200"
  by (auto simp: solver_reasons_def solver_readyz_def)

lemma no_problem:
  "((if a then [x] else []) = []) = (\<not> a)" "((if a then [x] else if b then [y] else []) = []) = (\<not> a \<and> \<not> b)"
  by simp_all

lemma executor_problems_none:
  assumes "executor_problems lib env = []"
  shows "al_isAddress lib (option_default (env ''PERIHELION_ESCROW_ADDRESS'') '''')"
    and "trim (option_default (env ''PERIHELION_SOLVER_ADDRESS'') '''') \<noteq> '''' \<Longrightarrow>
      \<exists>d. al_key_account lib (option_default (env ''PERIHELION_EVM_PRIVATE_KEY'') '''') = Some d
        \<and> (d = '''' \<or> al_getAddress lib (trim (option_default (env ''PERIHELION_SOLVER_ADDRESS'') '''')) = al_getAddress lib d)"
proof -
  have p: "is_0x (option_default (env ''PERIHELION_EVM_PRIVATE_KEY'') '''')"
    "al_isAddress lib (option_default (env ''PERIHELION_ESCROW_ADDRESS'') '''')"
    "solver_address_problems lib env (option_default (env ''PERIHELION_EVM_PRIVATE_KEY'') '''') = []"
    using assms
    unfolding executor_problems_def Let_def case_prod_unfold append_is_Nil_conv map_is_Nil_conv no_problem
    by blast+
  then show "al_isAddress lib (option_default (env ''PERIHELION_ESCROW_ADDRESS'') '''')" by blast
  show "trim (option_default (env ''PERIHELION_SOLVER_ADDRESS'') '''') \<noteq> '''' \<Longrightarrow>
      \<exists>d. al_key_account lib (option_default (env ''PERIHELION_EVM_PRIVATE_KEY'') '''') = Some d
        \<and> (d = '''' \<or> al_getAddress lib (trim (option_default (env ''PERIHELION_SOLVER_ADDRESS'') '''')) = al_getAddress lib d)"
    using p(1,3) by (auto simp: solver_address_problems_def Let_def split: option.splits if_splits)
qed

section \<open>Properties\<close>

text \<open>
  C9. The solver of this repository only watches: whatever the environment, the command starts with no
  executor, in the watch mode that has to be asked for, with settings that are usable. With a complete
  executor configuration and no watch mode, in which the solver's address is the one of its key, the start
  fails on a name that the file does not declare.
\<close>

theorem solver_starts_only_watching:
  "(solver_main lib parseUrl env = Inr (c, x) \<longrightarrow>
      x = None \<and> to_lower (trim (option_default (env ''PERIHELION_SOLVER_MODE'') '''')) = ''watch''
      \<and> solver_config_ok (al_isAddress lib) parseUrl c)
   \<and> (snd (loadSolverConfig (al_isAddress lib) parseUrl env) = Inr c \<and> env ''PERIHELION_SOLVER_MODE'' = None
        \<and> hasExecutorConfig env \<and> executor_problems lib env = []
      \<longrightarrow> solver_main lib parseUrl env = Inl (UndeclaredName ''lzFeeBufferBps'')
        \<and> (trim (option_default (env ''PERIHELION_SOLVER_ADDRESS'') '''') \<noteq> '''' \<longrightarrow>
             (\<exists>d. al_key_account lib (option_default (env ''PERIHELION_EVM_PRIVATE_KEY'') '''') = Some d
               \<and> (d = '''' \<or> al_getAddress lib (trim (option_default (env ''PERIHELION_SOLVER_ADDRESS'') ''''))
                               = al_getAddress lib d))))"
proof (intro conjI impI)
  assume m: "solver_main lib parseUrl env = Inr (c, x)"
  then obtain cfg where l: "snd (loadSolverConfig (al_isAddress lib) parseUrl env) = Inr cfg"
    by (auto simp: solver_main_def split: sum.splits)
  have never: "\<exists>e. loadExecutorConfig lib env = Inl e" by (simp add: loadExecutorConfig_def)
  then have w: "x = None \<and> to_lower (trim (option_default (env ''PERIHELION_SOLVER_MODE'') '''')) = ''watch'' \<and> c = cfg"
    using m l by (auto simp: solver_main_def bind_result_def Let_def split: if_splits)
  then show "x = None" "to_lower (trim (option_default (env ''PERIHELION_SOLVER_MODE'') '''')) = ''watch''" by blast+
  obtain ws where "loadSolverConfig (al_isAddress lib) parseUrl env = (ws, Inr cfg)" using l by (metis prod.collapse)
  then show "solver_config_ok (al_isAddress lib) parseUrl c" using loaded_solver_config_ok w by blast
next
  assume a: "snd (loadSolverConfig (al_isAddress lib) parseUrl env) = Inr c \<and> env ''PERIHELION_SOLVER_MODE'' = None
      \<and> hasExecutorConfig env \<and> executor_problems lib env = []"
  have "to_lower (trim '''') = ''''" by (simp add: trim_def to_lower_def)
  with a show "solver_main lib parseUrl env = Inl (UndeclaredName ''lzFeeBufferBps'')"
    by (simp add: solver_main_def loadExecutorConfig_def bind_result_def option_default_def Let_def)
  show "\<exists>d. al_key_account lib (option_default (env ''PERIHELION_EVM_PRIVATE_KEY'') '''') = Some d
      \<and> (d = '''' \<or> al_getAddress lib (trim (option_default (env ''PERIHELION_SOLVER_ADDRESS'') '''')) = al_getAddress lib d)"
    if "trim (option_default (env ''PERIHELION_SOLVER_ADDRESS'') '''') \<noteq> ''''"
    using executor_problems_none(2) a that by blast
qed

lemma setting_untouched:
  assumes "k \<noteq> nm"
  shows "address_setting isAddr (e(k \<mapsto> v)) nm = address_setting isAddr e nm"
    and "number_setting (e(k \<mapsto> v)) nm d lo hi = number_setting e nm d lo hi"
    and "k \<noteq> legacy \<Longrightarrow> readUnified (e(k \<mapsto> v)) nm legacy = readUnified e nm legacy"
    and "(e(k \<mapsto> v)) nm = e nm"
  using assms by (simp_all add: address_setting_def number_setting_def readUnified_def)

lemma listed_setting_untouched:
  "k \<noteq> ''PERIHELION_SOURCE_CHAIN_ID'' \<Longrightarrow> chain_setting (e(k \<mapsto> v)) = chain_setting e"
  "k \<noteq> ''PERIHELION_SUPPORTED_ASSETS'' \<Longrightarrow> asset_setting (e(k \<mapsto> v)) = asset_setting e"
  "k \<noteq> ''PERIHELION_MEMPOOL_URL'' \<Longrightarrow> url_setting parseUrl (e(k \<mapsto> v)) = url_setting parseUrl e"
  by (simp_all only: chain_setting_def asset_setting_def url_setting_def fun_upd_other Let_def)

lemma mode_not_read:
  fixes k :: string
  assumes "k = ''PERIHELION_SOLVER_MODE''"
  shows "loadSolverConfig isAddr parseUrl (e(k \<mapsto> v)) = loadSolverConfig isAddr parseUrl e"
proof -
  have n: "k \<noteq> ''PERIHELION_SOLVER_ADDRESS''" "k \<noteq> ''PERIHELION_ESCROW_ADDRESS''" "k \<noteq> ''PERIHELION_SOURCE_CHAIN_ID''"
    "k \<noteq> ''PERIHELION_SETTLEMENT_CONTRACT''" "k \<noteq> ''PERIHELION_SETTLEMENT_CONTRACT_ID''"
    "k \<noteq> ''PERIHELION_SOROBAN_RPC_URL''" "k \<noteq> ''PERIHELION_STELLAR_RPC_URL''" "k \<noteq> ''PERIHELION_MIN_MARGIN_BPS''"
    "k \<noteq> ''PERIHELION_MAX_PLAUSIBLE_PROFIT_BPS''" "k \<noteq> ''PERIHELION_MAX_IMPLAUSIBLE_PROFIT_TRIGGERS''"
    "k \<noteq> ''PERIHELION_POLL_INTERVAL_MS''" "k \<noteq> ''PERIHELION_VERIFICATION_CACHE_SIZE''"
    "k \<noteq> ''PERIHELION_FILL_CONCURRENCY''" "k \<noteq> ''PERIHELION_SEEN_CACHE_SIZE''" "k \<noteq> ''PERIHELION_RETRY_CACHE_SIZE''"
    "k \<noteq> ''PERIHELION_SOURCE_NATIVE_FEE_FLOOR''" "k \<noteq> ''PERIHELION_STELLAR_NATIVE_FEE_FLOOR''"
    "k \<noteq> ''PERIHELION_SUPPORTED_ASSETS''" "k \<noteq> ''PERIHELION_MEMPOOL_URL''" "k \<noteq> ''PERIHELION_MEMPOOL_STATUS_TOKEN''"
    by (simp_all add: assms)
  show ?thesis
    unfolding loadSolverConfig_def setting_untouched(1) [OF n(1)] setting_untouched(1) [OF n(2)]
      setting_untouched(3) [OF n(4,5)] setting_untouched(3) [OF n(6,7)] listed_setting_untouched(1) [OF n(3)]
      listed_setting_untouched(2) [OF n(18)] listed_setting_untouched(3) [OF n(19)]
      n(8-15) [THEN setting_untouched(2)] n(16,17,20) [THEN setting_untouched(4)] ..
qed

definition sample_accounts :: account_lib where
  "sample_accounts = \<lparr>al_isAddress = hex_string 40, al_getAddress = to_lower, al_key_account = \<lambda>k. Some sample_solver_address\<rparr>"

theorem solver_starts_only_watching_witness:
  "\<exists>c. solver_main sample_accounts (\<lambda>_. Some sample_url) (Solver_Config.sample_solver_env(''PERIHELION_SOLVER_MODE'' \<mapsto> ''watch'')) = Inr (c, None)
     \<and> solver_config_ok (hex_string 40) (\<lambda>_. Some sample_url) c"
proof -
  let ?e = "Solver_Config.sample_solver_env(''PERIHELION_SOLVER_MODE'' \<mapsto> ''watch'')"
  obtain c ws where l: "loadSolverConfig (hex_string 40) (\<lambda>_. Some sample_url) ?e = (ws, Inr c)"
    using sample_solver_loads unfolding mode_not_read [OF refl] by blast
  have "to_lower (trim ''watch'') = ''watch''"
    by (simp add: trim_id is_space_def char_code_def to_lower_def lower_char_def is_upper_def)
  then have m: "solver_main sample_accounts (\<lambda>_. Some sample_url) ?e = Inr (c, None)"
    using l by (simp add: solver_main_def sample_accounts_def option_default_def Let_def)
  then show ?thesis
    using solver_starts_only_watching [of sample_accounts "\<lambda>_. Some sample_url" ?e c None]
    by (auto simp: sample_accounts_def)
qed

end
