(* ===== verification/Loggers.thy ===== *)
theory Loggers
  imports Js_Objects
begin

text \<open>
  The structured loggers (\<^verbatim>\<open>relayer/src/logger.ts\<close> and \<^verbatim>\<open>solver/src/logger.ts\<close>, which differ in the default of the
  component only): one JSON object per line, to one of two streams.
\<close>

section \<open>The code\<close>

datatype log_level = LevelInfo | LevelWarn | LevelError

fun LEVEL_RANK :: "log_level \<Rightarrow> nat" where
  "LEVEL_RANK LevelInfo = 0"
| "LEVEL_RANK LevelWarn = 1"
| "LEVEL_RANK LevelError = 2"

fun level_name :: "log_level \<Rightarrow> string" where
  "level_name LevelInfo = ''info''"
| "level_name LevelWarn = ''warn''"
| "level_name LevelError = ''error''"

record logger_options =
  lo_component :: "string option"
  lo_level :: "log_level option"

text \<open>A logger and what was written to its two streams.\<close>

record logger =
  lw_component :: string
  lw_minRank :: nat
  lw_stdout :: "string list"
  lw_stderr :: "string list"

definition createLogger :: "string \<Rightarrow> logger_options \<Rightarrow> logger" where
  "createLogger deflt opts =
     \<lparr>lw_component = option_default (lo_component opts) deflt,
      lw_minRank = LEVEL_RANK (option_default (lo_level opts) LevelInfo), lw_stdout = [], lw_stderr = []\<rparr>"

text \<open>The solver's \<open>createLogger\<close> fixes the component.\<close>

definition createSolverLogger :: "log_level option \<Rightarrow> logger" where
  "createSolverLogger level = createLogger ''solver'' \<lparr>lo_component = Some ''solver'', lo_level = level\<rparr>"

text \<open>The object of a line: a literal with two spreads, in which a later field replaces an earlier one in its place.\<close>

definition log_fields :: "string \<Rightarrow> string \<Rightarrow> log_level \<Rightarrow> string \<Rightarrow> (string, jval) assoc \<Rightarrow> (string, jval) assoc" where
  "log_fields component ts level msg meta =
     (let intentHash = option_default (assoc_get meta ''intentHash'') JUndef;
          own = [(''ts'', JStr ts), (''level'', JStr (level_name level)), (''component'', JStr component), (''msg'', JStr msg)]
                @ (if intentHash \<noteq> JUndef then [(''intentHash'', intentHash)] else [])
      in foldl (\<lambda>line (k, v). assoc_set k v line) own (assoc_del ''intentHash'' meta))"

definition log_write ::
  "(jsnum \<Rightarrow> string) \<Rightarrow> string \<Rightarrow> log_level \<Rightarrow> string \<Rightarrow> (string, jval) assoc option \<Rightarrow> logger \<Rightarrow> logger" where
  "log_write numText ts level msg meta lg =
     (if LEVEL_RANK level < lw_minRank lg then lg
      else let line = JObj (log_fields (lw_component lg) ts level msg (option_default meta []));
               chunk = option_default (json_text numText line) ''undefined'' @ [NEWLINE]
           in case level of
                LevelError \<Rightarrow> lg\<lparr>lw_stderr := lw_stderr lg @ [chunk]\<rparr>
              | _ \<Rightarrow> lg\<lparr>lw_stdout := lw_stdout lg @ [chunk]\<rparr>)"

section \<open>Facts about the code\<close>

lemma foldl_assoc_get:
  assumes "assoc_ok m"
  shows "assoc_get (foldl (\<lambda>l (k, v). assoc_set k v l) own m) k = (case assoc_get m k of None \<Rightarrow> assoc_get own k | Some v \<Rightarrow> Some v)"
  using assms
proof (induction m arbitrary: own)
  case (Cons e m)
  then have ok: "assoc_ok m" and new: "assoc_get m (fst e) = None" by (auto simp: assoc_ok_def assoc_get_None_iff)
  have "assoc_get (e # m) k = (if k = fst e then Some (snd e) else assoc_get m k)" by (cases e) (simp add: assoc_get_def)
  then show ?case using Cons.IH [OF ok, of "assoc_set (fst e) (snd e) own"] new
    by (simp add: case_prod_unfold assoc_get_set split: option.split)
qed (simp add: assoc_get_def)

lemma foldl_assoc_keys:
  assumes "assoc_ok m"
  shows "map fst (foldl (\<lambda>l (k, v). assoc_set k v l) own m) = map fst own @ filter (\<lambda>k. k \<notin> set (map fst own)) (map fst m)"
  using assms
proof (induction m arbitrary: own)
  case (Cons e m)
  then have ok: "assoc_ok m" "fst e \<notin> set (map fst m)" by (auto simp: assoc_ok_def)
  obtain k v where e: "e = (k, v)" by fastforce
  have "filter (\<lambda>x. x \<notin> set (map fst (assoc_set k v own))) (map fst m)
      = filter (\<lambda>x. x \<notin> set (map fst own)) (map fst m)"
    using ok(2) e unfolding keys_assoc_set by (intro filter_cong) (auto simp: image_iff)
  then show ?case using Cons.IH [OF ok(1), of "assoc_set k v own"] e by (simp add: keys_assoc_set)
qed simp

lemma log_fields_get:
  assumes "assoc_ok meta"
  shows "assoc_get (log_fields component ts level msg meta) k =
    (case assoc_get meta k of
       Some v \<Rightarrow> if k = ''intentHash'' \<and> v = JUndef then None else Some v
     | None \<Rightarrow> map_of [(''ts'', JStr ts), (''level'', JStr (level_name level)), (''component'', JStr component), (''msg'', JStr msg)] k)"
  using foldl_assoc_get [OF assoc_del_ok [OF assms]] 
  by (auto simp: log_fields_def Let_def assoc_get_del assoc_get_def option_default_def split: option.splits)

lemma log_fields_keys:
  assumes "assoc_ok meta"
  shows "map fst (log_fields component ts level msg meta) =
    [''ts'', ''level'', ''component'', ''msg'']
    @ (if option_default (assoc_get meta ''intentHash'') JUndef \<noteq> JUndef then [''intentHash''] else [])
    @ filter (\<lambda>k. k \<notin> {''ts'', ''level'', ''component'', ''msg'', ''intentHash''}) (map fst meta)"
  using foldl_assoc_keys [OF assoc_del_ok [OF assms]]
  by (auto simp: log_fields_def Let_def keys_assoc_del removeAll_filter_not_eq intro!: filter_cong)


lemma log_write_line:
  assumes "\<not> LEVEL_RANK level < lw_minRank lg"
  obtains line where "json_text numText (JObj (log_fields (lw_component lg) ts level msg (option_default meta []))) = Some line"
    and "log_write numText ts level msg meta lg =
      (if level = LevelError then lg\<lparr>lw_stderr := lw_stderr lg @ [line @ [NEWLINE]]\<rparr>
       else lg\<lparr>lw_stdout := lw_stdout lg @ [line @ [NEWLINE]]\<rparr>)"
  using assms by (cases level) (auto simp: log_write_def Let_def option_default_def)

section \<open>Properties\<close>



end
