(* ===== verification/Escrow_Abi.thy ===== *)
theory Escrow_Abi
  imports Solver_Executor Evm_Delivery Evm_Watcher
begin

text \<open>
  \<^verbatim>\<open>sdk/src/escrow-abi.ts\<close>: the ABI through which the SDK and the solver talk to the escrow, entry by entry,
  the relayer's own fragments of it, and the declarations of \<^verbatim>\<open>PerihelionEscrow.sol\<close> that they stand for.
  The calls of the clients are data as well, so that it can be said which entry of the ABI a call has its
  arguments typed by, and whether the contract has what is called. The member \<open>internalType\<close>, which no
  encoding depends on, is left out, and so is \<open>anonymous\<close>, which is false everywhere.
\<close>

section \<open>Entries of an ABI\<close>

datatype abi_type =
    TUint nat
  | TAddress
  | TBool
  | TBytes
  | TBytesN nat
  | TString
  | TArray abi_type
  | TTuple "(string \<times> abi_type) list"

record abi_param =
  ap_name :: string
  ap_type :: abi_type
  ap_indexed :: bool

datatype mutability = View | Nonpayable | Payable

datatype abi_entry =
    AbiConstructor "abi_param list" mutability
  | AbiFunction string "abi_param list" "abi_param list" mutability
  | AbiEvent string "abi_param list"
  | AbiError string "abi_param list"

text \<open>A name with its argument and result types; the names of the members of a tuple are not part of it.\<close>

type_synonym abi_signature = "string \<times> abi_type list \<times> abi_type list"

definition param :: "string \<Rightarrow> abi_type \<Rightarrow> abi_param" where
  "param n t = \<lparr>ap_name = n, ap_type = t, ap_indexed = False\<rparr>"

definition topic :: "string \<Rightarrow> abi_type \<Rightarrow> abi_param" where
  "topic n t = \<lparr>ap_name = n, ap_type = t, ap_indexed = True\<rparr>"

fun canonical :: "abi_type \<Rightarrow> abi_type" where
  "canonical (TArray t) = TArray (canonical t)"
| "canonical (TTuple fs) = TTuple (map (\<lambda>f. ('''', canonical (snd f))) fs)"
| "canonical t = t"

fun function_signatures :: "abi_entry list \<Rightarrow> abi_signature list" where
  "function_signatures (AbiFunction n ins outs mu # es) =
     (n, map (canonical \<circ> ap_type) ins, map (canonical \<circ> ap_type) outs) # function_signatures es"
| "function_signatures (_ # es) = function_signatures es"
| "function_signatures [] = []"

fun event_entries :: "abi_entry list \<Rightarrow> (string \<times> abi_param list) list" where
  "event_entries (AbiEvent n ps # es) = (n, ps) # event_entries es"
| "event_entries (_ # es) = event_entries es"
| "event_entries [] = []"

fun error_names :: "abi_entry list \<Rightarrow> string list" where
  "error_names (AbiError n ps # es) = n # error_names es"
| "error_names (_ # es) = error_names es"
| "error_names [] = []"

section \<open>The ABI of the SDK\<close>

text \<open>The struct \<open>Intent\<close>, which four functions take.\<close>

definition INTENT_TUPLE :: abi_type where
  "INTENT_TUPLE = TTuple
     [(''user'', TAddress), (''destination'', TString), (''sourceChainId'', TUint 256), (''sourceAsset'',
       TAddress), (''sourceAmount'', TUint 256), (''destAsset'', TString), (''minDestAmount'', TUint 256),
       (''deadline'', TUint 256), (''nonce'', TUint 256), (''preferredSolver'', TAddress)]"

definition ESCROW_FUNCTIONS_1 :: "abi_entry list" where
  "ESCROW_FUNCTIONS_1 =
     [AbiConstructor [param ''_endpoint'' TAddress, param ''_stellarEid'' (TUint 32)] Nonpayable,
      AbiFunction ''DOMAIN_SEPARATOR'' [] [param '''' (TBytesN 32)] View,
      AbiFunction ''GUARDIAN_PAUSE_TTL'' [] [param '''' (TUint 256)] View,
      AbiFunction ''MAX_CONFIRMATION_GRACE'' [] [param '''' (TUint 256)] View,
      AbiFunction ''MAX_DESTINATION_LEN'' [] [param '''' (TUint 256)] View,
      AbiFunction ''MAX_DEST_ASSET_LEN'' [] [param '''' (TUint 256)] View,
      AbiFunction ''MIN_CONFIRMATION_GRACE'' [] [param '''' (TUint 256)] View,
      AbiFunction ''acceptOwnership'' [] [] Nonpayable,
      AbiFunction ''assetAllowed'' [param '''' TAddress] [param '''' TBool] View,
      AbiFunction ''cancelExpired'' [param ''intentHash'' (TBytesN 32)] [] Nonpayable,
      AbiFunction ''cancelOwnershipTransfer'' [] [] Nonpayable]"

definition ESCROW_FUNCTIONS_2 :: "abi_entry list" where
  "ESCROW_FUNCTIONS_2 =
     [AbiFunction ''confirmationGrace'' [] [param '''' (TUint 256)] View,
      AbiFunction ''decayGuardianPause'' [] [] Nonpayable,
      AbiFunction ''eip712Domain'' [] [param ''fields'' (TBytesN 1), param ''name'' TString,
        param ''version'' TString, param ''chainId'' (TUint 256), param ''verifyingContract'' TAddress,
        param ''salt'' (TBytesN 32), param ''extensions'' (TArray (TUint 256))] View,
      AbiFunction ''endpoint'' [] [param '''' TAddress] View,
      AbiFunction ''guardian'' [] [param '''' TAddress] View,
      AbiFunction ''guardianPauseCooldownUntil'' [] [param '''' (TUint 256)] View,
      AbiFunction ''guardianPauseExpiry'' [] [param '''' (TUint 256)] View]"

definition ESCROW_FUNCTIONS_3 :: "abi_entry list" where
  "ESCROW_FUNCTIONS_3 =
     [AbiFunction ''hashIntent'' [param ''intent'' INTENT_TUPLE] [param '''' (TBytesN 32)] View,
      AbiFunction ''inboundNonce'' [param '''' (TUint 32)] [param '''' (TUint 64)] View]"

definition ESCROW_FUNCTIONS_4 :: "abi_entry list" where
  "ESCROW_FUNCTIONS_4 =
     [AbiFunction ''lock'' [param ''intent'' INTENT_TUPLE, param ''signature'' TBytes] [] Payable,
      AbiFunction ''locks'' [param '''' (TBytesN 32)] [param ''solver'' TAddress, param ''user'' TAddress,
        param ''asset'' TAddress, param ''amount'' (TUint 256), param ''minDestAmount'' (TUint 128),
        param ''deadline'' (TUint 64), param ''released'' TBool, param ''refunded'' TBool] View]"

definition ESCROW_FUNCTIONS_5 :: "abi_entry list" where
  "ESCROW_FUNCTIONS_5 =
     [AbiFunction ''lzReceive'' [param ''origin'' (TTuple [(''srcEid'', TUint 32), (''sender'', TBytesN 32),
        (''nonce'', TUint 64)]), param '''' (TBytesN 32), param ''message'' TBytes, param '''' TAddress,
        param '''' TBytes] [] Payable,
      AbiFunction ''maxIntentAmount'' [] [param '''' (TUint 256)] View,
      AbiFunction ''maxIntentAmountPerAsset'' [param '''' TAddress] [param '''' (TUint 256)] View,
      AbiFunction ''owner'' [] [param '''' TAddress] View,
      AbiFunction ''pause'' [] [] Nonpayable,
      AbiFunction ''paused'' [] [param '''' TBool] View,
      AbiFunction ''pendingOwner'' [] [param '''' TAddress] View]"

definition ESCROW_FUNCTIONS_6 :: "abi_entry list" where
  "ESCROW_FUNCTIONS_6 =
     [AbiFunction ''quoteFee'' [param ''intent'' INTENT_TUPLE] [param ''nativeFee'' (TUint 256)] View,
      AbiFunction ''quoteFee'' [param ''intent'' INTENT_TUPLE,
        param ''payer'' TAddress] [param ''nativeFee'' (TUint 256)] View]"

definition ESCROW_FUNCTIONS_7 :: "abi_entry list" where
  "ESCROW_FUNCTIONS_7 =
     [AbiFunction ''resetRollingWindowCap'' [] [] Nonpayable,
      AbiFunction ''rollingWindowCap'' [] [param '''' (TUint 256)] View,
      AbiFunction ''rollingWindowDuration'' [] [param '''' (TUint 256)] View,
      AbiFunction ''rollingWindowResetEarliestAt'' [] [param '''' (TUint 256)] View,
      AbiFunction ''rollingWindowTriggered'' [] [param '''' TBool] View,
      AbiFunction ''setAssetAllowed'' [param ''asset'' TAddress, param ''allowed'' TBool] [] Nonpayable,
      AbiFunction ''setConfirmationGrace'' [param ''secondsGrace'' (TUint 256)] [] Nonpayable,
      AbiFunction ''setGuardian'' [param ''newGuardian'' TAddress] [] Nonpayable,
      AbiFunction ''setMaxIntentAmount'' [param ''maxAmount'' (TUint 256)] [] Nonpayable,
      AbiFunction ''setMaxIntentAmountPerAsset'' [param ''asset'' TAddress,
        param ''maxAmount'' (TUint 256)] [] Nonpayable,
      AbiFunction ''setPaused'' [param ''_paused'' TBool] [] Nonpayable]"

definition ESCROW_FUNCTIONS_8 :: "abi_entry list" where
  "ESCROW_FUNCTIONS_8 =
     [AbiFunction ''setPeer'' [param ''peer'' (TBytesN 32)] [] Nonpayable,
      AbiFunction ''setRollingWindowCap'' [param ''_windowDuration'' (TUint 256),
        param ''_cap'' (TUint 256)] [] Nonpayable,
      AbiFunction ''skim'' [param ''token'' TAddress, param ''to'' TAddress,
        param ''amount'' (TUint 256)] [] Nonpayable,
      AbiFunction ''skimNative'' [param ''to'' TAddress, param ''amount'' (TUint 256)] [] Nonpayable,
      AbiFunction ''stellarEid'' [] [param '''' (TUint 32)] View,
      AbiFunction ''stellarPeer'' [] [param '''' (TBytesN 32)] View,
      AbiFunction ''totalLocked'' [param '''' TAddress] [param '''' (TUint 256)] View,
      AbiFunction ''transferOwnership'' [param ''newOwner'' TAddress] [] Nonpayable]"

definition ESCROW_EVENTS_1 :: "abi_entry list" where
  "ESCROW_EVENTS_1 =
     [AbiEvent ''AssetAllowed'' [topic ''asset'' TAddress, param ''allowed'' TBool],
      AbiEvent ''ConfirmationGraceSet'' [param ''secondsGrace'' (TUint 256)],
      AbiEvent ''GuardianSet'' [topic ''guardian'' TAddress],
      AbiEvent ''Locked'' [topic ''intentHash'' (TBytesN 32), topic ''solver'' TAddress,
        topic ''user'' TAddress, param ''asset'' TAddress, param ''amount'' (TUint 256),
        param ''destination'' TString, param ''destAsset'' TString, param ''minDestAmount'' (TUint 128),
        param ''deadline'' (TUint 64)],
      AbiEvent ''MaxIntentAmountPerAssetSet'' [topic ''asset'' TAddress, param ''maxAmount'' (TUint 256)],
      AbiEvent ''MaxIntentAmountSet'' [param ''maxAmount'' (TUint 256)]]"

definition ESCROW_EVENTS_2 :: "abi_entry list" where
  "ESCROW_EVENTS_2 =
     [AbiEvent ''NativeSkimmed'' [topic ''to'' TAddress, param ''amount'' (TUint 256)],
      AbiEvent ''OwnershipTransferCancelled'' [topic ''previousOwner'' TAddress],
      AbiEvent ''OwnershipTransferStarted'' [topic ''previousOwner'' TAddress, topic ''newOwner'' TAddress],
      AbiEvent ''OwnershipTransferred'' [topic ''previousOwner'' TAddress, topic ''newOwner'' TAddress],
      AbiEvent ''PausedSet'' [param ''paused'' TBool],
      AbiEvent ''PeerSet'' [param ''peer'' (TBytesN 32)],
      AbiEvent ''Refunded'' [topic ''intentHash'' (TBytesN 32), topic ''user'' TAddress,
        param ''amount'' (TUint 256), param ''reason'' (TUint 8)]]"

definition ESCROW_EVENTS_3 :: "abi_entry list" where
  "ESCROW_EVENTS_3 =
     [AbiEvent ''RefundedLocalTimeout'' [topic ''intentHash'' (TBytesN 32), topic ''user'' TAddress,
        param ''amount'' (TUint 256)],
      AbiEvent ''Released'' [topic ''intentHash'' (TBytesN 32), topic ''solver'' TAddress,
        param ''amount'' (TUint 256), param ''fillAmount'' (TUint 128), param ''fillLedger'' (TUint 64),
        param ''minDestAmount'' (TUint 128)],
      AbiEvent ''RollingWindowCapReset'' [],
      AbiEvent ''RollingWindowCapSet'' [param ''duration'' (TUint 256), param ''cap'' (TUint 256)],
      AbiEvent ''RollingWindowCapTriggered'' [param ''windowStart'' (TUint 256),
        param ''accumulated'' (TUint 256)],
      AbiEvent ''Skimmed'' [topic ''token'' TAddress, topic ''to'' TAddress, param ''amount'' (TUint 256)]]"

definition ESCROW_ERRORS_1 :: "abi_entry list" where
  "ESCROW_ERRORS_1 =
     [AbiError ''AlreadyFinalized'' [],
      AbiError ''AlreadyLocked'' [],
      AbiError ''AmountTooLarge'' [],
      AbiError ''AssetNotAllowed'' [],
      AbiError ''DeadlineNotPassed'' [],
      AbiError ''EnforcedPause'' [],
      AbiError ''ExceedsMaxIntentAmount'' [],
      AbiError ''ExceedsSurplus'' [],
      AbiError ''FeeTooLow'' [],
      AbiError ''GraceTooLong'' [],
      AbiError ''GraceTooShort'' [],
      AbiError ''GuardianCooldown'' [],
      AbiError ''IntentExpired'' [],
      AbiError ''InvalidDuration'' [],
      AbiError ''InvalidSignature'' [],
      AbiError ''MalformedPayload'' [],
      AbiError ''NativeTransferFailed'' [],
      AbiError ''NoPendingOwner'' [],
      AbiError ''NotAContract'' [],
      AbiError ''NotAuthorized'' [],
      AbiError ''NotEndpoint'' [],
      AbiError ''NotLocked'' [],
      AbiError ''NotOwner'' [],
      AbiError ''NotPendingOwner'' [],
      AbiError ''NothingReceived'' [],
      AbiError ''PauseNotExpired'' [],
      AbiError ''PauseNotGuardianInitiated'' [],
      AbiError ''Reentrancy'' [],
      AbiError ''ReservedForSolver'' [],
      AbiError ''RollingWindowCapAlreadyTriggered'' []]"

definition ESCROW_ERRORS_2 :: "abi_entry list" where
  "ESCROW_ERRORS_2 =
     [AbiError ''RollingWindowCapExceeded'' [],
      AbiError ''RollingWindowNotYetResettable'' [],
      AbiError ''SourceChainMismatch'' [],
      AbiError ''StaleNonce'' [],
      AbiError ''StringFieldEmpty'' [],
      AbiError ''StringFieldTooLong'' [],
      AbiError ''TransferFailed'' [],
      AbiError ''UnderDelivered'' [],
      AbiError ''UnknownMessageType'' [],
      AbiError ''UnknownVersion'' [],
      AbiError ''UntrustedPeer'' [],
      AbiError ''WrongChain'' [],
      AbiError ''ZeroAddress'' []]"

definition ESCROW_ABI :: "abi_entry list" where
  "ESCROW_ABI =
     ESCROW_FUNCTIONS_1 @ ESCROW_FUNCTIONS_2 @ ESCROW_FUNCTIONS_3 @ ESCROW_FUNCTIONS_4 @ ESCROW_FUNCTIONS_5 @
     ESCROW_FUNCTIONS_6 @ ESCROW_FUNCTIONS_7 @ ESCROW_FUNCTIONS_8 @ ESCROW_EVENTS_1 @
     ESCROW_EVENTS_2 @ ESCROW_EVENTS_3 @ ESCROW_ERRORS_1 @ ESCROW_ERRORS_2"

section \<open>The fragments of the relayer and the error names of the SDK\<close>

text \<open>\<open>ESCROW_ABI\<close> of \<^verbatim>\<open>evm-delivery.ts\<close>.\<close>

definition DELIVERY_ABI :: "abi_entry list" where
  "DELIVERY_ABI =
     [AbiFunction ''lzReceive''
        [param ''origin'' (TTuple [(''srcEid'', TUint 32), (''sender'', TBytesN 32), (''nonce'', TUint 64)]),
         param ''guid'' (TBytesN 32), param ''message'' TBytes, param ''executor'' TAddress,
         param ''extraData'' TBytes] [] Nonpayable,
      AbiFunction ''isDelivered'' [param ''guid'' (TBytesN 32)] [param '''' TBool] View]"

definition LOCKED_EVENT_ABI :: "abi_entry list" where
  "LOCKED_EVENT_ABI =
     [AbiEvent ''Locked''
        [topic ''intentHash'' (TBytesN 32), topic ''solver'' TAddress, topic ''user'' TAddress,
         param ''asset'' TAddress, param ''amount'' (TUint 256), param ''destination'' TString,
         param ''destAsset'' TString, param ''minDestAmount'' (TUint 128), param ''deadline'' (TUint 64)]]"

definition LOCKED_DATA_PARAMS :: "abi_param list" where
  "LOCKED_DATA_PARAMS =
     [param ''asset'' TAddress, param ''amount'' (TUint 256), param ''destination'' TString,
      param ''destAsset'' TString, param ''minDestAmount'' (TUint 128), param ''deadline'' (TUint 64)]"

definition ESCROW_ERROR_NAMES :: "string list" where
  "ESCROW_ERROR_NAMES =
     [''NoPendingOwner'', ''NotAContract'', ''EnforcedPause'', ''NotOwner'', ''TransferFailed'', ''NotAllowed'',
      ''InvalidAmount'', ''InvalidDeadline'', ''AlreadySettled'', ''IntentExpired'', ''Unauthorized'',
      ''ReentrancyGuardReentrantCall'']"

section \<open>The declarations of the contract\<close>

definition CONTRACT_EVENTS :: "(string \<times> abi_param list) list" where
  "CONTRACT_EVENTS =
     [(''Locked'', [topic ''intentHash'' (TBytesN 32), topic ''solver'' TAddress, topic ''user'' TAddress,
        param ''asset'' TAddress, param ''amount'' (TUint 256), param ''destination'' TString,
        param ''destAsset'' TString, param ''minDestAmount'' (TUint 128), param ''deadline'' (TUint 64)]),
      (''Released'', [topic ''intentHash'' (TBytesN 32), topic ''solver'' TAddress,
        param ''amount'' (TUint 256), param ''fillAmount'' (TUint 128), param ''fillLedger'' (TUint 64),
        param ''minDestAmount'' (TUint 128)]),
      (''Refunded'', [topic ''intentHash'' (TBytesN 32), topic ''user'' TAddress,
        param ''amount'' (TUint 256), param ''reason'' (TUint 8)]),
      (''RefundedLocalTimeout'', [topic ''intentHash'' (TBytesN 32), topic ''user'' TAddress,
        param ''amount'' (TUint 256)]),
      (''PeerSet'', [param ''peer'' (TBytesN 32)]),
      (''ConfirmationGraceSet'', [param ''secondsGrace'' (TUint 256)]),
      (''GuardianSet'', [topic ''guardian'' TAddress]),
      (''PausedSet'', [param ''paused'' TBool]),
      (''OwnershipTransferStarted'', [topic ''previousOwner'' TAddress, topic ''newOwner'' TAddress]),
      (''OwnershipTransferred'', [topic ''previousOwner'' TAddress, topic ''newOwner'' TAddress]),
      (''OwnershipTransferCancelled'', [topic ''previousOwner'' TAddress]),
      (''Skimmed'', [topic ''token'' TAddress, topic ''to'' TAddress, param ''amount'' (TUint 256)]),
      (''NativeSkimmed'', [topic ''to'' TAddress, param ''amount'' (TUint 256)]),
      (''MaxIntentAmountSet'', [param ''maxAmount'' (TUint 256)]),
      (''RollingWindowCapSet'', [param ''duration'' (TUint 256), param ''cap'' (TUint 256)]),
      (''RollingWindowCapTriggered'', [param ''windowStart'' (TUint 256),
        param ''accumulated'' (TUint 256)]),
      (''RollingWindowCapReset'', []),
      (''RollingWindowCapPerAssetSet'', [topic ''asset'' TAddress, param ''duration'' (TUint 256),
        param ''cap'' (TUint 256)]),
      (''FillConfirmedIgnored'', [topic ''intentHash'' (TBytesN 32), param ''reason'' (TUint 8)]),
      (''CancelIgnored'', [topic ''intentHash'' (TBytesN 32), param ''reason'' (TUint 8)]),
      (''AssetAllowed'', [topic ''asset'' TAddress, param ''allowed'' TBool]),
      (''MaxIntentAmountPerAssetSet'', [topic ''asset'' TAddress, param ''maxAmount'' (TUint 256)])]"

definition CONTRACT_ERRORS :: "string list" where
  "CONTRACT_ERRORS =
     [''AlreadyLocked'', ''NotLocked'', ''InvalidSignature'', ''IntentExpired'', ''WrongChain'',
       ''NotEndpoint'', ''UntrustedPeer'', ''ReservedForSolver'', ''AlreadyFinalized'', ''DeadlineNotPassed'',
       ''TransferFailed'', ''NothingReceived'', ''MalformedPayload'', ''UnknownVersion'',
       ''UnknownMessageType'', ''StaleNonce'', ''NotOwner'', ''NotPendingOwner'', ''NoPendingOwner'',
       ''NotAContract'', ''NotAuthorized'', ''Reentrancy'', ''EnforcedPause'', ''GraceTooLong'',
       ''GraceTooShort'', ''FeeTooLow'', ''ZeroAddress'', ''SourceChainMismatch'', ''StringFieldEmpty'',
       ''StringFieldTooLong'', ''GuardianCooldown'', ''PauseNotGuardianInitiated'', ''PauseNotExpired'',
       ''ExceedsMaxIntentAmount'', ''RollingWindowCapExceeded'', ''RollingWindowCapAlreadyTriggered'',
       ''RollingWindowNotYetResettable'', ''InvalidDuration'', ''NativeTransferFailed'', ''ExceedsSurplus'',
       ''AssetNotAllowed'', ''AssetCapNotConfigured'', ''UnderDelivered'', ''AmountTooLarge'']"

text \<open>The getters of the public variables, among them \<open>locks\<close> with the members of \<open>Lock\<close>.\<close>

definition CONTRACT_GETTERS :: "abi_signature list" where
  "CONTRACT_GETTERS =
     [(''FILL_INSTRUCTION_LENGTH'', [], [TUint 256]),
      (''FILL_CONFIRMED_LENGTH'', [], [TUint 256]),
      (''CANCEL_INTENT_LENGTH'', [], [TUint 256]),
      (''MAX_CONFIRMATION_GRACE'', [], [TUint 256]),
      (''MIN_CONFIRMATION_GRACE'', [], [TUint 256]),
      (''GUARDIAN_PAUSE_TTL'', [], [TUint 256]),
      (''MAX_DESTINATION_LEN'', [], [TUint 256]),
      (''MAX_DEST_ASSET_LEN'', [], [TUint 256]),
      (''DOMAIN_SEPARATOR'', [], [TBytesN 32]),
      (''endpoint'', [], [TAddress]),
      (''stellarEid'', [], [TUint 32]),
      (''owner'', [], [TAddress]),
      (''pendingOwner'', [], [TAddress]),
      (''guardian'', [], [TAddress]),
      (''stellarPeer'', [], [TBytesN 32]),
      (''confirmationGrace'', [], [TUint 256]),
      (''paused'', [], [TBool]),
      (''guardianPauseExpiry'', [], [TUint 256]),
      (''guardianPauseCooldownUntil'', [], [TUint 256]),
      (''assetAllowed'', [TAddress], [TBool]),
      (''maxIntentAmountPerAsset'', [TAddress], [TUint 256]),
      (''maxIntentAmount'', [], [TUint 256]),
      (''rollingWindowDuration'', [], [TUint 256]),
      (''rollingWindowCap'', [], [TUint 256]),
      (''rollingWindowCapPerAsset'', [TAddress], [TUint 256]),
      (''rollingWindowTriggered'', [], [TBool]),
      (''rollingWindowTriggeredAsset'', [], [TAddress]),
      (''rollingWindowResetEarliestAt'', [], [TUint 256]),
      (''locks'', [TBytesN 32], [TAddress, TAddress, TAddress, TUint 256, TUint 128, TUint 64, TBool,
        TBool]),
      (''totalLocked'', [TAddress], [TUint 256]),
      (''inboundNonce'', [TUint 32], [TUint 64])]"

definition CONTRACT_ADMIN_FUNCTIONS :: "abi_signature list" where
  "CONTRACT_ADMIN_FUNCTIONS =
     [(''setPeer'', [TBytesN 32], []),
      (''setConfirmationGrace'', [TUint 256], []),
      (''setGuardian'', [TAddress], []),
      (''setPaused'', [TBool], []),
      (''pause'', [], []),
      (''decayGuardianPause'', [], []),
      (''setAssetAllowed'', [TAddress, TBool], []),
      (''setMaxIntentAmountPerAsset'', [TAddress, TUint 256], []),
      (''setMaxIntentAmount'', [TUint 256], []),
      (''setRollingWindowCap'', [TUint 256, TUint 256], []),
      (''setRollingWindowCapForAsset'', [TAddress, TUint 256, TUint 256], []),
      (''resetRollingWindowCap'', [], []),
      (''transferOwnership'', [TAddress], []),
      (''cancelOwnershipTransfer'', [], []),
      (''acceptOwnership'', [], []),
      (''skim'', [TAddress, TAddress, TUint 256], []),
      (''skimNative'', [TAddress, TUint 256], [])]"

definition CONTRACT_INTENT_FUNCTIONS :: "abi_signature list" where
  "CONTRACT_INTENT_FUNCTIONS =
     [(''lock'', [canonical INTENT_TUPLE, TBytes], []),
      (''lzReceive'', [TTuple [('''', TUint 32), ('''', TBytesN 32), ('''', TUint 64)], TBytesN 32, TBytes,
        TAddress, TBytes], []),
      (''cancelExpired'', [TBytesN 32], []),
      (''quoteFee'', [canonical INTENT_TUPLE, TAddress], [TUint 256]),
      (''quoteFee'', [canonical INTENT_TUPLE], [TUint 256]),
      (''hashIntent'', [canonical INTENT_TUPLE], [TBytesN 32]),
      (''eip712Domain'', [], [TBytesN 1, TString, TString, TUint 256, TAddress, TBytesN 32,
        TArray (TUint 256)])]"

definition CONTRACT_FUNCTIONS :: "abi_signature list" where
  "CONTRACT_FUNCTIONS = CONTRACT_GETTERS @ CONTRACT_ADMIN_FUNCTIONS @ CONTRACT_INTENT_FUNCTIONS"

section \<open>Calls\<close>

text \<open>What the code passes, and when it is a value of the ABI type that is declared for it.\<close>

datatype abi_arg =
    ArgInt int
  | ArgText string
  | ArgBool bool
  | ArgList "abi_arg list"
  | ArgObj "(string \<times> abi_arg) list"

definition hex_data :: "string \<Rightarrow> bool" where
  "hex_data s \<longleftrightarrow> take 2 s = ''0x'' \<and> even (length s) \<and> list_all is_hex (drop 2 s)"

fun has_type :: "(string \<Rightarrow> bool) \<Rightarrow> abi_type \<Rightarrow> abi_arg \<Rightarrow> bool" where
  "has_type isAddr (TUint w) (ArgInt n) \<longleftrightarrow> 0 \<le> n \<and> n < 2 ^ w"
| "has_type isAddr TAddress (ArgText s) \<longleftrightarrow> isAddr s"
| "has_type isAddr TBool (ArgBool b) \<longleftrightarrow> True"
| "has_type isAddr TBytes (ArgText s) \<longleftrightarrow> hex_data s"
| "has_type isAddr (TBytesN k) (ArgText s) \<longleftrightarrow> hex_string (2 * k) s"
| "has_type isAddr TString (ArgText s) \<longleftrightarrow> True"
| "has_type isAddr (TArray t) (ArgList vs) \<longleftrightarrow> list_all (has_type isAddr t) vs"
| "has_type isAddr (TTuple cs) (ArgObj ms) \<longleftrightarrow>
     list_all (\<lambda>c. case map_of ms (fst c) of None \<Rightarrow> False | Some v \<Rightarrow> has_type isAddr (snd c) v) cs"
| "has_type isAddr _ _ \<longleftrightarrow> False"

record contract_call =
  cc_functionName :: string
  cc_args :: "abi_arg list"

fun takes_call :: "(string \<Rightarrow> bool) \<Rightarrow> contract_call \<Rightarrow> abi_entry \<Rightarrow> bool" where
  "takes_call isAddr c (AbiFunction n ins outs mu) \<longleftrightarrow>
     n = cc_functionName c \<and> list_all2 (has_type isAddr) (map ap_type ins) (cc_args c)"
| "takes_call isAddr c _ \<longleftrightarrow> False"

text \<open>The entries of an ABI that a call can mean.\<close>

definition resolve :: "(string \<Rightarrow> bool) \<Rightarrow> abi_entry list \<Rightarrow> contract_call \<Rightarrow> abi_entry list" where
  "resolve isAddr abi c = filter (takes_call isAddr c) abi"

definition intent_arg :: "message \<Rightarrow> abi_arg" where
  "intent_arg m = ArgObj
     [(''user'', ArgText (m_user m)), (''destination'', ArgText (m_destination m)),
      (''sourceChainId'', ArgInt (m_sourceChainId m)), (''sourceAsset'', ArgText (m_sourceAsset m)),
      (''sourceAmount'', ArgInt (m_sourceAmount m)), (''destAsset'', ArgText (m_destAsset m)),
      (''minDestAmount'', ArgInt (m_minDestAmount m)), (''deadline'', ArgInt (m_deadline m)),
      (''nonce'', ArgInt (m_nonce m)), (''preferredSolver'', ArgText (m_preferredSolver m))]"

definition quote_fee_call :: "message \<Rightarrow> address \<Rightarrow> contract_call" where
  "quote_fee_call m payer = \<lparr>cc_functionName = ''quoteFee'', cc_args = [intent_arg m, ArgText payer]\<rparr>"

definition lock_call :: "message \<Rightarrow> hex \<Rightarrow> contract_call" where
  "lock_call m sig = \<lparr>cc_functionName = ''lock'', cc_args = [intent_arg m, ArgText sig]\<rparr>"

definition cancel_expired_call :: "hex \<Rightarrow> contract_call" where
  "cancel_expired_call h = \<lparr>cc_functionName = ''cancelExpired'', cc_args = [ArgText h]\<rparr>"

definition confirmation_grace_call :: contract_call where
  "confirmation_grace_call = \<lparr>cc_functionName = ''confirmationGrace'', cc_args = []\<rparr>"

definition locks_call :: "hex \<Rightarrow> contract_call" where
  "locks_call h = \<lparr>cc_functionName = ''locks'', cc_args = [ArgText h]\<rparr>"

section \<open>Facts about the tables\<close>

text \<open>
  The entries of a table as rewrite rules for membership in a larger table, so that comparing two tables is
  a matter of rewriting and not of comparing each entry with each.
\<close>

lemma table_members: "T = es \<Longrightarrow> set T \<subseteq> set U \<Longrightarrow> list_all (\<lambda>x. x \<in> set U) es"
  by (auto simp: list_all_iff)

lemmas table_simps = snd_conv list.pred_inject append.simps list.map comp_apply param_def topic_def
  abi_param.simps canonical.simps function_signatures.simps event_entries.simps error_names.simps

lemma contract_parts:
  "set CONTRACT_GETTERS \<subseteq> set CONTRACT_FUNCTIONS" "set CONTRACT_ADMIN_FUNCTIONS \<subseteq> set CONTRACT_FUNCTIONS"
  "set CONTRACT_INTENT_FUNCTIONS \<subseteq> set CONTRACT_FUNCTIONS"
  by (auto simp: CONTRACT_FUNCTIONS_def)

lemmas contract_members =
  table_members [OF CONTRACT_GETTERS_def contract_parts(1), unfolded table_simps]
  table_members [OF CONTRACT_ADMIN_FUNCTIONS_def contract_parts(2), unfolded table_simps]
  table_members [OF CONTRACT_INTENT_FUNCTIONS_def contract_parts(3), unfolded table_simps]
  table_members [OF CONTRACT_EVENTS_def subset_refl, unfolded table_simps]
  table_members [OF CONTRACT_ERRORS_def subset_refl, unfolded table_simps]

lemmas escrow_abi_tables =
  ESCROW_FUNCTIONS_1_def ESCROW_FUNCTIONS_2_def ESCROW_FUNCTIONS_3_def ESCROW_FUNCTIONS_4_def
  ESCROW_FUNCTIONS_5_def ESCROW_FUNCTIONS_6_def ESCROW_FUNCTIONS_7_def ESCROW_FUNCTIONS_8_def
  ESCROW_EVENTS_1_def ESCROW_EVENTS_2_def ESCROW_EVENTS_3_def ESCROW_ERRORS_1_def ESCROW_ERRORS_2_def

lemmas escrow_members =
  table_members [OF arg_cong [OF ESCROW_ABI_def, of function_signatures] subset_refl,
    unfolded escrow_abi_tables table_simps]
  table_members [OF arg_cong [OF ESCROW_ABI_def, of event_entries] subset_refl,
    unfolded escrow_abi_tables table_simps]
  table_members [OF arg_cong [OF ESCROW_ABI_def, of error_names] subset_refl,
    unfolded escrow_abi_tables table_simps]

lemma escrow_abi_sound:
  "set (function_signatures ESCROW_ABI) \<subseteq> set CONTRACT_FUNCTIONS"
  "set (event_entries ESCROW_ABI) \<subseteq> set CONTRACT_EVENTS"
  "set (error_names ESCROW_ABI) \<subseteq> set CONTRACT_ERRORS"
  by (simp_all add: ESCROW_ABI_def escrow_abi_tables param_def topic_def contract_members del: One_nat_def)

definition named_functions :: "string \<Rightarrow> abi_entry list" where
  "named_functions f = filter (\<lambda>e. case e of AbiFunction n ins outs mu \<Rightarrow> n = f | _ \<Rightarrow> False) ESCROW_ABI"

lemma resolve_escrow:
  "resolve isAddr ESCROW_ABI c = filter (takes_call isAddr c) (named_functions (cc_functionName c))"
  unfolding resolve_def named_functions_def filter_filter
  by (rule filter_cong) (auto split: abi_entry.split)

lemma escrow_functions_called:
  "named_functions ''quoteFee'' =
     [AbiFunction ''quoteFee'' [param ''intent'' INTENT_TUPLE] [param ''nativeFee'' (TUint 256)] View,
      AbiFunction ''quoteFee'' [param ''intent'' INTENT_TUPLE, param ''payer'' TAddress]
        [param ''nativeFee'' (TUint 256)] View]"
  "named_functions ''lock'' =
     [AbiFunction ''lock'' [param ''intent'' INTENT_TUPLE, param ''signature'' TBytes] [] Payable]"
  "named_functions ''cancelExpired'' = [AbiFunction ''cancelExpired'' [param ''intentHash'' (TBytesN 32)] [] Nonpayable]"
  "named_functions ''confirmationGrace'' = [AbiFunction ''confirmationGrace'' [] [param '''' (TUint 256)] View]"
  "named_functions ''locks'' =
     [AbiFunction ''locks'' [param '''' (TBytesN 32)]
        [param ''solver'' TAddress, param ''user'' TAddress, param ''asset'' TAddress, param ''amount'' (TUint 256),
         param ''minDestAmount'' (TUint 128), param ''deadline'' (TUint 64), param ''released'' TBool,
         param ''refunded'' TBool] View]"
  by code_simp+

text \<open>What the contract has and the ABI does not: by name, which is enough since no name is listed twice with other types.\<close>

lemma not_named:
  "n \<notin> set (map fst xs) \<Longrightarrow> (n, t) \<notin> set xs"
  by force

lemma names_not_in_abi:
  "filter (\<lambda>n. n \<in> set (map fst (function_signatures ESCROW_ABI)))
     [''FILL_INSTRUCTION_LENGTH'', ''FILL_CONFIRMED_LENGTH'', ''CANCEL_INTENT_LENGTH'',
      ''rollingWindowCapPerAsset'', ''rollingWindowTriggeredAsset'', ''setRollingWindowCapForAsset'', ''isDelivered''] = []"
  "filter (\<lambda>n. n \<in> set (map fst (event_entries ESCROW_ABI)))
     [''RollingWindowCapPerAssetSet'', ''FillConfirmedIgnored'', ''CancelIgnored''] = []"
  "filter (\<lambda>n. n \<in> set (error_names ESCROW_ABI)) [''AssetCapNotConfigured''] = []"
  by code_simp+

lemma only_in_contract:
  "map fst (filter (\<lambda>f. f \<notin> set (function_signatures ESCROW_ABI)) CONTRACT_FUNCTIONS) =
     [''FILL_INSTRUCTION_LENGTH'', ''FILL_CONFIRMED_LENGTH'', ''CANCEL_INTENT_LENGTH'',
      ''rollingWindowCapPerAsset'', ''rollingWindowTriggeredAsset'', ''setRollingWindowCapForAsset'']"
  "map fst (filter (\<lambda>e. e \<notin> set (event_entries ESCROW_ABI)) CONTRACT_EVENTS) =
     [''RollingWindowCapPerAssetSet'', ''FillConfirmedIgnored'', ''CancelIgnored'']"
  "filter (\<lambda>n. n \<notin> set (error_names ESCROW_ABI)) CONTRACT_ERRORS = [''AssetCapNotConfigured'']"
  using names_not_in_abi unfolding filter_empty_conv
  by (simp_all add: CONTRACT_FUNCTIONS_def CONTRACT_GETTERS_def CONTRACT_ADMIN_FUNCTIONS_def
      CONTRACT_INTENT_FUNCTIONS_def CONTRACT_EVENTS_def CONTRACT_ERRORS_def topic_def param_def
      escrow_members not_named del: One_nat_def set_map)

text \<open>An intent that the ABI has room for: the client's parser does not bound its numbers.\<close>

definition fits_words :: "message \<Rightarrow> bool" where
  "fits_words m \<longleftrightarrow> m_sourceChainId m < 2 ^ 256 \<and> m_sourceAmount m < 2 ^ 256 \<and> m_minDestAmount m < 2 ^ 256
     \<and> m_deadline m < 2 ^ 256 \<and> m_nonce m < 2 ^ 256"

lemma intent_arg_typed:
  assumes "wire_intent isAddr i" and "toMessage i = Inr m"
  shows "has_type isAddr INTENT_TUPLE (intent_arg m) \<longleftrightarrow> fits_words m"
proof -
  have num: "js_bigint (sourceAmount i) = Some (int (nat_of_digits (sourceAmount i)))"
    "js_bigint (minDestAmount i) = Some (int (nat_of_digits (minDestAmount i)))"
    "js_bigint (nonce i) = Some (int (nat_of_digits (nonce i)))"
    using assms(1) by (auto simp: wire_intent_def js_bigint_pos js_bigint_nonneg)
  then have "0 \<le> m_sourceChainId m" "0 \<le> m_sourceAmount m" "0 \<le> m_minDestAmount m" "0 \<le> m_deadline m"
    "0 \<le> m_nonce m" "isAddr (m_user m)" "isAddr (m_sourceAsset m)" "isAddr (m_preferredSolver m)"
    using assms by (auto simp: toMessage_def wire_intent_def)
  then show ?thesis by (simp add: INTENT_TUPLE_def intent_arg_def fits_words_def)
qed

lemma signature_is_data: "hex_string 130 sig \<Longrightarrow> hex_data sig"
  by (simp add: hex_string_def hex_data_def)

section \<open>Properties\<close>

text \<open>
  C32. Every call of the SDK and of the solver means one function of the escrow's ABI: for an intent that the
  client's parser has let through, \<open>quoteFee\<close> is the overload with the payer, and \<open>quoteFee\<close> and \<open>lock\<close> type
  exactly when the numbers of the intent fit 256 bits, which the parser does not ask for; the calls that
  take an intent hash and the one without arguments always type.
\<close>

theorem escrow_calls_resolve:
  assumes "parseIntent isAddr v = Inr i" and "toMessage i = Inr m"
    and "hex_string 130 sig" and "hex_string 64 h" and "isAddr payer"
  shows "resolve isAddr ESCROW_ABI (quote_fee_call m payer) =
      (if fits_words m then
         [AbiFunction ''quoteFee'' [param ''intent'' INTENT_TUPLE, param ''payer'' TAddress]
            [param ''nativeFee'' (TUint 256)] View]
       else [])
    \<and> resolve isAddr ESCROW_ABI (lock_call m sig) =
      (if fits_words m then
         [AbiFunction ''lock'' [param ''intent'' INTENT_TUPLE, param ''signature'' TBytes] [] Payable]
       else [])
    \<and> length (resolve isAddr ESCROW_ABI (cancel_expired_call h)) = 1
    \<and> length (resolve isAddr ESCROW_ABI confirmation_grace_call) = 1
    \<and> length (resolve isAddr ESCROW_ABI (locks_call h)) = 1"
proof -
  have "has_type isAddr INTENT_TUPLE (intent_arg m) \<longleftrightarrow> fits_words m"
    using parseIntent_wire [OF assms(1)] assms(2) by (rule intent_arg_typed)
  then show ?thesis
    using assms(3-5) signature_is_data [OF assms(3)]
    by (simp add: resolve_escrow quote_fee_call_def lock_call_def cancel_expired_call_def
        confirmation_grace_call_def locks_call_def escrow_functions_called param_def)
qed

theorem escrow_calls_resolve_witness:
  "\<exists>m. toMessage sample_intent = Inr m \<and> fits_words m
    \<and> resolve (hex_string 40) ESCROW_ABI (lock_call m sample_sig) =
        [AbiFunction ''lock'' [param ''intent'' INTENT_TUPLE, param ''signature'' TBytes] [] Payable]"
proof -
  obtain m where m: "toMessage sample_intent = Inr m" using sample_message by blast
  have p: "parseIntent (hex_string 40) (intent_json sample_intent) = Inr sample_intent"
    using sample_intent_wire by (rule wire_parseIntent)
  have wire: "hex_string 130 sample_sig" "hex_string 64 (hash (sample_intent_record Pending))"
    using sample_record_wire [of Pending]
    by (simp_all add: wire_record_def wire_signed_def sample_intent_record_def)
  have payer: "hex_string 40 (user sample_intent)" using sample_intent_wire by (simp add: wire_intent_def)
  have "fits_words m"
    using m sample_numerals
    by (auto simp: fits_words_def toMessage_def sample_intent_def js_bigint_pos js_bigint_nonneg
        nat_of_digits_def digit_val_def char_code_def)
  then show ?thesis using m escrow_calls_resolve [OF p m wire payer] by auto
qed


text \<open>
  Of the twelve names that the SDK documents as the errors of the escrow, six are declared by the contract
  and six by nobody; an error of the contract gets a class of its own from \<open>contractErrorFromName\<close> exactly
  when it is one of the three the SDK has classes for, and keeps its name in any case.
\<close>

theorem half_of_the_error_names_exist:
  "filter (\<lambda>n. n \<in> set CONTRACT_ERRORS) ESCROW_ERROR_NAMES =
     [''NoPendingOwner'', ''NotAContract'', ''EnforcedPause'', ''NotOwner'', ''TransferFailed'', ''IntentExpired'']
   \<and> filter (\<lambda>n. contractErrorFromName n sel args \<noteq> PerihelionContractError n sel args) CONTRACT_ERRORS =
     [''NoPendingOwner'', ''NotAContract'', ''EnforcedPause'']
   \<and> contract_error_name (contractErrorFromName n sel args) = Some n"
proof (intro conjI)
  show "filter (\<lambda>n. n \<in> set CONTRACT_ERRORS) ESCROW_ERROR_NAMES =
     [''NoPendingOwner'', ''NotAContract'', ''EnforcedPause'', ''NotOwner'', ''TransferFailed'', ''IntentExpired'']"
    by code_simp
  show "filter (\<lambda>n. contractErrorFromName n sel args \<noteq> PerihelionContractError n sel args) CONTRACT_ERRORS =
     [''NoPendingOwner'', ''NotAContract'', ''EnforcedPause'']"
    by (simp add: CONTRACT_ERRORS_def contractErrorFromName_def)
qed (rule contract_error_name_from_name)

text \<open>A contract without a fallback function reverts a call of a function that it does not declare.\<close>

definition is_delivered_signature :: abi_signature where
  "is_delivered_signature = (''isDelivered'', [TBytesN 32], [TBool])"

definition reverts_undeclared :: "'w evm_delivery_env \<Rightarrow> bool" where
  "reverts_undeclared env \<longleftrightarrow>
     (is_delivered_signature \<notin> set CONTRACT_FUNCTIONS
        \<longrightarrow> (\<forall>guid w. \<exists>e. fst (ed_readIsDelivered env guid w) = Inl e))"

lemma delivery_fragment:
  "set (function_signatures DELIVERY_ABI) - set CONTRACT_FUNCTIONS = {is_delivered_signature}"
proof -
  have sigs: "function_signatures DELIVERY_ABI =
      [(''lzReceive'', [TTuple [('''', TUint 32), ('''', TBytesN 32), ('''', TUint 64)], TBytesN 32, TBytes,
          TAddress, TBytes], []), is_delivered_signature]"
    by (simp add: DELIVERY_ABI_def param_def is_delivered_signature_def)
  have "''isDelivered'' \<notin> set (map fst CONTRACT_FUNCTIONS)" by code_simp
  then have "is_delivered_signature \<notin> set CONTRACT_FUNCTIONS"
    unfolding is_delivered_signature_def by (rule not_named)
  then show ?thesis unfolding sigs by (simp add: contract_members insert_Diff_if)
qed

text \<open>
  C12. The relayer's own fragments of the ABI: its \<open>Locked\<close> event is the contract's, and the data it decodes is
  that event's parameters without topics, in order; its \<open>lzReceive\<close> is the contract's, and its \<open>isDelivered\<close>
  is not in the contract. So, without a mock endpoint and with an escrow that reverts what it does not
  declare, the replay guard of the delivery never reports a message as delivered.
\<close>

theorem replay_guard_never_hits:
  assumes "ed_mockEndpointAddress env = None" and "reverts_undeclared env"
    and "evm_isDelivered env m w = (res, w')"
  shows "res \<noteq> Inr True
    \<and> set (function_signatures DELIVERY_ABI) - set CONTRACT_FUNCTIONS = {is_delivered_signature}
    \<and> set (event_entries LOCKED_EVENT_ABI) \<subseteq> set CONTRACT_EVENTS
    \<and> map (\<lambda>e. filter (\<lambda>p. \<not> ap_indexed p) (snd e)) (event_entries LOCKED_EVENT_ABI) = [LOCKED_DATA_PARAMS]"
proof (intro conjI)
  have "is_delivered_signature \<notin> set CONTRACT_FUNCTIONS" using delivery_fragment by blast
  then have "\<exists>e w1. ed_readIsDelivered env guid x = (Inl e, w1)" for guid x
    using assms(2) unfolding reverts_undeclared_def by (metis prod.collapse)
  then obtain e w1 where fails: "ed_readIsDelivered env (projr (guidFor m)) w = (Inl e, w1)" by blast
  show "res \<noteq> Inr True"
    using assms(1,3) fails by (cases "guidFor m") (auto simp: evm_isDelivered_def Let_def)
  show "set (event_entries LOCKED_EVENT_ABI) \<subseteq> set CONTRACT_EVENTS"
    by (simp add: LOCKED_EVENT_ABI_def param_def topic_def contract_members)
qed (simp_all add: delivery_fragment LOCKED_EVENT_ABI_def LOCKED_DATA_PARAMS_def param_def topic_def)

theorem replay_guard_never_hits_witness:
  "fst (evm_isDelivered (sample_evm_delivery\<lparr>ed_mockEndpointAddress := None,
      ed_readIsDelivered := \<lambda>guid w. (Inl (Thrown ''revert''), w)\<rparr>) sample_confirmation 0) \<noteq> Inr True"
proof -
  let ?env = "sample_evm_delivery\<lparr>ed_mockEndpointAddress := None,
      ed_readIsDelivered := \<lambda>guid w. (Inl (Thrown ''revert''), w)\<rparr>"
  have env: "ed_mockEndpointAddress ?env = None" "reverts_undeclared ?env" by (simp_all add: reverts_undeclared_def)
  obtain res w' where "evm_isDelivered ?env sample_confirmation 0 = (res, w')" by fastforce
  with replay_guard_never_hits [OF env this] show ?thesis by simp
qed

end
