(* ===== verification/Worker_Pool.thy ===== *)
theory Worker_Pool
  imports Prelude
begin

text \<open>
  \<open>_batchConcurrent\<close> of \<^verbatim>\<open>relayer/src/evm-watcher.ts\<close>: a fixed number of workers that draw the index of the next
  task from a shared counter, and \<open>Promise.all\<close> over them. Between two \<open>await\<close>s a worker runs alone, so a step of
  the pool is that the promise of one running task settles, in any order; \<open>out i\<close> is what task \<open>i\<close> settles with.
\<close>

section \<open>The code\<close>

datatype 'e worker = Busy nat | Finished | Rejected 'e

record ('a, 'e) pool =
  pl_next :: nat
  pl_results :: "'a option list"
  pl_workers :: "'e worker list"
  pl_outcome :: "('e, 'a option list) result option"

text \<open>The guard and the first statement of the loop: the next index is taken, or the worker is through.\<close>

definition take_task :: "('a, 'e) pool \<Rightarrow> 'e worker \<times> ('a, 'e) pool" where
  "take_task p =
     (if pl_next p < length (pl_results p) then (Busy (pl_next p), p\<lparr>pl_next := pl_next p + 1\<rparr>)
      else (Finished, p))"

text \<open>\<open>Promise.all\<close> settles once: with the first rejection, or when every worker is through.\<close>

definition settle_all :: "('a, 'e) pool \<Rightarrow> ('a, 'e) pool" where
  "settle_all p =
     (if pl_outcome p \<noteq> None then p
      else case List.map_filter (\<lambda>w. case w of Rejected e \<Rightarrow> Some e | _ \<Rightarrow> None) (pl_workers p) of
             e # _ \<Rightarrow> p\<lparr>pl_outcome := Some (Inl e)\<rparr>
           | [] \<Rightarrow> if list_all (\<lambda>w. w = Finished) (pl_workers p)
                   then p\<lparr>pl_outcome := Some (Inr (pl_results p))\<rparr> else p)"

fun start_workers :: "nat \<Rightarrow> ('a, 'e) pool \<Rightarrow> ('a, 'e) pool" where
  "start_workers 0 p = p"
| "start_workers (Suc k) p =
     (let (w, p') = take_task p in start_workers k (p'\<lparr>pl_workers := pl_workers p' @ [w]\<rparr>))"

definition new_pool :: "nat \<Rightarrow> nat \<Rightarrow> ('a, 'e) pool" where
  "new_pool n concurrency = settle_all
     (start_workers (min concurrency n)
        \<lparr>pl_next = 0, pl_results = replicate n None, pl_workers = [], pl_outcome = None\<rparr>)"

text \<open>The task of a worker settles: the result is stored and the loop goes on, or the worker's promise is rejected.\<close>

definition task_settled :: "('e, 'a) result \<Rightarrow> nat \<Rightarrow> nat \<Rightarrow> ('a, 'e) pool \<Rightarrow> ('a, 'e) pool" where
  "task_settled r k i p =
     (case r of
        Inl e \<Rightarrow> p\<lparr>pl_workers := (pl_workers p)[k := Rejected e]\<rparr>
      | Inr v \<Rightarrow>
          (let (w, p') = take_task (p\<lparr>pl_results := (pl_results p)[i := Some v]\<rparr>)
           in p'\<lparr>pl_workers := (pl_workers p')[k := w]\<rparr>))"

text \<open>A step names the worker and the task that settled.\<close>

inductive pool_step :: "(nat \<Rightarrow> ('e, 'a) result) \<Rightarrow> ('a, 'e) pool \<Rightarrow> nat \<times> nat \<Rightarrow> ('a, 'e) pool \<Rightarrow> bool" for out where
  Settle: "k < length (pl_workers p) \<Longrightarrow> pl_workers p ! k = Busy i \<Longrightarrow>
    pool_step out p (k, i) (settle_all (task_settled (out i) k i p))"

inductive pool_run :: "(nat \<Rightarrow> ('e, 'a) result) \<Rightarrow> ('a, 'e) pool \<Rightarrow> (nat \<times> nat) list \<Rightarrow> ('a, 'e) pool \<Rightarrow> bool" for out where
  Begin: "pool_run out p [] p"
| Step: "pool_run out p ks p1 \<Longrightarrow> pool_step out p1 k p2 \<Longrightarrow> pool_run out p (ks @ [k]) p2"

inductive_cases pool_stepE: "pool_step out p (k, i) p'"
inductive_simps pool_run_Nil [simp]: "pool_run out p [] p'"

definition busy_with :: "'e worker list \<Rightarrow> nat list" where
  "busy_with ws = List.map_filter (\<lambda>w. case w of Busy i \<Rightarrow> Some i | _ \<Rightarrow> None) ws"

definition running_tasks :: "('a, 'e) pool \<Rightarrow> nat list" where
  "running_tasks p = busy_with (pl_workers p)"

section \<open>Invariant\<close>

text \<open>
  What every interleaving keeps: the running tasks are different ones among those drawn, whatever was drawn is
  running, stored or has made its worker fail, and the outcome is that of the workers.
\<close>

definition worker_ok :: "(nat \<Rightarrow> ('e, 'a) result) \<Rightarrow> ('a, 'e) pool \<Rightarrow> 'e worker \<Rightarrow> bool" where
  "worker_ok out p w \<longleftrightarrow>
     (case w of
        Busy i \<Rightarrow> i < pl_next p \<and> pl_results p ! i = None
      | Finished \<Rightarrow> pl_next p = length (pl_results p)
      | Rejected e \<Rightarrow> (\<exists>i < pl_next p. out i = Inl e))"

definition task_ok :: "(nat \<Rightarrow> ('e, 'a) result) \<Rightarrow> ('a, 'e) pool \<Rightarrow> nat \<Rightarrow> bool" where
  "task_ok out p i \<longleftrightarrow>
     (case pl_results p ! i of
        Some v \<Rightarrow> out i = Inr v
      | None \<Rightarrow> Busy i \<in> set (pl_workers p) \<or> (\<exists>e. Rejected e \<in> set (pl_workers p)))"

definition outcome_ok :: "('a, 'e) pool \<Rightarrow> bool" where
  "outcome_ok p \<longleftrightarrow>
     (case pl_outcome p of
        None \<Rightarrow> (\<forall>e. Rejected e \<notin> set (pl_workers p)) \<and> (\<exists>w \<in> set (pl_workers p). w \<noteq> Finished)
      | Some (Inl e) \<Rightarrow> Rejected e \<in> set (pl_workers p)
      | Some (Inr rs) \<Rightarrow> rs = pl_results p \<and> set (pl_workers p) \<subseteq> {Finished})"

definition pool_ok :: "(nat \<Rightarrow> ('e, 'a) result) \<Rightarrow> nat \<Rightarrow> nat \<Rightarrow> ('a, 'e) pool \<Rightarrow> bool" where
  "pool_ok out n c p \<longleftrightarrow>
     length (pl_results p) = n \<and> pl_next p \<le> n \<and> length (pl_workers p) = min c n
     \<and> distinct (running_tasks p) \<and> (\<forall>w \<in> set (pl_workers p). worker_ok out p w)
     \<and> (\<forall>i < pl_next p. task_ok out p i) \<and> (\<forall>i < n. pl_next p \<le> i \<longrightarrow> pl_results p ! i = None)"

lemma set_busy_with: "i \<in> set (busy_with ws) \<longleftrightarrow> Busy i \<in> set ws"
  by (force simp: busy_with_def List.map_filter_def split: worker.splits)

lemma busy_with_simps [simp]:
  "busy_with [] = []" "busy_with (xs @ ys) = busy_with xs @ busy_with ys"
  "busy_with (Busy i # ws) = i # busy_with ws" "busy_with (Finished # ws) = busy_with ws"
  "busy_with (Rejected e # ws) = busy_with ws"
  by (simp_all add: busy_with_def List.map_filter_def)

lemma length_busy_with: "length (busy_with ws) \<le> length ws"
  by (simp add: busy_with_def List.map_filter_def)

lemma rejections_set:
  "set (List.map_filter (\<lambda>w. case w of Rejected e \<Rightarrow> Some e | _ \<Rightarrow> None) ws) = {e. Rejected e \<in> set ws}"
  by (force simp: List.map_filter_def split: worker.splits)

lemma settle_all_simps [simp]:
  "pl_next (settle_all p) = pl_next p" "pl_results (settle_all p) = pl_results p"
  "pl_workers (settle_all p) = pl_workers p"
  by (simp_all add: settle_all_def split: list.split)

lemma settle_all_ok [simp]: "pool_ok out n c (settle_all p) = pool_ok out n c p"
  by (simp add: pool_ok_def worker_ok_def task_ok_def running_tasks_def cong: worker.case_cong option.case_cong)

lemma settle_all_outcome:
  assumes "pl_outcome p = None"
  shows "outcome_ok (settle_all p)"
proof (cases "List.map_filter (\<lambda>w. case w of Rejected e \<Rightarrow> Some e | _ \<Rightarrow> None) (pl_workers p)")
  case Nil
  then have "\<forall>e. Rejected e \<notin> set (pl_workers p)"
    using rejections_set [of "pl_workers p"] by (simp only: list.set) blast
  then show ?thesis
    using assms Nil by (auto simp: settle_all_def outcome_ok_def list_all_iff)
next
  case (Cons e es)
  then have "Rejected e \<in> set (pl_workers p)"
    using rejections_set [of "pl_workers p"] by (simp only: list.set) blast
  then show ?thesis using assms Cons by (simp add: settle_all_def outcome_ok_def)
qed

text \<open>Starting the workers.\<close>

lemma start_workers_eq:
  "pl_next p + j \<le> length (pl_results p) \<Longrightarrow>
     start_workers j p =
       p\<lparr>pl_next := pl_next p + j, pl_workers := pl_workers p @ map Busy [pl_next p..<pl_next p + j]\<rparr>"
proof (induction j arbitrary: p)
  case (Suc j)
  let ?p = "p\<lparr>pl_next := pl_next p + 1, pl_workers := pl_workers p @ [Busy (pl_next p)]\<rparr>"
  have "start_workers (Suc j) p = start_workers j ?p"
    using Suc.prems by (simp add: take_task_def)
  also have "\<dots> = ?p\<lparr>pl_next := pl_next ?p + j, pl_workers := pl_workers ?p @ map Busy [pl_next ?p..<pl_next ?p + j]\<rparr>"
    using Suc.prems by (intro Suc.IH) simp
  also have "\<dots> = p\<lparr>pl_next := pl_next p + Suc j, pl_workers := pl_workers p @ map Busy [pl_next p..<pl_next p + Suc j]\<rparr>"
    by (simp add: upt_conv_Cons)
  finally show ?case .
qed simp

lemma new_pool_eq:
  "new_pool n c = settle_all
     \<lparr>pl_next = min c n, pl_results = replicate n None, pl_workers = map Busy [0..<min c n], pl_outcome = None\<rparr>"
  by (simp add: new_pool_def start_workers_eq)

lemma new_pool_ok: "pool_ok out n c (new_pool n c) \<and> outcome_ok (new_pool n c)"
  unfolding new_pool_eq
  by (auto simp: settle_all_outcome)
     (auto simp: pool_ok_def worker_ok_def task_ok_def running_tasks_def busy_with_def List.map_filter_def comp_def)

text \<open>One task settles.\<close>

lemma running_update:
  assumes "k < length (pl_workers p)" and "pl_workers p ! k = Busy i" and "pl_workers p' = (pl_workers p)[k := w]"
    and "distinct (running_tasks p)" and "\<And>j. w = Busy j \<Longrightarrow> Busy j \<notin> set (pl_workers p)"
  shows "distinct (running_tasks p')" and "Busy i \<notin> set (pl_workers p')"
    and "j \<noteq> i \<Longrightarrow> Busy j \<in> set (pl_workers p) \<Longrightarrow> Busy j \<in> set (pl_workers p')"
proof -
  let ?a = "take k (pl_workers p)" and ?b = "drop (Suc k) (pl_workers p)"
  have old: "pl_workers p = ?a @ Busy i # ?b" using assms(1,2) by (metis id_take_nth_drop)
  have new: "pl_workers p' = ?a @ w # ?b" using assms(1,3) by (simp add: upd_conv_take_nth_drop)
  have "busy_with (pl_workers p) = busy_with (?a @ Busy i # ?b)" using old by (rule arg_cong)
  then have d: "distinct (busy_with ?a @ i # busy_with ?b)"
    using assms(4) by (simp add: running_tasks_def)
  have fresh: "j \<notin> set (busy_with ?a) \<and> j \<notin> set (busy_with ?b)" if "w = Busy j" for j
    using assms(5) [OF that] unfolding set_busy_with by (meson in_set_dropD in_set_takeD)
  show "distinct (running_tasks p')"
    unfolding running_tasks_def new using d fresh by (cases w) auto
  have "Busy i \<notin> set ?a" "Busy i \<notin> set ?b" using d by (auto simp flip: set_busy_with)
  moreover have "w \<noteq> Busy i" using assms(1,2,5) by (metis nth_mem)
  ultimately show "Busy i \<notin> set (pl_workers p')" unfolding new by auto
  assume "j \<noteq> i" and "Busy j \<in> set (pl_workers p)"
  then show "Busy j \<in> set (pl_workers p')" unfolding new by (subst (asm) old) auto
qed

lemma other_workers:
  assumes "k < length (pl_workers p)" and "pl_workers p ! k = Busy i" and "pl_workers p' = (pl_workers p)[k := w]"
  shows "x \<noteq> w \<Longrightarrow> x \<in> set (pl_workers p') \<Longrightarrow> x \<in> set (pl_workers p)"
    and "w \<in> set (pl_workers p')" and "Rejected e \<in> set (pl_workers p) \<Longrightarrow> Rejected e \<in> set (pl_workers p')"
proof -
  show "x \<noteq> w \<Longrightarrow> x \<in> set (pl_workers p') \<Longrightarrow> x \<in> set (pl_workers p)"
    using set_update_subset_insert [of "pl_workers p" k w] by (auto simp: assms(3))
  show "w \<in> set (pl_workers p')" using assms(1) by (simp add: assms(3) set_update_memI)
  assume "Rejected e \<in> set (pl_workers p)"
  then obtain j where "j < length (pl_workers p)" "pl_workers p ! j = Rejected e" by (auto simp: in_set_conv_nth)
  then show "Rejected e \<in> set (pl_workers p')"
    using assms(2) by (metis assms(3) length_list_update nth_list_update_neq nth_mem worker.distinct(3))
qed

lemma task_settled_ok:
  assumes ok: "pool_ok out n c p" and k: "k < length (pl_workers p)" "pl_workers p ! k = Busy i"
  shows "pool_ok out n c (task_settled (out i) k i p)"
proof -
  have i: "i < pl_next p" "pl_results p ! i = None"
    using ok nth_mem [OF k(1)] by (auto simp: pool_ok_def worker_ok_def k(2))
  have d: "distinct (running_tasks p)" and len: "length (pl_results p) = n" and nx: "pl_next p \<le> n"
    and wlen: "length (pl_workers p) = min c n"
    and later: "j < n \<Longrightarrow> pl_next p \<le> j \<Longrightarrow> pl_results p ! j = None"
    and workers: "w \<in> set (pl_workers p) \<Longrightarrow> worker_ok out p w" and tasks: "j < pl_next p \<Longrightarrow> task_ok out p j" for w j
    using ok by (auto simp: pool_ok_def)
  show ?thesis
  proof (cases "out i")
    case (Inl e)
    let ?p = "p\<lparr>pl_workers := (pl_workers p)[k := Rejected e]\<rparr>"
    have upd: "pl_workers ?p = (pl_workers p)[k := Rejected e]" by simp
    note up = running_update(1) [OF k upd d] and others = other_workers [OF k upd]
    have "worker_ok out ?p w" if "w \<in> set (pl_workers ?p)" for w
      using that others(1) [of w] workers [of w] i(1) Inl
      by (cases "w = Rejected e") (auto simp: worker_ok_def split: worker.splits)
    moreover have "task_ok out ?p j" if "j < pl_next ?p" for j
      using tasks [of j] that others(2) by (auto simp: task_ok_def split: option.splits)
    ultimately have "pool_ok out n c ?p"
      using up len nx wlen later by (simp add: pool_ok_def)
    then show ?thesis by (simp add: task_settled_def Inl)
  next
    case (Inr v)
    let ?rs = "(pl_results p)[i := Some v]"
    obtain w p' where t: "take_task (p\<lparr>pl_results := ?rs\<rparr>) = (w, p')" by fastforce
    let ?p = "p'\<lparr>pl_workers := (pl_workers p')[k := w]\<rparr>"
    have p': "pl_results p' = ?rs" "pl_workers p' = pl_workers p" "pl_next p \<le> pl_next p'" "pl_next p' \<le> n"
      and w: "w = (if pl_next p < n then Busy (pl_next p) else Finished)"
        "pl_next p' = (if pl_next p < n then pl_next p + 1 else pl_next p)"
      using t len nx by (auto simp: take_task_def split: if_splits)
    have upd: "pl_workers ?p = (pl_workers p)[k := w]" by (simp add: p')
    have fresh: "w = Busy j \<Longrightarrow> Busy j \<notin> set (pl_workers p)" for j
      using workers [of "Busy j"] w by (auto simp: worker_ok_def split: if_splits)
    note up = running_update [OF k upd d fresh] and others = other_workers [OF k upd]
    have "worker_ok out ?p x" if "x \<in> set (pl_workers ?p)" for x
    proof (cases "x = w")
      case True
      then show ?thesis
        using w len i(1) p' nx later by (auto simp: worker_ok_def nth_list_update split: if_splits)
    next
      case False
      then have "x \<in> set (pl_workers p)" and "x \<noteq> Busy i" using that others(1) up(2) by blast+
      then show ?thesis
        using workers [of x] p' w len
        by (auto simp: worker_ok_def nth_list_update split: worker.splits intro: less_le_trans less_SucI)
    qed
    moreover have "task_ok out ?p j" if "j < pl_next ?p" for j
    proof (cases "j < pl_next p")
      case True
      then show ?thesis
        using tasks [of j] up(3) [of j] others(3) Inr len i(1) nx
        by (cases "j = i") (auto simp: task_ok_def p' nth_list_update split: option.splits)
    next
      case False
      then have "w = Busy j" "j < n" "pl_next p \<le> j" using that w nx by (auto split: if_splits)
      then show ?thesis using others(2) later [of j] i(1) by (auto simp: task_ok_def p' nth_list_update split: option.splits)
    qed
    moreover have "pl_results ?p ! j = None" if "j < n" "pl_next ?p \<le> j" for j
      using that later [of j] i(1) p' by (auto simp: nth_list_update)
    ultimately have "pool_ok out n c ?p"
      using up(1) len p' wlen by (simp add: pool_ok_def)
    then show ?thesis by (simp add: task_settled_def Inr t)
  qed
qed
text \<open>The tasks that have settled: drawn, different, and no longer running.\<close>

definition settled_ok :: "(nat \<times> nat) list \<Rightarrow> ('a, 'e) pool \<Rightarrow> bool" where
  "settled_ok ks p \<longleftrightarrow> distinct (map snd ks)
     \<and> (\<forall>i \<in> snd ` set ks. i < pl_next p \<and> Busy i \<notin> set (pl_workers p))"

lemma task_settled_next: "pl_next p \<le> pl_next (task_settled r k i p)"
  by (auto simp: task_settled_def take_task_def split: sum.split)

lemma task_settled_workers:
  obtains w where "pl_workers (task_settled r k i p) = (pl_workers p)[k := w]"
    and "\<And>j. w = Busy j \<Longrightarrow> j = pl_next p"
proof (cases r)
  case (Inl e)
  then show ?thesis by (intro that [of "Rejected e"]) (simp_all add: task_settled_def)
next
  case (Inr v)
  show ?thesis
    by (rule that [of "fst (take_task (p\<lparr>pl_results := (pl_results p)[i := Some v]\<rparr>))"])
       (auto simp: task_settled_def take_task_def Inr split: if_splits)
qed

lemma task_settled_outcome: "pl_outcome (task_settled r k i p) = pl_outcome p"
  by (auto simp: task_settled_def take_task_def split: sum.split)

lemma pool_step_ok:
  assumes "pool_ok out n c p" and "outcome_ok p" and "settled_ok ks p" and "pool_step out p ki p'"
  shows "pool_ok out n c p' \<and> outcome_ok p' \<and> settled_ok (ks @ [ki]) p'"
proof -
  obtain k i where ki: "ki = (k, i)" by force
  with assms(4) have k: "k < length (pl_workers p)" "pl_workers p ! k = Busy i"
    and p': "p' = settle_all (task_settled (out i) k i p)" by (auto elim: pool_stepE)
  obtain w where upd: "pl_workers (task_settled (out i) k i p) = (pl_workers p)[k := w]"
    and w: "\<And>j. w = Busy j \<Longrightarrow> j = pl_next p" by (rule task_settled_workers) blast
  have d: "distinct (running_tasks p)" and busy: "Busy j \<in> set (pl_workers p) \<Longrightarrow> j < pl_next p" for j
    using assms(1) by (auto simp: pool_ok_def worker_ok_def)
  have fresh: "w = Busy j \<Longrightarrow> Busy j \<notin> set (pl_workers p)" for j using w busy by blast
  note up = running_update [OF k upd d fresh] and others = other_workers [OF k upd]
  have i: "i < pl_next p" using busy nth_mem [OF k(1)] k(2) by simp
  have old: "distinct (map snd ks)" "\<And>j. j \<in> snd ` set ks \<Longrightarrow> j < pl_next p \<and> Busy j \<notin> set (pl_workers p)"
    using assms(3) by (auto simp: settled_ok_def)
  have "i \<notin> snd ` set ks" using old(2) [of i] nth_mem [OF k(1)] k(2) by auto
  moreover have "j < pl_next p' \<and> Busy j \<notin> set (pl_workers p')" if j: "j = i \<or> j \<in> snd ` set ks" for j
  proof
    have "j < pl_next p" using j old(2) i by blast
    then show "j < pl_next p'" using task_settled_next [of p "out i" k i] by (simp add: p')
    then show "Busy j \<notin> set (pl_workers p')"
      using j old(2) up(2) others(1) [of "Busy j"] w [of j] \<open>j < pl_next p\<close> by (auto simp: p' simp del: in_set_conv_nth)
  qed
  ultimately have "settled_ok (ks @ [ki]) p'"
    using old(1) by (auto simp: settled_ok_def ki)
  moreover have "outcome_ok p'"
  proof (cases "pl_outcome p")
    case None
    then show ?thesis unfolding p' by (intro settle_all_outcome) (simp add: task_settled_outcome)
  next
    case (Some r)
    then obtain e where "r = Inl e" "Rejected e \<in> set (pl_workers p)"
      using assms(2) nth_mem [OF k(1)] k(2) by (cases r) (auto simp: outcome_ok_def)
    with Some show ?thesis
      using others(3) by (simp add: p' outcome_ok_def settle_all_def task_settled_outcome)
  qed
  ultimately show ?thesis using task_settled_ok [OF assms(1) k] by (simp add: p')
qed

lemma pool_run_ok:
  "pool_run out p0 ks p \<Longrightarrow> p0 = new_pool n c \<Longrightarrow> pool_ok out n c p \<and> outcome_ok p \<and> settled_ok ks p"
proof (induction rule: pool_run.induct)
  case (Begin p)
  then show ?case using new_pool_ok by (simp add: settled_ok_def)
next
  case (Step p ks p1 k p2)
  then show ?case using pool_step_ok by blast
qed

lemma map_result_all:
  assumes "length xs = length is" and "\<And>j. j < length is \<Longrightarrow> f (is ! j) = Inr (xs ! j)"
  shows "map_result f is = Inr xs"
  using assms
proof (induction "is" arbitrary: xs)
  case (Cons a as)
  then obtain b bs where xs: "xs = b # bs" by (cases xs) auto
  have "f (as ! j) = Inr (bs ! j)" if "j < length as" for j
    using Cons.prems(2) [of "Suc j"] that xs by simp
  then have "map_result f as = Inr bs" using Cons.prems(1) xs by (intro Cons.IH) auto
  then show ?case using Cons.prems(2) [of 0] xs by simp
qed simp

section \<open>Property\<close>

text \<open>
  C22. \<open>_batchConcurrent\<close> is a sequential map, whatever the order in which its requests are answered: with at least
  one worker, no task is started twice, at most \<open>concurrency\<close> run at once, the batch is over after at most one
  step per task, and it then has settled. If it resolves, it resolves to the results in the order of the
  tasks, the very list that running them one after the other gives; if it rejects, one of the tasks did, and
  running them one after the other fails as well.
\<close>

theorem batch_equals_sequential:
  assumes "0 < c" and "pool_run out (new_pool n c) ks p"
  shows "distinct (map snd ks) \<and> length ks \<le> n \<and> distinct (running_tasks p) \<and> length (running_tasks p) \<le> c
    \<and> (running_tasks p = [] \<longrightarrow> pl_outcome p \<noteq> None)
    \<and> (\<forall>rs. pl_outcome p = Some (Inr rs) \<longrightarrow>
         rs = map Some (map the rs) \<and> map_result out [0..<n] = Inr (map the rs))
    \<and> (\<forall>e. pl_outcome p = Some (Inl e) \<longrightarrow> (\<exists>i < n. out i = Inl e))"
proof -
  have ok: "pool_ok out n c p" "outcome_ok p" "settled_ok ks p" using pool_run_ok [OF assms(2)] by simp_all
  note ok' = ok(1) [unfolded pool_ok_def]
  have "set (map snd ks) \<subseteq> {0..<n}" using ok(3) ok' by (auto simp: settled_ok_def)
  then have "length (map snd ks) \<le> card {0..<n}"
    using ok(3) by (metis card_mono distinct_card finite_atLeastLessThan settled_ok_def)
  then have steps: "distinct (map snd ks)" "length ks \<le> n" using ok(3) by (simp_all add: settled_ok_def)
  have few: "distinct (running_tasks p)" "length (running_tasks p) \<le> c"
    using ok' length_busy_with [of "pl_workers p"] by (simp_all add: running_tasks_def)
  have over: "pl_outcome p \<noteq> None" if "running_tasks p = []"
  proof
    assume "pl_outcome p = None"
    then obtain w where "w \<in> set (pl_workers p)" "w \<noteq> Finished" "\<forall>e. w \<noteq> Rejected e"
      using ok(2) by (auto simp: outcome_ok_def)
    then obtain i where "w = Busy i" by (metis worker.exhaust)
    with \<open>w \<in> set (pl_workers p)\<close> have "Busy i \<in> set (pl_workers p)" by simp
    then have "i \<in> set (running_tasks p)" by (simp add: running_tasks_def set_busy_with)
    with that show False by simp
  qed
  have resolved: "rs = map Some (map the rs) \<and> map_result out [0..<n] = Inr (map the rs)"
    if r: "pl_outcome p = Some (Inr rs)" for rs
  proof -
    have rs: "rs = pl_results p" "set (pl_workers p) \<subseteq> {Finished}" using ok(2) r by (auto simp: outcome_ok_def)
    have "pl_next p = n"
    proof (cases "n = 0")
      case False
      then have "0 < length (pl_workers p)" using ok' assms(1) by linarith
      then have "Finished \<in> set (pl_workers p)" using rs(2) by (cases "pl_workers p") auto
      then show ?thesis using ok' by (auto simp: worker_ok_def)
    qed (use ok' in simp)
    then have "\<exists>v. rs ! j = Some v \<and> out j = Inr v" if "j < n" for j
      using ok' rs that by (force simp: task_ok_def split: option.splits)
    then have v: "j < n \<Longrightarrow> rs ! j = Some (the (rs ! j))" "j < n \<Longrightarrow> out j = Inr (the (rs ! j))" for j
      by (metis option.sel)+
    have "length rs = n" using rs ok' by simp
    then show ?thesis using v by (auto intro!: map_result_all nth_equalityI)
  qed
  have "\<exists>i < n. out i = Inl e" if "pl_outcome p = Some (Inl e)" for e
  proof -
    have "Rejected e \<in> set (pl_workers p)" using ok(2) that by (simp add: outcome_ok_def)
    then have "worker_ok out p (Rejected e)" using ok' by blast
    then show ?thesis using ok' by (auto simp: worker_ok_def intro: less_le_trans)
  qed
  with steps few over resolved show ?thesis by blast
qed

theorem batch_equals_sequential_witness:
  "\<exists>p. pool_run (\<lambda>i. Inr (i + 10) :: (string, nat) result) (new_pool 2 1) [(0, 0), (0, 1)] p
     \<and> pl_outcome p = Some (Inr [Some 10, Some 11])
     \<and> map_result (\<lambda>i. Inr (i + 10) :: (string, nat) result) [0..<2] = Inr [10, 11]"
proof -
  let ?out = "\<lambda>i. Inr (i + 10) :: (string, nat) result"
  let ?p1 = "settle_all (task_settled (?out 0) 0 0 (new_pool 2 1))"
  let ?p2 = "settle_all (task_settled (?out 1) 0 1 ?p1)"
  note calc = new_pool_eq settle_all_def task_settled_def take_task_def List.map_filter_def numeral_2_eq_2
  have "pool_step ?out (new_pool 2 1) (0, 0) ?p1" by (rule pool_step.Settle) (simp_all add: calc)
  from pool_run.Step [OF pool_run.Begin this]
  have r1: "pool_run ?out (new_pool 2 1) [(0, 0)] ?p1" by simp
  have "pool_step ?out ?p1 (0, 1) ?p2" by (rule pool_step.Settle) (simp_all add: calc)
  from pool_run.Step [OF r1 this]
  have run: "pool_run ?out (new_pool 2 1) [(0, 0), (0, 1)] ?p2" by simp
  have out: "pl_outcome ?p2 = Some (Inr [Some 10, Some 11])" by (simp add: calc)
  show ?thesis using run out batch_equals_sequential [OF _ run] by auto
qed

end
