(* ===== verification/Watcher_Lifecycle.thy ===== *)
theory Watcher_Lifecycle
  imports Released_Watcher
begin

text \<open>
  \<open>start\<close>, \<open>stop\<close> and \<open>sleep\<close> of \<^verbatim>\<open>solver/src/released-watcher.ts\<close>: the flags, the promise of the loop and the
  handle that wakes a sleep, under calls that come at any time between two turns of the event loop. What a
  poll does is the business of \<open>Released_Watcher\<close>; here it is something that takes time. Loops are numbered in
  the order in which they were started, so that two of them could run at once if the code let them.
\<close>

section \<open>The code\<close>

text \<open>A loop is at the guard of its \<open>while\<close>, waits for \<open>pollOnce\<close>, or waits for \<open>sleep\<close>.\<close>

datatype loop_phase = AtTop | Polling | Sleeping

record lifecycle =
  lc_running :: bool
  lc_stopped :: bool
  lc_loopPromise :: "nat option"
  lc_wakeUp :: "nat option"
  lc_loops :: "(nat \<times> loop_phase) list"
  lc_started :: nat
  lc_waiting :: "nat list"
  lc_polls :: "nat list"

definition new_lifecycle :: lifecycle where
  "new_lifecycle =
     \<lparr>lc_running = False, lc_stopped = False, lc_loopPromise = None, lc_wakeUp = None, lc_loops = [],
      lc_started = 0, lc_waiting = [], lc_polls = []\<rparr>"

definition set_phase :: "nat \<Rightarrow> loop_phase \<Rightarrow> lifecycle \<Rightarrow> lifecycle" where
  "set_phase i ph s = s\<lparr>lc_loops := map (\<lambda>l. if fst l = i then (i, ph) else l) (lc_loops s)\<rparr>"

text \<open>The loop returns: its promise resolves, and every \<open>stop\<close> that awaits it runs its \<open>finally\<close>.\<close>

definition loop_returns :: "nat \<Rightarrow> lifecycle \<Rightarrow> lifecycle" where
  "loop_returns i s =
     (let s1 = s\<lparr>lc_loops := filter (\<lambda>l. fst l \<noteq> i) (lc_loops s)\<rparr>
      in if i \<in> set (lc_waiting s)
         then s1\<lparr>lc_running := False, lc_loopPromise := None, lc_waiting := filter (\<lambda>j. j \<noteq> i) (lc_waiting s)\<rparr>
         else s1)"

definition at_top :: "nat \<Rightarrow> lifecycle \<Rightarrow> lifecycle" where
  "at_top i s =
     (if lc_stopped s then loop_returns i s else set_phase i Polling (s\<lparr>lc_polls := lc_polls s @ [i]\<rparr>))"

text \<open>The new loop passes its guard at once, since \<open>stopped\<close> has just been cleared.\<close>

definition start_watcher :: "lifecycle \<Rightarrow> lifecycle" where
  "start_watcher s =
     (if lc_running s then s
      else let i = lc_started s
           in at_top i (s\<lparr>lc_running := True, lc_stopped := False, lc_started := i + 1,
                lc_loops := lc_loops s @ [(i, AtTop)], lc_loopPromise := Some i\<rparr>))"

definition stop_watcher :: "lifecycle \<Rightarrow> lifecycle" where
  "stop_watcher s =
     (if \<not> lc_running s then s
      else let s1 = s\<lparr>lc_stopped := True\<rparr>;
               s2 = (case lc_wakeUp s1 of None \<Rightarrow> s1 | Some i \<Rightarrow> set_phase i AtTop (s1\<lparr>lc_wakeUp := None\<rparr>))
           in case lc_loopPromise s2 of
                None \<Rightarrow> s2\<lparr>lc_running := False\<rparr>
              | Some i \<Rightarrow> s2\<lparr>lc_waiting := lc_waiting s2 @ [i]\<rparr>)"

definition sleep_watcher :: "nat \<Rightarrow> lifecycle \<Rightarrow> lifecycle" where
  "sleep_watcher i s =
     (if lc_stopped s then set_phase i AtTop s else set_phase i Sleeping (s\<lparr>lc_wakeUp := Some i\<rparr>))"

text \<open>What can happen next; an event that does not apply leaves the state as it is.\<close>

datatype life_event = StartCall | StopCall | PollEnds nat | TimerFires nat | TopOfLoop nat

fun life_step :: "life_event \<Rightarrow> lifecycle \<Rightarrow> lifecycle" where
  "life_step StartCall s = start_watcher s"
| "life_step StopCall s = stop_watcher s"
| "life_step (PollEnds i) s = (if (i, Polling) \<in> set (lc_loops s) then sleep_watcher i s else s)"
| "life_step (TimerFires i) s =
     (if (i, Sleeping) \<in> set (lc_loops s) then set_phase i AtTop (s\<lparr>lc_wakeUp := None\<rparr>) else s)"
| "life_step (TopOfLoop i) s = (if (i, AtTop) \<in> set (lc_loops s) then at_top i s else s)"

definition life_run :: "life_event list \<Rightarrow> lifecycle \<Rightarrow> lifecycle" where
  "life_run es s = fold life_step es s"

section \<open>Invariant\<close>

text \<open>
  At rest nothing is left of a loop. Otherwise one loop runs, it is the one whose promise is kept, every
  pending stop waits for it, and the handle wakes exactly its sleep.
\<close>

definition at_rest :: "lifecycle \<Rightarrow> bool" where
  "at_rest s \<longleftrightarrow> \<not> lc_running s \<and> lc_loops s = [] \<and> lc_waiting s = [] \<and> lc_loopPromise s = None
     \<and> lc_wakeUp s = None"

definition one_loop :: "nat \<Rightarrow> loop_phase \<Rightarrow> lifecycle \<Rightarrow> bool" where
  "one_loop i ph s \<longleftrightarrow> lc_running s \<and> lc_loops s = [(i, ph)] \<and> lc_loopPromise s = Some i \<and> i < lc_started s
     \<and> set (lc_waiting s) = (if lc_stopped s then {i} else {})
     \<and> lc_wakeUp s = (if ph = Sleeping then Some i else None) \<and> (lc_stopped s \<longrightarrow> ph \<noteq> Sleeping)"

definition life_ok :: "lifecycle \<Rightarrow> bool" where
  "life_ok s \<longleftrightarrow> (at_rest s \<or> (\<exists>i ph. one_loop i ph s)) \<and> (\<forall>i \<in> set (lc_polls s). i < lc_started s)"

lemmas life_defs = start_watcher_def stop_watcher_def sleep_watcher_def at_top_def loop_returns_def set_phase_def Let_def

lemma rest_step: "at_rest s \<Longrightarrow> at_rest (life_step e s) \<or> one_loop (lc_started s) Polling (life_step e s)"
  by (cases e) (auto simp: at_rest_def one_loop_def life_defs)

lemma loop_step:
  "one_loop i ph s \<Longrightarrow> at_rest (life_step e s) \<and> lc_stopped s \<or> (\<exists>ph'. one_loop i ph' (life_step e s))"
  by (cases e; cases ph) (auto simp: at_rest_def one_loop_def life_defs filter_empty_conv split: if_splits)

lemma polls_step:
  "lc_polls (life_step e s) = lc_polls s
   \<or> (\<exists>i. lc_polls (life_step e s) = lc_polls s @ [i] \<and> i < lc_started (life_step e s))" if "life_ok s"
  using that by (cases e) (auto simp: life_ok_def at_rest_def one_loop_def life_defs split: option.splits)

lemma started_step: "lc_started s \<le> lc_started (life_step e s)"
  by (cases e) (auto simp: life_defs split: option.splits)

lemma life_step_ok: "life_ok s \<Longrightarrow> life_ok (life_step e s)"
  using rest_step [of s e] loop_step [of _ _ s e] polls_step [of s e] started_step [of s e]
  unfolding life_ok_def by (fastforce intro: less_le_trans)

lemma life_run_ok: "life_ok s \<Longrightarrow> life_ok (life_run es s)"
  by (induction es arbitrary: s) (simp_all add: life_run_def life_step_ok)

lemma new_lifecycle_ok: "life_ok new_lifecycle"
  by (simp add: life_ok_def at_rest_def new_lifecycle_def)
text \<open>
  Once a stop waits for loop \<open>i\<close>, the loop is in its last poll, then before its guard, then gone; its number is not
  used again.
\<close>

definition gone :: "nat \<Rightarrow> lifecycle \<Rightarrow> bool" where
  "gone i s \<longleftrightarrow> i < lc_started s \<and> i \<notin> fst ` set (lc_loops s) \<and> i \<notin> set (lc_waiting s)"

definition past_poll :: "nat \<Rightarrow> lifecycle \<Rightarrow> bool" where
  "past_poll i s \<longleftrightarrow> gone i s \<or> one_loop i AtTop s \<and> lc_stopped s"

definition winding_down :: "nat \<Rightarrow> lifecycle \<Rightarrow> bool" where
  "winding_down i s \<longleftrightarrow> past_poll i s \<or> one_loop i Polling s \<and> lc_stopped s"

lemma gone_step:
  "life_ok s \<Longrightarrow> gone i s \<Longrightarrow> gone i (life_step e s) \<and> count_list (lc_polls (life_step e s)) i = count_list (lc_polls s) i"
  by (cases e)
     (auto simp: life_ok_def gone_def at_rest_def one_loop_def life_defs split: if_splits option.splits)

lemma last_stretch_step:
  assumes "one_loop i ph s" and "lc_stopped s"
  shows "lc_polls (life_step e s) = lc_polls s
    \<and> (gone i (life_step e s) \<or> one_loop i ph (life_step e s) \<and> lc_stopped (life_step e s)
        \<or> one_loop i AtTop (life_step e s) \<and> lc_stopped (life_step e s))"
  using assms
  by (cases e; cases ph) (auto simp: gone_def one_loop_def life_defs filter_empty_conv)

lemma past_poll_step:
  "life_ok s \<Longrightarrow> past_poll i s \<Longrightarrow> past_poll i (life_step e s) \<and> count_list (lc_polls (life_step e s)) i = count_list (lc_polls s) i"
  using gone_step [of s i e] last_stretch_step [of i AtTop s e] by (auto simp: past_poll_def)

lemma winding_down_step:
  "life_ok s \<Longrightarrow> winding_down i s \<Longrightarrow>
     winding_down i (life_step e s) \<and> count_list (lc_polls (life_step e s)) i = count_list (lc_polls s) i"
  using past_poll_step [of s i e] last_stretch_step [of i Polling s e] by (auto simp: winding_down_def past_poll_def)

lemma gone_no_entry: "gone i s \<Longrightarrow> (i, ph) \<notin> set (lc_loops s)"
  by (force simp: gone_def)

lemma poll_ends:
  assumes "winding_down i s" shows "past_poll i (life_step (PollEnds i) s)"
proof (cases "past_poll i s")
  case True
  then have "(i, Polling) \<notin> set (lc_loops s)"
    using gone_no_entry [of i s Polling] by (auto simp: past_poll_def one_loop_def)
  with True show ?thesis by simp
next
  case False
  then have "one_loop i Polling s" "lc_stopped s" using assms by (simp_all add: winding_down_def)
  then have "one_loop i AtTop (life_step (PollEnds i) s)" "lc_stopped (life_step (PollEnds i) s)"
    by (simp_all add: one_loop_def life_defs)
  then show ?thesis by (simp add: past_poll_def)
qed

lemma top_returns:
  assumes "past_poll i s" shows "gone i (life_step (TopOfLoop i) s)"
proof (cases "gone i s")
  case True
  then show ?thesis using gone_no_entry [of i s AtTop] by simp
next
  case False
  then have "one_loop i AtTop s" "lc_stopped s" using assms by (auto simp: past_poll_def)
  then show ?thesis by (auto simp: gone_def one_loop_def life_defs)
qed

text \<open>What every step keeps, every run keeps.\<close>

lemma run_keeps:
  assumes "\<And>e s. life_ok s \<Longrightarrow> P s \<Longrightarrow> P (life_step e s)" and "life_ok s" and "P s"
  shows "P (life_run es s)"
  using assms(2,3)
proof (induction es arbitrary: s)
  case (Cons e es)
  then have "life_ok (life_step e s)" "P (life_step e s)" using life_step_ok assms(1) by blast+
  then show ?case using Cons.IH by (simp add: life_run_def)
qed (simp add: life_run_def)

lemma life_run_append: "life_run (es @ fs) s = life_run fs (life_run es s)"
  by (simp add: life_run_def)

lemma life_run_one: "life_run [e] s = life_step e s"
  by (simp add: life_run_def)

section \<open>Property\<close>

text \<open>
  C38. At most one loop of the watcher runs, however often and whenever \<open>start\<close> and \<open>stop\<close> are called. A stop that
  finds loop \<open>i\<close> running ends it: the loop begins no further poll, whatever comes next, and once its poll has
  ended and it is back at its guard it is gone and every pending stop has been answered. A start that comes
  in between is ignored, so that calling \<open>start\<close> without awaiting \<open>stop\<close> leaves the watcher at rest.
\<close>

theorem stopped_watcher_drains:
  assumes "s = life_run es0 new_lifecycle"
  shows "length (lc_loops s) \<le> 1 \<and> (lc_running s \<longleftrightarrow> lc_loops s \<noteq> [])
    \<and> (lc_running s \<longrightarrow>
         (\<exists>i. lc_loopPromise s = Some i
            \<and> (\<forall>es. count_list (lc_polls (life_run (StopCall # es) s)) i = count_list (lc_polls s) i)
            \<and> (\<forall>es1 es2 es3. gone i (life_run (StopCall # es1 @ PollEnds i # es2 @ TopOfLoop i # es3) s))
            \<and> life_run [StopCall, StartCall] s = life_run [StopCall] s))"
proof (intro conjI impI)
  have ok: "life_ok s" using life_run_ok [OF new_lifecycle_ok] assms by simp
  then show "length (lc_loops s) \<le> 1" "lc_running s \<longleftrightarrow> lc_loops s \<noteq> []"
    by (auto simp: life_ok_def at_rest_def one_loop_def)
  assume "lc_running s"
  then obtain i ph where i: "one_loop i ph s" using ok by (auto simp: life_ok_def at_rest_def)
  let ?s = "life_step StopCall s"
  have down: "winding_down i ?s" and same: "lc_polls ?s = lc_polls s" and run: "lc_running ?s"
    using i by (cases ph; auto simp: winding_down_def past_poll_def one_loop_def life_defs)+
  have ok': "life_ok ?s" by (rule life_step_ok [OF ok])
  have "winding_down i (life_run es ?s) \<and> count_list (lc_polls (life_run es ?s)) i = count_list (lc_polls s) i" for es
    by (rule run_keeps [OF _ ok']) (use winding_down_step down same in auto)
  note keeps = this
  have "gone i (life_run (StopCall # es1 @ PollEnds i # es2 @ TopOfLoop i # es3) s)" for es1 es2 es3
  proof -
    let ?s1 = "life_step (PollEnds i) (life_run es1 ?s)"
    have ok1: "life_ok ?s1" using life_step_ok life_run_ok ok' by blast
    have "past_poll i (life_run es2 ?s1)"
      by (rule run_keeps [OF _ ok1]) (use past_poll_step poll_ends keeps in auto)
    then have "gone i (life_step (TopOfLoop i) (life_run es2 ?s1))" by (rule top_returns)
    moreover have "life_ok (life_step (TopOfLoop i) (life_run es2 ?s1))" using life_step_ok life_run_ok ok1 by blast
    ultimately have "gone i (life_run es3 (life_step (TopOfLoop i) (life_run es2 ?s1)))"
      by (intro run_keeps [of "gone i"]) (use gone_step in auto)
    then show ?thesis by (simp add: life_run_def)
  qed
  moreover have "life_run [StopCall, StartCall] s = life_run [StopCall] s"
    using run by (simp add: life_run_def start_watcher_def)
  moreover have "lc_loopPromise s = Some i" using i by (simp add: one_loop_def)
  moreover have "count_list (lc_polls (life_run (StopCall # es) s)) i = count_list (lc_polls s) i" for es
    using keeps [of es] by (simp add: life_run_def)
  ultimately show "\<exists>i. lc_loopPromise s = Some i
      \<and> (\<forall>es. count_list (lc_polls (life_run (StopCall # es) s)) i = count_list (lc_polls s) i)
      \<and> (\<forall>es1 es2 es3. gone i (life_run (StopCall # es1 @ PollEnds i # es2 @ TopOfLoop i # es3) s))
      \<and> life_run [StopCall, StartCall] s = life_run [StopCall] s" by blast
qed

theorem stopped_watcher_drains_witness:
  "\<exists>s. s = life_run [StartCall, PollEnds 0, StartCall, TimerFires 0, TopOfLoop 0] new_lifecycle
     \<and> lc_loops s = [(0, Polling)] \<and> lc_polls s = [0, 0] \<and> length (lc_loops s) \<le> 1
     \<and> gone 0 (life_run [StopCall, PollEnds 0, StartCall, TopOfLoop 0] s)"
proof -
  let ?s = "life_run [StartCall, PollEnds 0, StartCall, TimerFires 0, TopOfLoop 0] new_lifecycle"
  have s: "lc_loops ?s = [(0, Polling)]" "lc_polls ?s = [0, 0]" "lc_running ?s" "lc_loopPromise ?s = Some 0"
    by (simp_all add: life_run_def life_defs new_lifecycle_def)
  from stopped_watcher_drains [OF refl, of "[StartCall, PollEnds 0, StartCall, TimerFires 0, TopOfLoop 0]"] s(3,4)
  have "length (lc_loops ?s) \<le> 1" "\<forall>es1 es2 es3. gone 0 (life_run (StopCall # es1 @ PollEnds 0 # es2 @ TopOfLoop 0 # es3) ?s)"
    by auto
  then have "gone 0 (life_run (StopCall # [] @ PollEnds 0 # [StartCall] @ TopOfLoop 0 # []) ?s)" by blast
  with s show ?thesis by simp
qed

end
