(* ===== verification/Relayer_Durability.thy ===== *)
theory Relayer_Durability
  imports Evm_Relay
begin

text \<open>
  The relayer over its files, as \<^verbatim>\<open>relayer/src/cli.ts\<close> composes them: \<open>HybridDeadLetterStore\<close> of
  \<^verbatim>\<open>file-dead-letter-store.ts\<close>, a queue in memory with a file behind it, and the end of a tick, which saves the
  cursor and then the queue. A crash may come before, between and in the middle of the writes.
\<close>

section \<open>The hybrid store\<close>

record hybrid_store =
  hy_entries :: dead_letters
  hy_file :: "dead_letters disk"

definition hy_add :: "int \<Rightarrow> message_key \<Rightarrow> pending_message \<Rightarrow> nat \<Rightarrow> string \<Rightarrow> hybrid_store \<Rightarrow> hybrid_store" where
  "hy_add now key p n err h =
     h\<lparr>hy_entries := assoc_set (messageKeyString key)
         \<lparr>dl_key = key, dl_pending = p, dl_attempts = n, dl_lastError = err, deadLetteredAt = now\<rparr> (hy_entries h)\<rparr>"

definition hy_list :: "hybrid_store \<Rightarrow> dead_letter_entry list" where
  "hy_list h = map snd (hy_entries h)"

definition hy_drain :: "hybrid_store \<Rightarrow> dead_letter_entry list \<times> hybrid_store" where
  "hy_drain h = (hy_list h, h\<lparr>hy_entries := []\<rparr>)"

definition hy_discard :: "message_key \<Rightarrow> hybrid_store \<Rightarrow> bool \<times> hybrid_store" where
  "hy_discard key h =
     (assoc_get (hy_entries h) (messageKeyString key) \<noteq> None,
      h\<lparr>hy_entries := assoc_del (messageKeyString key) (hy_entries h)\<rparr>)"

definition hy_has :: "hybrid_store \<Rightarrow> message_key \<Rightarrow> bool" where
  "hy_has h key \<longleftrightarrow> assoc_get (hy_entries h) (messageKeyString key) \<noteq> None"

definition hy_persist :: "hybrid_store \<Rightarrow> (store_error, unit) result \<times> hybrid_store" where
  "hy_persist h =
     (let (r, d) = persist_dead_letters (hy_entries h) (hy_file h) in (r, h\<lparr>hy_file := d\<rparr>))"

text \<open>The entries are taken over one by one, into a queue that has been cleared once the file was read.\<close>

definition hy_load :: "hybrid_store \<Rightarrow> (store_error, unit) result \<times> hybrid_store" where
  "hy_load h =
     (case load_dead_letters (hy_file h) of
        Inl e \<Rightarrow> (Inl e, h)
      | Inr q \<Rightarrow> (Inr (), h\<lparr>hy_entries := foldl (\<lambda>m (k, e). assoc_set k e m) [] q\<rparr>))"

interpretation hy: dead_letter_store
  "\<lambda>k (now, p, n, err). hy_add now k p n err" hy_discard hy_drain hy_has
  by unfold_locales
     (auto simp: hy_add_def hy_has_def hy_discard_def hy_drain_def store_simps split: prod.splits)

text \<open>In memory it is the plain queue.\<close>

lemma hy_refines:
  "hy_entries (hy_add now k p n err h) = dl_add now k p n err (hy_entries h)"
  "hy_list h = dl_list (hy_entries h)"
  "fst (hy_drain h) = fst (dl_drain (hy_entries h))" "hy_entries (snd (hy_drain h)) = snd (dl_drain (hy_entries h))"
  "fst (hy_discard k h) = fst (dl_discard k (hy_entries h))"
  "hy_entries (snd (hy_discard k h)) = snd (dl_discard k (hy_entries h))"
  "hy_has h k = dl_has (hy_entries h) k"
  by (simp_all add: hy_add_def dl_add_def hy_list_def dl_list_def hy_drain_def dl_drain_def hy_discard_def
      dl_discard_def hy_has_def dl_has_def)

lemma refill: "distinct (map fst (m @ q)) \<Longrightarrow> foldl (\<lambda>m (k, e). assoc_set k e m) m q = m @ q"
proof (induction q arbitrary: m)
  case (Cons x q)
  obtain k e where x: "x = (k, e)" by force
  have "assoc_set k e m = m @ [(k, e)]" using Cons.prems x by (intro assoc_set_fresh) auto
  then show ?case using Cons.IH [of "m @ [(k, e)]"] Cons.prems x by simp
qed simp

lemma hy_load_persisted:
  assumes "assoc_ok (hy_entries h)" and "hy_persist h = (Inr (), h')"
  shows "hy_load h' = (Inr (), h')"
proof -
  have h': "h' = h\<lparr>hy_file := save_file (hy_entries h) (hy_file h)\<rparr>"
    using assms(2) by (auto simp: hy_persist_def persist_dead_letters_def split: if_splits)
  have "foldl (\<lambda>m (k, e). assoc_set k e m) [] (hy_entries h) = hy_entries h"
    using refill [of "[]" "hy_entries h"] assms(1) by (simp add: assoc_ok_def)
  then show ?thesis
    using dead_letter_file.load_saved [of "hy_entries h" "hy_file h"] by (simp add: hy_load_def h' load_dead_letters_def)
qed

section \<open>The end of a tick\<close>

record relay_files =
  rf_cursor :: "jval disk"
  rf_letters :: "dead_letters disk"

datatype relay_save = CursorStep "jval file_step" | LettersStep "dead_letters file_step"

text \<open>\<open>await checkpoint.save(cursor)\<close>, then \<open>await deadLetter.persist()\<close>.\<close>

definition tick_saves :: "int \<Rightarrow> dead_letters \<Rightarrow> relay_save list" where
  "tick_saves c q =
     map CursorStep (save_steps (checkpoint_json (num_of_int c))) @ map LettersStep (save_steps q)"

fun do_save :: "relay_save \<Rightarrow> relay_files \<Rightarrow> relay_files" where
  "do_save (CursorStep st) f = f\<lparr>rf_cursor := do_file_step st (rf_cursor f)\<rparr>"
| "do_save (LettersStep st) f = f\<lparr>rf_letters := do_file_step st (rf_letters f)\<rparr>"

fun torn :: "relay_save \<Rightarrow> relay_files \<Rightarrow> relay_files list" where
  "torn (CursorStep (WriteTemp a)) f = [f\<lparr>rf_cursor := (rf_cursor f)\<lparr>tmp_file := Torn\<rparr>\<rparr>]"
| "torn (LettersStep (WriteTemp a)) f = [f\<lparr>rf_letters := (rf_letters f)\<lparr>tmp_file := Torn\<rparr>\<rparr>]"
| "torn _ f = []"

fun crash_files :: "relay_save list \<Rightarrow> relay_files \<Rightarrow> relay_files list" where
  "crash_files [] f = [f]"
| "crash_files (st # sts) f = f # torn st f @ crash_files sts (do_save st f)"

text \<open>What the next start reads: \<open>deadLetter.load()\<close> in \<^verbatim>\<open>cli.ts\<close>, \<open>checkpoint.load()\<close> in \<open>resume\<close>.\<close>

definition restart :: "relay_files \<Rightarrow> (store_error, jsnum option \<times> dead_letters) result" where
  "restart f =
     bind_result (load_dead_letters (rf_letters f)) (\<lambda>q.
       bind_result (load_checkpoint (rf_cursor f)) (\<lambda>c. Inr (c, q)))"

text \<open>The relayer's environment with the two stores on files.\<close>

definition on_first :: "('w \<Rightarrow> 'a \<times> 'w) \<Rightarrow> 'w \<times> 'f \<Rightarrow> 'a \<times> 'w \<times> 'f" where
  "on_first g x = (let (a, w) = g (fst x) in (a, w, snd x))"

definition on_files :: "'w relayer_env \<Rightarrow> ('w \<times> relay_files) relayer_env" where
  "on_files env =
     \<lparr>re_poll = \<lambda>b. on_first (re_poll env b), re_isDelivered = \<lambda>k. on_first (re_isDelivered env k),
      re_deliver = \<lambda>p. on_first (re_deliver env p),
      re_reportStatus = \<lambda>h st t. on_first (re_reportStatus env h st t),
      re_loadCheckpoint = \<lambda>(w, f). (case load_checkpoint (rf_cursor f) of
          Inl _ \<Rightarrow> (Inl (Thrown ''load''), w, f) | Inr c \<Rightarrow> (Inr (map_option int_of_num c), w, f)),
      re_saveCheckpoint = \<lambda>c (w, f). (Inr (), w, f\<lparr>rf_cursor := save_checkpoint (num_of_int c) (rf_cursor f)\<rparr>),
      re_persist = \<lambda>q (w, f).
        (case persist_dead_letters q (rf_letters f) of
           (Inl _, d) \<Rightarrow> (Inl (Thrown ''TypeError''), w, f\<lparr>rf_letters := d\<rparr>)
         | (Inr _, d) \<Rightarrow> (Inr (), w, f\<lparr>rf_letters := d\<rparr>)),
      re_now = \<lambda>x. re_now env (fst x), re_random = \<lambda>x. re_random env (fst x),
      re_sleep = \<lambda>ms x. (re_sleep env ms (fst x), snd x), re_running = \<lambda>x. re_running env (fst x),
      re_confirmations = re_confirmations env, re_startBlock = re_startBlock env,
      re_maxAttempts = re_maxAttempts env, re_baseBackoffMs = re_baseBackoffMs env,
      re_mempoolUrl = re_mempoolUrl env, re_mempoolStatusToken = re_mempoolStatusToken env,
      re_backoffConfig = re_backoffConfig env\<rparr>"

section \<open>Facts about the code\<close>

text \<open>Delivering does not look at the stores.\<close>

lemma relayOne_saves: "relayOne (env\<lparr>re_saveCheckpoint := a, re_persist := b\<rparr>) p s w = relayOne env p s w"
proof -
  let ?env = "env\<lparr>re_saveCheckpoint := a, re_persist := b\<rparr>"
  have "reportCancelling ?env h w = reportCancelling env h w" for h w
    by (simp add: reportCancelling_def report_mempool_def split: option.split)
  moreover have "relay_failed ?env p n err s w = relay_failed env p n err s w" for n err s w
    by (simp add: relay_failed_def Let_def split: relay_thrown.split)
  ultimately have "attempt_relay ?env p n s w = attempt_relay env p n s w" for n s w
    by (simp add: attempt_relay_def Let_def split: prod.split sum.split bool.split)
  then show ?thesis by (simp add: relayOne_def Let_def split: option.split)
qed

lemma relay_confirmed_saves:
  "relay_confirmed (env\<lparr>re_saveCheckpoint := a, re_persist := b\<rparr>) ch ps s w = relay_confirmed env ch ps s w"
  by (induction ps arbitrary: s w) (simp_all add: relayOne_saves split: prod.split sum.split)

lemma relay_confirmed_files:
  assumes "relay_confirmed (on_files env) ch ps s x = (r, s', x')" shows "snd x' = snd x"
proof -
  let ?env = "(on_files env)\<lparr>re_saveCheckpoint := \<lambda>c w. (Inr (), w), re_persist := \<lambda>q w. (Inr (), w)\<rparr>"
  have "calls_keep snd ?env"
    by (simp add: calls_keep_def on_files_def on_first_def split: prod.split)
  then show ?thesis
    using relay_confirmed_keeps [of snd ?env ch ps s x r s' x'] assms by (simp add: relay_confirmed_saves)
qed
text \<open>A completed tick that delivered has made the two saves, with the cursor and the queue it ends with.\<close>

lemma do_saves: "foldl (\<lambda>f st. do_save st f) f (tick_saves c q) =
    f\<lparr>rf_cursor := save_checkpoint (num_of_int c) (rf_cursor f), rf_letters := save_file q (rf_letters f)\<rparr>"
  by (simp add: tick_saves_def save_steps_def save_checkpoint_def save_file_def)

lemma tick_deliver_files:
  assumes "tick_deliver (on_files env) pr s (w, f) = (Inr rs, s', (w', f'))"
  shows "f' = foldl (\<lambda>f st. do_save st f) f (tick_saves (rl_cursor s') (rl_dead s'))"
proof -
  obtain r s2 x2 where conf: "relay_confirmed (on_files env) (confirmed_head (on_files env) (pr_head pr)) (pr_messages pr)
      (drop_unobserved (pr_messages pr)
         (s\<lparr>rl_readiness := (rl_readiness s)\<lparr>rd_head := pr_head pr,
              rd_confirmedHead := confirmed_head (on_files env) (pr_head pr),
              rd_lag := max 0 (confirmed_head (on_files env) (pr_head pr) + 1 - rl_cursor s)\<rparr>\<rparr>)) (w, f) = (r, s2, x2)"
    by (metis prod_cases3)
  then have "snd x2 = f" using relay_confirmed_files by fastforce
  then obtain w2 where x2: "x2 = (w2, f)" by (cases x2) auto
  show ?thesis
    using assms conf x2
    by (auto simp: tick_deliver_def Let_def do_saves on_files_def put_cursor_def persist_dead_letters_def
        split: sum.splits if_splits)
qed

lemma restart_saved:
  "restart (f\<lparr>rf_cursor := save_checkpoint (num_of_int c) d, rf_letters := save_file q e\<rparr>) = Inr (Some (num_of_int c), q)"
  using checkpoint.load_saved [of "num_of_int c" d] dead_letter_file.load_saved [of q e]
  by (simp add: restart_def load_checkpoint_def load_dead_letters_def save_checkpoint_def is_finite_num_def)

section \<open>Property\<close>

text \<open>
  C24. What a restart finds. After a tick that delivered, the files hold exactly the cursor and the dead letters
  the relayer has in memory, and a store that is persisted and loaded is unchanged. A crash during the
  saves leaves one of three states, and one of them is the new cursor with the old queue: the cursor is saved
  first, so the message that this tick gave up, and which the cursor has passed, is then nowhere.
\<close>

theorem crash_between_saves:
  assumes "tick_deliver (on_files env) pr s (w, f) = (Inr rs, s', (w', f'))"
    and "restart f = Inr (c0, q0)"
  shows "restart f' = Inr (Some (num_of_int (rl_cursor s')), rl_dead s')
    \<and> restart ` set (crash_files (tick_saves (rl_cursor s') (rl_dead s')) f) =
        {Inr (c0, q0), Inr (Some (num_of_int (rl_cursor s')), q0), restart f'}"
proof -
  let ?c = "num_of_int (rl_cursor s')" and ?q = "rl_dead s'"
  have old: "load_dead_letters (rf_letters f) = Inr q0" "load_checkpoint (rf_cursor f) = Inr c0"
    using assms(2) by (auto simp: restart_def bind_result_Inr_iff)
  have new: "restart f' = Inr (Some ?c, ?q)"
    using tick_deliver_files [OF assms(1)] restart_saved by (simp add: do_saves)
  let ?cps = "crash_files (tick_saves (rl_cursor s') ?q) f"
  have c: "load_checkpoint (d\<lparr>main_file := Holds (checkpoint_json ?c)\<rparr>) = Inr (Some ?c)" for d
    using checkpoint.decode_encode [of ?c] by (simp add: load_checkpoint_def is_finite_num_def)
  have q: "load_dead_letters (d\<lparr>main_file := Holds ?q\<rparr>) = Inr ?q" for d
    by (simp add: load_dead_letters_def)
  have same: "load_checkpoint (d\<lparr>tmp_file := t\<rparr>) = load_checkpoint d" "load_dead_letters (e\<lparr>tmp_file := u\<rparr>) = load_dead_letters e"
    for d t e u by (simp_all add: load_checkpoint_def load_dead_letters_def)
  show ?thesis
    unfolding new by (simp add: tick_saves_def save_steps_def restart_def old c q same insert_commute)
qed
text \<open>A tick whose only message fails for the last time, over files that are not there yet.\<close>

definition failing_relayer :: "int relayer_env" where
  "failing_relayer = sample_relayer\<lparr>re_deliver := \<lambda>p w. (Inl (Thrown ''revert''), w), re_maxAttempts := 1\<rparr>"

definition no_files :: relay_files where
  "no_files = \<lparr>rf_cursor = \<lparr>main_file = Absent, tmp_file = Absent\<rparr>, rf_letters = \<lparr>main_file = Absent, tmp_file = Absent\<rparr>\<rparr>"

theorem crash_between_saves_witness:
  "\<exists>rs s w f pr. tick_deliver (on_files failing_relayer) pr (new_relayer failing_relayer []) (0, no_files) = (Inr rs, s, (w, f))
     \<and> dl_has (rl_dead s) (key_of sample_pending) \<and> srcBlock sample_pending < rl_cursor s
     \<and> Inr (Some (num_of_int (rl_cursor s)), []) \<in> restart ` set (crash_files (tick_saves (rl_cursor s) (rl_dead s)) no_files)"
proof -
  let ?pr = "\<lparr>pr_messages = [sample_pending], pr_head = 110, pr_headHash = None, pr_parentHash = None, pr_blockHeaders = None\<rparr>"
  have "\<exists>rs s w f. tick_deliver (on_files failing_relayer) ?pr (new_relayer failing_relayer []) (0, no_files) = (Inr rs, s, (w, f))
      \<and> dl_has (rl_dead s) (key_of sample_pending) \<and> rl_cursor s = 105"
    by (simp add: sample_defs on_files_def on_first_def failing_relayer_def dl_add_def persist_dead_letters_def
        unserializable_def dl_list_def put_cursor_def log_event_def assoc_get_def lowest_unresolved.simps)
  then obtain rs s w f where t: "tick_deliver (on_files failing_relayer) ?pr (new_relayer failing_relayer []) (0, no_files) = (Inr rs, s, (w, f))"
    and s: "dl_has (rl_dead s) (key_of sample_pending)" "rl_cursor s = 105" by blast
  have "restart no_files = Inr (None, [])"
    by (simp add: restart_def no_files_def load_dead_letters_def load_checkpoint_def checkpoint_cursor_def)
  from crash_between_saves [OF t this] t s show ?thesis
    by (intro exI [of _ rs] exI [of _ s] exI [of _ w] exI [of _ f] exI [of _ ?pr]) (simp add: sample_pending_def)
qed

end
