(* ===== verification/Spec2Isabelle.thy ===== *)
theory Spec2Isabelle
  imports Sdk_Units Mempool_Config Released_Watcher Soroban_Delivery Solver_Executor
    Relayer_Health Relayer_Group Soroban_Watcher Solver_Start Loggers
    Escrow_Abi Worker_Pool Watcher_Lifecycle Relayer_Durability
begin

text \<open>
  Perihelion settles signed intents across chains. A user signs an intent to give source tokens on an EVM
  chain for an asset on Stellar. The mempool (an HTTP server) publishes the signed intent; a solver polls
  the mempool, decides whether a fill pays, locks the source tokens in the escrow contract and pays the
  user on Stellar; the relayer stands in for LayerZero and carries the lock to the settlement contract and
  the confirmation back to the escrow. The TypeScript of the four packages \<^verbatim>\<open>sdk\<close>, \<^verbatim>\<open>mempool\<close>, \<^verbatim>\<open>solver\<close> and
  \<^verbatim>\<open>relayer\<close> is modelled here; of the two contracts, only what the TypeScript has to agree with.

  \<^bold>\<open>Conventions.\<close> A function that throws gives \<open>Inl\<close> of what it throws, and \<open>Inr\<close> of its result otherwise
  (\<open>Prelude\<close>). A \<open>Map\<close> is an association list in insertion order with distinct keys (\<open>assoc\<close>). A \<open>number\<close> is a
  real with \<open>NaN\<close> and the infinities (\<open>jsnum\<close>) where the code has to expect them and an integer where a check
  has gone before; \<open>bigint\<close> is \<open>int\<close>; the code units of a string are characters; bytes are \<open>8 word\<close>s. The outside
  (chains, RPC servers, files, the clock, the network) is a state of any type \<open>'w\<close> together with a record of
  calls that may fail and may change it. Libraries that are not part of the repository (viem, the Stellar SDK,
  Express, fetch) are such records too: nothing is assumed of them beyond the hypotheses a theorem names.
  Log lines are kept where a property speaks of them, as events, and are left out otherwise.

  \<^bold>\<open>SDK\<close> (\<^verbatim>\<open>sdk/src\<close>).
  \<^item> \<open>Js_Values\<close>: the part of JavaScript that the source uses (numbers, \<open>Number\<close>, \<open>BigInt\<close>, \<open>trim\<close>, JSON values).
  \<^item> \<open>Sdk_Types\<close> (\<^verbatim>\<open>types.ts\<close>, \<^verbatim>\<open>errors.ts\<close>, \<^verbatim>\<open>deployments.ts\<close>), \<open>Sdk_Units\<close> (\<^verbatim>\<open>units.ts\<close>), \<open>Sdk_Stellar\<close> (\<^verbatim>\<open>stellar.ts\<close>:
    strkeys with their checksum on 32-bit words, shown to detect every wrong character).
  \<^item> \<open>Sdk_Intent\<close> (\<^verbatim>\<open>intent.ts\<close>): building, hashing and verifying intents; \<open>Sdk_Validate\<close> (\<^verbatim>\<open>validate.ts\<close>): parsing
    what a mempool answers, with the round trips between intents, records and their JSON.
  \<^item> \<open>Paging\<close>: the contract of a paginated listing (a locale, interpreted by the mempool's store);
    \<open>Sdk_Client\<close> (\<^verbatim>\<open>client.ts\<close>): requests with retries, listings and waiting, over a clock;
    \<open>Sdk_Escrow_Client\<close> (\<^verbatim>\<open>escrow-client.ts\<close>) with the guards of \<open>cancelExpired\<close> of \<^verbatim>\<open>PerihelionEscrow.sol\<close>.
  \<^item> \<open>Escrow_Abi\<close> (\<^verbatim>\<open>escrow-abi.ts\<close>): the ABI of the escrow entry by entry and the fragments the relayer has of it,
    compared with the declarations of the contract and with the calls that the packages make.

  \<^bold>\<open>Mempool\<close> (\<^verbatim>\<open>mempool/src\<close>).
  \<^item> \<open>Mempool_Store\<close> (\<^verbatim>\<open>store.ts\<close>): records, the status index, eviction; an invariant that every operation keeps,
    and final statuses that stay final.
  \<^item> \<open>Mempool_Server\<close> (\<^verbatim>\<open>server.ts\<close>): the handlers as functions and the server as a step relation, with the
    invariant that every record it holds was verified; \<open>Mempool_Config\<close> (\<^verbatim>\<open>config.ts\<close>, \<^verbatim>\<open>cli.ts\<close>).

  \<^bold>\<open>Solver\<close> (\<^verbatim>\<open>solver/src\<close>).
  \<^item> \<open>Lru\<close>: the contract of the three caches (two locales); \<open>Solver_Caches\<close> (\<^verbatim>\<open>seen-lru.ts\<close>, \<^verbatim>\<open>solver.ts\<close>) interprets it.
  \<^item> \<open>Backoff\<close> (\<^verbatim>\<open>backoff.ts\<close>, the same file in the relayer): a locale with three interpretations.
  \<^item> \<open>Solver_Inventory\<close> (\<^verbatim>\<open>inventory.ts\<close>): the tracker of committed capital refines a ledger of commitments.
  \<^item> \<open>Solver_Quote\<close> (\<^verbatim>\<open>quote.ts\<close>): \<open>evaluate\<close> and when it decides to fill.
  \<^item> \<open>Solver_Loop\<close> (\<^verbatim>\<open>solver.ts\<close>): poll, verify, evaluate, fill, retry; invariants over any run of the loop.
  \<^item> \<open>Solver_Executor\<close> (\<^verbatim>\<open>executor.ts\<close>): the stages of a fill; \<open>Released_Watcher\<close> (\<^verbatim>\<open>released-watcher.ts\<close>) and
    \<open>Watcher_Lifecycle\<close>: how its calls of \<open>start\<close>, \<open>stop\<close> and \<open>sleep\<close> interleave with its loop.
  \<^item> \<open>Solver_Config\<close> (\<^verbatim>\<open>config.ts\<close>), \<open>Solver_Start\<close> (\<^verbatim>\<open>executor-config.ts\<close>, \<^verbatim>\<open>cli.ts\<close>), \<open>Solver_Metrics\<close> (\<^verbatim>\<open>metrics.ts\<close>).

  \<^bold>\<open>Relayer\<close> (\<^verbatim>\<open>relayer/src\<close>).
  \<^item> \<open>Relayer_Types\<close> (\<^verbatim>\<open>types.ts\<close>); \<open>Relayer_Wire\<close>: the bytes of a FillInstruction as the relayer, the escrow and the
    settlement contract see them; \<open>Relayer_Stores\<close> (checkpoint and dead-letter files, saved atomically).
  \<^item> \<open>Relayer_Reorg\<close>, \<open>Relayer_Loop\<close> (\<^verbatim>\<open>relayer.ts\<close>): one attempt, one tick, the loop; \<open>Relayer_Safety\<close>: what any run keeps.
  \<^item> \<open>Relayer_Group\<close> (\<open>RelayerGroup\<close> of \<^verbatim>\<open>relayer.ts\<close>): several relayers as a step relation in which their steps
    interleave, with how a stop drains the group, what it resolves to, and how a stop gets lost.
  \<^item> \<open>Evm_Watcher\<close> (\<^verbatim>\<open>evm-watcher.ts\<close>); \<open>Evm_Relay\<close>: the loop over this watcher as \<^verbatim>\<open>cli.ts\<close> composes them;
    \<open>Worker_Pool\<close>: \<open>_batchConcurrent\<close>, the requests it has in flight at the same time, as a step relation.
  \<^item> \<open>Relayer_Durability\<close>: the loop over its files, which \<^verbatim>\<open>cli.ts\<close> composes, and what a crash leaves of them.
  \<^item> \<open>Soroban_Delivery\<close> (\<^verbatim>\<open>soroban-delivery.ts\<close>): from a decoded lock to a confirmed transaction.
  \<^item> \<open>Soroban_Watcher\<close> (\<^verbatim>\<open>soroban-watcher.ts\<close>) and \<open>Evm_Delivery\<close> (\<^verbatim>\<open>evm-delivery.ts\<close>): the way back.
  \<^item> \<open>Relayer_Config\<close> (\<^verbatim>\<open>config.ts\<close>, \<^verbatim>\<open>cli.ts\<close>), \<open>Relayer_Health\<close> (\<^verbatim>\<open>health-server.ts\<close>). \<open>Config_Values\<close> is what the
    loaders of the three programs share; \<open>Js_Objects\<close> and \<open>Loggers\<close> (\<^verbatim>\<open>logger.ts\<close>, also the solver's) are what is printed.
\<close>

text \<open>
  \<^bold>\<open>What is shown.\<close> The chain from intent to settlement: only verified intents are stored
  (\<open>stored_intents_are_vouched\<close>), what the mempool publishes passes the client's parser and the solver's checks
  (\<open>published_records_reach_solver\<close>, below), the solver fills only what it has verified itself
  (\<open>fills_only_vouched_intents\<close>), a fill is attempted exactly when it is admissible, covered and pays (\<open>fills_exactly_when_covered\<close>), every lock below the relayer's cursor has been
  handled (\<open>locks_never_skipped\<close>), and a delivered lock puts the escrow's own bytes on Stellar
  (\<open>lock_bytes_reach_settlement\<close>, \<open>relayer_payload_is_escrow_payload\<close>). Around it: invariants of the stores and
  trackers, bounds on retries, waits and counters, round trips of every format, what the start checks
  (\<open>pubnet_start_is_deliberate\<close>, \<open>loaded_solver_config_ok\<close>) and what the probes report. Where operations overlap, every
  interleaving is covered: requests in flight (\<open>batch_equals_sequential\<close>), several relayers (\<open>stopped_group_drains\<close>), a stop
  in the middle of a poll (\<open>stopped_watcher_drains\<close>) and a crash in the middle of a save (\<open>crash_between_saves\<close>).
  Where the code cannot do what it is for, the theorem says what it does instead: the executor ends every
  fill in an error (\<open>fill_ends_in_failure\<close>), a command line that is to fill does not start
  (\<open>solver_starts_only_watching\<close>), and the way back delivers nothing (\<open>settlement_events_ignored\<close>,
  \<open>return_leg_never_delivers\<close>, \<open>wrapped_messages_rejected\<close>, \<open>replay_guard_never_hits\<close>).

  \<^bold>\<open>Loops and fuel.\<close> A service that runs until it is stopped is a function of the number of its rounds, and
  its theorems hold for every number. The loops inside a round end: retries and waits recurse on a counter that
  the code has; the scan of the EVM watcher takes fuel and gives \<open>None\<close> when it runs out, and
  \<open>evm_poll_complete\<close> proves that the blocks to scan together with the size of the first range are enough,
  since every round passes a block or halves the range. Waiting for a registration takes as fuel what the
  clock needs to pass the deadline, and \<open>fill_ends_in_failure\<close> proves that some fuel is enough.

  \<^bold>\<open>Not modelled.\<close> The export lists have no behaviour; of the ABI the internal type names, which nothing reads, are
  left out. Express, sockets and process signals are left out, and so
  are the timers around a single request (\<open>_withTimeout\<close>, \<open>fetchWithTimeout\<close>, \<open>combineSignals\<close>): a request is a call that
  may fail. Functions that nothing calls are left out: \<open>decodeCancelIntentLog\<close>,
  \<open>resolveDestAssetScVal\<close>, \<open>cancelReasonScVal\<close>, \<open>escrowSenderBytes\<close>, \<open>simulateRead\<close>, \<open>stringArg\<close>,
  \<open>parseNonNegativeInteger\<close>, \<open>computeIntentHash\<close>. Lines that a merge left behind and names that are declared
  nowhere are findings of the manifest; the model reads the file without the line, and takes the use of an
  undeclared name for the exception it is. The contracts are Solidity and Rust, with their own tests.
\<close>

section \<open>From the mempool to the solver\<close>

text \<open>A stored record as the client should read it.\<close>

definition client_record :: "mempool_record \<Rightarrow> intent_record" where
  "client_record r =
     \<lparr>intent_of = intent_of r, signature = signature r, hash = hash r, status = mr_status r,
      solver = None, settlementTx = None, createdAt = mr_createdAt r\<rparr>"

text \<open>The solver's default verifier, \<open>verifyIntent\<close> without options, over the viem library of the mempool.\<close>

definition default_verifier ::
  "viem_lib \<Rightarrow> intent \<Rightarrow> hex \<Rightarrow> domain \<Rightarrow> 'w \<Rightarrow> (failure, bool) result \<times> 'w" where
  "default_verifier v i sig dmn w =
     (case verifyIntent (hashTypedData v) (recoverTypedDataAddress v) i sig dmn
             \<lparr>vo_client = None, vo_isContract = None\<rparr> of
        Inl e \<Rightarrow> (Inl (Failure (ThrownSdk e)), w)
      | Inr b \<Rightarrow> (Inr b, w))"

text \<open>A solver that watches the same deployment as a mempool started with \<open>opts\<close>.\<close>

definition same_deployment :: "viem_lib \<Rightarrow> server_options \<Rightarrow> 'w solver_env \<Rightarrow> bool" where
  "same_deployment v opts env \<longleftrightarrow>
     so_chainId opts = Some (num_of_int (sc_sourceChainId (ev_config env)))
     \<and> so_verifyingContract opts = escrowAddress (ev_config env)
     \<and> ev_hashTypedData env = hashTypedData v \<and> ev_verifier env = default_verifier v"

lemma verified_signature_length:
  "sv_client sv = None \<Longrightarrow> verifySignature v sv i sig \<Longrightarrow> length sig = 132"
  by (auto simp: verifySignature_def verifyIntent_def is_contract_user_def split: if_splits)

lemma hex_string_of_length: "hex_string_any s \<Longrightarrow> length s = n + 2 \<Longrightarrow> hex_string n s"
  by (simp add: hex_string_any_def hex_string_def)

text \<open>What a server that runs without a chain client has stored.\<close>

lemma stored_record:
  assumes "new_server opts = Inr (sv0, warned)" and "so_client opts = None"
    and "so_chainId opts = Some (num_of_int chain)"
    and "server_reach v sv0 es sv" and "store_get (sv_store sv) h = Some r"
  shows "hash r = h" and "wire_intent (isAddress v) (intent_of r)" and "hex_string 130 (signature r)"
    and "mr_status r \<in> set mempool_statuses"
    and "hashIntent (hashTypedData v) (intent_of r) (perihelionDomain chain (so_verifyingContract opts)) = Inr h"
    and "default_verifier v (intent_of r) (signature r)
      (perihelionDomain chain (so_verifyingContract opts)) w = (Inr True, w)"
proof -
  have ok: "server_ok v sv" "same_identity sv0 sv"
    using server_reach_ok [OF assms(4) new_server_ok [OF assms(1)]] by simp_all
  then have vouch: "vouched v sv r" and h: "hash r = h"
    using assms(5) by (auto simp: server_ok_def store_ok_def)
  have "sv_domain sv0 = perihelionDomain chain (so_verifyingContract opts)" "sv_client sv0 = None"
    using assms(1-3) by (auto simp: new_server_def Let_def split: if_splits)
  with ok(2) have dmn: "sv_domain sv = perihelionDomain chain (so_verifyingContract opts)" "sv_client sv = None"
    by (simp_all add: same_identity_def)
  show "hash r = h" by (rule h)
  show "wire_intent (isAddress v) (intent_of r)" "mr_status r \<in> set mempool_statuses"
    using vouch by (simp_all add: vouched_def)
  show "hashIntent (hashTypedData v) (intent_of r) (perihelionDomain chain (so_verifyingContract opts)) = Inr h"
    using vouch dmn(1) h by (simp add: vouched_def)
  show "hex_string 130 (signature r)"
    using vouch verified_signature_length [OF dmn(2), of v "intent_of r" "signature r"]
    by (intro hex_string_of_length) (simp_all add: vouched_def)
  show "default_verifier v (intent_of r) (signature r)
      (perihelionDomain chain (so_verifyingContract opts)) w = (Inr True, w)"
    using vouch dmn by (auto simp: vouched_def verifySignature_def default_verifier_def split: sum.splits)
qed

lemma mempool_record_json_parses:
  assumes "wire_signed isAddr (intent_of r) (signature r) (hash r)"
    and "0 \<le> mr_createdAt r" and "mr_createdAt r < 100000000000"
  shows "parseIntentRecord isAddr (mempool_record_json r) =
    (if mr_status r \<in> set MEMPOOL_STATUSES then Inr (client_record r) else Inl (MempoolResponseError ''status''))"
proof -
  obtain obj where obj: "mempool_record_json r = JObj obj" by (simp add: mempool_record_json_def)
  then have gets: "obj_get obj ''intent'' = intent_json (intent_of r)"
    "obj_get obj ''signature'' = JStr (signature r)" "obj_get obj ''hash'' = JStr (hash r)"
    "obj_get obj ''status'' = JStr (status_name (mr_status r))" "obj_get obj ''solver'' = JUndef"
    "obj_get obj ''settlementTx'' = JUndef" "obj_get obj ''createdAt'' = JNum (num_of_int (mr_createdAt r))"
    by (auto simp: mempool_record_json_def obj_get_Cons)
  show ?thesis
    using parseSignedIntent_members [OF assms(1) gets(1-3)] assms(2,3) gets(4-7)
    unfolding obj parseIntentRecord_def
    by (simp add: asObject_def status_field_name optional_field_def asTimestampInSeconds_int client_record_def)
qed

lemma get_stored_record:
  assumes "hex_string_lower 64 (to_lower h)" and "store_get (sv_store sv) (to_lower h) = Some r"
  shows "handleGetIntent (JStr h) sv = json_response 200 (mempool_record_json r)"
  using assms by (simp add: handleGetIntent_def parseHashParam_def)

text \<open>What \<open>consider_record\<close> adds to the log after the two checks of the record.\<close>

lemma skip_intent_log:
  "skip_intent env h d dl s w = (res, s', w') \<Longrightarrow>
     res \<noteq> Inr True \<and> (HashMismatch k \<in> set (events s') \<longrightarrow> HashMismatch k \<in> set (events s))
     \<and> (InvalidSignature k \<in> set (events s') \<longrightarrow> InvalidSignature k \<in> set (events s))"
  by (auto simp: skip_intent_def Let_def emit_def retire_def split: if_splits option.splits)

lemma attempt_fill_log:
  "attempt_fill env r amount dl s w = (res, s', w') \<Longrightarrow>
     res \<noteq> Inr True \<and> (HashMismatch k \<in> set (events s') \<longrightarrow> HashMismatch k \<in> set (events s))
     \<and> (InvalidSignature k \<in> set (events s') \<longrightarrow> InvalidSignature k \<in> set (events s))"
  by (auto simp: attempt_fill_def Let_def emit_def retire_def reportFilled_def scheduleRetry_def
      settle_reservation_def split: if_splits option.splits prod.splits sum.splits failure.splits)

lemma default_verifier_state: "snd (default_verifier v i sig dmn w) = w"
  by (auto simp: default_verifier_def split: sum.splits)

lemma fresh_verification: "vc_get t k (verificationCache (new_solver cfg)) = (None, verificationCache (new_solver cfg))"
  by (simp add: new_solver_def new_verification_cache_def vc_get_def vc_lookup_def)

lemma checked_record_log:
  assumes "hashIntent (ev_hashTypedData env) (intent_of r)
      (perihelionDomain (sc_sourceChainId (ev_config env)) (escrowAddress (ev_config env))) = Inr (hash r)"
    and "ev_verifier env (intent_of r) (signature r)
      (perihelionDomain (sc_sourceChainId (ev_config env)) (escrowAddress (ev_config env))) w = (Inr True, w)"
    and "consider_record env r (new_solver (ev_config env)) w = (res, s, w')"
  shows "res \<noteq> Inr True \<and> HashMismatch k \<notin> set (events s) \<and> InvalidSignature k \<notin> set (events s)"
proof -
  let ?s = "new_solver (ev_config env)"
  have idle: "events ?s = []" by (simp add: new_solver_def)
  obtain s1 where c: "cached_verify env r ?s w = (Inr True, s1, w)" and e: "events s1 = []"
    using assms(2) by (auto simp: cached_verify_def Let_def fresh_verification idle)
  let ?dl = "seenTtlMs (ev_clock env w) (deadline (intent_of r))"
  let ?out = "evaluate (ev_viem env) (intent_of r) (ev_config env) (ev_deps env w) (Some (inFlight s1))
      (ev_clock env w div 1000)"
  show ?thesis
  proof (cases ?out)
    case (Inl f)
    then show ?thesis using assms(1,3) e by (auto simp: consider_record_def Let_def c)
  next
    case (Inr d)
    then have "(\<exists>f. res = Inl f \<and> events s = []) \<or> skip_intent env (hash r) d ?dl s1 w = (res, s, w')
        \<or> (\<exists>amount. attempt_fill env r amount ?dl s1 w = (res, s, w'))"
      using assms(1,3) e by (auto simp: consider_record_def Let_def c split: if_splits sum.splits)
    then show ?thesis using skip_intent_log attempt_fill_log e by (metis empty_iff list.set(1) Inl_Inr_False)
  qed
qed

section \<open>Property\<close>



end
